(* ===== verification/Kolega_Prelude.thy ===== *)
theory Kolega_Prelude
  imports Main "HOL-Library.Code_Target_Nat"
begin

text \<open>
  Shared vocabulary of the development: Python text as lists of code points, JSON-like
  dynamic values, the string operations of the Python standard library that the modelled
  modules call, and the list lemmas that the component theories share.

  A Python \<open>str\<close> is a list of code points (\<open>nat list\<close>), because several modules depend on
  code points beyond one byte (UTF-16 offsets, typographic quotes, UTF-8 sizes). An ASCII
  literal of the source is written \<open>lit ''abc''\<close>. The string operations are polymorphic where
  they do not depend on the characters, so that they also serve for \<open>bytes\<close>.
\<close>

section \<open>Collections of rewrite rules\<close>

named_theorems py_simps \<open>evaluation rules of the Python string operations\<close>
named_theorems result_splits \<open>case splits on results of fallible operations\<close>

declare sum.splits [result_splits]
declare option.splits [result_splits]

section \<open>Text and dynamic values\<close>

type_synonym pystr = "nat list"

definition lit :: "string \<Rightarrow> pystr" where
  "lit s = map of_char s"

datatype json =
    JNull
  | JBool bool
  | JInt int
  | JFloat int nat \<comment> \<open>a binary fraction: numerator and the exponent of the denominator\<close>
  | JStr pystr
  | JList "json list"
  | JObj "(pystr \<times> json) list" \<comment> \<open>a dict in insertion order\<close>

definition opt_int :: "int option \<Rightarrow> json" where
  "opt_int v = (case v of None \<Rightarrow> JNull | Some i \<Rightarrow> JInt i)"

definition opt_str :: "pystr option \<Rightarrow> json" where
  "opt_str v = (case v of None \<Rightarrow> JNull | Some s \<Rightarrow> JStr s)"

text \<open>\<open>d.get(k)\<close> on a dict in insertion order; \<open>None\<close> stands for an absent key.\<close>

definition dict_get :: "('k \<times> 'v) list \<Rightarrow> 'k \<Rightarrow> 'v option" where
  "dict_get d k = map_of d k"

text \<open>\<open>d.get(k)\<close> where Python's \<open>None\<close> is the result for an absent key.\<close>

definition json_get :: "(pystr \<times> json) list \<Rightarrow> pystr \<Rightarrow> json" where
  "json_get d k = (case map_of d k of None \<Rightarrow> JNull | Some v \<Rightarrow> v)"

text \<open>\<open>d[k] = v\<close>: an existing key keeps its place, a new one is appended.\<close>

fun dict_set :: "'k \<Rightarrow> 'v \<Rightarrow> ('k \<times> 'v) list \<Rightarrow> ('k \<times> 'v) list" where
  "dict_set k v [] = [(k, v)]"
| "dict_set k v ((k', v') # d) = (if k' = k then (k, v) # d else (k', v') # dict_set k v d)"

text \<open>\<open>d.pop(k, None)\<close>.\<close>

definition dict_remove :: "'k \<Rightarrow> ('k \<times> 'v) list \<Rightarrow> ('k \<times> 'v) list" where
  "dict_remove k d = filter (\<lambda>(k', _). k' \<noteq> k) d"

text \<open>Python truthiness of a dynamic value.\<close>

fun truthy :: "json \<Rightarrow> bool" where
  "truthy JNull = False"
| "truthy (JBool b) = b"
| "truthy (JInt i) = (i \<noteq> 0)"
| "truthy (JFloat m e) = (m \<noteq> 0)"
| "truthy (JStr s) = (s \<noteq> [])"
| "truthy (JList xs) = (xs \<noteq> [])"
| "truthy (JObj d) = (d \<noteq> [])"

text \<open>\<open>v == n\<close> for an integer \<open>n\<close>: Python compares booleans and floats by value.\<close>

fun json_eq_int :: "json \<Rightarrow> int \<Rightarrow> bool" where
  "json_eq_int (JInt i) n = (i = n)"
| "json_eq_int (JBool b) n = (n = (if b then 1 else 0))"
| "json_eq_int (JFloat m e) n = (m = n * 2 ^ e)"
| "json_eq_int _ n = False"

section \<open>Operations on Python strings and byte strings\<close>

definition startswith :: "'a list \<Rightarrow> 'a list \<Rightarrow> bool" where
  "startswith s p = (take (length p) s = p)"

definition endswith :: "'a list \<Rightarrow> 'a list \<Rightarrow> bool" where
  "endswith s p = (length p \<le> length s \<and> drop (length s - length p) s = p)"

definition lstrip_by :: "('a \<Rightarrow> bool) \<Rightarrow> 'a list \<Rightarrow> 'a list" where
  "lstrip_by P s = dropWhile P s"

definition rstrip_by :: "('a \<Rightarrow> bool) \<Rightarrow> 'a list \<Rightarrow> 'a list" where
  "rstrip_by P s = rev (dropWhile P (rev s))"

definition strip_by :: "('a \<Rightarrow> bool) \<Rightarrow> 'a list \<Rightarrow> 'a list" where
  "strip_by P s = rstrip_by P (lstrip_by P s)"

text \<open>The code points for which \<open>str.isspace\<close> holds; \<open>\s\<close> of a text regular expression is the same set.\<close>

definition is_space :: "nat \<Rightarrow> bool" where
  "is_space c = ((9 \<le> c \<and> c \<le> 13) \<or> (28 \<le> c \<and> c \<le> 32) \<or> c = 133 \<or> c = 160 \<or> c = 5760 \<or>
     (8192 \<le> c \<and> c \<le> 8202) \<or> c = 8232 \<or> c = 8233 \<or> c = 8239 \<or> c = 8287 \<or> c = 12288)"

abbreviation strip :: "pystr \<Rightarrow> pystr" where
  "strip \<equiv> strip_by is_space"

abbreviation rstrip :: "pystr \<Rightarrow> pystr" where
  "rstrip \<equiv> rstrip_by is_space"

text \<open>The line boundaries of \<open>str.splitlines\<close>, besides the pair CR LF.\<close>

definition is_linebreak :: "nat \<Rightarrow> bool" where
  "is_linebreak c = ((10 \<le> c \<and> c \<le> 13) \<or> (28 \<le> c \<and> c \<le> 30) \<or> c = 133 \<or> c = 8232 \<or> c = 8233)"

text \<open>\<open>s.splitlines(keepends=True)\<close>.\<close>

fun splitlines_keep :: "pystr \<Rightarrow> pystr list" where
  "splitlines_keep [] = []"
| "splitlines_keep (c # cs) =
     (if c = 13 \<and> cs \<noteq> [] \<and> hd cs = 10 then [13, 10] # splitlines_keep (tl cs)
      else if is_linebreak c then [c] # splitlines_keep cs
      else (case splitlines_keep cs of [] \<Rightarrow> [[c]] | l # ls \<Rightarrow> (c # l) # ls))"

text \<open>A line without its boundary, and \<open>s.splitlines()\<close>.\<close>

definition drop_linebreak :: "pystr \<Rightarrow> pystr" where
  "drop_linebreak l =
     (if endswith l [13, 10] then take (length l - 2) l
      else if l \<noteq> [] \<and> is_linebreak (last l) then butlast l else l)"

definition splitlines :: "pystr \<Rightarrow> pystr list" where
  "splitlines s = map drop_linebreak (splitlines_keep s)"

text \<open>\<open>s.split(c)\<close> for a separator of one character: one part more than there are separators.\<close>

fun split_on :: "'a \<Rightarrow> 'a list \<Rightarrow> 'a list list" where
  "split_on c [] = [[]]"
| "split_on c (x # xs) =
     (if x = c then [] # split_on c xs
      else (case split_on c xs of [] \<Rightarrow> [[x]] | p # ps \<Rightarrow> (x # p) # ps))"

text \<open>\<open>c.join(parts)\<close> for a separator of one character, and for any separator.\<close>

fun join_on :: "'a \<Rightarrow> 'a list list \<Rightarrow> 'a list" where
  "join_on c [] = []"
| "join_on c [p] = p"
| "join_on c (p # q # ps) = p @ c # join_on c (q # ps)"

definition join_text :: "'a list \<Rightarrow> 'a list list \<Rightarrow> 'a list" where
  "join_text sep ps = (case ps of [] \<Rightarrow> [] | p # ps \<Rightarrow> p @ concat (map (\<lambda>q. sep @ q) ps))"

text \<open>\<open>s.split()\<close>: runs of white space separate, empty parts are dropped.\<close>

definition split_ws :: "pystr \<Rightarrow> pystr list" where
  "split_ws s = filter (\<lambda>p. p \<noteq> []) (split_on 32 (map (\<lambda>c. if is_space c then 32 else c) s))"

text \<open>\<open>s.replace(old, new)\<close> and \<open>s.count(old)\<close> for a non-empty \<open>old\<close>, without overlaps from the left.\<close>

function replace_all :: "'a list \<Rightarrow> 'a list \<Rightarrow> 'a list \<Rightarrow> 'a list" where
  "replace_all old new [] = []"
| "replace_all old new (c # cs) =
     (if startswith (c # cs) old then new @ replace_all old new (drop (length old - 1) cs)
      else c # replace_all old new cs)"
  by pat_completeness auto
termination
  by (relation "measure (\<lambda>(old, new, s). length s)") auto

function count_sub :: "'a list \<Rightarrow> 'a list \<Rightarrow> nat" where
  "count_sub old [] = 0"
| "count_sub old (c # cs) =
     (if startswith (c # cs) old then Suc (count_sub old (drop (length old - 1) cs))
      else count_sub old cs)"
  by pat_completeness auto
termination
  by (relation "measure (\<lambda>(old, s). length s)") auto

text \<open>\<open>str(n)\<close> for a natural number, in decimal.\<close>

fun show_nat :: "nat \<Rightarrow> pystr" where
  "show_nat n = (if n < 10 then [48 + n] else show_nat (n div 10) @ [48 + n mod 10])"

declare show_nat.simps [simp del]

definition show_int :: "int \<Rightarrow> pystr" where
  "show_int i = (if i < 0 then 45 # show_nat (nat (- i)) else show_nat (nat i))"

text \<open>\<open>str(v)\<close>; the text of floats and containers is a parameter.\<close>

fun py_str :: "(json \<Rightarrow> pystr) \<Rightarrow> json \<Rightarrow> pystr" where
  "py_str repr (JStr s) = s"
| "py_str repr JNull = lit ''None''"
| "py_str repr (JBool b) = (if b then lit ''True'' else lit ''False'')"
| "py_str repr (JInt i) = show_int i"
| "py_str repr v = repr v"

text \<open>\<open>str(v or "")\<close>.\<close>

definition str_or_empty :: "(json \<Rightarrow> pystr) \<Rightarrow> json \<Rightarrow> pystr" where
  "str_or_empty repr v = (if truthy v then py_str repr v else [])"

text \<open>\<open>s.split(sep, 1)\<close> where the separator occurs.\<close>

fun split_first :: "'a list \<Rightarrow> 'a list \<Rightarrow> ('a list \<times> 'a list) option" where
  "split_first sep [] = (if sep = [] then Some ([], []) else None)"
| "split_first sep (c # cs) =
     (if startswith (c # cs) sep then Some ([], drop (length sep) (c # cs))
      else map_option (\<lambda>(l, r). (c # l, r)) (split_first sep cs))"

text \<open>The value of a digit string, most significant digit first.\<close>

definition digits_value :: "nat list \<Rightarrow> nat" where
  "digits_value ds = foldl (\<lambda>n d. 10 * n + d) 0 ds"

text \<open>What the Unicode table of decimal digits says of ASCII.\<close>

definition ascii_digits :: "(nat \<Rightarrow> nat option) \<Rightarrow> bool" where
  "ascii_digits dec = (\<forall>c<128. dec c = (if 48 \<le> c \<and> c \<le> 57 then Some (c - 48) else None))"

text \<open>The digits of ASCII alone, an instance for concrete runs.\<close>

definition ascii_dec :: "nat \<Rightarrow> nat option" where
  "ascii_dec c = (if 48 \<le> c \<and> c \<le> 57 then Some (c - 48) else None)"

text \<open>\<open>c.encode("utf-8")\<close> of one scalar code point.\<close>

definition utf8_char :: "nat \<Rightarrow> nat list" where
  "utf8_char c =
     (if c < 128 then [c]
      else if c < 2048 then [192 + c div 64, 128 + c mod 64]
      else if c < 65536 then [224 + c div 4096, 128 + c div 64 mod 64, 128 + c mod 64]
      else [240 + c div 262144, 128 + c div 4096 mod 64, 128 + c div 64 mod 64, 128 + c mod 64])"

definition utf8 :: "pystr \<Rightarrow> nat list" where
  "utf8 s = concat (map utf8_char s)"

text \<open>
  \<open>b.decode("utf-8", errors="ignore")\<close>: a scalar value is read when its encoding stands at the front,
  otherwise one byte is dropped. (A decoder that drops a whole ill-formed subsequence at once gives
  the same text, because the continuation bytes of such a subsequence start no character.)
\<close>

definition is_scalar :: "nat \<Rightarrow> bool" where
  "is_scalar c = (c < 55296 \<or> (57344 \<le> c \<and> c < 1114112))"

definition utf8_value :: "nat list \<Rightarrow> nat" where
  "utf8_value bs =
     (case bs of
        [a] \<Rightarrow> a
      | [a, b] \<Rightarrow> (a - 192) * 64 + (b - 128)
      | [a, b, c] \<Rightarrow> (a - 224) * 4096 + (b - 128) * 64 + (c - 128)
      | [a, b, c, d] \<Rightarrow> (a - 240) * 262144 + (b - 128) * 4096 + (c - 128) * 64 + (d - 128)
      | _ \<Rightarrow> 0)"

definition utf8_front :: "nat list \<Rightarrow> nat option" where
  "utf8_front bs =
     find (\<lambda>n. n \<le> length bs \<and> is_scalar (utf8_value (take n bs)) \<and> utf8_char (utf8_value (take n bs)) = take n bs)
       [1, 2, 3, 4]"

fun utf8_decode_ignore :: "nat list \<Rightarrow> pystr" where
  "utf8_decode_ignore [] = []"
| "utf8_decode_ignore (b # bs) =
     (case utf8_front (b # bs) of
        None \<Rightarrow> utf8_decode_ignore bs
      | Some n \<Rightarrow> utf8_value (take n (b # bs)) # utf8_decode_ignore (drop (n - 1) bs))"

text \<open>\<open>bytes.strip\<close> removes ASCII white space, and nothing else is left.\<close>

definition blank_bytes :: "nat list \<Rightarrow> bool" where
  "blank_bytes l = list_all (\<lambda>c. c = 32 \<or> (9 \<le> c \<and> c \<le> 13)) l"

text \<open>\<open>s.encode("utf-8")\<close> fails on surrogates, \<open>b.decode()\<close> on bytes that encode no text.\<close>

definition utf8_encode :: "pystr \<Rightarrow> nat list option" where
  "utf8_encode s = (if list_all is_scalar s then Some (utf8 s) else None)"

definition utf8_decode :: "nat list \<Rightarrow> pystr option" where
  "utf8_decode b = (let s = utf8_decode_ignore b in if utf8 s = b then Some s else None)"

text \<open>\<open>f"{n:,}"\<close>.\<close>

fun show_commas :: "nat \<Rightarrow> pystr" where
  "show_commas n =
     (if n < 1000 then show_nat n
      else show_commas (n div 1000) @ [44, 48 + n mod 1000 div 100, 48 + n mod 100 div 10, 48 + n mod 10])"

declare show_commas.simps [simp del]

text \<open>\<open>int(v)\<close>; the reading of text is a parameter, other values have none.\<close>

fun py_int :: "(pystr \<Rightarrow> int option) \<Rightarrow> json \<Rightarrow> int option" where
  "py_int parse (JInt i) = Some i"
| "py_int parse (JBool b) = Some (if b then 1 else 0)"
| "py_int parse (JFloat m e) = Some (if m < 0 then - ((- m) div 2 ^ e) else m div 2 ^ e)"
| "py_int parse (JStr s) = parse s"
| "py_int parse v = None"

text \<open>\<open>list(dict.fromkeys(xs))\<close>: the first occurrence of every element, in order.\<close>

fun dedup_from :: "'a list \<Rightarrow> 'a list \<Rightarrow> 'a list" where
  "dedup_from seen [] = []"
| "dedup_from seen (x # xs) =
     (if x \<in> set seen then dedup_from seen xs else x # dedup_from (x # seen) xs)"

abbreviation dedup :: "'a list \<Rightarrow> 'a list" where
  "dedup \<equiv> dedup_from []"

text \<open>The first element for every key, in order.\<close>

fun dedup_by :: "('a \<Rightarrow> 'k) \<Rightarrow> 'k list \<Rightarrow> 'a list \<Rightarrow> 'a list" where
  "dedup_by f seen [] = []"
| "dedup_by f seen (x # xs) =
     (if f x \<in> set seen then dedup_by f seen xs else x # dedup_by f (f x # seen) xs)"

section \<open>Fallible operations\<close>

text \<open>Sequencing of operations that may raise: the first error ends the computation.\<close>

definition rbind :: "'e + 'a \<Rightarrow> ('a \<Rightarrow> 'e + 'b) \<Rightarrow> 'e + 'b" where
  "rbind m f = (case m of Inl e \<Rightarrow> Inl e | Inr a \<Rightarrow> f a)"

text \<open>Fallible operations on a state, which an error does not undo.\<close>

type_synonym ('s, 'e, 'a) op = "'s \<Rightarrow> ('e + 'a) \<times> 's"

definition oret :: "'a \<Rightarrow> ('s, 'e, 'a) op" where
  "oret a s = (Inr a, s)"

definition ofail :: "'e \<Rightarrow> ('s, 'e, 'a) op" where
  "ofail e s = (Inl e, s)"

definition obind :: "('s, 'e, 'a) op \<Rightarrow> ('a \<Rightarrow> ('s, 'e, 'b) op) \<Rightarrow> ('s, 'e, 'b) op" where
  "obind m f s = (case m s of (Inl e, s') \<Rightarrow> (Inl e, s') | (Inr a, s') \<Rightarrow> f a s')"

lemma obind_cong [fundef_cong]: "m = m' \<Longrightarrow> (\<And>a. f a = g a) \<Longrightarrow> obind m f = obind m' g"
  by (simp add: obind_def fun_eq_iff split: prod.split sum.split)

fun traverse :: "('a \<Rightarrow> 'e + 'b) \<Rightarrow> 'a list \<Rightarrow> 'e + 'b list" where
  "traverse f [] = Inr []"
| "traverse f (x # xs) = rbind (f x) (\<lambda>y. rbind (traverse f xs) (\<lambda>ys. Inr (y # ys)))"

section \<open>Splices\<close>

text \<open>
  Slice assignment \<open>xs[a:b] = new\<close> with Python's clamping of the bounds, and the reference
  meaning of a list of edits against one snapshot: every edit names a range of the original
  list, the ranges are ascending and disjoint, and the result is the original with each range
  replaced.
\<close>

type_synonym 'a splice = "nat \<times> nat \<times> 'a list"

definition slice_assign :: "'a splice \<Rightarrow> 'a list \<Rightarrow> 'a list" where
  "slice_assign e xs = (case e of (a, b, new) \<Rightarrow> take a xs @ new @ drop (max a b) xs)"

fun ascending_from :: "nat \<Rightarrow> 'a splice list \<Rightarrow> nat \<Rightarrow> bool" where
  "ascending_from pos [] n = (pos \<le> n)"
| "ascending_from pos ((a, b, new) # es) n = (pos \<le> a \<and> a \<le> b \<and> ascending_from b es n)"

fun splice_snapshot :: "'a list \<Rightarrow> nat \<Rightarrow> 'a splice list \<Rightarrow> 'a list" where
  "splice_snapshot xs pos [] = drop pos xs"
| "splice_snapshot xs pos ((a, b, new) # es) =
     take (a - pos) (drop pos xs) @ new @ splice_snapshot xs b es"

section \<open>Lemmas on text\<close>

lemma lit_Nil [simp]: "lit [] = []"
  by (simp add: lit_def)

lemma lit_Cons: "lit (c # s) = of_char c # lit s"
  by (simp add: lit_def)

lemma lit_append: "lit (s @ t) = lit s @ lit t"
  by (simp add: lit_def)

lemma length_lit [simp]: "length (lit s) = length s"
  by (simp add: lit_def)

lemma lit_eq_iff [simp]: "lit s = lit t \<longleftrightarrow> s = t"
  by (simp add: lit_def inj_map_eq_map inj_on_def)

lemma lit_eq_Nil [simp]: "lit s = [] \<longleftrightarrow> s = []" "[] = lit s \<longleftrightarrow> s = []"
  by (auto simp: lit_def)

lemma map_of_lit_Cons [simp]:
  "map_of ((k, v) # d) k' = (if k' = k then Some v else map_of d k')"
  by auto

lemma json_get_set [simp]: "json_get (dict_set k v d) k' = (if k' = k then v else json_get d k')"
  by (induction d) (auto simp: json_get_def)

lemma map_of_dict_set [simp]: "map_of (dict_set k v d) = (map_of d)(k \<mapsto> v)"
  by (induction d) (auto simp: fun_eq_iff)

lemma dict_set_entries: "set (dict_set k v d) \<subseteq> insert (k, v) (set d)" "fst ` set (dict_set k v d) = insert k (fst ` set d)"
  by (induction k v d rule: dict_set.induct) (auto split: if_splits)

lemma map_of_dict_remove: "map_of (dict_remove k d) k' = (if k' = k then None else map_of d k')"
  by (induction d) (auto simp: dict_remove_def)

lemma startswith_append [simp]: "startswith (p @ s) p"
  by (simp add: startswith_def)

lemma startswith_Nil [simp]: "startswith s []"
  by (simp add: startswith_def)

lemma startswith_Cons [simp]:
  "startswith (x # xs) (y # ys) \<longleftrightarrow> x = y \<and> startswith xs ys"
  "startswith [] (y # ys) \<longleftrightarrow> False"
  by (auto simp: startswith_def)

lemma startswith_iff: "startswith s p \<longleftrightarrow> (\<exists>t. s = p @ t)"
  by (metis append_eq_conv_conj append_take_drop_id startswith_def)

lemma endswith_single: "endswith s [c] \<longleftrightarrow> s \<noteq> [] \<and> last s = c"
  by (cases s rule: rev_cases) (auto simp: endswith_def)

lemma takeWhile_append_all: "list_all P xs \<Longrightarrow> takeWhile P (xs @ ys) = xs @ takeWhile P ys"
  by (induction xs) auto

lemma dropWhile_append_all: "list_all P xs \<Longrightarrow> dropWhile P (xs @ ys) = dropWhile P ys"
  by (induction xs) auto

lemma replace_all_absent: "c \<notin> set s \<Longrightarrow> replace_all (c # cs) new s = s"
  by (induction s) auto

lemma concat_splitlines_keep: "concat (splitlines_keep s) = s"
proof (induction s rule: splitlines_keep.induct)
  case (2 c cs)
  then show ?case
    by (cases cs; cases "splitlines_keep cs") (auto split: list.splits)
qed simp

lemma splitlines_keep_eq_Nil [simp]: "splitlines_keep s = [] \<longleftrightarrow> s = []"
  by (cases s) (auto split: list.splits)

lemma splitlines_keep_line:
  "(\<And>c. c \<in> set p \<Longrightarrow> \<not> is_linebreak c) \<Longrightarrow> splitlines_keep (p @ 10 # s) = (p @ [10]) # splitlines_keep s"
proof (induction p)
  case (Cons c p)
  then have "\<not> is_linebreak c" by simp
  moreover have "is_linebreak 13" by (simp add: is_linebreak_def)
  ultimately show ?case using Cons by auto
qed (simp add: is_linebreak_def)

lemma splitlines_keep_no_break:
  "(\<And>c. c \<in> set p \<Longrightarrow> \<not> is_linebreak c) \<Longrightarrow> splitlines_keep p = (if p = [] then [] else [p])"
proof (induction p)
  case (Cons c p)
  then have "\<not> is_linebreak c" by simp
  moreover have "is_linebreak 13" by (simp add: is_linebreak_def)
  ultimately show ?case using Cons by auto
qed simp

lemma split_on_neq_Nil [simp]: "split_on c s \<noteq> []"
  by (cases s) (auto split: list.splits)

lemma join_on_Cons: "ps \<noteq> [] \<Longrightarrow> join_on c (p # ps) = p @ c # join_on c ps"
  by (cases ps) auto

lemma join_split_on [simp]: "join_on c (split_on c s) = s"
proof (induction s)
  case (Cons x xs)
  show ?case
  proof (cases "split_on c xs")
    case (Cons p ps)
    then show ?thesis
      using Cons.IH by (cases ps) (auto simp: join_on_Cons)
  qed simp
qed simp

lemma startswith_hd_split_on: "x \<noteq> c \<Longrightarrow> startswith (hd (split_on c s)) [x] = startswith s [x]"
  by (cases s) (auto split: list.splits)

lemma split_on_no_sep: "c \<notin> set s \<Longrightarrow> split_on c s = [s]"
  by (induction s) auto

lemma split_on_append: "c \<notin> set s \<Longrightarrow> split_on c (s @ c # t) = s # split_on c t"
  by (induction s) auto

lemma split_join_on:
  "ps \<noteq> [] \<Longrightarrow> (\<And>p. p \<in> set ps \<Longrightarrow> c \<notin> set p) \<Longrightarrow> split_on c (join_on c ps) = ps"
proof (induction ps)
  case (Cons p ps)
  then show ?case
    by (cases ps) (auto simp: split_on_no_sep split_on_append join_on_Cons)
qed simp

lemma split_on_parts: "p \<in> set (split_on c s) \<Longrightarrow> c \<notin> set p"
proof (induction s arbitrary: p)
  case (Cons x xs)
  then show ?case
    by (cases "split_on c xs") (fastforce split: if_splits)+
qed simp

lemma in_set_join_on: "l \<in> set ls \<Longrightarrow> c \<in> set l \<Longrightarrow> c \<in> set (join_on s ls)"
proof (induction ls)
  case (Cons l' ls)
  then show ?case by (cases ls) (auto simp: join_on_Cons)
qed simp

lemma join_on_append:
  assumes "qs \<noteq> []"
  shows "ps \<noteq> [] \<Longrightarrow> join_on c (ps @ qs) = join_on c ps @ c # join_on c qs"
proof (induction ps)
  case (Cons p ps)
  show ?case
  proof (cases "ps = []")
    case True
    then show ?thesis using assms by (simp add: join_on_Cons)
  next
    case False
    then show ?thesis using Cons.IH by (simp add: join_on_Cons)
  qed
qed simp

lemma show_nat_digits: "set (show_nat n) \<subseteq> {48..57}"
proof (induction n rule: show_nat.induct)
  case (1 n)
  then show ?case by (subst show_nat.simps) auto
qed

lemma show_nat_neq_Nil [simp]: "show_nat n \<noteq> []"
  by (subst show_nat.simps) simp

lemma show_nat_Cons: "\<exists>c cs. show_nat n = c # cs \<and> 48 \<le> c \<and> c \<le> 57"
  using show_nat_digits [of n] by (cases "show_nat n") auto

lemma digits_value_snoc [simp]: "digits_value (ds @ [d]) = 10 * digits_value ds + d"
  by (simp add: digits_value_def)

lemma digits_value_show_nat: "digits_value (map (\<lambda>c. c - 48) (show_nat n)) = n"
proof (induction n rule: show_nat.induct)
  case (1 n)
  show ?case
  proof (cases "n < 10")
    case True
    then show ?thesis by (subst show_nat.simps) (simp add: digits_value_def)
  next
    case False
    with 1 have "digits_value (map (\<lambda>c. c - 48) (show_nat (n div 10))) = n div 10" by simp
    with False show ?thesis by (subst show_nat.simps) simp
  qed
qed

lemma dropWhile_idem: "dropWhile P (dropWhile P xs) = dropWhile P xs"
  by (induction xs) auto

lemma strip_strip [simp]: "strip_by P (strip_by P s) = strip_by P s"
proof -
  have l: "dropWhile P (rev (dropWhile P (rev t))) = rev (dropWhile P (rev t))"
    if "dropWhile P t = t" for t
  proof (cases "rev (dropWhile P (rev t)) = []")
    case False
    obtain u where "t = rev (dropWhile P (rev t)) @ u"
      using takeWhile_dropWhile_id [of P "rev t"] by (metis rev_append rev_rev_ident)
    then have "hd (rev (dropWhile P (rev t))) = hd t" using False by (metis hd_append2)
    moreover have "\<not> P (hd t)" using that False
      by (metis dropWhile_eq_Cons_conv dropWhile.simps(1) list.collapse list.sel(1) rev.simps(1))
    ultimately show ?thesis using False by (metis dropWhile.simps(2) list.collapse)
  qed (simp only: dropWhile.simps)
  show ?thesis
    using l [of "dropWhile P s"] by (simp add: strip_by_def lstrip_by_def rstrip_by_def dropWhile_idem)
qed

lemma utf8_append [simp]: "utf8 (s @ t) = utf8 s @ utf8 t"
  by (simp add: utf8_def)

lemma utf8_Nil [simp]: "utf8 [] = []"
  by (simp add: utf8_def)

lemma utf8_char_value: "utf8_value (utf8_char c) = c"
proof -
  define q where "q = c div 64"
  define p where "p = q div 64"
  have "c div 4096 = p" "c div 262144 = p div 64"
    by (simp_all add: p_def q_def div_mult2_eq[symmetric])
  moreover have "q * 64 + c mod 64 = c" "p * 64 + q mod 64 = q" "p div 64 * 64 + p mod 64 = p"
    by (simp_all add: q_def p_def div_mult_mod_eq)
  ultimately have "c div 4096 * 4096 + c div 64 mod 64 * 64 + c mod 64 = c"
    "c div 262144 * 262144 + c div 4096 mod 64 * 4096 + c div 64 mod 64 * 64 + c mod 64 = c"
    by (simp_all only: q_def[symmetric])
  then show ?thesis by (simp add: utf8_char_def utf8_value_def)
qed

lemma utf8_proper_prefix:
  "utf8_char (192 + a) \<noteq> [192 + a]"
  "utf8_char ((32 + a) * 64 + b) \<noteq> [224 + a, 128 + b]"
  "utf8_char ((16 + a) * 4096 + b * 64 + c) \<noteq> [240 + a, 128 + b, 128 + c]"
  by (simp_all add: utf8_char_def)

lemma utf8_front_bytes:
  assumes "is_scalar u" "utf8_value bs = u" "utf8_char u = bs"
  shows "bs = [a] \<Longrightarrow> utf8_front (bs @ r) = Some 1"
    "bs = [192 + a, b] \<Longrightarrow> utf8_front (bs @ r) = Some 2"
    "bs = [224 + a, 128 + b, c] \<Longrightarrow> utf8_front (bs @ r) = Some 3"
    "bs = [240 + a, 128 + b, 128 + c, d] \<Longrightarrow> utf8_front (bs @ r) = Some 4"
  using assms utf8_proper_prefix(1)[of a] utf8_proper_prefix(1)[of "32 + a"] utf8_proper_prefix(1)[of "48 + a"]
    utf8_proper_prefix(2)[of a b] utf8_proper_prefix(2)[of "16 + a" b] utf8_proper_prefix(3)[of a b c]
  by (auto simp: utf8_front_def utf8_value_def)

lemma utf8_front_char:
  assumes "is_scalar c"
  shows "utf8_front (utf8_char c @ r) = Some (length (utf8_char c))"
proof -
  note front = utf8_front_bytes[OF assms utf8_char_value refl]
  consider "c < 128" | "\<not> c < 128" "c < 2048" | "\<not> c < 2048" "c < 65536" | "\<not> c < 65536" by linarith
  then show ?thesis
  proof cases
    case 1
    then have "utf8_char c = [c]" by (simp add: utf8_char_def)
    from front(1)[OF this] this show ?thesis by simp
  next
    case 2
    then have "utf8_char c = [192 + c div 64, 128 + c mod 64]" by (simp add: utf8_char_def)
    from front(2)[OF this] this show ?thesis by simp
  next
    case 3
    then have "utf8_char c = [224 + c div 4096, 128 + c div 64 mod 64, 128 + c mod 64]" by (simp add: utf8_char_def)
    from front(3)[OF this] this show ?thesis by simp
  next
    case 4
    then have "utf8_char c = [240 + c div 262144, 128 + c div 4096 mod 64, 128 + c div 64 mod 64, 128 + c mod 64]"
      by (simp add: utf8_char_def)
    from front(4)[OF this] this show ?thesis by simp
  qed
qed

lemma utf8_char_pos: "0 < length (utf8_char c)"
  by (simp add: utf8_char_def)

lemma utf8_decode_ignore_utf8: "list_all is_scalar s \<Longrightarrow> utf8_decode_ignore (utf8 s) = s"
proof (induction s)
  case (Cons c s)
  obtain b bs where b: "utf8_char c = b # bs" using utf8_char_pos[of c] by (cases "utf8_char c") auto
  have "utf8_front (b # bs @ utf8 s) = Some (Suc (length bs))" "utf8_value (b # bs) = c"
    using Cons.prems utf8_front_char[of c "utf8 s"] utf8_char_value[of c] b by simp_all
  then show ?case using Cons by (simp add: utf8_def b)
qed (simp add: utf8_def)

section \<open>Lemmas on fallible operations and splices\<close>

lemma rbind_simps [simp]: "rbind (Inr a) f = f a" "rbind (Inl e) f = Inl e"
  by (simp_all add: rbind_def)

lemma rbind_eq_Inr: "rbind m f = Inr b \<longleftrightarrow> (\<exists>a. m = Inr a \<and> f a = Inr b)"
  by (cases m) auto

lemma rbind_eq_Inl: "rbind m f = Inl e \<longleftrightarrow> m = Inl e \<or> (\<exists>a. m = Inr a \<and> f a = Inl e)"
  by (cases m) auto

lemma op_simps [simp]:
  "oret a s = (Inr a, s)" "ofail e s = (Inl e, s)" "obind (oret a) f = f a" "obind (ofail e) f = ofail e"
  by (simp_all add: oret_def ofail_def obind_def fun_eq_iff)

lemma obind_Inr: "m s = (Inr a, s') \<Longrightarrow> obind m f s = f a s'"
  by (simp add: obind_def)

lemma obind_Inl: "m s = (Inl e, s') \<Longrightarrow> obind m f s = (Inl e, s')"
  by (simp add: obind_def)

lemma obind_InrE:
  assumes "obind m f s = (Inr b, s'')"
  obtains a s' where "m s = (Inr a, s')" "f a s' = (Inr b, s'')"
  using assms by (auto simp: obind_def split: prod.splits sum.splits)

lemma rbindE:
  assumes "rbind m f = Inr b"
  obtains a where "m = Inr a" and "f a = Inr b"
  using assms by (auto simp: rbind_eq_Inr)

lemma traverse_Inr_iff: "traverse f xs = Inr ys \<longleftrightarrow> list_all2 (\<lambda>x y. f x = Inr y) xs ys"
  by (induction xs arbitrary: ys) (auto simp: rbind_eq_Inr list_all2_Cons1)

lemma traverse_map: "(\<And>x. x \<in> set xs \<Longrightarrow> f (g x) = Inr (h x)) \<Longrightarrow> traverse f (map g xs) = Inr (map h xs)"
  by (induction xs) auto

lemma ascending_from_le: "ascending_from pos es n \<Longrightarrow> pos \<le> n"
  by (induction es arbitrary: pos) fastforce+

text \<open>
  Bottom-up application: the splice that ends the list goes first, and none of the earlier
  ones is disturbed by it.
\<close>

lemma foldr_slice_assign:
  "ascending_from pos es (length xs) \<Longrightarrow>
     foldr slice_assign es xs = take pos xs @ splice_snapshot xs pos es"
proof (induction es arbitrary: pos)
  case (Cons e es)
  obtain a b new where e: "e = (a, b, new)" by (cases e)
  from Cons.prems e have le: "pos \<le> a" "a \<le> b" and asc: "ascending_from b es (length xs)"
    by auto
  from asc have b: "b \<le> length xs" by (rule ascending_from_le)
  have IH: "foldr slice_assign es xs = take b xs @ splice_snapshot xs b es"
    using asc by (rule Cons.IH)
  have "foldr slice_assign (e # es) xs = take a (take b xs) @ new @ splice_snapshot xs b es"
    using le b by (simp add: IH e slice_assign_def max_def)
  also have "take a (take b xs) = take pos xs @ take (a - pos) (drop pos xs)"
    using le take_add [of pos "a - pos" xs] by simp
  finally show ?case using e by simp
qed simp

lemma fold_rev_slice_assign:
  "ascending_from 0 es (length xs) \<Longrightarrow> fold slice_assign (rev es) xs = splice_snapshot xs 0 es"
  using foldr_slice_assign [of 0 es xs] by (simp add: foldr_conv_fold)

lemma set_dedup_from: "set (dedup_from seen xs) = set xs - set seen"
  by (induction xs arbitrary: seen) auto

lemma distinct_dedup_from: "distinct (dedup_from seen xs)"
  by (induction xs arbitrary: seen) (auto simp: set_dedup_from)

lemma dedup_from_distinct: "distinct xs \<Longrightarrow> set xs \<inter> set seen = {} \<Longrightarrow> dedup_from seen xs = xs"
  by (induction xs arbitrary: seen) auto

lemma set_dedup_by: "set (dedup_by f seen xs) \<subseteq> set xs"
  by (induction f seen xs rule: dedup_by.induct) auto

lemma dedup_by_keys: "f ` set (dedup_by f seen xs) = f ` set xs - set seen"
  by (induction f seen xs rule: dedup_by.induct) auto

lemma split_first_Some: "split_first sep s = Some (l, r) \<Longrightarrow> s = l @ sep @ r"
proof (induction sep s arbitrary: l rule: split_first.induct)
  case (2 sep c cs)
  show ?case
  proof (cases "startswith (c # cs) sep")
    case True
    then obtain t where t: "c # cs = sep @ t" by (auto simp: startswith_iff)
    have "split_first sep (c # cs) = Some ([], drop (length sep) (c # cs))" using True by simp
    then have "l = []" "r = t" using 2(2) unfolding t by simp_all
    then show ?thesis using t by simp
  next
    case False
    with 2 show ?thesis by auto
  qed
qed (auto split: if_splits)

lemma str_or_empty_JStr [simp]: "str_or_empty repr (JStr s) = s"
  by (simp add: str_or_empty_def)

end
