(* ===== verification/XxHash.thy ===== *)
theory XxHash
  imports Kolega_Prelude "HOL-Library.Word"
begin

text \<open>
  The xxHash32 digest of \<open>kolega_code/agent/tool_backend/hashline_v2.py\<close>. The source computes on
  unbounded Python integers and masks every step with \<open>0xFFFFFFFF\<close>, walking the input with an
  offset. The definitions keep that shape (\<open>int\<close>, explicit masks, one loop per source loop). The
  reference definition works on 32-bit words and on the remaining input, and the equivalence
  theorem relates the two.
\<close>

unbundle bit_operations_syntax

section \<open>The digest as the source computes it\<close>

definition MASK32 :: int where "MASK32 = 0xFFFFFFFF"
definition PRIME32_1 :: int where "PRIME32_1 = 0x9E3779B1"
definition PRIME32_2 :: int where "PRIME32_2 = 0x85EBCA77"
definition PRIME32_3 :: int where "PRIME32_3 = 0xC2B2AE3D"
definition PRIME32_4 :: int where "PRIME32_4 = 0x27D4EB2F"
definition PRIME32_5 :: int where "PRIME32_5 = 0x165667B1"

definition rotl32 :: "int \<Rightarrow> nat \<Rightarrow> int" where
  "rotl32 value count = (push_bit count value OR drop_bit (32 - count) value) AND MASK32"

definition round32 :: "int \<Rightarrow> int \<Rightarrow> int" where
  "round32 acc value =
     (let acc = (acc + value * PRIME32_2) AND MASK32;
          acc = rotl32 acc 13
      in (acc * PRIME32_1) AND MASK32)"

text \<open>\<open>int.from_bytes(data[offset : offset + 4], "little")\<close>\<close>

definition from_bytes_le :: "nat list \<Rightarrow> int" where
  "from_bytes_le bs = foldr (\<lambda>b n. int b + 256 * n) bs 0"

definition word_at :: "nat list \<Rightarrow> nat \<Rightarrow> int" where
  "word_at data offset = from_bytes_le (take 4 (drop offset data))"

type_synonym lanes = "int \<times> int \<times> int \<times> int"

function stripe_loop :: "nat list \<Rightarrow> nat \<Rightarrow> nat \<Rightarrow> lanes \<Rightarrow> nat \<times> lanes" where
  "stripe_loop data limit offset (v1, v2, v3, v4) =
     (if offset \<le> limit then
        stripe_loop data limit (offset + 16)
          (round32 v1 (word_at data offset), round32 v2 (word_at data (offset + 4)),
           round32 v3 (word_at data (offset + 8)), round32 v4 (word_at data (offset + 12)))
      else (offset, v1, v2, v3, v4))"
  by pat_completeness auto
termination
  by (relation "measure (\<lambda>(data, limit, offset, v). Suc limit - offset)") auto

function word_loop :: "nat list \<Rightarrow> nat \<Rightarrow> int \<Rightarrow> nat \<times> int" where
  "word_loop data offset digest =
     (if offset + 4 \<le> length data then
        (let digest = (digest + word_at data offset * PRIME32_3) AND MASK32;
             digest = (rotl32 digest 17 * PRIME32_4) AND MASK32
         in word_loop data (offset + 4) digest)
      else (offset, digest))"
  by pat_completeness auto
termination
  by (relation "measure (\<lambda>(data, offset, digest). length data - offset)") auto

function byte_loop :: "nat list \<Rightarrow> nat \<Rightarrow> int \<Rightarrow> int" where
  "byte_loop data offset digest =
     (if offset < length data then
        (let digest = (digest + int (data ! offset) * PRIME32_5) AND MASK32;
             digest = (rotl32 digest 11 * PRIME32_1) AND MASK32
         in byte_loop data (offset + 1) digest)
      else digest)"
  by pat_completeness auto
termination
  by (relation "measure (\<lambda>(data, offset, digest). length data - offset)") auto

declare stripe_loop.simps [simp del] word_loop.simps [simp del] byte_loop.simps [simp del]

definition avalanche32 :: "int \<Rightarrow> int" where
  "avalanche32 digest =
     (let digest = digest XOR drop_bit 15 digest;
          digest = (digest * PRIME32_2) AND MASK32;
          digest = digest XOR drop_bit 13 digest;
          digest = (digest * PRIME32_3) AND MASK32;
          digest = digest XOR drop_bit 16 digest
      in digest AND MASK32)"

definition xxhash32 :: "nat list \<Rightarrow> int \<Rightarrow> int" where
  "xxhash32 data seed =
     (let (offset, digest) =
        (if length data \<ge> 16 then
           (let (offset, v1, v2, v3, v4) =
              stripe_loop data (length data - 16) 0
                ((seed + PRIME32_1 + PRIME32_2) AND MASK32, (seed + PRIME32_2) AND MASK32,
                 seed AND MASK32, (seed - PRIME32_1) AND MASK32)
            in (offset, (rotl32 v1 1 + rotl32 v2 7 + rotl32 v3 12 + rotl32 v4 18) AND MASK32))
         else (0, (seed + PRIME32_5) AND MASK32));
          (offset, digest) = word_loop data offset ((digest + int (length data)) AND MASK32)
      in avalanche32 (byte_loop data offset digest))"

section \<open>The reference digest on 32-bit words\<close>

type_synonym u32 = "32 word"

definition ref_word :: "nat list \<Rightarrow> u32" where
  "ref_word bs = foldr (\<lambda>b w. of_nat b + 256 * w) bs 0"

definition ref_round :: "u32 \<Rightarrow> u32 \<Rightarrow> u32" where
  "ref_round acc w = word_rotl 13 (acc + w * 0x85EBCA77) * 0x9E3779B1"

text \<open>One stripe of sixteen bytes feeds the four lanes; the rest of the input is returned.\<close>

function ref_stripes :: "u32 \<times> u32 \<times> u32 \<times> u32 \<Rightarrow> nat list \<Rightarrow> (u32 \<times> u32 \<times> u32 \<times> u32) \<times> nat list" where
  "ref_stripes (a, b, c, d) bs =
     (if length bs \<ge> 16 then
        ref_stripes
          (ref_round a (ref_word (take 4 bs)), ref_round b (ref_word (take 4 (drop 4 bs))),
           ref_round c (ref_word (take 4 (drop 8 bs))), ref_round d (ref_word (take 4 (drop 12 bs))))
          (drop 16 bs)
      else ((a, b, c, d), bs))"
  by pat_completeness auto
termination
  by (relation "measure (\<lambda>(v, bs). length bs)") auto

fun ref_tail :: "u32 \<Rightarrow> nat list \<Rightarrow> u32" where
  "ref_tail h (b0 # b1 # b2 # b3 # bs) =
     ref_tail (word_rotl 17 (h + ref_word [b0, b1, b2, b3] * 0xC2B2AE3D) * 0x27D4EB2F) bs"
| "ref_tail h bs = fold (\<lambda>b h. word_rotl 11 (h + of_nat b * 0x165667B1) * 0x9E3779B1) bs h"

definition ref_avalanche :: "u32 \<Rightarrow> u32" where
  "ref_avalanche h =
     (let h = (h XOR drop_bit 15 h) * 0x85EBCA77;
          h = (h XOR drop_bit 13 h) * 0xC2B2AE3D
      in h XOR drop_bit 16 h)"

definition ref_xxh32 :: "u32 \<Rightarrow> nat list \<Rightarrow> u32" where
  "ref_xxh32 seed bs =
     (if length bs \<ge> 16 then
        (case ref_stripes (seed + 0x9E3779B1 + 0x85EBCA77, seed + 0x85EBCA77, seed, seed - 0x9E3779B1) bs of
           ((a, b, c, d), rest) \<Rightarrow>
             ref_avalanche (ref_tail (word_rotl 1 a + word_rotl 7 b + word_rotl 12 c + word_rotl 18 d
                                      + of_nat (length bs)) rest))
      else ref_avalanche (ref_tail (seed + 0x165667B1 + of_nat (length bs)) bs))"

declare ref_stripes.simps [simp del]

section \<open>The masked integers are the words\<close>

lemma and_MASK32: "x AND MASK32 = uint (word_of_int x :: u32)"
proof -
  have "MASK32 = mask 32" by (simp add: MASK32_def mask_eq_exp_minus_1)
  then have "x AND MASK32 = take_bit 32 x" by (simp only: take_bit_eq_mask)
  then show ?thesis by (simp add: unsigned_of_int)
qed

lemma rotl32_uint:
  assumes "0 < n" "n < 32"
  shows "rotl32 (uint w) n = uint (word_rotl n (w :: u32))"
proof -
  have "word_of_int (push_bit n (uint w) OR drop_bit (32 - n) (uint w)) = word_rotl n w"
  proof (rule bit_word_eqI)
    fix m :: nat
    assume "m < LENGTH(32)"
    then have m: "m < 32" by simp
    show "bit (word_of_int (push_bit n (uint w) OR drop_bit (32 - n) (uint w)) :: u32) m
        = bit (word_rotl n w) m"
    proof (cases "n \<le> m")
      case True
      have "(m + 32 - n) mod 32 = (m - n + 32) mod 32" using True by simp
      also have "\<dots> = m - n" using m by simp
      finally have idx: "(m + 32 - n) mod 32 = m - n" .
      have "\<not> bit w (32 + m - n)" using True by (auto dest: bit_imp_le_length)
      with True m assms idx show ?thesis by (simp add: bit_simps bit_word_rotl_iff)
    next
      case False
      have idx: "(m + 32 - n) mod 32 = 32 - n + m" using False m assms by simp
      show ?thesis using False m assms unfolding bit_word_rotl_iff
        by (simp only: bit_simps idx) (auto simp: bit_uint_iff add.commute [of m])
    qed
  qed
  then show ?thesis by (simp add: rotl32_def and_MASK32)
qed

lemmas prime_defs = PRIME32_1_def PRIME32_2_def PRIME32_3_def PRIME32_4_def PRIME32_5_def

lemma round32_uint: "round32 (uint a) v = uint (ref_round a (word_of_int v))"
  by (simp add: round32_def ref_round_def and_MASK32 rotl32_uint prime_defs)

lemma from_bytes_le_word: "word_of_int (from_bytes_le bs) = ref_word bs"
  by (induction bs) (simp_all add: from_bytes_le_def ref_word_def)

lemma word_at_word: "word_of_int (word_at data off) = ref_word (take 4 (drop off data))"
  by (simp add: word_at_def from_bytes_le_word)

lemma xor_shift_uint: "uint h XOR drop_bit n (uint h) = uint (h XOR drop_bit n (h :: u32))"
proof -
  have "take_bit 32 (uint h) = uint h"
    using uint_bounded [of h] by (intro take_bit_int_eq_self) auto
  then show ?thesis by (simp add: unsigned_xor_eq unsigned_drop_bit_eq)
qed

lemma avalanche32_uint: "avalanche32 (uint h) = uint (ref_avalanche h)"
  by (simp add: avalanche32_def ref_avalanche_def and_MASK32 prime_defs xor_shift_uint Let_def)

lemma stripe_loop_ref:
  assumes "16 \<le> length data" "off \<le> length data"
    and "ref_stripes (a, b, c, d) (drop off data) = ((a', b', c', d'), rest)"
  shows "\<exists>off'. stripe_loop data (length data - 16) off (uint a, uint b, uint c, uint d) =
           (off', uint a', uint b', uint c', uint d') \<and> rest = drop off' data \<and> off' \<le> length data"
  using assms
proof (induction "length data - off" arbitrary: off a b c d rule: less_induct)
  case less
  show ?case
  proof (cases "off \<le> length data - 16")
    case True
    then have off: "off + 16 \<le> length data" using less.prems by simp
    then have len: "16 \<le> length data - off" by linarith
    let ?a = "ref_round a (ref_word (take 4 (drop off data)))"
    let ?b = "ref_round b (ref_word (take 4 (drop (off + 4) data)))"
    let ?c = "ref_round c (ref_word (take 4 (drop (off + 8) data)))"
    let ?d = "ref_round d (ref_word (take 4 (drop (off + 12) data)))"
    have "ref_stripes (?a, ?b, ?c, ?d) (drop (off + 16) data) = ((a', b', c', d'), rest)"
      using less.prems(3) len by (subst (asm) ref_stripes.simps) (simp add: add.commute)
    from less.hyps [OF _ less.prems(1) off this] off show ?thesis
      by (subst stripe_loop.simps) (use True in \<open>simp add: round32_uint word_at_word\<close>)
  next
    case False
    then have "length data - off < 16" using less.prems by linarith
    with less.prems False show ?thesis
      by (subst stripe_loop.simps) (auto simp: ref_stripes.simps [of a b c d])
  qed
qed

lemma byte_loop_ref:
  "byte_loop data off (uint h) =
     uint (fold (\<lambda>b h. word_rotl 11 (h + of_nat b * 0x165667B1) * 0x9E3779B1) (drop off data) (h :: u32))"
proof (induction "length data - off" arbitrary: off h)
  case 0
  then show ?case by (subst byte_loop.simps) simp
next
  case (Suc n)
  then have lt: "off < length data" by simp
  let ?h = "word_rotl 11 (h + of_nat (data ! off) * 0x165667B1) * 0x9E3779B1 :: u32"
  have "byte_loop data off (uint h) = byte_loop data (off + 1) (uint ?h)"
    using lt by (subst byte_loop.simps) (simp add: Let_def and_MASK32 rotl32_uint prime_defs)
  also have "\<dots> = uint (fold (\<lambda>b h. word_rotl 11 (h + of_nat b * 0x165667B1) * 0x9E3779B1)
      (drop (off + 1) data) ?h)"
    using Suc by (intro Suc.hyps(1)) simp
  finally show ?case using lt by (simp add: Cons_nth_drop_Suc [symmetric])
qed

lemma ref_tail_short:
  "length bs < 4 \<Longrightarrow>
     ref_tail h bs = fold (\<lambda>b h. word_rotl 11 (h + of_nat b * 0x165667B1) * 0x9E3779B1) bs h"
  by (cases "(h, bs)" rule: ref_tail.cases) auto

lemma ref_tail_long:
  "4 \<le> length bs \<Longrightarrow>
     ref_tail h bs = ref_tail (word_rotl 17 (h + ref_word (take 4 bs) * 0xC2B2AE3D) * 0x27D4EB2F) (drop 4 bs)"
  by (cases "(h, bs)" rule: ref_tail.cases) (auto simp: numeral_eq_Suc)

lemma tail_loops_ref:
  "(case word_loop data off (uint h) of (off', d) \<Rightarrow> byte_loop data off' d) =
     uint (ref_tail h (drop off data))"
proof (induction "length data - off" arbitrary: off h rule: less_induct)
  case less
  show ?case
  proof (cases "off + 4 \<le> length data")
    case True
    let ?h = "word_rotl 17 (h + ref_word (take 4 (drop off data)) * 0xC2B2AE3D) * 0x27D4EB2F"
    have "word_loop data off (uint h) = word_loop data (off + 4) (uint ?h)"
      using True
      by (subst word_loop.simps) (simp add: Let_def and_MASK32 rotl32_uint word_at_word prime_defs)
    moreover have "ref_tail h (drop off data) = ref_tail ?h (drop (off + 4) data)"
      using True by (simp add: ref_tail_long add.commute)
    ultimately show ?thesis using less.hyps [of "off + 4" ?h] True by simp
  next
    case False
    then show ?thesis
      by (subst word_loop.simps) (simp add: byte_loop_ref ref_tail_short)
  qed
qed

lemma xxhash32_ref: "xxhash32 data seed = uint (ref_xxh32 (word_of_int seed) data)"
proof (cases "16 \<le> length data")
  case True
  let ?w = "word_of_int seed :: u32"
  obtain a b c d rest where st:
    "ref_stripes (?w + 0x9E3779B1 + 0x85EBCA77, ?w + 0x85EBCA77, ?w, ?w - 0x9E3779B1) data =
       ((a, b, c, d), rest)"
    by (metis surj_pair)
  let ?h = "word_rotl 1 a + word_rotl 7 b + word_rotl 12 c + word_rotl 18 d + of_nat (length data)"
  obtain off where loop: "stripe_loop data (length data - 16) 0
      (uint (?w + 0x9E3779B1 + 0x85EBCA77), uint (?w + 0x85EBCA77), uint ?w, uint (?w - 0x9E3779B1)) =
       (off, uint a, uint b, uint c, uint d)" and rest: "rest = drop off data"
    using stripe_loop_ref [of data 0, unfolded drop_0, OF True _ st] by auto
  have "xxhash32 data seed =
      (case word_loop data off (uint ?h) of (off', d) \<Rightarrow> avalanche32 (byte_loop data off' d))"
    using True loop by (simp add: xxhash32_def and_MASK32 rotl32_uint prime_defs)
  also have "\<dots> = avalanche32 (uint (ref_tail ?h rest))"
    unfolding rest tail_loops_ref [symmetric] by (simp split: prod.split)
  finally show ?thesis using True st by (simp add: avalanche32_uint ref_xxh32_def)
next
  case False
  let ?h = "word_of_int seed + 0x165667B1 + of_nat (length data) :: u32"
  have "xxhash32 data seed =
      (case word_loop data 0 (uint ?h) of (off', d) \<Rightarrow> avalanche32 (byte_loop data off' d))"
    using False by (simp add: xxhash32_def and_MASK32 prime_defs)
  also have "\<dots> = avalanche32 (uint (ref_tail ?h data))"
    using tail_loops_ref [of data 0 ?h] by (simp split: prod.splits)
  finally show ?thesis using False by (simp add: avalanche32_uint ref_xxh32_def)
qed

lemma xxhash32_vectors:
  "ref_xxh32 0 [] = 0x02CC5D05" "xxhash32 [] 0 = 0x02CC5D05"
  by code_simp+

text \<open>
  C36: the digest computed on unbounded integers with masks is the digest of the 32-bit reference
  algorithm for every input and every seed, and so a number below \<open>2 ^ 32\<close>.
\<close>

theorem xxhash32_is_reference_digest:
  "xxhash32 data seed = uint (ref_xxh32 (word_of_int seed) data) \<and>
   0 \<le> xxhash32 data seed \<and> xxhash32 data seed < 2 ^ 32"
  using uint_lt2p [of "ref_xxh32 (word_of_int seed) data"] by (simp add: xxhash32_ref)

end
