(* ===== verification/Hashline.thy ===== *)
theory Hashline
  imports XxHash "HOL-Library.Product_Lexorder" "HOL-Library.Multiset"
begin

text \<open>
  The Hashline v2 edit protocol of \<open>kolega_code/agent/tool_backend/hashline_v2.py\<close>: line anchors
  \<open>LINE#ID\<close>, parsing of edit objects, validation of every anchor against the current file and
  bottom-up application, and the removal of anchors from historical output.

  The Unicode table of decimal digits (\<open>\d\<close> and \<open>int\<close> accept them all) is the parameter
  \<open>dec :: nat \<Rightarrow> nat option\<close>; \<open>ascii_digits\<close> states what the table says of ASCII.
\<close>

section \<open>Anchors\<close>

definition hash_alphabet :: pystr where
  "hash_alphabet = lit ''ZPMQVRWSNKTXJBYH''"

definition compute_line_hash :: "pystr \<Rightarrow> pystr" where
  "compute_line_hash line =
     (let line = (if endswith line [13] then butlast line else line);
          normalized = filter (\<lambda>c. \<not> is_space c) line;
          v = xxhash32 (utf8 normalized) 0 AND 0xFF
      in [hash_alphabet ! nat (drop_bit 4 v), hash_alphabet ! nat (v AND 0x0F)])"

definition format_line_tag :: "nat \<Rightarrow> pystr \<Rightarrow> pystr" where
  "format_line_tag line_number content =
     (let content = (if line_number = 1 \<and> startswith content [65279] then tl content else content)
      in show_nat line_number @ lit ''#'' @ compute_line_hash content)"

text \<open>Line ends are unified before the text is cut into lines.\<close>

definition unify_newlines :: "pystr \<Rightarrow> pystr" where
  "unify_newlines s = replace_all [13] [10] (replace_all [13, 10] [10] s)"

fun render_hash_lines :: "nat \<Rightarrow> pystr list \<Rightarrow> pystr list" where
  "render_hash_lines n [] = []"
| "render_hash_lines n (line # lines) =
     (let line = (if n = 1 \<and> startswith line [65279] then tl line else line)
      in (format_line_tag n line @ lit '':'' @ line) # render_hash_lines (n + 1) lines)"

definition format_hash_lines :: "pystr \<Rightarrow> nat \<Rightarrow> pystr" where
  "format_hash_lines content start_line =
     join_on 10 (render_hash_lines start_line (split_on 10 (unify_newlines content)))"

record line_tag =
  tag_line :: nat
  tag_hash :: pystr

record hash_mismatch =
  mm_line :: nat
  mm_expected :: pystr
  mm_actual :: pystr

text \<open>Every error of the module, with what its message shows.\<close>

datatype hashline_error =
    TagNotString
  | TagInvalid pystr
  | TagLineBelowOne pystr
  | InsertContentNull
  | ContentNotText
  | MissingFields "pystr list"
  | UnexpectedFields "pystr list"
  | EditsNotArray
  | EditNotObject
  | InsertWithoutAnchor
  | InvalidOperation json
  | LineDoesNotExist nat nat
  | RangeReversed nat nat
  | EmptyContent pystr
  | AnchorsNotAdjacent nat nat
  | StaleAnchors "hash_mismatch list" "pystr list"
  | NoChangesMade
  | AssertionFailed

text \<open>
  \<open>_TAG_RE\<close>: \<open>^\s*[>+\-]*\s*(\d+)\s*#\s*([ZPMQVRWSNKTXJBYH]{2})\<close>. The classes that follow each
  other are disjoint, so the greedy reading is the only one.
\<close>

definition match_tag :: "(nat \<Rightarrow> nat option) \<Rightarrow> pystr \<Rightarrow> (nat list \<times> pystr) option" where
  "match_tag dec s =
     (let s = dropWhile is_space s;
          s = dropWhile (\<lambda>c. c \<in> set (lit ''>+-'')) s;
          s = dropWhile is_space s;
          digits = takeWhile (\<lambda>c. dec c \<noteq> None) s;
          s = dropWhile is_space (dropWhile (\<lambda>c. dec c \<noteq> None) s)
      in if digits = [] \<or> \<not> startswith s (lit ''#'') then None
         else (let h = take 2 (dropWhile is_space (tl s))
               in if length h = 2 \<and> set h \<subseteq> set hash_alphabet
                  then Some (map (\<lambda>c. the (dec c)) digits, h) else None))"

definition parse_tag :: "(nat \<Rightarrow> nat option) \<Rightarrow> json \<Rightarrow> hashline_error + line_tag" where
  "parse_tag dec v =
     (case v of
        JStr s \<Rightarrow>
          (case match_tag dec s of
             None \<Rightarrow> Inl (TagInvalid s)
           | Some (digits, h) \<Rightarrow>
               (let line = digits_value digits
                in if line < 1 then Inl (TagLineBelowOne s) else Inr \<lparr>tag_line = line, tag_hash = h\<rparr>))
      | _ \<Rightarrow> Inl TagNotString)"

section \<open>Parsing edit objects\<close>

text \<open>\<open>_DISPLAY_PREFIX_RE\<close>: \<open>^\s*(?:>>>|>>)?\s*\d+#[0-9A-Za-z]{1,16}:\<close>; the rest after the match.\<close>

definition is_ascii_alnum :: "nat \<Rightarrow> bool" where
  "is_ascii_alnum c = ((48 \<le> c \<and> c \<le> 57) \<or> (65 \<le> c \<and> c \<le> 90) \<or> (97 \<le> c \<and> c \<le> 122))"

definition match_display_prefix :: "(nat \<Rightarrow> nat option) \<Rightarrow> pystr \<Rightarrow> pystr option" where
  "match_display_prefix dec s =
     (let s = dropWhile is_space s;
          s = (if startswith s (lit ''>>>'') then drop 3 s
               else if startswith s (lit ''>>'') then drop 2 s else s);
          s = dropWhile is_space s;
          r = dropWhile (\<lambda>c. dec c \<noteq> None) s
      in if r = s \<or> \<not> startswith r (lit ''#'') then None
         else (let h = takeWhile is_ascii_alnum (tl r);
                   r = dropWhile is_ascii_alnum (tl r)
               in if 1 \<le> length h \<and> length h \<le> 16 \<and> startswith r (lit '':'') then Some (tl r) else None))"

text \<open>\<open>_DIFF_PREFIX_RE\<close>: \<open>^[+-](?![+-])\<close>\<close>

definition match_diff_prefix :: "pystr \<Rightarrow> pystr option" where
  "match_diff_prefix s =
     (case s of
        [] \<Rightarrow> None
      | c # r \<Rightarrow> if c \<in> set (lit ''+-'') \<and> (r = [] \<or> hd r \<notin> set (lit ''+-'')) then Some r else None)"

definition sub_prefix :: "(pystr \<Rightarrow> pystr option) \<Rightarrow> pystr \<Rightarrow> pystr" where
  "sub_prefix m s = (case m s of None \<Rightarrow> s | Some r \<Rightarrow> r)"

definition strip_copied_prefixes :: "(nat \<Rightarrow> nat option) \<Rightarrow> pystr list \<Rightarrow> pystr list" where
  "strip_copied_prefixes dec lines =
     (let nonempty = filter (\<lambda>l. l \<noteq> []) lines
      in if nonempty = [] then lines
         else (let hash_count = length (filter (\<lambda>l. match_display_prefix dec l \<noteq> None) nonempty);
                   diff_count = length (filter (\<lambda>l. match_diff_prefix l \<noteq> None) nonempty);
                   strip_hash = (hash_count > 0 \<and> 2 * hash_count \<ge> length nonempty);
                   strip_diff = (\<not> strip_hash \<and> diff_count > 0 \<and> 2 * diff_count \<ge> length nonempty)
               in if strip_hash then map (sub_prefix (match_display_prefix dec)) lines
                  else if strip_diff then map (sub_prefix match_diff_prefix) lines
                  else lines))"

definition json_text :: "json \<Rightarrow> pystr option" where
  "json_text v = (case v of JStr s \<Rightarrow> Some s | _ \<Rightarrow> None)"

definition parse_content :: "(nat \<Rightarrow> nat option) \<Rightarrow> json \<Rightarrow> bool \<Rightarrow> hashline_error + pystr list" where
  "parse_content dec v allow_null =
     (case v of
        JNull \<Rightarrow> if allow_null then Inr [] else Inl InsertContentNull
      | JStr s \<Rightarrow>
          (let lines = strip_copied_prefixes dec (split_on 10 s)
           in Inr (if lines \<noteq> [] \<and> strip (last lines) = [] then butlast lines else lines))
      | JList vs \<Rightarrow>
          if list_all (\<lambda>v. json_text v \<noteq> None) vs then Inr (map (\<lambda>v. the (json_text v)) vs)
          else Inl ContentNotText
      | _ \<Rightarrow> Inl ContentNotText)"

text \<open>The order in which \<open>sorted\<close> lists the unexpected keys only shapes the message; they are kept in the object's order.\<close>

definition require_keys ::
  "(pystr \<times> json) list \<Rightarrow> pystr list \<Rightarrow> pystr list \<Rightarrow> hashline_error + unit" where
  "require_keys edit required allowed =
     (let missing = filter (\<lambda>k. k \<notin> set (map fst edit)) required;
          unexpected = filter (\<lambda>k. k \<notin> set allowed) (map fst edit)
      in if missing \<noteq> [] then Inl (MissingFields missing)
         else if unexpected \<noteq> [] then Inl (UnexpectedFields unexpected)
         else Inr ())"

record hashline_edit =
  he_op :: pystr
  he_content :: "pystr list"
  he_tag :: "line_tag option"
  he_first :: "line_tag option"
  he_last :: "line_tag option"
  he_after :: "line_tag option"
  he_before :: "line_tag option"

definition blank_edit :: hashline_edit where
  "blank_edit = \<lparr>he_op = [], he_content = [], he_tag = None, he_first = None, he_last = None,
                 he_after = None, he_before = None\<rparr>"

definition optional_tag :: "(nat \<Rightarrow> nat option) \<Rightarrow> json \<Rightarrow> hashline_error + line_tag option" where
  "optional_tag dec v = (if v = JNull then Inr None else rbind (parse_tag dec v) (\<lambda>t. Inr (Some t)))"

definition parse_edit :: "(nat \<Rightarrow> nat option) \<Rightarrow> json \<Rightarrow> hashline_error + hashline_edit" where
  "parse_edit dec v =
     (case v of
        JObj raw \<Rightarrow>
          (let operation = json_get raw (lit ''op'');
               content = json_get raw (lit ''content'')
           in if operation = JStr (lit ''set'') then
                rbind (require_keys raw (map lit [''op'', ''tag'', ''content'']) (map lit [''op'', ''tag'', ''content''])) (\<lambda>_.
                rbind (parse_tag dec (json_get raw (lit ''tag''))) (\<lambda>t.
                rbind (parse_content dec content True) (\<lambda>c.
                Inr (blank_edit\<lparr>he_op := lit ''set'', he_tag := Some t, he_content := c\<rparr>))))
              else if operation = JStr (lit ''replace'') then
                rbind (require_keys raw (map lit [''op'', ''first'', ''last'', ''content'']) (map lit [''op'', ''first'', ''last'', ''content''])) (\<lambda>_.
                rbind (parse_tag dec (json_get raw (lit ''first''))) (\<lambda>f.
                rbind (parse_tag dec (json_get raw (lit ''last''))) (\<lambda>l.
                rbind (parse_content dec content True) (\<lambda>c.
                Inr (blank_edit\<lparr>he_op := lit ''replace'', he_first := Some f, he_last := Some l, he_content := c\<rparr>)))))
              else if operation = JStr (lit ''append'') then
                rbind (require_keys raw (map lit [''op'', ''content'']) (map lit [''op'', ''after'', ''content''])) (\<lambda>_.
                rbind (optional_tag dec (json_get raw (lit ''after''))) (\<lambda>a.
                rbind (parse_content dec content False) (\<lambda>c.
                Inr (blank_edit\<lparr>he_op := lit ''append'', he_after := a, he_content := c\<rparr>))))
              else if operation = JStr (lit ''prepend'') then
                rbind (require_keys raw (map lit [''op'', ''content'']) (map lit [''op'', ''before'', ''content''])) (\<lambda>_.
                rbind (optional_tag dec (json_get raw (lit ''before''))) (\<lambda>b.
                rbind (parse_content dec content False) (\<lambda>c.
                Inr (blank_edit\<lparr>he_op := lit ''prepend'', he_before := b, he_content := c\<rparr>))))
              else if operation = JStr (lit ''insert'') then
                rbind (require_keys raw (map lit [''op'', ''content'']) (map lit [''op'', ''after'', ''before'', ''content''])) (\<lambda>_.
                rbind (optional_tag dec (json_get raw (lit ''after''))) (\<lambda>a.
                rbind (optional_tag dec (json_get raw (lit ''before''))) (\<lambda>b.
                if a = None \<and> b = None then Inl InsertWithoutAnchor
                else rbind (parse_content dec content False) (\<lambda>c.
                  Inr (blank_edit\<lparr>he_op := (if a \<noteq> None \<and> b \<noteq> None then lit ''insert''
                                            else if a \<noteq> None then lit ''append'' else lit ''prepend''),
                                  he_after := a, he_before := b, he_content := c\<rparr>)))))
              else Inl (InvalidOperation operation))
      | _ \<Rightarrow> Inl EditNotObject)"

definition parse_edits :: "(nat \<Rightarrow> nat option) \<Rightarrow> json \<Rightarrow> hashline_error + hashline_edit list" where
  "parse_edits dec v = (case v of JList vs \<Rightarrow> traverse (parse_edit dec) vs | _ \<Rightarrow> Inl EditsNotArray)"

section \<open>Validating anchors\<close>

definition validate_tag ::
  "line_tag \<Rightarrow> pystr list \<Rightarrow> hash_mismatch list \<Rightarrow> hashline_error + hash_mismatch list" where
  "validate_tag t file_lines mismatches =
     (if tag_line t < 1 \<or> tag_line t > length file_lines
      then Inl (LineDoesNotExist (tag_line t) (length file_lines))
      else (let actual = compute_line_hash (file_lines ! (tag_line t - 1))
            in if actual = tag_hash t then Inr mismatches
               else Inr (mismatches @ [\<lparr>mm_line = tag_line t, mm_expected = tag_hash t, mm_actual = actual\<rparr>])))"

definition validate_optional ::
  "line_tag option \<Rightarrow> pystr list \<Rightarrow> hash_mismatch list \<Rightarrow> hashline_error + hash_mismatch list" where
  "validate_optional t file_lines mismatches =
     (case t of None \<Rightarrow> Inr mismatches | Some t \<Rightarrow> validate_tag t file_lines mismatches)"

definition validate_edit ::
  "pystr list \<Rightarrow> hashline_edit \<Rightarrow> hash_mismatch list \<Rightarrow> hashline_error + hash_mismatch list" where
  "validate_edit file_lines e ms =
     (if he_op e = lit ''set'' then
        (case he_tag e of None \<Rightarrow> Inl AssertionFailed | Some t \<Rightarrow> validate_tag t file_lines ms)
      else if he_op e = lit ''replace'' then
        (case (he_first e, he_last e) of
           (Some f, Some l) \<Rightarrow>
             if tag_line f > tag_line l then Inl (RangeReversed (tag_line f) (tag_line l))
             else rbind (validate_tag f file_lines ms) (validate_tag l file_lines)
         | _ \<Rightarrow> Inl AssertionFailed)
      else if he_op e = lit ''append'' then
        (if he_content e = [] then Inl (EmptyContent (he_op e))
         else validate_optional (he_after e) file_lines ms)
      else if he_op e = lit ''prepend'' then
        (if he_content e = [] then Inl (EmptyContent (he_op e))
         else validate_optional (he_before e) file_lines ms)
      else if he_op e = lit ''insert'' then
        (case (he_after e, he_before e) of
           (Some a, Some b) \<Rightarrow>
             if he_content e = [] then Inl (EmptyContent (he_op e))
             else if tag_line b \<noteq> tag_line a + 1 then Inl (AnchorsNotAdjacent (tag_line a) (tag_line b))
             else rbind (validate_tag a file_lines ms) (validate_tag b file_lines)
         | _ \<Rightarrow> Inl AssertionFailed)
      else Inr ms)"

fun validate_edits ::
  "pystr list \<Rightarrow> hashline_edit list \<Rightarrow> hash_mismatch list \<Rightarrow> hashline_error + hash_mismatch list" where
  "validate_edits file_lines [] ms = Inr ms"
| "validate_edits file_lines (e # es) ms =
     rbind (validate_edit file_lines e ms) (validate_edits file_lines es)"

section \<open>Applying edits\<close>

text \<open>The key under which duplicate edits are dropped; the words EOF and BOF of the source are \<open>None\<close>.\<close>

type_synonym edit_key = "pystr \<times> nat option \<times> nat option \<times> pystr list"

definition dedup_key :: "hashline_edit \<Rightarrow> edit_key" where
  "dedup_key e =
     (let line = map_option tag_line
      in if he_op e = lit ''set'' then (he_op e, line (he_tag e), None, he_content e)
         else if he_op e = lit ''replace'' then (he_op e, line (he_first e), line (he_last e), he_content e)
         else if he_op e = lit ''append'' then (he_op e, line (he_after e), None, he_content e)
         else if he_op e = lit ''prepend'' then (he_op e, line (he_before e), None, he_content e)
         else (he_op e, line (he_after e), line (he_before e), he_content e))"

fun dedup_edits :: "edit_key list \<Rightarrow> nat \<Rightarrow> hashline_edit list \<Rightarrow> (nat \<times> hashline_edit) list" where
  "dedup_edits seen i [] = []"
| "dedup_edits seen i (e # es) =
     (if dedup_key e \<in> set seen then dedup_edits seen (i + 1) es
      else (i, e) # dedup_edits (dedup_key e # seen) (i + 1) es)"

definition line_or :: "nat \<Rightarrow> line_tag option \<Rightarrow> int" where
  "line_or d t = int (case t of None \<Rightarrow> d | Some t \<Rightarrow> tag_line t)"

definition edit_sort_key :: "nat \<Rightarrow> nat \<times> hashline_edit \<Rightarrow> int \<times> int \<times> nat" where
  "edit_sort_key n_lines item =
     (case item of (index, e) \<Rightarrow>
        if he_op e = lit ''set'' then (- line_or 0 (he_tag e), 0, index)
        else if he_op e = lit ''replace'' then (- line_or 0 (he_last e), 0, index)
        else if he_op e = lit ''append'' then (- line_or (n_lines + 1) (he_after e), 1, index)
        else if he_op e = lit ''prepend'' then (- line_or 0 (he_before e), 2, index)
        else (- line_or 0 (he_before e), 3, index))"

definition apply_edit :: "hashline_edit \<Rightarrow> pystr list \<Rightarrow> hashline_error + pystr list" where
  "apply_edit e file_lines =
     (let c = he_content e
      in if he_op e = lit ''set'' then
           (case he_tag e of None \<Rightarrow> Inl AssertionFailed
            | Some t \<Rightarrow> Inr (slice_assign (tag_line t - 1, tag_line t, c) file_lines))
         else if he_op e = lit ''replace'' then
           (case (he_first e, he_last e) of
              (Some f, Some l) \<Rightarrow> Inr (slice_assign (tag_line f - 1, tag_line l, c) file_lines)
            | _ \<Rightarrow> Inl AssertionFailed)
         else if he_op e = lit ''append'' then
           (case he_after e of
              Some t \<Rightarrow> Inr (slice_assign (tag_line t, tag_line t, c) file_lines)
            | None \<Rightarrow> if file_lines = [[]] then Inr c else Inr (file_lines @ c))
         else if he_op e = lit ''prepend'' then
           (case he_before e of
              Some t \<Rightarrow> Inr (slice_assign (tag_line t - 1, tag_line t - 1, c) file_lines)
            | None \<Rightarrow> if file_lines = [[]] then Inr c else Inr (c @ file_lines))
         else
           (case he_before e of None \<Rightarrow> Inl AssertionFailed
            | Some t \<Rightarrow> Inr (slice_assign (tag_line t - 1, tag_line t - 1, c) file_lines)))"

fun apply_sorted :: "(nat \<times> hashline_edit) list \<Rightarrow> pystr list \<Rightarrow> hashline_error + pystr list" where
  "apply_sorted [] file_lines = Inr file_lines"
| "apply_sorted ((i, e) # es) file_lines = rbind (apply_edit e file_lines) (apply_sorted es)"

definition apply_hashline_edits :: "pystr \<Rightarrow> hashline_edit list \<Rightarrow> hashline_error + pystr" where
  "apply_hashline_edits content edits =
     (if edits = [] then Inr content
      else (let file_lines = split_on 10 content
            in rbind (validate_edits file_lines edits []) (\<lambda>mismatches.
               if mismatches \<noteq> [] then Inl (StaleAnchors (dedup mismatches) file_lines)
               else rbind (apply_sorted (sort_key (edit_sort_key (length file_lines)) (dedup_edits [] 0 edits)) file_lines)
                 (\<lambda>lines. let result = join_on 10 lines
                          in if result = content then Inl NoChangesMade else Inr result))))"

section \<open>Removing anchors from historical output\<close>

text \<open>\<open>^(\s*)(?:>>>\s+)?(\d+)#[ZPMQVRWSNKTXJBYH]{2}:(.*)$\<close> on a line body.\<close>

definition match_read_line ::
  "(nat \<Rightarrow> nat option) \<Rightarrow> pystr \<Rightarrow> (pystr \<times> pystr \<times> pystr) option" where
  "match_read_line dec body =
     (let indent = takeWhile is_space body;
          s = dropWhile is_space body;
          s = (if startswith s (lit ''>>>'') \<and> dropWhile is_space (drop 3 s) \<noteq> drop 3 s
               then dropWhile is_space (drop 3 s) else s);
          digits = takeWhile (\<lambda>c. dec c \<noteq> None) s;
          r = dropWhile (\<lambda>c. dec c \<noteq> None) s
      in if digits \<noteq> [] \<and> startswith r (lit ''#'') \<and> length (take 2 (tl r)) = 2 \<and>
            set (take 2 (tl r)) \<subseteq> set hash_alphabet \<and> startswith (drop 3 r) (lit '':'')
         then Some (indent, digits, drop 4 r) else None)"

definition strip_read_line :: "(nat \<Rightarrow> nat option) \<Rightarrow> bool \<Rightarrow> pystr \<Rightarrow> pystr" where
  "strip_read_line dec search line =
     (let ending = (if endswith line [10] then [10] else []);
          body = (if endswith line [10] then butlast line else line)
      in case match_read_line dec body of
           None \<Rightarrow> line
         | Some (indent, line_number, content) \<Rightarrow>
             (if search then indent @ lit ''Line '' @ line_number @ lit '': '' @ content
              else indent @ content) @ ending)"

definition strip_hashline_read_output :: "(nat \<Rightarrow> nat option) \<Rightarrow> pystr \<Rightarrow> bool \<Rightarrow> pystr" where
  "strip_hashline_read_output dec text search =
     concat (map (strip_read_line dec search) (splitlines_keep text))"

section \<open>Reference notions\<close>

text \<open>The anchors an edit relies on, per operation.\<close>

definition edit_anchors :: "hashline_edit \<Rightarrow> line_tag list" where
  "edit_anchors e =
     (let of_opt = (\<lambda>t. case t of None \<Rightarrow> [] | Some t \<Rightarrow> [t])
      in if he_op e = lit ''set'' then of_opt (he_tag e)
         else if he_op e = lit ''replace'' then of_opt (he_first e) @ of_opt (he_last e)
         else if he_op e = lit ''append'' then of_opt (he_after e)
         else if he_op e = lit ''prepend'' then of_opt (he_before e)
         else if he_op e = lit ''insert'' then of_opt (he_after e) @ of_opt (he_before e)
         else [])"

definition anchor_fresh :: "pystr list \<Rightarrow> line_tag \<Rightarrow> bool" where
  "anchor_fresh file_lines t =
     (1 \<le> tag_line t \<and> tag_line t \<le> length file_lines \<and>
      compute_line_hash (file_lines ! (tag_line t - 1)) = tag_hash t)"

text \<open>The range of the snapshot an anchored edit names.\<close>

definition edit_splice :: "hashline_edit \<Rightarrow> pystr splice option" where
  "edit_splice e =
     (if he_op e = lit ''set'' then
        map_option (\<lambda>t. (tag_line t - 1, tag_line t, he_content e)) (he_tag e)
      else if he_op e = lit ''replace'' then
        (case (he_first e, he_last e) of
           (Some f, Some l) \<Rightarrow> Some (tag_line f - 1, tag_line l, he_content e) | _ \<Rightarrow> None)
      else if he_op e = lit ''append'' then
        map_option (\<lambda>t. (tag_line t, tag_line t, he_content e)) (he_after e)
      else map_option (\<lambda>t. (tag_line t - 1, tag_line t - 1, he_content e)) (he_before e))"

text \<open>The edits in the order of application, last range first.\<close>

definition edit_schedule :: "pystr \<Rightarrow> hashline_edit list \<Rightarrow> (nat \<times> hashline_edit) list" where
  "edit_schedule content edits =
     sort_key (edit_sort_key (length (split_on 10 content))) (dedup_edits [] 0 edits)"

text \<open>Replacing single lines: every line of the snapshot, or the content of the edit that names it.\<close>

definition set_line_of :: "hashline_edit \<Rightarrow> nat" where
  "set_line_of e = (case he_tag e of None \<Rightarrow> 0 | Some t \<Rightarrow> tag_line t)"

definition set_edits_result :: "hashline_edit list \<Rightarrow> pystr list \<Rightarrow> pystr list" where
  "set_edits_result edits file_lines =
     concat (map (\<lambda>i. case map_of (map (\<lambda>e. (set_line_of e, he_content e)) edits) (i + 1) of
                         None \<Rightarrow> [file_lines ! i] | Some c \<Rightarrow> c) [0..<length file_lines])"

definition is_set_edit :: "hashline_edit \<Rightarrow> bool" where
  "is_set_edit e = (he_op e = lit ''set'' \<and> he_tag e \<noteq> None)"

text \<open>What the parser guarantees of an edit: the operation is known and has the anchors it needs.\<close>

definition well_formed_edit :: "hashline_edit \<Rightarrow> bool" where
  "well_formed_edit e =
     ((he_op e = lit ''set'' \<and> he_tag e \<noteq> None) \<or>
      (he_op e = lit ''replace'' \<and> he_first e \<noteq> None \<and> he_last e \<noteq> None) \<or>
      he_op e = lit ''append'' \<or> he_op e = lit ''prepend'' \<or>
      (he_op e = lit ''insert'' \<and> he_after e \<noteq> None \<and> he_before e \<noteq> None))"

text \<open>Builders for concrete edits.\<close>

definition set_line :: "nat \<Rightarrow> pystr \<Rightarrow> pystr list \<Rightarrow> hashline_edit" where
  "set_line n old c = blank_edit\<lparr>he_op := lit ''set'', he_content := c,
     he_tag := Some \<lparr>tag_line = n, tag_hash = compute_line_hash old\<rparr>\<rparr>"

definition append_after :: "nat \<Rightarrow> pystr \<Rightarrow> pystr list \<Rightarrow> hashline_edit" where
  "append_after n old c = blank_edit\<lparr>he_op := lit ''append'', he_content := c,
     he_after := Some \<lparr>tag_line = n, tag_hash = compute_line_hash old\<rparr>\<rparr>"

definition abc :: pystr where "abc = join_on 10 (map lit [''a'', ''b'', ''c''])"

text \<open>A rendered line: number, hash and content.\<close>

definition rendered :: "nat \<Rightarrow> pystr \<Rightarrow> pystr" where
  "rendered n l = show_nat n @ 35 # compute_line_hash l @ 58 # l"

section \<open>Anchors: printing and parsing\<close>

lemma length_compute_line_hash [simp]: "length (compute_line_hash l) = 2"
  by (simp add: compute_line_hash_def Let_def)

lemma hash_alphabet_nth: "i < 16 \<Longrightarrow> hash_alphabet ! i \<in> set hash_alphabet"
  by (simp add: hash_alphabet_def)

lemma nat_and_15: "nat (x AND 15) < 16"
proof -
  have "(15 :: int) = mask 4" by (simp add: mask_eq_exp_minus_1)
  then have "x AND 15 = take_bit 4 x" by (simp only: take_bit_eq_mask)
  then have "x AND 15 = x mod 16" by (simp add: take_bit_eq_mod)
  then show ?thesis by (simp add: nat_less_iff)
qed

lemma set_compute_line_hash: "set (compute_line_hash l) \<subseteq> set hash_alphabet"
  by (auto simp: compute_line_hash_def Let_def intro!: hash_alphabet_nth nat_and_15)

lemma hash_alphabet_values: "set hash_alphabet = {90, 80, 77, 81, 86, 82, 87, 83, 78, 75, 84, 88, 74, 66, 89, 72}"
  by (simp add: hash_alphabet_def lit_def) 

lemma alphabet_not_space: "c \<in> set hash_alphabet \<Longrightarrow> \<not> is_space c"
  by (auto simp: hash_alphabet_values is_space_def)

lemma show_nat_dec:
  assumes "ascii_digits dec"
  shows "list_all (\<lambda>c. dec c \<noteq> None) (show_nat n)"
    and "map (\<lambda>c. the (dec c)) (show_nat n) = map (\<lambda>c. c - 48) (show_nat n)"
proof -
  have *: "dec c = Some (c - 48)" if "c \<in> set (show_nat n)" for c
    using assms that show_nat_digits [of n] by (auto simp: ascii_digits_def)
  show "list_all (\<lambda>c. dec c \<noteq> None) (show_nat n)" by (simp add: list_all_iff *)
  show "map (\<lambda>c. the (dec c)) (show_nat n) = map (\<lambda>c. c - 48) (show_nat n)" by (simp add: *)
qed

text \<open>
  The anchor protocol uses the line hash through two laws only: an identifier has two characters
  and they come from the protocol's alphabet.
\<close>

locale anchor_hash =
  fixes line_hash :: "pystr \<Rightarrow> pystr"
  assumes hash_length: "length (line_hash l) = 2"
    and hash_chars: "set (line_hash l) \<subseteq> set hash_alphabet"
begin

lemma hash_pair: "\<exists>a b. line_hash l = [a, b] \<and> {a, b} \<subseteq> set hash_alphabet \<and> \<not> is_space a"
proof -
  obtain a b where ab: "line_hash l = [a, b]"
    using hash_length [of l] by (metis One_nat_def Suc_1 length_0_conv length_Suc_conv)
  then show ?thesis using hash_chars [of l] by (auto dest: alphabet_not_space)
qed

lemma match_rendered_tag:
  assumes dec: "ascii_digits dec"
  shows "match_tag dec (show_nat n @ 35 # line_hash l @ rest) =
           Some (map (\<lambda>c. c - 48) (show_nat n), line_hash l)"
proof -
  obtain c cs where c: "show_nat n = c # cs" "48 \<le> c" "c \<le> 57" using show_nat_Cons by blast
  then have front: "dropWhile is_space (show_nat n @ r) = show_nat n @ r"
      "dropWhile (\<lambda>c. c \<in> set (lit ''>+-'')) (show_nat n @ r) = show_nat n @ r" for r
    by (auto simp: is_space_def lit_def)
  have hash: "dec 35 = None" using dec by (auto simp: ascii_digits_def)
  obtain a b where "line_hash l = [a, b]" "{a, b} \<subseteq> set hash_alphabet" "\<not> is_space a"
    using hash_pair by blast
  then show ?thesis using show_nat_dec [OF dec, of n] hash
    by (simp add: match_tag_def Let_def front takeWhile_append_all dropWhile_append_all)
       (simp add: is_space_def lit_def)
qed

lemma match_rendered_line:
  assumes dec: "ascii_digits dec"
  shows "match_read_line dec (show_nat n @ 35 # line_hash l @ 58 # rest) = Some ([], show_nat n, rest)"
proof -
  obtain c cs where c: "show_nat n = c # cs" "48 \<le> c" "c \<le> 57" using show_nat_Cons by blast
  then have front: "takeWhile is_space (show_nat n @ r) = []" "dropWhile is_space (show_nat n @ r) = show_nat n @ r"
      "\<not> startswith (show_nat n @ r) (lit ''>>>'')" for r
    by (auto simp: is_space_def lit_def)
  have hash: "dec 35 = None" using dec by (auto simp: ascii_digits_def)
  obtain a b where "line_hash l = [a, b]" "{a, b} \<subseteq> set hash_alphabet" using hash_pair by blast
  then show ?thesis using show_nat_dec [OF dec, of n] hash
    by (simp add: match_read_line_def Let_def front takeWhile_append_all dropWhile_append_all)
       (simp add: lit_def numeral_3_eq_3)
qed

end

interpretation lh: anchor_hash compute_line_hash
  by unfold_locales (auto dest: set_compute_line_hash [THEN subsetD])

lemma format_line_tag_eq:
  "format_line_tag n c = show_nat n @ 35 # compute_line_hash (if n = 1 \<and> startswith c [65279] then tl c else c)"
  by (simp add: format_line_tag_def Let_def lit_def)

lemma ascii_digits_ascii_dec: "ascii_digits ascii_dec"
  by (simp add: ascii_digits_def ascii_dec_def)

text \<open>
  An anchor printed for line \<open>n\<close> of a file is parsed back to the same line number and the same
  line identifier, whatever the line holds.
\<close>

theorem parse_tag_format_line_tag:
  assumes "ascii_digits dec" and "1 \<le> n"
  shows "parse_tag dec (JStr (format_line_tag n c)) =
           Inr \<lparr>tag_line = n, tag_hash = compute_line_hash (if n = 1 \<and> startswith c [65279] then tl c else c)\<rparr>"
  using assms lh.match_rendered_tag [OF assms(1), of n _ "[]"]
  by (simp add: parse_tag_def format_line_tag_eq digits_value_show_nat)

theorem parse_tag_format_line_tag_witness:
  "ascii_digits ascii_dec \<and> (1::nat) \<le> 42 \<and>
   parse_tag ascii_dec (JStr (format_line_tag 42 (lit ''return x''))) =
     Inr \<lparr>tag_line = 42, tag_hash = compute_line_hash (lit ''return x'')\<rparr>"
  using ascii_digits_ascii_dec parse_tag_format_line_tag [OF ascii_digits_ascii_dec, of 42 "lit ''return x''"]
  by simp


section \<open>Parsed edits satisfy the assertions of the applier\<close>

lemma validate_tag_no_assert: "validate_tag t ls ms \<noteq> Inl AssertionFailed"
  by (simp add: validate_tag_def Let_def)

lemma validate_pair_no_assert: "rbind (validate_tag t ls ms) (validate_tag u ls) \<noteq> Inl AssertionFailed"
  by (auto simp: rbind_eq_Inl validate_tag_no_assert)

lemma parse_edit_well_formed: "parse_edit dec v = Inr e \<Longrightarrow> well_formed_edit e"
  by (auto simp: parse_edit_def well_formed_edit_def blank_edit_def Let_def
      split: json.splits if_splits elim!: rbindE)

lemma parse_edits_well_formed: "parse_edits dec v = Inr es \<Longrightarrow> \<forall>e \<in> set es. well_formed_edit e"
  by (auto simp: parse_edits_def traverse_Inr_iff list_all2_conv_all_nth in_set_conv_nth
      split: json.splits) (metis parse_edit_well_formed)

lemma validate_edit_no_assert: "well_formed_edit e \<Longrightarrow> validate_edit ls e ms \<noteq> Inl AssertionFailed"
  by (auto simp: well_formed_edit_def validate_edit_def validate_optional_def
      validate_tag_no_assert validate_pair_no_assert split: option.splits)

lemma validate_edits_no_assert:
  "\<forall>e \<in> set es. well_formed_edit e \<Longrightarrow> validate_edits ls es ms \<noteq> Inl AssertionFailed"
  by (induction es arbitrary: ms) (auto simp: rbind_eq_Inl validate_edit_no_assert)

lemma apply_edit_no_assert: "well_formed_edit e \<Longrightarrow> \<exists>ls'. apply_edit e ls = Inr ls'"
  by (auto simp: well_formed_edit_def apply_edit_def Let_def split: option.splits)

lemma apply_sorted_no_assert:
  "\<forall>(i, e) \<in> set items. well_formed_edit e \<Longrightarrow> \<exists>ls'. apply_sorted items ls = Inr ls'"
proof (induction items arbitrary: ls)
  case (Cons item items)
  obtain i e where item: "item = (i, e)" by (cases item)
  with Cons.prems obtain ls' where "apply_edit e ls = Inr ls'"
    using apply_edit_no_assert [of e ls] by auto
  then show ?case using Cons item by simp
qed simp

lemma dedup_edits_subset: "(i, e) \<in> set (dedup_edits seen n es) \<Longrightarrow> e \<in> set es"
  by (induction es arbitrary: seen n) (auto split: if_splits)

text \<open>
  C32: edits that come out of the parser never trip an assertion of the applier: applying them
  either succeeds or fails with one of the reported errors.
\<close>

theorem parsed_edits_never_assert:
  assumes "parse_edits dec v = Inr es"
  shows "apply_hashline_edits content es \<noteq> Inl AssertionFailed"
proof -
  let ?ls = "split_on 10 content"
  have wf: "\<forall>e \<in> set es. well_formed_edit e" using assms by (rule parse_edits_well_formed)
  then have "\<forall>(i, e) \<in> set (sort_key (edit_sort_key (length ?ls)) (dedup_edits [] 0 es)). well_formed_edit e"
    by (auto dest: dedup_edits_subset)
  then obtain ls' where "apply_sorted (sort_key (edit_sort_key (length ?ls)) (dedup_edits [] 0 es)) ?ls = Inr ls'"
    using apply_sorted_no_assert by blast
  then show ?thesis using validate_edits_no_assert [OF wf]
    by (auto simp: apply_hashline_edits_def Let_def rbind_eq_Inl)
qed

theorem parsed_edits_never_assert_witness:
  "apply_hashline_edits abc [set_line 1 (lit ''a'') [lit ''x'']] \<noteq> Inl AssertionFailed"
proof -
  have "parse_edits ascii_dec (JList [JObj [(lit ''op'', JStr (lit ''set'')),
            (lit ''tag'', JStr (format_line_tag 1 (lit ''a''))), (lit ''content'', JList [JStr (lit ''x'')])]])
        = Inr [set_line 1 (lit ''a'') [lit ''x'']]"
    by code_simp
  then show ?thesis by (rule parsed_edits_never_assert)
qed

section \<open>Stale anchors\<close>

lemma validate_tag_Inr:
  "validate_tag t ls ms = Inr ms' \<Longrightarrow> (\<exists>d. ms' = ms @ d \<and> (d = [] \<longrightarrow> anchor_fresh ls t))"
  by (auto simp: validate_tag_def anchor_fresh_def Let_def split: if_splits)

lemma validate_optional_Inr:
  "validate_optional t ls ms = Inr ms' \<Longrightarrow>
     (\<exists>d. ms' = ms @ d \<and> (d = [] \<longrightarrow> (\<forall>u. t = Some u \<longrightarrow> anchor_fresh ls u)))"
  by (cases t) (auto simp: validate_optional_def dest: validate_tag_Inr)

lemma validate_pair_Inr:
  "rbind (validate_tag t ls ms) (validate_tag u ls) = Inr ms' \<Longrightarrow>
     (\<exists>d. ms' = ms @ d \<and> (d = [] \<longrightarrow> anchor_fresh ls t \<and> anchor_fresh ls u))"
  by (fastforce elim!: rbindE dest!: validate_tag_Inr)

lemma validate_edit_Inr:
  "validate_edit ls e ms = Inr ms' \<Longrightarrow>
     (\<exists>d. ms' = ms @ d \<and> (d = [] \<longrightarrow> (\<forall>t \<in> set (edit_anchors e). anchor_fresh ls t)))"
  by (fastforce simp: validate_edit_def edit_anchors_def Let_def
      split: if_splits option.splits dest!: validate_tag_Inr validate_optional_Inr validate_pair_Inr)

lemma validate_edits_Inr:
  "validate_edits ls es ms = Inr ms' \<Longrightarrow>
     (\<exists>d. ms' = ms @ d \<and> (d = [] \<longrightarrow> (\<forall>e \<in> set es. \<forall>t \<in> set (edit_anchors e). anchor_fresh ls t)))"
proof (induction es arbitrary: ms)
  case (Cons e es)
  from Cons.prems obtain m where m: "validate_edit ls e ms = Inr m" "validate_edits ls es m = Inr ms'"
    by (auto elim!: rbindE)
  from validate_edit_Inr [OF m(1)] Cons.IH [OF m(2)] show ?case by fastforce
qed simp

text \<open>
  C1: an edit list is applied only if every anchor of every edit names an existing line whose current
  content still has the identifier of the anchor; one stale anchor blocks the whole list.
\<close>

theorem stale_anchor_blocks_edit:
  assumes "apply_hashline_edits content edits = Inr result" and "e \<in> set edits" and "t \<in> set (edit_anchors e)"
  shows "anchor_fresh (split_on 10 content) t"
proof -
  from assms(1,2) have "validate_edits (split_on 10 content) edits [] = Inr []"
    by (auto simp: apply_hashline_edits_def Let_def elim!: rbindE split: if_splits)
  from validate_edits_Inr [OF this] assms(2,3) show ?thesis by simp
qed

lemma set_line_run:
  "apply_hashline_edits abc [set_line 2 (lit ''b'') [lit ''B'']] = Inr (join_on 10 (map lit [''a'', ''B'', ''c'']))"
  by code_simp

theorem stale_anchor_blocks_edit_witness:
  "apply_hashline_edits abc [set_line 2 (lit ''b'') [lit ''B'']] = Inr (join_on 10 (map lit [''a'', ''B'', ''c''])) \<and>
   anchor_fresh (split_on 10 abc) \<lparr>tag_line = 2, tag_hash = compute_line_hash (lit ''b'')\<rparr>"
  using set_line_run stale_anchor_blocks_edit [OF set_line_run, of "set_line 2 (lit ''b'') [lit ''B'']"]
  by (simp add: set_line_def edit_anchors_def blank_edit_def)

section \<open>Bottom-up application against one snapshot\<close>

lemma apply_edit_splice: "edit_splice e = Some s \<Longrightarrow> apply_edit e ls = Inr (slice_assign s ls)"
  by (auto simp: edit_splice_def apply_edit_def Let_def split: if_splits option.splits)

lemma apply_sorted_splices:
  "list_all2 (\<lambda>(i, e) s. edit_splice e = Some s) items ss \<Longrightarrow>
     apply_sorted items ls = Inr (fold slice_assign ss ls)"
proof (induction items arbitrary: ss ls)
  case (Cons item items)
  then show ?case
    by (cases item) (auto simp: list_all2_Cons1 apply_edit_splice)
qed simp

lemma apply_hashline_edits_snapshot:
  assumes "edits \<noteq> []"
    and valid: "validate_edits (split_on 10 content) edits [] = Inr []"
    and splices: "list_all2 (\<lambda>(i, e) s. edit_splice e = Some s) (edit_schedule content edits) (rev ss)"
    and asc: "ascending_from 0 ss (length (split_on 10 content))"
    and changed: "join_on 10 (splice_snapshot (split_on 10 content) 0 ss) \<noteq> content"
  shows "apply_hashline_edits content edits = Inr (join_on 10 (splice_snapshot (split_on 10 content) 0 ss))"
  using assms(1) valid changed apply_sorted_splices [OF splices] fold_rev_slice_assign [OF asc]
  by (simp add: apply_hashline_edits_def edit_schedule_def Let_def)


lemma dedup_edits_distinct:
  "distinct (map dedup_key es) \<Longrightarrow> set (map dedup_key es) \<inter> set seen = {} \<Longrightarrow>
     dedup_edits seen i es = enumerate i es"
  by (induction es arbitrary: seen i) auto

lemma splice_snapshot_set:
  assumes "sorted_wrt (<) (map fst lcs)" "\<forall>l \<in> set (map fst lcs). pos < l \<and> l \<le> length xs"
    and "pos \<le> length xs"
  shows "splice_snapshot xs pos (map (\<lambda>(l, c). (l - 1, l, c)) lcs) =
     concat (map (\<lambda>i. case map_of lcs (i + 1) of None \<Rightarrow> [xs ! i] | Some c \<Rightarrow> c) [pos..<length xs])"
    and "ascending_from pos (map (\<lambda>(l, c). (l - 1, l, c)) lcs) (length xs)"
  using assms
proof (induction lcs arbitrary: pos)
  case Nil
  { case 1
    have "concat (map (\<lambda>i. [xs ! i]) [pos..<length xs]) = map ((!) xs) [pos..<length xs]"
      by (simp add: concat_map_singleton)
    moreover have "drop pos xs = map ((!) xs) [pos..<length xs]"
      by (intro nth_equalityI) auto
    ultimately show ?case by simp
  next
    case 2
    then show ?case by simp }
next
  case (Cons lc lcs)
  obtain l c where lc: "lc = (l, c)" by (cases lc)
  { case 1
    then have l: "pos < l" "l \<le> length xs" and rest: "\<forall>k \<in> set (map fst lcs). l < k \<and> k \<le> length xs"
      and sorted: "sorted_wrt (<) (map fst lcs)"
      using lc by auto
    let ?g = "\<lambda>i. case map_of lcs (i + 1) of None \<Rightarrow> [xs ! i] | Some c \<Rightarrow> c"
    let ?f = "\<lambda>i. case map_of (lc # lcs) (i + 1) of None \<Rightarrow> [xs ! i] | Some c \<Rightarrow> c"
    have split: "[pos..<length xs] = [pos..<l - 1] @ (l - 1) # [l..<length xs]"
    proof -
      have "[pos..<length xs] = [pos..<l - 1] @ [l - 1..<length xs]"
        using l upt_add_eq_append [of pos "l - 1" "length xs - (l - 1)"] by auto
      then show ?thesis using l by (simp add: upt_conv_Cons)
    qed
    have none: "map_of lcs k = None" if "k \<le> l" for k
      using rest that by (auto simp: map_of_eq_None_iff)
    have "map ?f [pos..<l - 1] = map (\<lambda>i. [xs ! i]) [pos..<l - 1]"
      using none lc by auto
    then have front: "concat (map ?f [pos..<l - 1]) = map ((!) xs) [pos..<l - 1]"
      by (simp only: concat_map_singleton)
    have "?f i = ?g i" if "l \<le> i" for i using that lc by simp
    then have rear: "map ?f [l..<length xs] = map ?g [l..<length xs]" by simp
    have mid: "?f (l - 1) = c" using l lc by simp
    have "take (l - 1 - pos) (drop pos xs) = map ((!) xs) [pos..<l - 1]"
      using l by (intro nth_equalityI) auto
    then have "splice_snapshot xs pos (map (\<lambda>(l, c). (l - 1, l, c)) (lc # lcs)) =
        map ((!) xs) [pos..<l - 1] @ c @ concat (map ?g [l..<length xs])"
      using Cons.IH(1) [OF sorted rest l(2)] by (simp add: lc)
    also have "\<dots> = concat (map ?f [pos..<l - 1]) @ ?f (l - 1) @ concat (map ?f [l..<length xs])"
      by (simp only: front rear mid)
    also have "\<dots> = concat (map ?f [pos..<length xs])"
      by (simp only: split map_append list.map concat_append concat.simps)
    finally show ?case .
  next
    case 2
    then have "pos < l" "l \<le> length xs" "\<forall>k \<in> set (map fst lcs). l < k \<and> k \<le> length xs"
      "sorted_wrt (<) (map fst lcs)"
      using lc by auto
    then show ?case using Cons.IH(2) [of l] lc by simp }
qed


lemma set_schedule_lines:
  assumes "\<forall>e \<in> set edits. is_set_edit e" and "distinct (map set_line_of edits)"
  shows "mset (map snd (edit_schedule content edits)) = mset edits"
    and "sorted_wrt (<) (map set_line_of (rev (map snd (edit_schedule content edits))))"
proof -
  let ?key = "edit_sort_key (length (split_on 10 content))"
  let ?s = "edit_schedule content edits"
  have "map (fst \<circ> snd) (map dedup_key edits) = map (\<lambda>e. Some (set_line_of e)) edits"
    using assms(1) by (auto simp: is_set_edit_def dedup_key_def Let_def set_line_of_def)
  moreover have "distinct (map (\<lambda>e. Some (set_line_of e)) edits)"
    using assms(2) by (simp add: distinct_map inj_on_def)
  ultimately have "distinct (map dedup_key edits)"
    by (metis distinct_map)
  then have s: "?s = sort_key ?key (enumerate 0 edits)"
    by (simp add: edit_schedule_def dedup_edits_distinct)
  show mset: "mset (map snd ?s) = mset edits"
    by (metis s map_snd_enumerate mset_map mset_sort)
  have set: "set (map snd ?s) = set edits" using mset by (metis set_mset_mset)
  have "sorted (map ?key ?s)" unfolding s by (rule sorted_sort_key)
  then have "sorted_wrt (\<lambda>x y. ?key x \<le> ?key y) ?s" by (simp add: sorted_map)
  moreover have "?key (i, e) = (- int (set_line_of e), 0, i)" if "e \<in> set edits" for i e
    using assms(1) that by (auto simp: edit_sort_key_def is_set_edit_def line_or_def set_line_of_def)
  moreover have "snd x \<in> set edits" if "x \<in> set ?s" for x using set that by force
  ultimately have "sorted_wrt (\<lambda>x y. set_line_of (snd y) \<le> set_line_of (snd x)) ?s"
    by (elim sorted_wrt_mono_rel [rotated]) (force simp: less_eq_prod_def)
  then have "sorted (map set_line_of (rev (map snd ?s)))"
    by (simp add: sorted_map sorted_wrt_rev sorted_wrt_map rev_map)
  moreover have "mset (map set_line_of (rev (map snd ?s))) = mset (map set_line_of edits)"
    using mset by (metis mset_map mset_rev)
  then have "distinct (map set_line_of (rev (map snd ?s)))"
    using assms(2) by (metis mset_eq_imp_distinct_iff)
  ultimately show "sorted_wrt (<) (map set_line_of (rev (map snd ?s)))"
    by (simp add: strict_sorted_iff)
qed


lemma apply_set_edits:
  assumes "edits \<noteq> []" and sets: "\<forall>e \<in> set edits. is_set_edit e"
    and distinct: "distinct (map set_line_of edits)"
    and fresh: "\<forall>e \<in> set edits. \<forall>t \<in> set (edit_anchors e). anchor_fresh (split_on 10 content) t"
    and changed: "join_on 10 (set_edits_result edits (split_on 10 content)) \<noteq> content"
  shows "apply_hashline_edits content edits = Inr (join_on 10 (set_edits_result edits (split_on 10 content)))"
proof -
  let ?ls = "split_on 10 content"
  let ?es = "rev (map snd (edit_schedule content edits))"
  let ?lcs = "map (\<lambda>e. (set_line_of e, he_content e)) ?es"
  let ?ss = "map (\<lambda>(l, c). (l - 1, l, c)) ?lcs"
  have mset: "mset ?es = mset edits" using set_schedule_lines(1) [OF sets distinct] by simp
  then have set: "set ?es = set edits" by (metis set_mset_mset)
  have splice: "edit_splice e = Some (set_line_of e - 1, set_line_of e, he_content e)" if "e \<in> set edits" for e
    using sets that by (auto simp: is_set_edit_def edit_splice_def set_line_of_def)
  have range: "0 < set_line_of e \<and> set_line_of e \<le> length ?ls" if "e \<in> set edits" for e
    using sets fresh that
    by (force simp: is_set_edit_def edit_anchors_def anchor_fresh_def set_line_of_def Let_def)
  have sorted: "sorted_wrt (<) (map fst ?lcs)"
    using set_schedule_lines(2) [OF sets distinct] by (simp add: comp_def)
  have bounds: "\<forall>l \<in> set (map fst ?lcs). 0 < l \<and> l \<le> length ?ls" using range set by auto
  have keys: "map_of ?lcs = map_of (map (\<lambda>e. (set_line_of e, he_content e)) edits)"
  proof (rule map_of_inject_set [THEN iffD2])
    show "distinct (map fst ?lcs)" using sorted by (simp add: strict_sorted_iff)
    show "distinct (map fst (map (\<lambda>e. (set_line_of e, he_content e)) edits))"
      using distinct by (simp add: comp_def)
    show "set ?lcs = set (map (\<lambda>e. (set_line_of e, he_content e)) edits)" using set by auto
  qed
  have res: "splice_snapshot ?ls 0 ?ss = set_edits_result edits ?ls"
    using splice_snapshot_set(1) [OF sorted bounds] by (simp add: set_edits_result_def keys)
  have valid: "validate_edits ?ls es [] = Inr []" if "set es \<subseteq> set edits" for es
    using that
  proof (induction es)
    case (Cons e es)
    then have "validate_edit ?ls e [] = Inr []"
      using sets fresh
      by (force simp: is_set_edit_def validate_edit_def validate_tag_def edit_anchors_def anchor_fresh_def Let_def)
    with Cons show ?case by simp
  qed simp
  have mem: "snd (edit_schedule content edits ! i) \<in> set edits" if "i < length (edit_schedule content edits)" for i
    using set that by force
  have "list_all2 (\<lambda>(i, e) s. edit_splice e = Some s) (edit_schedule content edits) (rev ?ss)"
    using splice mem by (fastforce simp: list_all2_conv_all_nth rev_map [symmetric] split: prod.splits)
  from apply_hashline_edits_snapshot [OF assms(1) valid [OF subset_refl] this splice_snapshot_set(2) [OF sorted bounds]]
  show ?thesis using res changed by simp
qed


text \<open>
  C6: edits that replace pairwise different lines act on one snapshot: each line of the original is
  kept or replaced by the content of the one edit that names it, however many lines the other edits
  add or delete and in whatever order the edits are given.
\<close>

theorem set_edits_against_snapshot:
  assumes "edits \<noteq> []" and "\<forall>e \<in> set edits. is_set_edit e"
    and "distinct (map set_line_of edits)"
    and "\<forall>e \<in> set edits. \<forall>t \<in> set (edit_anchors e). anchor_fresh (split_on 10 content) t"
    and "join_on 10 (set_edits_result edits (split_on 10 content)) \<noteq> content"
  shows "apply_hashline_edits content edits = Inr (join_on 10 (set_edits_result edits (split_on 10 content)))"
  using assms by (rule apply_set_edits)

theorem set_edits_against_snapshot_witness:
  "apply_hashline_edits abc [set_line 1 (lit ''a'') [lit ''x'', lit ''y''], set_line 3 (lit ''c'') []] =
     Inr (join_on 10 (map lit [''x'', ''y'', ''b'']))"
proof -
  let ?es = "[set_line 1 (lit ''a'') [lit ''x'', lit ''y''], set_line 3 (lit ''c'') []]"
  have lines: "split_on 10 abc = map lit [''a'', ''b'', ''c'']" by code_simp
  have "set_edits_result ?es (map lit [''a'', ''b'', ''c'']) = map lit [''x'', ''y'', ''b'']"
    by code_simp
  moreover have "join_on 10 (map lit [''x'', ''y'', ''b'']) \<noteq> abc" by code_simp
  ultimately show ?thesis
    using set_edits_against_snapshot [of ?es abc]
    by (simp add: lines is_set_edit_def set_line_def blank_edit_def set_line_of_def edit_anchors_def anchor_fresh_def)
qed

text \<open>
  deleting a line and appending after the same line in one list puts the new text one line too
  low: the deletion runs first, and the insertion then uses the line number in the shortened file.
  The docstring promises application against one snapshot.
\<close>

theorem set_then_append_misplaced:
  "apply_hashline_edits abc [set_line 1 (lit ''a'') [], append_after 1 (lit ''a'') [lit ''x'']] =
     Inr (join_on 10 (map lit [''b'', ''x'', ''c'']))"
  by code_simp

section \<open>Removing anchors restores the text\<close>

lemma unify_newlines_id: "13 \<notin> set s \<Longrightarrow> unify_newlines s = s"
  by (simp add: unify_newlines_def replace_all_absent)

lemma render_hash_lines_Cons:
  "\<not> (n = 1 \<and> startswith l [65279]) \<Longrightarrow> render_hash_lines n (l # ls) = rendered n l # render_hash_lines (n + 1) ls"
  by (auto simp: rendered_def format_line_tag_eq lit_def Let_def)

lemma digit_no_break: "c \<in> set (show_nat n) \<Longrightarrow> \<not> is_linebreak c"
  using show_nat_digits [of n] by (auto simp: is_linebreak_def)

lemma hash_no_break: "c \<in> set (compute_line_hash l) \<Longrightarrow> \<not> is_linebreak c"
  using set_compute_line_hash [of l] by (auto simp: is_linebreak_def hash_alphabet_values)

lemma rendered_no_break:
  "(\<And>c. c \<in> set l \<Longrightarrow> \<not> is_linebreak c) \<Longrightarrow> c \<in> set (rendered n l) \<Longrightarrow> \<not> is_linebreak c"
  by (auto simp: rendered_def digit_no_break hash_no_break is_linebreak_def [of 35] is_linebreak_def [of 58])

lemma strip_read_line_rendered:
  assumes "ascii_digits dec" and nobreak: "\<And>c. c \<in> set l \<Longrightarrow> \<not> is_linebreak c"
  shows "strip_read_line dec False (rendered n l) = l" "strip_read_line dec False (rendered n l @ [10]) = l @ [10]"
proof -
  have "10 \<notin> set (rendered n l)"
    using rendered_no_break [OF nobreak, where c = 10 and n = n] by (auto simp: is_linebreak_def)
  then have "\<not> endswith (rendered n l) [10]"
    by (metis endswith_single last_in_set)
  moreover have "endswith (rendered n l @ [10]) [10]" by (simp add: endswith_single)
  moreover have "match_read_line dec (rendered n l) = Some ([], show_nat n, l)"
    using lh.match_rendered_line [OF assms(1)] by (simp add: rendered_def)
  ultimately show "strip_read_line dec False (rendered n l) = l" "strip_read_line dec False (rendered n l @ [10]) = l @ [10]"
    by (simp_all add: strip_read_line_def)
qed

lemma strip_rendered_lines:
  assumes dec: "ascii_digits dec"
  shows "1 \<le> n \<Longrightarrow> ls \<noteq> [] \<Longrightarrow> \<not> (n = 1 \<and> startswith (hd ls) [65279]) \<Longrightarrow>
    (\<And>l c. l \<in> set ls \<Longrightarrow> c \<in> set l \<Longrightarrow> \<not> is_linebreak c) \<Longrightarrow>
    strip_hashline_read_output dec (join_on 10 (render_hash_lines n ls)) False = join_on 10 ls"
proof (induction ls arbitrary: n)
  case (Cons l ls)
  have nb: "\<not> is_linebreak c" if "c \<in> set l" for c using Cons.prems(4) [of l c] that by simp
  have r: "render_hash_lines n (l # ls) = rendered n l # render_hash_lines (n + 1) ls"
    using Cons.prems(3) by (intro render_hash_lines_Cons) simp
  have nbr: "\<not> is_linebreak c" if "c \<in> set (rendered n l)" for c
    using rendered_no_break [OF nb that] .
  have strip1: "strip_read_line dec False (rendered n l) = l"
    and strip2: "strip_read_line dec False (rendered n l @ [10]) = l @ [10]"
    by (rule strip_read_line_rendered [OF dec nb]; assumption)+
  show ?case
  proof (cases ls)
    case Nil
    then have "render_hash_lines n (l # ls) = [rendered n l]" unfolding r by simp
    moreover have "rendered n l \<noteq> []" by (simp add: rendered_def)
    ultimately show ?thesis using strip1 Nil
      by (simp add: strip_hashline_read_output_def splitlines_keep_no_break [OF nbr] del: render_hash_lines.simps)
  next
    case (Cons l' ls')
    then have ne: "render_hash_lines (n + 1) ls \<noteq> []" by (simp add: Let_def)
    have "strip_hashline_read_output dec (join_on 10 (render_hash_lines (n + 1) ls)) False = join_on 10 ls"
      using Cons.prems Cons by (intro Cons.IH) auto
    moreover have "ls \<noteq> []" using Cons by simp
    ultimately show ?thesis
      using strip2 ne unfolding r
      by (simp add: strip_hashline_read_output_def join_on_Cons splitlines_keep_line [OF nbr])
  qed
qed simp

text \<open>
  Removing the anchors from a rendered file gives back the file, for text whose only line
  boundary is LF and that does not start with a byte order mark on line 1.
\<close>

theorem strip_format_hash_lines:
  assumes "ascii_digits dec" and "1 \<le> n" and "\<not> (n = 1 \<and> startswith content [65279])"
    and "\<forall>c \<in> set content. is_linebreak c \<longrightarrow> c = 10"
  shows "strip_hashline_read_output dec (format_hash_lines content n) False = content"
proof -
  have "is_linebreak 13" by (simp add: is_linebreak_def)
  then have "13 \<notin> set content" using assms(4) by auto
  then have u: "unify_newlines content = content" by (rule unify_newlines_id)
  have parts: "\<not> is_linebreak c" if "l \<in> set (split_on 10 content)" "c \<in> set l" for l c
  proof -
    have "c \<in> set content" using in_set_join_on [OF that, of 10] by simp
    moreover have "c \<noteq> 10" using split_on_parts [OF that(1)] that(2) by auto
    ultimately show ?thesis using assms(4) by auto
  qed
  have hd: "startswith (hd (split_on 10 content)) [65279] = startswith content [65279]"
    by (rule startswith_hd_split_on) simp
  have "strip_hashline_read_output dec (join_on 10 (render_hash_lines n (split_on 10 content))) False =
      join_on 10 (split_on 10 content)"
    using assms(3) parts by (intro strip_rendered_lines [OF assms(1,2)]) (simp_all add: hd)
  then show ?thesis by (simp add: format_hash_lines_def u)
qed

theorem strip_format_hash_lines_witness:
  "strip_hashline_read_output ascii_dec (format_hash_lines abc 1) False = abc"
proof -
  have "\<not> startswith abc [65279]" "\<forall>c \<in> set abc. is_linebreak c \<longrightarrow> c = 10" by code_simp+
  then show ?thesis using strip_format_hash_lines [OF ascii_digits_ascii_dec, of 1 abc] by simp
qed

end
