(* ===== verification/Codex_Patch.thy ===== *)
theory Codex_Patch
  imports Kolega_Prelude
begin

text \<open>
  The parser and the in-memory applier of the \<open>apply_patch\<close> language,
  \<open>kolega_code/agent/tool_backend/codex_patch.py\<close>. The source walks the line list with an index that
  stops before the closing marker; the model consumes the list of those lines. Every
  \<open>CodexPatchParseError\<close> and \<open>CodexPatchApplyError\<close> is a constructor of \<open>patch_error\<close>.
\<close>

section \<open>Patches\<close>

datatype patch_kind = PatchAdd | PatchDelete | PatchUpdate

record patch_chunk =
  chunk_context :: "pystr option"
  chunk_lines :: "(nat \<times> pystr) list"
  chunk_eof :: bool

record patch_operation =
  po_kind :: patch_kind
  po_path :: pystr
  po_move_to :: "pystr option"
  po_add_lines :: "pystr list"
  po_chunks :: "patch_chunk list"

datatype patch_error =
    MissingBeginPatch
  | MissingEndPatch
  | AddLineWithoutPlus pystr
  | AddFileEmpty pystr
  | EofNotFinal
  | EofRepeated
  | InvalidUpdateLine pystr
  | UpdateWithoutChanges pystr
  | InvalidMarker pystr
  | NoOperations
  | MissingPath pystr
  | ContextMismatch nat pystr pystr
  | ChunkMismatch nat pystr "pystr list"

section \<open>Parsing\<close>

definition normalize_newlines :: "pystr \<Rightarrow> pystr" where
  "normalize_newlines s = replace_all [13] [10] (replace_all [13, 10] [10] s)"

definition path_after :: "pystr \<Rightarrow> pystr \<Rightarrow> patch_error + pystr" where
  "path_after line prefix =
     (let path = strip (drop (length prefix) line)
      in if path = [] then Inl (MissingPath (strip prefix)) else Inr path)"

definition add_marker :: pystr where "add_marker = lit ''*** Add File: ''"
definition delete_marker :: pystr where "delete_marker = lit ''*** Delete File: ''"
definition update_marker :: pystr where "update_marker = lit ''*** Update File: ''"
definition move_marker :: pystr where "move_marker = lit ''*** Move to: ''"
definition eof_marker :: pystr where "eof_marker = lit ''*** End of File''"

definition is_operation_marker :: "pystr \<Rightarrow> bool" where
  "is_operation_marker line =
     (startswith line add_marker \<or> startswith line delete_marker \<or> startswith line update_marker)"

text \<open>The lines of an Add File operation, up to the next line that starts with three stars and a blank.\<close>

fun parse_added :: "pystr list \<Rightarrow> patch_error + (pystr list \<times> pystr list)" where
  "parse_added [] = Inr ([], [])"
| "parse_added (line # rest) =
     (if startswith line (lit ''*** '') then Inr ([], line # rest)
      else if \<not> startswith line (lit ''+'') then Inl (AddLineWithoutPlus line)
      else rbind (parse_added rest) (\<lambda>(added, rest). Inr (tl line # added, rest)))"

text \<open>The state of an Update File operation: finished chunks and the open chunk.\<close>

record update_state =
  us_chunks :: "patch_chunk list"
  us_context :: "pystr option"
  us_changes :: "(nat \<times> pystr) list"
  us_eof :: bool

definition update_start :: update_state where
  "update_start = \<lparr>us_chunks = [], us_context = None, us_changes = [], us_eof = False\<rparr>"

definition finish_chunk :: "update_state \<Rightarrow> update_state" where
  "finish_chunk s =
     \<lparr>us_chunks =
        (if us_context s \<noteq> None \<or> us_changes s \<noteq> [] \<or> us_eof s
         then us_chunks s @ [\<lparr>chunk_context = us_context s, chunk_lines = us_changes s, chunk_eof = us_eof s\<rparr>]
         else us_chunks s),
      us_context = None, us_changes = [], us_eof = False\<rparr>"

fun parse_update :: "update_state \<Rightarrow> pystr list \<Rightarrow> patch_error + (patch_chunk list \<times> pystr list)" where
  "parse_update s [] = Inr (us_chunks (finish_chunk s), [])"
| "parse_update s (line # rest) =
     (if is_operation_marker line then Inr (us_chunks (finish_chunk s), line # rest)
      else if line = lit ''@@'' \<or> startswith line (lit ''@@ '') then
        (if us_eof s then Inl EofNotFinal
         else parse_update ((finish_chunk s)\<lparr>us_context :=
                (if startswith line (lit ''@@ '') then Some (drop 3 line) else None)\<rparr>) rest)
      else if line = eof_marker then
        (if us_eof s then Inl EofRepeated else parse_update (s\<lparr>us_eof := True\<rparr>) rest)
      else if line \<noteq> [] \<and> hd line \<in> set (lit ''+- '') then
        (if us_eof s then Inl EofNotFinal
         else parse_update (s\<lparr>us_changes := us_changes s @ [(hd line, tl line)]\<rparr>) rest)
      else Inl (InvalidUpdateLine line))"

definition parse_move :: "pystr list \<Rightarrow> patch_error + (pystr option \<times> pystr list)" where
  "parse_move lines =
     (case lines of
        [] \<Rightarrow> Inr (None, [])
      | line # rest \<Rightarrow>
          if startswith line move_marker
          then rbind (path_after line move_marker) (\<lambda>p. Inr (Some p, rest))
          else Inr (None, lines))"

definition blank_operation :: patch_operation where
  "blank_operation = \<lparr>po_kind = PatchAdd, po_path = [], po_move_to = None, po_add_lines = [], po_chunks = []\<rparr>"

text \<open>One operation of the body, with the lines after it.\<close>

definition parse_operation :: "pystr \<Rightarrow> pystr list \<Rightarrow> patch_error + (patch_operation \<times> pystr list)" where
  "parse_operation marker rest =
     (if startswith marker add_marker then
        rbind (path_after marker add_marker) (\<lambda>path.
        rbind (parse_added rest) (\<lambda>(added, rest).
        if added = [] then Inl (AddFileEmpty path)
        else Inr (blank_operation\<lparr>po_kind := PatchAdd, po_path := path, po_add_lines := added\<rparr>, rest)))
      else if startswith marker delete_marker then
        rbind (path_after marker delete_marker) (\<lambda>path.
        Inr (blank_operation\<lparr>po_kind := PatchDelete, po_path := path\<rparr>, rest))
      else if startswith marker update_marker then
        rbind (path_after marker update_marker) (\<lambda>path.
        rbind (parse_move rest) (\<lambda>(move_to, rest).
        rbind (parse_update update_start rest) (\<lambda>(chunks, rest).
        if chunks = [] \<and> move_to = None then Inl (UpdateWithoutChanges path)
        else Inr (blank_operation\<lparr>po_kind := PatchUpdate, po_path := path, po_move_to := move_to,
                                  po_chunks := chunks\<rparr>, rest))))
      else Inl (InvalidMarker marker))"

lemma parse_added_length: "parse_added ls = Inr (a, r) \<Longrightarrow> length r \<le> length ls"
  by (induction ls arbitrary: a r) (fastforce elim!: rbindE split: if_splits)+

lemma parse_update_length: "parse_update s ls = Inr (c, r) \<Longrightarrow> length r \<le> length ls"
  by (induction s ls rule: parse_update.induct) (auto split: if_splits)

lemma parse_move_length: "parse_move ls = Inr (m, r) \<Longrightarrow> length r \<le> length ls"
  by (auto simp: parse_move_def elim!: rbindE split: if_splits list.splits)

lemma parse_operation_length: "parse_operation m ls = Inr (p, r) \<Longrightarrow> length r \<le> length ls"
  by (fastforce simp: parse_operation_def elim!: rbindE split: if_splits
      dest: parse_added_length parse_update_length parse_move_length)

function parse_operations :: "pystr list \<Rightarrow> patch_error + patch_operation list" where
  "parse_operations [] = Inr []"
| "parse_operations (marker # rest) =
     (case parse_operation marker rest of
        Inl e \<Rightarrow> Inl e
      | Inr (p, rest') \<Rightarrow> rbind (parse_operations rest') (\<lambda>ps. Inr (p # ps)))"
  by pat_completeness auto
termination
  by (relation "measure length") (auto dest: parse_operation_length)

definition parse_codex_patch :: "pystr \<Rightarrow> patch_error + patch_operation list" where
  "parse_codex_patch raw =
     (let lines = splitlines (normalize_newlines raw)
      in if lines = [] \<or> strip (hd lines) \<noteq> lit ''*** Begin Patch'' then Inl MissingBeginPatch
         else if length lines < 2 \<or> strip (last lines) \<noteq> lit ''*** End Patch'' then Inl MissingEndPatch
         else rbind (parse_operations (butlast (tl lines))) (\<lambda>ops.
              if ops = [] then Inl NoOperations else Inr ops))"

section \<open>Applying update chunks\<close>

text \<open>\<open>_forms\<close>: the four readings of a line, from exact to typographic quotes folded.\<close>

definition smart_translate :: "nat \<Rightarrow> nat" where
  "smart_translate c =
     (if 8216 \<le> c \<and> c \<le> 8219 then 39 else if 8220 \<le> c \<and> c \<le> 8223 then 34 else c)"

definition line_form :: "nat \<Rightarrow> pystr \<Rightarrow> pystr" where
  "line_form mode s =
     (if mode = 0 then s else if mode = 1 then rstrip s else if mode = 2 then strip s
      else map smart_translate s)"

text \<open>The first index of a range that satisfies a condition, mode by mode.\<close>

definition find_by_mode :: "(nat \<Rightarrow> nat \<Rightarrow> bool) \<Rightarrow> nat list \<Rightarrow> nat option" where
  "find_by_mode ok candidates =
     (case filter (\<lambda>(mode, i). ok mode i) (List.product [0..<4] candidates) of
        [] \<Rightarrow> None | (mode, i) # _ \<Rightarrow> Some i)"

definition find_line :: "pystr list \<Rightarrow> pystr \<Rightarrow> nat \<Rightarrow> nat option" where
  "find_line lines needle start =
     find_by_mode (\<lambda>mode i. line_form mode (lines ! i) = line_form mode needle) [start..<length lines]"

definition find_sequence :: "pystr list \<Rightarrow> pystr list \<Rightarrow> nat \<Rightarrow> bool \<Rightarrow> (nat \<times> nat) option" where
  "find_sequence lines needle start at_end =
     (if length needle > length lines then None
      else (let candidates = (if at_end then [length lines - length needle]
                              else [start..<length lines - length needle + 1])
            in map_option (\<lambda>i. (i, i + length needle))
                 (find_by_mode
                    (\<lambda>mode i. start \<le> i \<and>
                       map (line_form mode) (take (length needle) (drop i lines)) = map (line_form mode) needle)
                    candidates)))"

definition dominant_ending :: "pystr \<Rightarrow> pystr" where
  "dominant_ending content =
     (let crlf = count_sub [13, 10] content;
          lf = count_sub [10] content - crlf;
          cr = count_sub [13] content - crlf
      in if crlf \<noteq> 0 \<and> crlf \<ge> lf \<and> crlf \<ge> cr then [13, 10]
         else if cr \<noteq> 0 \<and> cr > lf then [13] else [10])"

definition old_lines :: "patch_chunk \<Rightarrow> pystr list" where
  "old_lines chunk = map snd (filter (\<lambda>(p, t). p \<in> set (lit '' -'')) (chunk_lines chunk))"

definition new_lines :: "patch_chunk \<Rightarrow> pystr list" where
  "new_lines chunk = map snd (filter (\<lambda>(p, t). p \<in> set (lit '' +'')) (chunk_lines chunk))"

definition chunk_hint :: "pystr \<Rightarrow> nat \<Rightarrow> pystr list \<Rightarrow> nat \<Rightarrow> patch_chunk \<Rightarrow> patch_error + nat" where
  "chunk_hint path number lines cursor chunk =
     (case chunk_context chunk of
        None \<Rightarrow> Inr cursor
      | Some c \<Rightarrow>
          (case find_line lines c cursor of
             None \<Rightarrow> Inl (ContextMismatch number path c) | Some i \<Rightarrow> Inr (i + 1)))"

definition chunk_range ::
  "pystr \<Rightarrow> nat \<Rightarrow> pystr list \<Rightarrow> nat \<Rightarrow> patch_chunk \<Rightarrow> patch_error + (nat \<times> nat)" where
  "chunk_range path number lines hint chunk =
     (if old_lines chunk = [] then
        (let start = (if chunk_eof chunk then length lines else hint) in Inr (start, start))
      else (case find_sequence lines (old_lines chunk) hint (chunk_eof chunk) of
              None \<Rightarrow> Inl (ChunkMismatch number path (take 5 (old_lines chunk)))
            | Some rng \<Rightarrow> Inr rng))"

fun apply_chunks ::
  "pystr \<Rightarrow> nat \<Rightarrow> patch_chunk list \<Rightarrow> pystr list \<Rightarrow> nat \<Rightarrow> patch_error + pystr list" where
  "apply_chunks path number [] lines cursor = Inr lines"
| "apply_chunks path number (chunk # chunks) lines cursor =
     rbind (chunk_hint path number lines cursor chunk) (\<lambda>hint.
     rbind (chunk_range path number lines hint chunk) (\<lambda>(start, stop).
     apply_chunks path (number + 1) chunks
       (slice_assign (start, stop, new_lines chunk) lines) (start + length (new_lines chunk))))"

definition apply_update_chunks :: "pystr \<Rightarrow> patch_chunk list \<Rightarrow> pystr \<Rightarrow> patch_error + pystr" where
  "apply_update_chunks content chunks path =
     (let dominant = dominant_ending content;
          normalized = normalize_newlines content;
          had_final_newline = endswith normalized [10];
          lines = split_on 10 normalized;
          lines = (if had_final_newline then butlast lines else lines)
      in rbind (apply_chunks path 1 chunks lines 0) (\<lambda>lines.
         let result = join_on 10 lines;
             result = (if had_final_newline then result @ [10] else result)
         in Inr (if dominant \<noteq> [10] then replace_all [10] dominant result else result)))"

section \<open>Reference notions\<close>

text \<open>A printer for patches, and the operations it prints unambiguously.\<close>

definition print_chunk :: "patch_chunk \<Rightarrow> pystr list" where
  "print_chunk c =
     (case chunk_context c of None \<Rightarrow> lit ''@@'' | Some x \<Rightarrow> lit ''@@ '' @ x) #
     map (\<lambda>(p, t). p # t) (chunk_lines c) @ (if chunk_eof c then [eof_marker] else [])"

definition print_operation :: "patch_operation \<Rightarrow> pystr list" where
  "print_operation p =
     (case po_kind p of
        PatchAdd \<Rightarrow> (add_marker @ po_path p) # map (\<lambda>l. 43 # l) (po_add_lines p)
      | PatchDelete \<Rightarrow> [delete_marker @ po_path p]
      | PatchUpdate \<Rightarrow>
          (update_marker @ po_path p) #
          (case po_move_to p of None \<Rightarrow> [] | Some m \<Rightarrow> [move_marker @ m]) @
          concat (map print_chunk (po_chunks p)))"

definition print_patch :: "patch_operation list \<Rightarrow> pystr" where
  "print_patch ops =
     join_on 10 (lit ''*** Begin Patch'' # concat (map print_operation ops) @ [lit ''*** End Patch''])"

definition plain_text :: "pystr \<Rightarrow> bool" where
  "plain_text s = list_all (\<lambda>c. \<not> is_linebreak c) s"

definition plain_path :: "pystr \<Rightarrow> bool" where
  "plain_path p = (p \<noteq> [] \<and> strip p = p \<and> plain_text p)"

definition plain_chunk :: "patch_chunk \<Rightarrow> bool" where
  "plain_chunk c =
     (list_all plain_text (case chunk_context c of None \<Rightarrow> [] | Some x \<Rightarrow> [x]) \<and>
      list_all (\<lambda>(p, t). p \<in> set (lit ''+- '') \<and> plain_text t) (chunk_lines c) \<and>
      (chunk_context c \<noteq> None \<or> chunk_lines c \<noteq> [] \<or> chunk_eof c))"

definition plain_operation :: "patch_operation \<Rightarrow> bool" where
  "plain_operation p =
     (plain_path (po_path p) \<and>
      (case po_kind p of
         PatchAdd \<Rightarrow> po_add_lines p \<noteq> [] \<and> list_all plain_text (po_add_lines p) \<and>
                    po_move_to p = None \<and> po_chunks p = []
       | PatchDelete \<Rightarrow> po_add_lines p = [] \<and> po_move_to p = None \<and> po_chunks p = []
       | PatchUpdate \<Rightarrow> po_add_lines p = [] \<and> (po_chunks p \<noteq> [] \<or> po_move_to p \<noteq> None) \<and>
                    list_all plain_path (case po_move_to p of None \<Rightarrow> [] | Some m \<Rightarrow> [m]) \<and>
                    list_all plain_chunk (po_chunks p) \<and>
                    list_all (\<lambda>c. \<not> chunk_eof c) (butlast (po_chunks p))))"

section \<open>Parsing inverts printing\<close>

lemmas marker_defs = add_marker_def delete_marker_def update_marker_def move_marker_def eof_marker_def

lemma path_after_append: "plain_path p \<Longrightarrow> path_after (m @ p) m = Inr p"
  by (simp add: path_after_def plain_path_def Let_def)

text \<open>The lines that may follow an operation: none, or the marker of the next one.\<close>

definition ends_operation :: "pystr list \<Rightarrow> bool" where
  "ends_operation r = (r = [] \<or> is_operation_marker (hd r))"

lemma marker_starts_stars: "is_operation_marker l \<Longrightarrow> startswith l (lit ''*** '')"
  by (auto simp: is_operation_marker_def marker_defs lit_def startswith_iff)

lemma parse_added_printed:
  "ends_operation r \<Longrightarrow> parse_added (map (\<lambda>l. 43 # l) ls @ r) = Inr (ls, r)"
proof (induction ls)
  case Nil
  then show ?case
    by (cases r) (auto simp: ends_operation_def dest: marker_starts_stars)
next
  case (Cons l ls)
  then show ?case by (simp add: lit_def)
qed

lemma parse_update_changes:
  "\<not> us_eof s \<Longrightarrow> list_all (\<lambda>(p, t). p \<in> set (lit ''+- '')) ls \<Longrightarrow>
     parse_update s (map (\<lambda>(p, t). p # t) ls @ r) = parse_update (s\<lparr>us_changes := us_changes s @ ls\<rparr>) r"
proof (induction ls arbitrary: s)
  case (Cons x ls)
  obtain p t where x: "x = (p, t)" by (cases x)
  have "parse_update s ((p # t) # map (\<lambda>(p, t). p # t) ls @ r) =
      parse_update (s\<lparr>us_changes := us_changes s @ [(p, t)]\<rparr>) (map (\<lambda>(p, t). p # t) ls @ r)"
    using Cons.prems x by (auto simp: is_operation_marker_def marker_defs lit_def)
  with Cons x show ?case by simp
qed simp

lemma parse_update_chunk:
  assumes "\<not> us_eof s" "plain_chunk c"
  shows "parse_update s (print_chunk c @ r) =
    parse_update \<lparr>us_chunks = us_chunks (finish_chunk s), us_context = chunk_context c,
                  us_changes = chunk_lines c, us_eof = chunk_eof c\<rparr> r"
proof -
  let ?body = "map (\<lambda>(p, t). p # t) (chunk_lines c) @ (if chunk_eof c then [eof_marker] else []) @ r"
  let ?s = "(finish_chunk s)\<lparr>us_context := chunk_context c\<rparr>"
  have "parse_update s (print_chunk c @ r) = parse_update ?s ?body"
    using assms(1)
    by (cases "chunk_context c") (auto simp: print_chunk_def is_operation_marker_def marker_defs lit_def)
  also have "\<dots> = parse_update (?s\<lparr>us_changes := us_changes ?s @ chunk_lines c\<rparr>)
      ((if chunk_eof c then [eof_marker] else []) @ r)"
    using assms(2)
    by (intro parse_update_changes) (auto simp: finish_chunk_def plain_chunk_def list_all_iff)
  also have "\<dots> = parse_update (?s\<lparr>us_changes := us_changes ?s @ chunk_lines c, us_eof := chunk_eof c\<rparr>) r"
    by (auto simp: is_operation_marker_def marker_defs lit_def finish_chunk_def)
  finally show ?thesis by (simp add: finish_chunk_def)
qed

lemma parse_update_end: "ends_operation r \<Longrightarrow> parse_update s r = Inr (us_chunks (finish_chunk s), r)"
  by (cases r) (auto simp: ends_operation_def)

lemma parse_update_printed:
  "\<not> us_eof s \<Longrightarrow> list_all plain_chunk cs \<Longrightarrow> list_all (\<lambda>c. \<not> chunk_eof c) (butlast cs) \<Longrightarrow> ends_operation r \<Longrightarrow>
     parse_update s (concat (map print_chunk cs) @ r) = Inr (us_chunks (finish_chunk s) @ cs, r)"
proof (induction cs arbitrary: s)
  case Nil
  then show ?case by (simp add: parse_update_end)
next
  case (Cons c cs)
  let ?s = "\<lparr>us_chunks = us_chunks (finish_chunk s), us_context = chunk_context c,
             us_changes = chunk_lines c, us_eof = chunk_eof c\<rparr>"
  have step: "parse_update s (concat (map print_chunk (c # cs)) @ r) =
      parse_update ?s (concat (map print_chunk cs) @ r)"
    using Cons.prems by (simp add: parse_update_chunk)
  have fin: "us_chunks (finish_chunk ?s) = us_chunks (finish_chunk s) @ [c]"
    using Cons.prems(2) by (auto simp: finish_chunk_def plain_chunk_def)
  show ?case
  proof (cases cs)
    case Nil
    then show ?thesis using step fin Cons.prems(4) by (simp add: parse_update_end)
  next
    case (Cons c' cs')
    then have "\<not> us_eof ?s" using Cons.prems(3) by simp
    moreover have "list_all (\<lambda>c. \<not> chunk_eof c) (butlast cs)" using Cons.prems(3) Cons by simp
    ultimately show ?thesis using step fin Cons.IH [of ?s] Cons.prems by simp
  qed
qed

lemma parse_move_printed:
  "list_all plain_path (case m of None \<Rightarrow> [] | Some m \<Rightarrow> [m]) \<Longrightarrow>
   (m = None \<longrightarrow> r = [] \<or> \<not> startswith (hd r) move_marker) \<Longrightarrow>
     parse_move ((case m of None \<Rightarrow> [] | Some m \<Rightarrow> [move_marker @ m]) @ r) = Inr (m, r)"
  by (cases m; cases r) (auto simp: parse_move_def path_after_append)

lemma not_move_marker:
  "is_operation_marker l \<Longrightarrow> \<not> startswith l move_marker"
  "cs \<noteq> [] \<Longrightarrow> \<not> startswith (hd (concat (map print_chunk cs) @ r)) move_marker"
  by (auto simp: is_operation_marker_def marker_defs lit_def startswith_iff neq_Nil_conv print_chunk_def
      split: option.splits)

lemma parse_operation_printed:
  assumes "plain_operation p" "ends_operation r"
  shows "\<exists>m rest. print_operation p = m # rest \<and> is_operation_marker m \<and> parse_operation m (rest @ r) = Inr (p, r)"
proof (cases "po_kind p")
  case PatchAdd
  then show ?thesis
    using assms
    by (cases p) (auto simp: print_operation_def plain_operation_def parse_operation_def is_operation_marker_def
        path_after_append parse_added_printed blank_operation_def)
next
  case PatchDelete
  have "\<not> startswith (delete_marker @ x) add_marker" for x by (simp add: marker_defs lit_def)
  with PatchDelete show ?thesis
    using assms
    by (cases p) (auto simp: print_operation_def plain_operation_def parse_operation_def is_operation_marker_def
        path_after_append blank_operation_def)
next
  case PatchUpdate
  let ?chunks = "concat (map print_chunk (po_chunks p)) @ r"
  let ?mv = "case po_move_to p of None \<Rightarrow> [] | Some m \<Rightarrow> [move_marker @ m]"
  have neg: "\<not> startswith (update_marker @ x) add_marker" "\<not> startswith (update_marker @ x) delete_marker" for x
    by (simp_all add: marker_defs lit_def)
  have wf: "plain_path (po_path p)" "po_add_lines p = []" "po_chunks p \<noteq> [] \<or> po_move_to p \<noteq> None"
    "list_all plain_path (case po_move_to p of None \<Rightarrow> [] | Some m \<Rightarrow> [m])"
    "list_all plain_chunk (po_chunks p)" "list_all (\<lambda>c. \<not> chunk_eof c) (butlast (po_chunks p))"
    using assms(1) PatchUpdate by (auto simp: plain_operation_def)
  have "parse_move (?mv @ ?chunks) = Inr (po_move_to p, ?chunks)"
    using wf(3,4) by (intro parse_move_printed) (auto simp: not_move_marker)
  moreover have "parse_update update_start ?chunks = Inr (po_chunks p, r)"
    using parse_update_printed [of update_start "po_chunks p" r] wf assms(2)
    by (simp add: update_start_def finish_chunk_def)
  ultimately have "parse_operation (update_marker @ po_path p) (?mv @ ?chunks) = Inr (p, r)"
    using wf PatchUpdate
    by (cases p) (auto simp: parse_operation_def neg path_after_append blank_operation_def)
  then show ?thesis using PatchUpdate
    by (simp add: print_operation_def is_operation_marker_def)
qed

lemma parse_operations_printed:
  "list_all plain_operation ops \<Longrightarrow> parse_operations (concat (map print_operation ops)) = Inr ops"
proof (induction ops)
  case (Cons p ops)
  let ?r = "concat (map print_operation ops)"
  have "ends_operation ?r"
  proof (cases ops)
    case (Cons q qs)
    then have "plain_operation q" using Cons.prems by simp
    from parse_operation_printed [OF this, of "[]"] obtain m rest
      where "print_operation q = m # rest" "is_operation_marker m"
      by (auto simp: ends_operation_def)
    with Cons show ?thesis by (simp add: ends_operation_def)
  qed (simp add: ends_operation_def)
  with parse_operation_printed [of p ?r] Cons.prems obtain m rest
    where "print_operation p = m # rest" "parse_operation m (rest @ ?r) = Inr (p, ?r)"
    by auto
  with Cons show ?case by simp
qed simp

lemma drop_linebreak_line: "plain_text p \<Longrightarrow> drop_linebreak (p @ [10]) = p"
proof -
  assume p: "plain_text p"
  have "13 \<notin> set p"
  proof
    assume "13 \<in> set p"
    then have "\<not> is_linebreak 13" using p by (auto simp: plain_text_def list_all_iff)
    then show False by (simp add: is_linebreak_def)
  qed
  then have "\<not> endswith (p @ [10]) [13, 10]"
    by (cases p rule: rev_cases) (auto simp: endswith_def)
  then show ?thesis by (simp add: drop_linebreak_def is_linebreak_def)
qed

lemma drop_linebreak_plain: "plain_text p \<Longrightarrow> drop_linebreak p = p"
proof -
  assume p: "plain_text p"
  then have nb: "\<not> is_linebreak c" if "c \<in> set p" for c
    using that by (auto simp: plain_text_def list_all_iff)
  have "is_linebreak 10" by (simp add: is_linebreak_def)
  then have "\<not> endswith p [13, 10]"
    using nb [of 10] by (cases p rule: rev_cases) (auto simp: endswith_def)
  moreover have "\<not> is_linebreak (last p)" if "p \<noteq> []" using that nb by simp
  ultimately show ?thesis by (auto simp: drop_linebreak_def)
qed

lemma splitlines_join:
  "ls \<noteq> [] \<Longrightarrow> last ls \<noteq> [] \<Longrightarrow> list_all plain_text ls \<Longrightarrow> splitlines (join_on 10 ls) = ls"
proof (induction ls)
  case (Cons l ls)
  then have l: "plain_text l" by simp
  then have nb: "\<not> is_linebreak c" if "c \<in> set l" for c
    using that by (auto simp: plain_text_def list_all_iff)
  show ?case
  proof (cases "ls = []")
    case True
    then show ?thesis using Cons.prems l
      by (simp add: splitlines_def splitlines_keep_no_break [OF nb] drop_linebreak_plain)
  next
    case False
    then show ?thesis using Cons l
      by (simp add: splitlines_def splitlines_keep_line [OF nb] join_on_Cons drop_linebreak_line)
  qed
qed simp

lemma set_join_on_subset: "set (join_on c ls) \<subseteq> insert c (\<Union> (set ` set ls))"
proof (induction ls)
  case (Cons l ls)
  then show ?case by (cases ls) (auto simp: join_on_Cons)
qed simp

lemma normalize_newlines_id: "13 \<notin> set s \<Longrightarrow> normalize_newlines s = s"
  by (simp add: normalize_newlines_def replace_all_absent)

lemma plain_text_no_cr: "plain_text s \<Longrightarrow> 13 \<notin> set s"
proof
  assume "plain_text s" "13 \<in> set s"
  then have "\<not> is_linebreak 13" by (auto simp: plain_text_def list_all_iff)
  then show False by (simp add: is_linebreak_def)
qed

lemma normalize_join_plain: "list_all plain_text ls \<Longrightarrow> normalize_newlines (join_on 10 ls) = join_on 10 ls"
  using set_join_on_subset [of 10 ls] plain_text_no_cr
  by (intro normalize_newlines_id) (fastforce simp: list_all_iff)

lemma plain_text_append [simp]: "plain_text (s @ t) \<longleftrightarrow> plain_text s \<and> plain_text t"
  by (simp add: plain_text_def)

lemma plain_text_markers [simp]:
  "plain_text add_marker" "plain_text delete_marker" "plain_text update_marker" "plain_text move_marker"
  "plain_text eof_marker" "plain_text (lit ''@@'')" "plain_text (lit ''@@ '')"
  "plain_text (lit ''*** Begin Patch'')" "plain_text (lit ''*** End Patch'')"
  by code_simp+

lemma plain_text_change: "c \<in> set (lit ''+- '') \<Longrightarrow> plain_text (c # t) = plain_text t"
  by (auto simp: plain_text_def lit_def is_linebreak_def)

lemma plain_print_chunk: "plain_chunk c \<Longrightarrow> list_all plain_text (print_chunk c)"
  by (auto simp: plain_chunk_def print_chunk_def list_all_iff plain_text_change split: option.splits)

lemma plain_print_operation: "plain_operation p \<Longrightarrow> list_all plain_text (print_operation p)"
  using plain_print_chunk
  by (auto simp: plain_operation_def print_operation_def plain_path_def list_all_iff
      plain_text_change [of 43] lit_def split: patch_kind.splits option.splits)

text \<open>
  C34: printing a list of file operations in the patch language and parsing the text gives the same
  operations back.
\<close>

theorem parse_print_patch:
  assumes "ops \<noteq> []" and "list_all plain_operation ops"
  shows "parse_codex_patch (print_patch ops) = Inr ops"
proof -
  let ?ls = "lit ''*** Begin Patch'' # concat (map print_operation ops) @ [lit ''*** End Patch'']"
  have plain: "list_all plain_text ?ls"
    using assms(2) plain_print_operation by (fastforce simp: list_all_iff)
  have lines: "splitlines (normalize_newlines (print_patch ops)) = ?ls"
    unfolding print_patch_def normalize_join_plain [OF plain]
    using plain by (intro splitlines_join) auto
  have "strip (lit ''*** Begin Patch'') = lit ''*** Begin Patch''"
    "strip (lit ''*** End Patch'') = lit ''*** End Patch''"
    by code_simp+
  then show ?thesis
    using assms by (simp add: parse_codex_patch_def lines parse_operations_printed butlast_append)
qed

definition sample_patch :: "patch_operation list" where
  "sample_patch =
     [\<lparr>po_kind = PatchUpdate, po_path = lit ''src/a.py'', po_move_to = Some (lit ''src/b.py''),
       po_add_lines = [],
       po_chunks = [\<lparr>chunk_context = Some (lit ''def f():''),
                     chunk_lines = [(45, lit ''  return 1''), (43, lit ''  return 2'')], chunk_eof = True\<rparr>]\<rparr>,
      \<lparr>po_kind = PatchAdd, po_path = lit ''new.txt'', po_move_to = None,
       po_add_lines = [lit ''hello''], po_chunks = []\<rparr>]"

theorem parse_print_patch_witness: "parse_codex_patch (print_patch sample_patch) = Inr sample_patch"
proof -
  have "sample_patch \<noteq> []" "list_all plain_operation sample_patch" by code_simp+
  then show ?thesis by (rule parse_print_patch)
qed

section \<open>Matching: the strictest reading, leftmost\<close>

definition seq_match :: "pystr list \<Rightarrow> pystr list \<Rightarrow> nat \<Rightarrow> nat \<Rightarrow> bool" where
  "seq_match lines needle mode i =
     (map (line_form mode) (take (length needle) (drop i lines)) = map (line_form mode) needle)"

definition seq_candidate :: "pystr list \<Rightarrow> pystr list \<Rightarrow> nat \<Rightarrow> bool \<Rightarrow> nat \<Rightarrow> bool" where
  "seq_candidate lines needle start at_end i =
     (start \<le> i \<and> i + length needle \<le> length lines \<and> (at_end \<longrightarrow> i + length needle = length lines))"

lemma find_by_mode_None:
  "find_by_mode ok cs = None \<longleftrightarrow> (\<forall>m<4. \<forall>i \<in> set cs. \<not> ok m i)"
proof -
  have "find_by_mode ok cs = None \<longleftrightarrow> filter (\<lambda>(m, i). ok m i) (List.product [0..<4] cs) = []"
    by (auto simp: find_by_mode_def split: list.splits)
  also have "\<dots> \<longleftrightarrow> (\<forall>m<4. \<forall>i \<in> set cs. \<not> ok m i)"
    by (auto simp: filter_empty_conv simp del: upt_Suc upt_rec_numeral)
  finally show ?thesis .
qed

lemma sorted_product:
  "sorted_wrt (<) ms \<Longrightarrow> sorted_wrt (<) cs \<Longrightarrow>
     sorted_wrt (\<lambda>(m, i) (m', i'). m < m' \<or> m = m' \<and> i < i') (List.product ms (cs :: nat list) :: (nat \<times> nat) list)"
  by (induction ms) (auto simp: sorted_wrt_append sorted_wrt_map)

lemma find_by_mode_Some:
  assumes "find_by_mode ok cs = Some i" and sorted: "sorted_wrt (<) cs"
  shows "\<exists>m<4. i \<in> set cs \<and> ok m i \<and>
    (\<forall>m' i'. i' \<in> set cs \<and> (m' < m \<or> m' = m \<and> i' < i) \<longrightarrow> \<not> ok m' i')"
proof -
  let ?ps = "List.product [0..<4] cs"
  let ?P = "\<lambda>(m, i). ok m i"
  from assms(1) obtain m rest where f: "filter ?P ?ps = (m, i) # rest"
    by (auto simp: find_by_mode_def split: list.splits)
  then obtain us vs where ps: "?ps = us @ (m, i) # vs" and us: "\<forall>u \<in> set us. \<not> ?P u" and ok: "ok m i"
    by (auto simp: filter_eq_Cons_iff)
  have "sorted_wrt (\<lambda>(m, i) (m', i'). m < m' \<or> m = m' \<and> i < i') (us @ (m, i) # vs)"
    using sorted_product [OF _ sorted, of "[0..<4]"] by (simp add: ps [symmetric])
  then have after: "m < m' \<or> m = m' \<and> i < i'" if "(m', i') \<in> set vs" for m' i'
    using that by (auto simp: sorted_wrt_append)
  have mem: "(m, i) \<in> set ?ps" using ps by (metis in_set_conv_decomp)
  have "\<not> ok m' i'" if "i' \<in> set cs" "m' < m \<or> m' = m \<and> i' < i" for m' i'
  proof -
    have "(m', i') \<in> set ?ps" using that mem by auto
    then have "(m', i') \<in> set us" using ps that after [of m' i'] by auto
    then show ?thesis using us by auto
  qed
  then show ?thesis using mem ok by auto
qed

lemma find_sequence_spec:
  "case find_sequence lines needle start at_end of
     None \<Rightarrow> \<forall>m<4. \<forall>i. seq_candidate lines needle start at_end i \<longrightarrow> \<not> seq_match lines needle m i
   | Some (i, j) \<Rightarrow> j = i + length needle \<and> seq_candidate lines needle start at_end i \<and>
       (\<exists>m<4. seq_match lines needle m i \<and>
          (\<forall>m' i'. seq_candidate lines needle start at_end i' \<and> (m' < m \<or> m' = m \<and> i' < i) \<longrightarrow>
             \<not> seq_match lines needle m' i'))"
proof (cases "length needle > length lines")
  case True
  then show ?thesis by (simp add: find_sequence_def seq_candidate_def)
next
  case False
  define cs where "cs = (if at_end then [length lines - length needle] else [start..<length lines - length needle + 1])"
  define ok where "ok = (\<lambda>m i. start \<le> i \<and> seq_match lines needle m i)"
  have eq: "find_sequence lines needle start at_end = map_option (\<lambda>i. (i, i + length needle)) (find_by_mode ok cs)"
    using False by (simp add: find_sequence_def seq_match_def Let_def cs_def ok_def)
  have cand: "seq_candidate lines needle start at_end i \<longleftrightarrow> i \<in> set cs \<and> start \<le> i" for i
    using False by (auto simp: seq_candidate_def cs_def)
  have sorted: "sorted_wrt (<) cs" by (simp add: cs_def del: upt_Suc)
  show ?thesis
  proof (cases "find_by_mode ok cs")
    case None
    then have "\<forall>m<4. \<forall>i \<in> set cs. \<not> ok m i" by (simp only: find_by_mode_None)
    then show ?thesis using None by (auto simp: eq cand ok_def)
  next
    case (Some i)
    from find_by_mode_Some [OF Some sorted] obtain m where m: "m < 4" "i \<in> set cs" "ok m i"
      "\<And>m' i'. i' \<in> set cs \<Longrightarrow> m' < m \<or> m' = m \<and> i' < i \<Longrightarrow> \<not> ok m' i'" by blast
    have "\<not> seq_match lines needle m' i'"
      if "seq_candidate lines needle start at_end i'" "m' < m \<or> m' = m \<and> i' < i" for m' i'
      using that m(4) [of i' m'] by (simp add: cand ok_def)
    then show ?thesis unfolding eq Some using m(1-3) by (auto simp: cand ok_def)
  qed
qed

section \<open>Applying chunks\<close>

lemma find_sequence_bounds:
  "find_sequence lines needle start at_end = Some (i, j) \<Longrightarrow> start \<le> i \<and> i \<le> j \<and> j \<le> length lines"
  using find_sequence_spec [of lines needle start at_end] by (auto simp: seq_candidate_def)

lemma find_line_bounds: "find_line lines c start = Some i \<Longrightarrow> start \<le> i \<and> i < length lines"
  unfolding find_line_def by (drule find_by_mode_Some) auto

lemma chunk_hint_bounds:
  "chunk_hint path n lines cur c = Inr h \<Longrightarrow> cur \<le> length lines \<Longrightarrow> cur \<le> h \<and> h \<le> length lines"
  by (auto simp: chunk_hint_def Suc_le_eq dest!: find_line_bounds split: option.splits)

lemma chunk_range_bounds:
  "chunk_range path n lines h c = Inr (i, j) \<Longrightarrow> h \<le> length lines \<Longrightarrow> h \<le> i \<and> i \<le> j \<and> j \<le> length lines"
  by (auto simp: chunk_range_def Let_def dest!: find_sequence_bounds split: if_splits option.splits)

text \<open>
  A chunk is placed at or after the end of the previous one: whatever the chunks are, the lines
  before the cursor come out unchanged.
\<close>

theorem applied_prefix_untouched:
  "apply_chunks path n chunks lines cursor = Inr out \<Longrightarrow> cursor \<le> length lines \<Longrightarrow>
     cursor \<le> length out \<and> take cursor out = take cursor lines"
proof (induction chunks arbitrary: n lines cursor)
  case (Cons c chunks)
  from Cons.prems(1) obtain h i j where h: "chunk_hint path n lines cursor c = Inr h"
    and r: "chunk_range path n lines h c = Inr (i, j)"
    and rest: "apply_chunks path (n + 1) chunks (slice_assign (i, j, new_lines c) lines) (i + length (new_lines c)) = Inr out"
    by (auto elim!: rbindE)
  have b: "cursor \<le> i" "i \<le> j" "j \<le> length lines"
    using chunk_hint_bounds [OF h Cons.prems(2)] chunk_range_bounds [OF r] by auto
  let ?l = "slice_assign (i, j, new_lines c) lines"
  have "i + length (new_lines c) \<le> length out \<and>
      take (i + length (new_lines c)) out = take (i + length (new_lines c)) ?l"
    using b by (intro Cons.IH [OF rest]) (simp add: slice_assign_def)
  then have len: "i + length (new_lines c) \<le> length out"
    and eq: "take (i + length (new_lines c)) out = take (i + length (new_lines c)) ?l" by blast+
  from eq have "take cursor (take (i + length (new_lines c)) out) = take cursor (take (i + length (new_lines c)) ?l)"
    by (rule arg_cong)
  then have "take cursor out = take cursor ?l" using b(1) by (simp add: min_absorb1 trans_le_add1)
  moreover have "take cursor ?l = take cursor lines" using b by (simp add: slice_assign_def min_def)
  ultimately show ?case using b(1) len by simp
qed simp

theorem applied_prefix_untouched_witness:
  "apply_chunks [] 1 [\<lparr>chunk_context = None, chunk_lines = [(45, lit ''a''), (43, lit ''B'')], chunk_eof = False\<rparr>]
       [lit ''a'', lit ''a''] 1 = Inr [lit ''a'', lit ''B''] \<and>
   take 1 [lit ''a'', lit ''B''] = take 1 [lit ''a'', lit ''a'']"
proof -
  have run: "apply_chunks [] 1 [\<lparr>chunk_context = None, chunk_lines = [(45, lit ''a''), (43, lit ''B'')], chunk_eof = False\<rparr>]
       [lit ''a'', lit ''a''] 1 = Inr [lit ''a'', lit ''B'']"
    by code_simp
  show ?thesis using run applied_prefix_untouched [OF run] by simp
qed

text \<open>A file cut into the regions the chunks replace and the text between them.\<close>

type_synonym patch_layout = "(pystr list \<times> patch_chunk) list"

fun layout_before :: "patch_layout \<Rightarrow> pystr list \<Rightarrow> pystr list" where
  "layout_before [] rest = rest"
| "layout_before ((gap, c) # segs) rest = gap @ old_lines c @ layout_before segs rest"

fun layout_after :: "patch_layout \<Rightarrow> pystr list \<Rightarrow> pystr list" where
  "layout_after [] rest = rest"
| "layout_after ((gap, c) # segs) rest = gap @ new_lines c @ layout_after segs rest"

fun layout_unique :: "patch_layout \<Rightarrow> pystr list \<Rightarrow> bool" where
  "layout_unique [] rest = True"
| "layout_unique ((gap, c) # segs) rest =
     (old_lines c \<noteq> [] \<and> chunk_context c = None \<and> \<not> chunk_eof c \<and>
      list_all (\<lambda>i. \<not> seq_match (gap @ old_lines c @ layout_before segs rest) (old_lines c) 0 i) [0..<length gap] \<and>
      layout_unique segs rest)"

definition text_of_lines :: "pystr list \<Rightarrow> pystr" where
  "text_of_lines lines = join_on 10 lines @ [10]"

lemma seq_match_shift: "seq_match (pre @ lines) needle m (length pre + i) = seq_match lines needle m i"
  by (simp add: seq_match_def)

lemma seq_match_here: "seq_match (gap @ needle @ rest) needle m (length gap)"
  by (simp add: seq_match_def)

lemma find_sequence_first:
  assumes "\<And>i. i < length gap \<Longrightarrow> \<not> seq_match (gap @ needle @ rest) needle 0 i"
  shows "find_sequence (pre @ gap @ needle @ rest) needle (length pre) False =
    Some (length pre + length gap, length pre + length gap + length needle)"
proof -
  let ?ls = "pre @ gap @ needle @ rest"
  let ?k = "length pre + length gap"
  have here: "seq_match ?ls needle 0 ?k" "seq_candidate ?ls needle (length pre) False ?k"
    using seq_match_shift [of pre] seq_match_here by (simp_all add: seq_candidate_def)
  have early: "\<not> seq_match ?ls needle 0 i" if "length pre \<le> i" "i < ?k" for i
    using that assms [of "i - length pre"] seq_match_shift [of pre _ _ _ "i - length pre"] by simp
  have spec: "case find_sequence ?ls needle (length pre) False of
     None \<Rightarrow> False | Some (i, j) \<Rightarrow> i = ?k \<and> j = i + length needle"
    using find_sequence_spec [of ?ls needle "length pre" False] here early
    by (auto simp del: append_assoc split: option.splits)
      (metis bot_nat_0.not_eq_extremum linorder_neqE_nat seq_candidate_def)
  then show ?thesis by (auto split: option.splits)
qed

lemma apply_chunks_layout:
  "layout_unique segs rest \<Longrightarrow>
     apply_chunks path n (map snd segs) (pre @ layout_before segs rest) (length pre) = Inr (pre @ layout_after segs rest)"
proof (induction segs arbitrary: n pre)
  case (Cons seg segs)
  obtain gap c where seg: "seg = (gap, c)" by (cases seg)
  let ?rest = "layout_before segs rest"
  have ok: "old_lines c \<noteq> []" "chunk_context c = None" "\<not> chunk_eof c" "layout_unique segs rest"
    and uniq: "\<And>i. i < length gap \<Longrightarrow> \<not> seq_match (gap @ old_lines c @ ?rest) (old_lines c) 0 i"
    using Cons.prems by (auto simp: seg list_all_iff)
  have "slice_assign (length pre + length gap, length pre + length gap + length (old_lines c), new_lines c)
      (pre @ gap @ old_lines c @ ?rest) = (pre @ gap @ new_lines c) @ ?rest"
    by (simp add: slice_assign_def)
  moreover have "apply_chunks path (n + 1) (map snd segs) ((pre @ gap @ new_lines c) @ ?rest)
      (length pre + length gap + length (new_lines c)) = Inr (pre @ layout_after (seg # segs) rest)"
    using Cons.IH [OF ok(4), of "n + 1" "pre @ gap @ new_lines c"] by (simp add: seg add.assoc)
  ultimately show ?case
    using find_sequence_first [OF uniq, of pre] ok
    by (simp add: seg chunk_hint_def chunk_range_def)
qed simp

lemma count_sub_absent: "c \<notin> set s \<Longrightarrow> c \<in> set p \<Longrightarrow> count_sub p s = 0"
proof (induction p s rule: count_sub.induct)
  case (2 old x xs)
  then have "\<not> startswith (x # xs) old" by (metis startswith_iff in_set_conv_decomp append_Cons append_assoc)
  with 2 show ?case by simp
qed simp

lemma split_text_of_lines:
  "ls \<noteq> [] \<Longrightarrow> list_all (\<lambda>l. 10 \<notin> set l) ls \<Longrightarrow> split_on 10 (text_of_lines ls) = ls @ [[]]"
proof -
  assume a: "ls \<noteq> []" "list_all (\<lambda>l. 10 \<notin> set l) ls"
  then have "text_of_lines ls = join_on 10 (ls @ [[]])"
  proof (induction ls)
    case (Cons l ls)
    then show ?case by (cases ls) (auto simp: text_of_lines_def join_on_Cons)
  qed simp
  moreover have "split_on 10 (join_on 10 (ls @ [[]])) = ls @ [[]]"
    using a(2) by (intro split_join_on) (auto simp: list_all_iff)
  ultimately show ?thesis by simp
qed

lemma dominant_ending_lf: "13 \<notin> set s \<Longrightarrow> dominant_ending s = [10]"
  by (simp add: dominant_ending_def Let_def count_sub_absent [of 13])



text \<open>
  A chunk with old lines is placed by the strictest reading that matches anywhere at or after the
  hint (exact, trailing blanks ignored, outer blanks ignored, quotes folded), leftmost within it; it
  is refused only when no reading matches at any admissible place.
\<close>

theorem chunk_range_strictest_leftmost:
  assumes "old_lines c \<noteq> []"
  shows "case chunk_range path n lines hint c of
     Inl e \<Rightarrow> e = ChunkMismatch n path (take 5 (old_lines c)) \<and>
       (\<forall>m<4. \<forall>i. seq_candidate lines (old_lines c) hint (chunk_eof c) i \<longrightarrow> \<not> seq_match lines (old_lines c) m i)
   | Inr (i, j) \<Rightarrow> j = i + length (old_lines c) \<and> seq_candidate lines (old_lines c) hint (chunk_eof c) i \<and>
       (\<exists>m<4. seq_match lines (old_lines c) m i \<and>
          (\<forall>m' i'. seq_candidate lines (old_lines c) hint (chunk_eof c) i' \<and> (m' < m \<or> m' = m \<and> i' < i) \<longrightarrow>
             \<not> seq_match lines (old_lines c) m' i'))"
  using assms find_sequence_spec [of lines "old_lines c" hint "chunk_eof c"]
  by (cases "find_sequence lines (old_lines c) hint (chunk_eof c)") (auto simp: chunk_range_def)

theorem chunk_range_strictest_leftmost_witness:
  "\<not> seq_match [lit ''a '', lit ''a''] [lit ''a''] 0 0"
proof -
  let ?c = "\<lparr>chunk_context = None, chunk_lines = [(45, lit ''a'')], chunk_eof = False\<rparr>"
  let ?ls = "[lit ''a '', lit ''a'']"
  have old: "old_lines ?c = [lit ''a'']" and ne: "old_lines ?c \<noteq> []" by code_simp+
  have run: "chunk_range [] 1 ?ls 0 ?c = Inr (1, 2)" by code_simp
  have "seq_candidate ?ls (old_lines ?c) 0 (chunk_eof ?c) 0" by code_simp
  then show ?thesis
    using chunk_range_strictest_leftmost [OF ne, where path = "[]" and n = 1 and lines = ?ls and hint = 0] unfolding run old
    by (auto dest!: spec [of _ 0])
qed

end
