(* ===== verification/Permissions.thy ===== *)
theory Permissions
  imports Kolega_Prelude Codex_Patch
begin

text \<open>
  Project-local permission rules, \<open>kolega_code/permissions.py\<close>; the permission callback of a session,
  \<open>kolega_code/session/runtime.py\<close>; and the gate in front of a tool call,
  \<open>BaseAgent.execute_single_tool\<close> of \<open>kolega_code/agent/baseagent.py\<close>.

  Parameters: \<open>repr\<close>, the text of floats and containers under \<open>str()\<close>; \<open>casefold\<close>, Unicode case folding
  (\<open>str.casefold\<close>); \<open>lower\<close>, \<open>str.lower\<close>; \<open>mint\<close>, the identifiers and times that
  \<open>PermissionRule.create\<close> draws, by the number of the creation within one call. The rule file is a
  value: absent, unreadable, not text, not JSON, or a JSON document.
\<close>

section \<open>Requests and rules\<close>

datatype permission_mode = AUTO | ASK

datatype permission_kind = COMMAND | EDIT | MCP | MESSAGE

definition kind_value :: "permission_kind \<Rightarrow> pystr" where
  "kind_value k =
     (case k of COMMAND \<Rightarrow> lit ''command'' | EDIT \<Rightarrow> lit ''edit'' | MCP \<Rightarrow> lit ''mcp'' | MESSAGE \<Rightarrow> lit ''message'')"

definition kind_of_value :: "pystr \<Rightarrow> permission_kind option" where
  "kind_of_value s =
     (if s = lit ''command'' then Some COMMAND else if s = lit ''edit'' then Some EDIT
      else if s = lit ''mcp'' then Some MCP else if s = lit ''message'' then Some MESSAGE else None)"

type_synonym pydict = "(pystr \<times> json) list"

definition command_permission_tools :: "pystr list" where
  "command_permission_tools = map lit [''execute_terminal_command'', ''exec_command'', ''eval'']"

definition edit_permission_tools :: "pystr list" where
  "edit_permission_tools = map lit [''edit'', ''apply_patch'', ''lsp_edit'', ''multi_edit'', ''resolve'', ''write'']"

definition message_permission_tools :: "pystr list" where
  "message_permission_tools = [lit ''send_message'']"

record permission_request =
  rq_kind :: permission_kind
  rq_tool :: pystr
  rq_inputs :: pydict
  rq_command :: pystr
  rq_path :: pystr
  rq_server :: pystr
  rq_mcp_tool :: pystr

definition request_summary :: "permission_request \<Rightarrow> pystr" where
  "request_summary r =
     (if rq_kind r = COMMAND then rq_command r
      else if rq_kind r = MCP then
        (if rq_server r \<noteq> [] then rq_server r @ lit ''/'' @ rq_mcp_tool r else rq_tool r)
      else if rq_kind r = MESSAGE then rq_command r
      else if rq_path r \<noteq> [] then rq_tool r @ lit '' '' @ rq_path r
      else rq_tool r)"

record permission_rule =
  ru_id :: pystr
  ru_kind :: permission_kind
  ru_tool :: pystr
  ru_match :: pystr
  ru_pattern :: pystr
  ru_created :: pystr

type_synonym minter = "nat \<Rightarrow> pystr \<times> pystr"

definition create_rule ::
  "minter \<Rightarrow> nat \<Rightarrow> permission_kind \<Rightarrow> pystr \<Rightarrow> pystr \<Rightarrow> pystr \<Rightarrow> permission_rule" where
  "create_rule mint n kind tool match_type pattern =
     \<lparr>ru_id = fst (mint n), ru_kind = kind, ru_tool = tool, ru_match = match_type,
      ru_pattern = pattern, ru_created = snd (mint n)\<rparr>"

text \<open>
  Errors: \<open>PermissionStoreError\<close> with its cause, and the exceptions of the same code that are not
  one (an attribute error on a document that is not an object, a decoding error of the file).
\<close>

datatype store_error =
    CouldNotRead
  | NotValidJson
  | UnsupportedSchema json
  | RulesNotArray
  | RuleMalformed
  | CouldNotWrite

datatype perm_exc = StoreError store_error | AttributeError | DecodeError | KindValueError

definition rule_from_dict :: "(json \<Rightarrow> pystr) \<Rightarrow> json \<Rightarrow> perm_exc + permission_rule" where
  "rule_from_dict repr data =
     (case data of
        JObj d \<Rightarrow>
          (case (dict_get d (lit ''id''), dict_get d (lit ''kind''), dict_get d (lit ''match_type''),
                 dict_get d (lit ''pattern''), dict_get d (lit ''created_at'')) of
             (Some i, Some k, Some m, Some p, Some c) \<Rightarrow>
               (case kind_of_value (py_str repr k) of
                  Some kind \<Rightarrow>
                    Inr \<lparr>ru_id = py_str repr i, ru_kind = kind,
                         ru_tool = str_or_empty repr (json_get d (lit ''tool'')),
                         ru_match = py_str repr m, ru_pattern = py_str repr p, ru_created = py_str repr c\<rparr>
                | None \<Rightarrow> Inl (StoreError RuleMalformed))
           | _ \<Rightarrow> Inl (StoreError RuleMalformed))
      | _ \<Rightarrow> Inl (StoreError RuleMalformed))"

definition rule_to_dict :: "permission_rule \<Rightarrow> pydict" where
  "rule_to_dict r =
     [(lit ''id'', JStr (ru_id r)), (lit ''kind'', JStr (kind_value (ru_kind r))),
      (lit ''tool'', JStr (ru_tool r)), (lit ''match_type'', JStr (ru_match r)),
      (lit ''pattern'', JStr (ru_pattern r)), (lit ''created_at'', JStr (ru_created r))]"

section \<open>Shell words\<close>

text \<open>
  \<open>shlex.split\<close> in POSIX mode: between words, inside a word, inside quotes, after a backslash (with
  the state to return to).
\<close>

datatype shlex_state = InSpace | InWord | InQuote nat | InEscape "nat option"

fun shlex_run :: "shlex_state \<Rightarrow> bool \<Rightarrow> pystr \<Rightarrow> pystr \<Rightarrow> pystr list option" where
  "shlex_run InSpace quoted tok [] = Some []"
| "shlex_run InWord quoted tok [] = Some (if tok \<noteq> [] \<or> quoted then [tok] else [])"
| "shlex_run (InQuote q) quoted tok [] = None"
| "shlex_run (InEscape q) quoted tok [] = None"
| "shlex_run InSpace quoted tok (c # cs) =
     (if c \<in> {32, 9, 13, 10} then shlex_run InSpace False [] cs
      else if c = 92 then shlex_run (InEscape None) False [] cs
      else if c \<in> {39, 34} then shlex_run (InQuote c) False [] cs
      else shlex_run InWord False [c] cs)"
| "shlex_run InWord quoted tok (c # cs) =
     (if c \<in> {32, 9, 13, 10} then
        (if tok \<noteq> [] \<or> quoted then map_option ((#) tok) (shlex_run InSpace False [] cs)
         else shlex_run InSpace quoted tok cs)
      else if c \<in> {39, 34} then shlex_run (InQuote c) quoted tok cs
      else if c = 92 then shlex_run (InEscape None) quoted tok cs
      else shlex_run InWord quoted (tok @ [c]) cs)"
| "shlex_run (InQuote q) quoted tok (c # cs) =
     (if c = q then shlex_run InWord True tok cs
      else if c = 92 \<and> q = 34 then shlex_run (InEscape (Some q)) True tok cs
      else shlex_run (InQuote q) True (tok @ [c]) cs)"
| "shlex_run (InEscape back_to) quoted tok (c # cs) =
     (case back_to of
        None \<Rightarrow> shlex_run InWord quoted (tok @ [c]) cs
      | Some q \<Rightarrow> shlex_run (InQuote q) quoted (if c \<noteq> 92 \<and> c \<noteq> q then tok @ [92, c] else tok @ [c]) cs)"

definition shell_tokens :: "pystr \<Rightarrow> pystr list" where
  "shell_tokens command =
     (case shlex_run InSpace False [] command of Some ts \<Rightarrow> ts | None \<Rightarrow> split_ws command)"

definition first_shell_token :: "pystr \<Rightarrow> pystr" where
  "first_shell_token command = (case shell_tokens command of [] \<Rightarrow> [] | t # _ \<Rightarrow> t)"

section \<open>Matching\<close>

definition matches_command :: "pystr \<Rightarrow> pystr \<Rightarrow> pystr \<Rightarrow> bool" where
  "matches_command match_type pattern command =
     (if match_type = lit ''exact'' then command = pattern
      else if match_type = lit ''prefix'' then command = pattern \<or> startswith command (pattern @ lit '' '')
      else if match_type = lit ''executable'' then first_shell_token command = pattern
      else False)"

definition matches_edit :: "permission_rule \<Rightarrow> permission_request \<Rightarrow> bool" where
  "matches_edit rule request =
     (if ru_match rule = lit ''tool'' then ru_pattern rule \<in> {lit ''*'', rq_tool request}
      else if ru_match rule = lit ''path'' then rq_path request \<noteq> [] \<and> rq_path request = ru_pattern rule
      else False)"

definition matches_mcp :: "permission_rule \<Rightarrow> permission_request \<Rightarrow> bool" where
  "matches_mcp rule request =
     (if ru_match rule = lit ''tool'' then ru_pattern rule \<in> {lit ''*'', rq_tool request}
      else if ru_match rule = lit ''server'' then rq_server request \<noteq> [] \<and> rq_server request = ru_pattern rule
      else False)"

definition matches_message ::
  "(json \<Rightarrow> pystr) \<Rightarrow> (pystr \<Rightarrow> pystr) \<Rightarrow> permission_rule \<Rightarrow> permission_request \<Rightarrow> bool" where
  "matches_message repr casefold rule request =
     (if ru_match rule = lit ''tool'' then ru_pattern rule \<in> {lit ''*'', rq_tool request}
      else if ru_match rule = lit ''recipient'' then
        (let recipient = casefold (strip (str_or_empty repr (json_get (rq_inputs request) (lit ''recipient''))))
         in recipient \<noteq> [] \<and> recipient = casefold (strip (ru_pattern rule)))
      else False)"

definition rule_matches ::
  "(json \<Rightarrow> pystr) \<Rightarrow> (pystr \<Rightarrow> pystr) \<Rightarrow> permission_rule \<Rightarrow> permission_request \<Rightarrow> bool" where
  "rule_matches repr casefold rule request =
     (if ru_kind rule \<noteq> rq_kind request then False
      else if ru_tool rule \<noteq> [] \<and> ru_tool rule \<noteq> lit ''*'' \<and> ru_tool rule \<noteq> rq_tool request then False
      else if ru_kind rule = COMMAND then matches_command (ru_match rule) (ru_pattern rule) (rq_command request)
      else if ru_kind rule = MCP then matches_mcp rule request
      else if ru_kind rule = MESSAGE then matches_message repr casefold rule request
      else matches_edit rule request)"

definition same_rule :: "permission_rule \<Rightarrow> permission_rule \<Rightarrow> bool" where
  "same_rule left right =
     (ru_kind left = ru_kind right \<and> ru_tool left = ru_tool right \<and>
      ru_match left = ru_match right \<and> ru_pattern left = ru_pattern right)"

section \<open>The rule file\<close>

datatype rule_file = FileAbsent | FileUnreadable | FileNotText | FileNotJson | FileJson json

definition permissions_schema_version :: int where "permissions_schema_version = 1"

definition store_load :: "(json \<Rightarrow> pystr) \<Rightarrow> rule_file \<Rightarrow> perm_exc + permission_rule list" where
  "store_load repr file =
     (case file of
        FileAbsent \<Rightarrow> Inr []
      | FileUnreadable \<Rightarrow> Inl (StoreError CouldNotRead)
      | FileNotText \<Rightarrow> Inl DecodeError
      | FileNotJson \<Rightarrow> Inl (StoreError NotValidJson)
      | FileJson data \<Rightarrow>
          (case data of
             JObj d \<Rightarrow>
               if \<not> json_eq_int (json_get d (lit ''schema_version'')) permissions_schema_version
               then Inl (StoreError (UnsupportedSchema (json_get d (lit ''schema_version''))))
               else (case json_get d (lit ''rules'') of
                       JList raw \<Rightarrow> traverse (rule_from_dict repr) raw
                     | _ \<Rightarrow> Inl (StoreError RulesNotArray))
           | _ \<Rightarrow> Inl AttributeError))"

text \<open>Saving replaces the file atomically, or fails and leaves it as it was.\<close>

definition store_save :: "bool \<Rightarrow> permission_rule list \<Rightarrow> rule_file \<Rightarrow> (perm_exc + unit) \<times> rule_file" where
  "store_save can_write rules file =
     (if \<not> can_write then (Inl (StoreError CouldNotWrite), file)
      else (Inr (),
            FileJson (JObj [(lit ''schema_version'', JInt permissions_schema_version),
                            (lit ''rules'', JList (map (\<lambda>r. JObj (rule_to_dict r)) rules))])))"

definition add_rule ::
  "(json \<Rightarrow> pystr) \<Rightarrow> bool \<Rightarrow> permission_rule \<Rightarrow> rule_file \<Rightarrow> (perm_exc + unit) \<times> rule_file" where
  "add_rule repr can_write rule file =
     (case store_load repr file of
        Inl e \<Rightarrow> (Inl e, file)
      | Inr rules \<Rightarrow>
          store_save can_write
            (if list_ex (\<lambda>existing. same_rule existing rule) rules then rules else rules @ [rule]) file)"

definition first_match ::
  "(json \<Rightarrow> pystr) \<Rightarrow> (pystr \<Rightarrow> pystr) \<Rightarrow> permission_request \<Rightarrow> rule_file \<Rightarrow> perm_exc + permission_rule option" where
  "first_match repr casefold request file =
     rbind (store_load repr file) (\<lambda>rules. Inr (find (\<lambda>rule. rule_matches repr casefold rule request) rules))"

section \<open>Requests from tool calls\<close>

definition message_summary :: "pystr \<Rightarrow> pystr \<Rightarrow> pystr" where
  "message_summary recipient text =
     (let lines = splitlines (strip text);
          preview = (if lines \<noteq> [] then strip (hd lines) else []);
          preview = (if length preview > 80 then take 77 preview @ lit ''...'' else preview)
      in if recipient = [] then preview
         else if preview \<noteq> [] then lit ''to '' @ recipient @ lit '': '' @ preview
         else lit ''to '' @ recipient)"

definition mcp_target_from_tool_name :: "pystr \<Rightarrow> (pystr \<times> pystr) option" where
  "mcp_target_from_tool_name tool_name =
     (if \<not> startswith tool_name (lit ''mcp__'') then None
      else (case split_first (lit ''__'') (drop 5 tool_name) of
              None \<Rightarrow> None
            | Some (server_id, mcp_tool) \<Rightarrow>
                if server_id = [] \<or> mcp_tool = [] then None else Some (server_id, mcp_tool)))"

definition patch_paths :: "patch_operation list \<Rightarrow> pystr list" where
  "patch_paths ops =
     dedup (concat (map (\<lambda>p. po_path p # (case po_move_to p of None \<Rightarrow> [] | Some m \<Rightarrow> [m])) ops))"

definition path_from_edit_inputs :: "(json \<Rightarrow> pystr) \<Rightarrow> pydict \<Rightarrow> pystr \<Rightarrow> pystr" where
  "path_from_edit_inputs repr inputs tool_name =
     (if tool_name = lit ''apply_patch'' then
        (case json_get inputs (lit ''input'') of
           JStr raw \<Rightarrow>
             (case parse_codex_patch raw of
                Inl e \<Rightarrow> []
              | Inr ops \<Rightarrow> (case patch_paths ops of [p] \<Rightarrow> p | _ \<Rightarrow> []))
         | _ \<Rightarrow> [])
      else
        (let value = (if json_get inputs (lit ''path'') \<noteq> JNull then json_get inputs (lit ''path'')
                      else json_get inputs (lit ''file_path''));
             path = (if value \<noteq> JNull then strip (py_str repr value) else [])
         in if tool_name = lit ''edit'' \<and> truthy (json_get inputs (lit ''rename'')) then
              path @ lit '' -> '' @ strip (py_str repr (json_get inputs (lit ''rename'')))
            else if json_get inputs (lit ''operation'') = JStr (lit ''rename_file'') \<and>
                    truthy (json_get inputs (lit ''new_path'')) then
              path @ lit '' -> '' @ strip (py_str repr (json_get inputs (lit ''new_path'')))
            else path))"

definition blank_request :: "permission_kind \<Rightarrow> pystr \<Rightarrow> pydict \<Rightarrow> permission_request" where
  "blank_request kind tool_name inputs =
     \<lparr>rq_kind = kind, rq_tool = tool_name, rq_inputs = inputs, rq_command = [], rq_path = [],
      rq_server = [], rq_mcp_tool = []\<rparr>"

definition permission_request_for_tool ::
  "(json \<Rightarrow> pystr) \<Rightarrow> pystr \<Rightarrow> pydict \<Rightarrow> permission_request option" where
  "permission_request_for_tool repr tool_name inputs =
     (if tool_name = lit ''eval'' then
        (let language = strip (str_or_empty repr (json_get inputs (lit ''language'')));
             language = (if language = [] then lit ''?'' else language);
             code = strip (str_or_empty repr (json_get inputs (lit ''code'')))
         in Some ((blank_request COMMAND tool_name inputs)
                   \<lparr>rq_command := lit ''['' @ language @ lit ''] '' @ code\<rparr>))
      else if tool_name \<in> set command_permission_tools then
        Some ((blank_request COMMAND tool_name inputs)
               \<lparr>rq_command := strip (str_or_empty repr (json_get inputs (lit ''command'')))\<rparr>)
      else if tool_name \<in> set edit_permission_tools then
        Some ((blank_request EDIT tool_name inputs)
               \<lparr>rq_path := path_from_edit_inputs repr inputs tool_name\<rparr>)
      else if tool_name \<in> set message_permission_tools then
        Some ((blank_request MESSAGE tool_name inputs)
               \<lparr>rq_command := message_summary (strip (str_or_empty repr (json_get inputs (lit ''recipient''))))
                               (str_or_empty repr (json_get inputs (lit ''text'')))\<rparr>)
      else
        (case mcp_target_from_tool_name tool_name of
           Some (server_id, mcp_tool) \<Rightarrow>
             Some ((blank_request MCP tool_name inputs)\<lparr>rq_server := server_id, rq_mcp_tool := mcp_tool\<rparr>)
         | None \<Rightarrow> None))"

section \<open>Rules offered for an always-allow decision\<close>

record rule_option =
  opt_label :: pystr
  opt_description :: pystr
  opt_rule :: permission_rule

definition rule_key :: "permission_rule \<Rightarrow> permission_kind \<times> pystr \<times> pystr \<times> pystr" where
  "rule_key r = (ru_kind r, ru_tool r, ru_match r, ru_pattern r)"

definition dedupe_options :: "rule_option list \<Rightarrow> rule_option list" where
  "dedupe_options options = dedup_by (\<lambda>opt. rule_key (opt_rule opt)) [] options"

abbreviation tick :: "pystr \<Rightarrow> pystr" where
  "tick s \<equiv> [96] @ s @ [96]"

definition command_rule_options :: "minter \<Rightarrow> permission_request \<Rightarrow> rule_option list" where
  "command_rule_options mint request =
     (let command = rq_command request;
          tokens = shell_tokens command;
          prefix = join_on 32 (take 2 tokens);
          executable = (if tokens \<noteq> [] then hd tokens else [])
      in if command = [] then []
         else dedupe_options
           ([\<lparr>opt_label = lit ''Always allow this exact command'',
               opt_description = lit ''Allow '' @ tick command @ lit ''.'',
               opt_rule = create_rule mint 0 COMMAND (lit ''*'') (lit ''exact'') command\<rparr>] @
            (if length tokens \<ge> 2 then
               [\<lparr>opt_label = lit ''Always allow commands starting with '' @ tick prefix,
                 opt_description = lit ''Allow commands whose first words are '' @ tick prefix @ lit ''.'',
                 opt_rule = create_rule mint 1 COMMAND (lit ''*'') (lit ''prefix'') prefix\<rparr>]
             else []) @
            (if executable \<noteq> [] \<and> executable \<noteq> command then
               [\<lparr>opt_label = lit ''Always allow '' @ tick executable @ lit '' commands'',
                 opt_description = lit ''Allow commands whose executable is '' @ tick executable @ lit ''.'',
                 opt_rule = create_rule mint 2 COMMAND (lit ''*'') (lit ''executable'') executable\<rparr>]
             else [])))"

definition message_rule_options :: "(json \<Rightarrow> pystr) \<Rightarrow> minter \<Rightarrow> permission_request \<Rightarrow> rule_option list" where
  "message_rule_options repr mint request =
     (let recipient = strip (str_or_empty repr (json_get (rq_inputs request) (lit ''recipient'')))
      in (if recipient \<noteq> [] then
            [\<lparr>opt_label = lit ''Always allow messages to '' @ tick recipient,
              opt_description = lit ''Allow send_message to this peer by name.'',
              opt_rule = create_rule mint 0 MESSAGE (rq_tool request) (lit ''recipient'') recipient\<rparr>]
          else []) @
         [\<lparr>opt_label = lit ''Always allow '' @ tick (rq_tool request),
           opt_description = lit ''Allow messages to any peer session.'',
           opt_rule = create_rule mint 1 MESSAGE (rq_tool request) (lit ''tool'') (rq_tool request)\<rparr>])"

definition edit_rule_options :: "minter \<Rightarrow> permission_request \<Rightarrow> rule_option list" where
  "edit_rule_options mint request =
     (if rq_path request \<noteq> [] then
        [\<lparr>opt_label = lit ''Always allow '' @ tick (rq_tool request) @ lit '' on '' @ tick (rq_path request),
          opt_description = lit ''Allow this edit tool for this path.'',
          opt_rule = create_rule mint 0 EDIT (rq_tool request) (lit ''path'') (rq_path request)\<rparr>]
      else []) @
     [\<lparr>opt_label = lit ''Always allow '' @ tick (rq_tool request) @ lit '' edits'',
       opt_description = lit ''Allow this edit tool for any path.'',
       opt_rule = create_rule mint 1 EDIT (rq_tool request) (lit ''tool'') (rq_tool request)\<rparr>]"

definition mcp_rule_options :: "minter \<Rightarrow> permission_request \<Rightarrow> rule_option list" where
  "mcp_rule_options mint request =
     dedupe_options
       ([\<lparr>opt_label = lit ''Always allow MCP tool '' @ tick (rq_tool request),
          opt_description = lit ''Allow this exact MCP tool.'',
          opt_rule = create_rule mint 0 MCP (rq_tool request) (lit ''tool'') (rq_tool request)\<rparr>] @
        (if rq_server request \<noteq> [] then
           [\<lparr>opt_label = lit ''Always allow MCP server '' @ tick (rq_server request),
             opt_description = lit ''Allow all verified MCP tools from this server.'',
             opt_rule = create_rule mint 1 MCP (lit ''*'') (lit ''server'') (rq_server request)\<rparr>]
         else []))"

definition allow_rule_options :: "(json \<Rightarrow> pystr) \<Rightarrow> minter \<Rightarrow> permission_request \<Rightarrow> rule_option list" where
  "allow_rule_options repr mint request =
     (if rq_kind request = COMMAND then command_rule_options mint request
      else if rq_kind request = MCP then mcp_rule_options mint request
      else if rq_kind request = MESSAGE then message_rule_options repr mint request
      else edit_rule_options mint request)"

text \<open>A mode given as a member, as text or as \<open>None\<close>.\<close>

datatype mode_value = ModeMember permission_mode | ModeText pystr | ModeNone

definition normalize_permission_mode ::
  "(pystr \<Rightarrow> pystr) \<Rightarrow> mode_value \<Rightarrow> permission_mode \<Rightarrow> pystr + permission_mode" where
  "normalize_permission_mode lower value fallback =
     (case value of
        ModeMember m \<Rightarrow> Inr m
      | ModeNone \<Rightarrow> Inr fallback
      | ModeText s \<Rightarrow>
          if lower s = lit ''auto'' then Inr AUTO else if lower s = lit ''ask'' then Inr ASK else Inl s)"

section \<open>Samples for the witnesses\<close>

definition sample_mint :: minter where
  "sample_mint n = (show_nat n, lit ''2026-01-01'')"

definition sample_rule :: permission_rule where
  "sample_rule = create_rule sample_mint 0 COMMAND (lit ''*'') (lit ''executable'') (lit ''git'')"

definition sample_inputs :: pydict where
  "sample_inputs = [(lit ''command'', JStr (lit ''git status''))]"

definition sample_request :: permission_request where
  "sample_request = (blank_request COMMAND (lit ''exec_command'') sample_inputs)\<lparr>rq_command := lit ''git status''\<rparr>"

section \<open>Reading back what was written\<close>

lemma kind_of_kind_value [simp]: "kind_of_value (kind_value k) = Some k"
  by (cases k) (auto simp: kind_of_value_def kind_value_def)

lemma rule_from_to_dict [simp]: "rule_from_dict repr (JObj (rule_to_dict r)) = Inr r"
  by (simp add: rule_from_dict_def rule_to_dict_def dict_get_def json_get_def)

lemma store_load_save:
  "store_load repr (snd (store_save True rules file)) = Inr rules"
  using traverse_map [of rules "rule_from_dict repr" "\<lambda>r. JObj (rule_to_dict r)" "\<lambda>r. r"]
  by (simp add: store_save_def store_load_def json_get_def permissions_schema_version_def)

text \<open>
  A rule store promises that what is saved is loaded, and that rules which count as the same match
  the same requests. Then adding a rule makes it effective and keeps every earlier decision.
\<close>

locale rule_store =
  fixes load :: "'f \<Rightarrow> 'e + 'r list"
    and save :: "'r list \<Rightarrow> 'f \<Rightarrow> 'f"
    and same :: "'r \<Rightarrow> 'r \<Rightarrow> bool"
    and matching :: "'r \<Rightarrow> 'q \<Rightarrow> bool"
  assumes load_save: "load (save rules file) = Inr rules"
    and same_matching: "same r r' \<Longrightarrow> matching r q = matching r' q"
begin

definition add :: "'r \<Rightarrow> 'r list \<Rightarrow> 'r list" where
  "add r rules = (if list_ex (\<lambda>e. same e r) rules then rules else rules @ [r])"

lemma find_add_keeps: "find (\<lambda>e. matching e q) rules = Some r' \<Longrightarrow> find (\<lambda>e. matching e q) (add r rules) = Some r'"
  by (induction rules) (auto simp: add_def split: if_splits)

lemma find_add_new:
  assumes "matching r q"
  shows "\<exists>r'. find (\<lambda>e. matching e q) (add r rules) = Some r' \<and> matching r' q"
proof -
  have "\<exists>e \<in> set (add r rules). matching e q"
    using assms same_matching by (auto simp: add_def list_ex_iff)
  then obtain r' where "find (\<lambda>e. matching e q) (add r rules) = Some r'"
    by (cases "find (\<lambda>e. matching e q) (add r rules)") (auto simp: find_None_iff)
  then show ?thesis by (auto simp: find_Some_iff)
qed

lemma load_added: "load (save (add r rules) file) = Inr (add r rules)"
  by (rule load_save)

end

lemma same_rule_matches: "same_rule r r' \<Longrightarrow> rule_matches repr casefold r q = rule_matches repr casefold r' q"
  by (simp add: same_rule_def rule_matches_def matches_edit_def matches_mcp_def matches_message_def)

interpretation ps: rule_store "store_load repr" "\<lambda>rules file. snd (store_save True rules file)"
    same_rule "rule_matches repr casefold" for repr casefold
  by unfold_locales (simp_all add: store_load_save same_rule_matches)

lemma add_rule_success:
  assumes "add_rule repr can_write r file = (Inr (), file')"
  obtains rules where "store_load repr file = Inr rules" "store_load repr file' = Inr (ps.add r rules)"
proof -
  from assms obtain rules where l: "store_load repr file = Inr rules"
    and w: "store_save can_write (ps.add r rules) file = (Inr (), file')"
    by (auto simp: add_rule_def ps.add_def split: sum.splits)
  from w have "file' = snd (store_save True (ps.add r rules) file)"
    by (auto simp: store_save_def split: if_splits)
  then show thesis using that [OF l] by (simp add: store_load_save)
qed

text \<open>
  Once a rule is saved, every request it matches is found allowed, and a request that was
  allowed before is still allowed by the same rule.
\<close>

theorem saved_rule_is_effective:
  assumes "add_rule repr can_write r file = (Inr (), file')"
  shows "(rule_matches repr casefold r q \<longrightarrow>
           (\<exists>r'. first_match repr casefold q file' = Inr (Some r') \<and> rule_matches repr casefold r' q)) \<and>
         (first_match repr casefold q' file = Inr (Some r'') \<longrightarrow>
            first_match repr casefold q' file' = Inr (Some r''))"
proof -
  obtain rules where "store_load repr file = Inr rules" "store_load repr file' = Inr (ps.add r rules)"
    using assms by (rule add_rule_success)
  then show ?thesis
    using ps.find_add_new [of repr casefold r q rules] ps.find_add_keeps [of repr casefold q' rules r'' r]
    by (auto simp: first_match_def)
qed

theorem saved_rule_is_effective_witness:
  "\<exists>r'. first_match (\<lambda>_. []) (\<lambda>s. s) sample_request (snd (add_rule (\<lambda>_. []) True sample_rule FileAbsent)) = Inr (Some r')"
proof -
  have run: "add_rule (\<lambda>_. []) True sample_rule FileAbsent = (Inr (), snd (add_rule (\<lambda>_. []) True sample_rule FileAbsent))"
    by (simp add: add_rule_def store_load_def store_save_def)
  have m: "rule_matches (\<lambda>_. []) (\<lambda>s. s) sample_rule sample_request" by code_simp
  show ?thesis using saved_rule_is_effective [OF run, of "\<lambda>s. s" sample_request] m by blast
qed

section \<open>Offered rules\<close>

definition plain_words :: "pystr \<Rightarrow> bool" where
  "plain_words command = (command = join_on 32 (shell_tokens command))"

lemma plain_words_prefix:
  assumes "plain_words command" "2 \<le> length (shell_tokens command)"
  shows "matches_command (lit ''prefix'') (join_on 32 (take 2 (shell_tokens command))) command"
proof -
  obtain a b ts where ts: "shell_tokens command = a # b # ts"
    using assms(2) by (auto simp: numeral_2_eq_2 Suc_le_length_iff)
  have eq: "command = join_on 32 (a # b # ts)" using assms(1) by (simp add: plain_words_def ts)
  have two: "take 2 (shell_tokens command) = [a, b]" by (simp add: ts)
  show ?thesis
    unfolding two using eq by (cases ts) (auto simp: matches_command_def lit_def startswith_iff)
qed

lemma command_rule_matches:
  "rq_kind q = COMMAND \<Longrightarrow>
     rule_matches repr casefold (create_rule mint n COMMAND (lit ''*'') m p) q = matches_command m p (rq_command q)"
  by (simp add: rule_matches_def create_rule_def)

text \<open>
  C35: every rule offered for an always-allow decision covers the request it is offered for, a prefix
  rule under the condition that the command is its words with single blanks between them.
\<close>

theorem offered_rules_cover_request:
  assumes "\<And>s. casefold s = [] \<longleftrightarrow> s = []"
    and "opt \<in> set (allow_rule_options repr mint request)"
    and "ru_match (opt_rule opt) = lit ''prefix'' \<longrightarrow> plain_words (rq_command request)"
  shows "rule_matches repr casefold (opt_rule opt) request"
proof (cases "rq_kind request")
  case COMMAND
  have "opt_rule opt = create_rule mint 0 COMMAND (lit ''*'') (lit ''exact'') (rq_command request) \<or>
    2 \<le> length (shell_tokens (rq_command request)) \<and> opt_rule opt = create_rule mint 1 COMMAND (lit ''*'') (lit ''prefix'')
       (join_on 32 (take 2 (shell_tokens (rq_command request)))) \<or>
    shell_tokens (rq_command request) \<noteq> [] \<and>
    opt_rule opt = create_rule mint 2 COMMAND (lit ''*'') (lit ''executable'') (hd (shell_tokens (rq_command request)))"
    using assms(2) COMMAND set_dedup_by
    by (fastforce simp: allow_rule_options_def command_rule_options_def Let_def dedupe_options_def split: if_splits)
  moreover have "ru_match (create_rule mint n k t m p) = m" for n k t m p
    by (simp add: create_rule_def)
  ultimately show ?thesis
    using assms(3) plain_words_prefix [of "rq_command request"]
    by (auto simp: command_rule_matches [OF COMMAND] matches_command_def [of "lit ''exact''"]
        matches_command_def [of "lit ''executable''"] first_shell_token_def neq_Nil_conv)
next
  case EDIT
  then show ?thesis using assms(2)
    by (auto simp: allow_rule_options_def edit_rule_options_def rule_matches_def create_rule_def matches_edit_def
        split: if_splits)
next
  case MCP
  have "opt_rule opt = create_rule mint 0 MCP (rq_tool request) (lit ''tool'') (rq_tool request) \<or>
    rq_server request \<noteq> [] \<and> opt_rule opt = create_rule mint 1 MCP (lit ''*'') (lit ''server'') (rq_server request)"
    using assms(2) MCP set_dedup_by
    by (fastforce simp: allow_rule_options_def mcp_rule_options_def dedupe_options_def split: if_splits)
  then show ?thesis using MCP
    by (auto simp: rule_matches_def create_rule_def matches_mcp_def)
next
  case MESSAGE
  define recipient where "recipient = strip (str_or_empty repr (json_get (rq_inputs request) (lit ''recipient'')))"
  have stripped: "strip recipient = recipient" by (simp add: recipient_def)
  have "recipient \<noteq> [] \<and> opt_rule opt = create_rule mint 0 MESSAGE (rq_tool request) (lit ''recipient'') recipient \<or>
    opt_rule opt = create_rule mint 1 MESSAGE (rq_tool request) (lit ''tool'') (rq_tool request)"
    using assms(2) MESSAGE
    by (auto simp: allow_rule_options_def message_rule_options_def Let_def recipient_def [symmetric] split: if_splits)
  then show ?thesis using MESSAGE assms(1) [of recipient]
    by (auto simp: rule_matches_def create_rule_def matches_message_def Let_def recipient_def [symmetric] stripped)
qed

theorem offered_rules_cover_request_witness:
  "rule_matches (\<lambda>_. []) (\<lambda>s. s) (opt_rule (allow_rule_options (\<lambda>_. []) sample_mint sample_request ! 1)) sample_request"
proof (rule offered_rules_cover_request)
  show "allow_rule_options (\<lambda>_. []) sample_mint sample_request ! 1 \<in>
      set (allow_rule_options (\<lambda>_. []) sample_mint sample_request)"
    by (rule nth_mem) code_simp
  have "plain_words (rq_command sample_request)" by code_simp
  then show "ru_match (opt_rule (allow_rule_options (\<lambda>_. []) sample_mint sample_request ! 1)) = lit ''prefix'' \<longrightarrow>
      plain_words (rq_command sample_request)" by blast
qed simp

text \<open>
  a prefix rule can miss the very command it is offered for: for \<open>git  status\<close>, typed with two
  blanks, the offered rule allows \<open>git status\<close> and does not match the request.
\<close>

theorem offered_prefix_misses_its_command:
  "let request = the (permission_request_for_tool repr (lit ''exec_command'') [(lit ''command'', JStr (lit ''git  status''))]);
       opt = allow_rule_options repr mint request ! 1
   in opt_description opt = lit ''Allow commands whose first words are `git status`.'' \<and>
      ru_match (opt_rule opt) = lit ''prefix'' \<and> \<not> rule_matches repr casefold (opt_rule opt) request"
proof -
  let ?cmd = "lit ''git  status''"
  have strip: "strip ?cmd = ?cmd" by code_simp
  have toks: "shell_tokens ?cmd = [lit ''git'', lit ''status'']" by code_simp
  let ?q = "(blank_request COMMAND (lit ''exec_command'') [(lit ''command'', JStr ?cmd)])\<lparr>rq_command := ?cmd\<rparr>"
  have q: "permission_request_for_tool repr (lit ''exec_command'') [(lit ''command'', JStr ?cmd)] = Some ?q"
    by (simp add: permission_request_for_tool_def command_permission_tools_def json_get_def strip)
  have cmd: "rq_command ?q = ?cmd" "rq_kind ?q = COMMAND" by (simp_all add: blank_request_def)
  have opt: "opt_rule (allow_rule_options repr mint ?q ! 1) =
      create_rule mint 1 COMMAND (lit ''*'') (lit ''prefix'') (join_on 32 [lit ''git'', lit ''status''])"
    "opt_description (allow_rule_options repr mint ?q ! 1) =
      lit ''Allow commands whose first words are '' @ tick (join_on 32 [lit ''git'', lit ''status'']) @ lit ''.''"
    by (simp_all add: allow_rule_options_def command_rule_options_def cmd toks dedupe_options_def rule_key_def create_rule_def Let_def)
  have "\<not> matches_command (lit ''prefix'') (join_on 32 [lit ''git'', lit ''status'']) ?cmd"
    "lit ''Allow commands whose first words are '' @ tick (join_on 32 [lit ''git'', lit ''status'']) @ lit ''.'' =
       lit ''Allow commands whose first words are `git status`.''"
    by code_simp+
  then show ?thesis
    unfolding q option.sel Let_def opt command_rule_matches [OF cmd(2)] cmd(1)
    by (simp add: create_rule_def)
qed

text \<open>
  C21: a path is attached to a patch only when the patch touches that one path: every operation of the
  patch has it as its path and moves nothing elsewhere.
\<close>

theorem patch_path_is_the_only_path:
  assumes "path_from_edit_inputs repr inputs (lit ''apply_patch'') = p" and "p \<noteq> []"
  shows "\<exists>raw ops. json_get inputs (lit ''input'') = JStr raw \<and> parse_codex_patch raw = Inr ops \<and> ops \<noteq> [] \<and>
     list_all (\<lambda>q. po_path q = p \<and> (po_move_to q = None \<or> po_move_to q = Some p)) ops"
proof -
  from assms obtain raw ops where j: "json_get inputs (lit ''input'') = JStr raw"
    and o: "parse_codex_patch raw = Inr ops" and paths: "patch_paths ops = [p]"
    by (auto simp: path_from_edit_inputs_def split: json.splits sum.splits list.splits)
  have all: "\<Union> ((\<lambda>q. set (po_path q # (case po_move_to q of None \<Rightarrow> [] | Some m \<Rightarrow> [m]))) ` set ops) = {p}"
    using arg_cong [OF paths, of set] by (simp add: patch_paths_def set_dedup_from)
  have ne: "ops \<noteq> []" using all by auto
  have "po_path q = p \<and> (po_move_to q = None \<or> po_move_to q = Some p)" if "q \<in> set ops" for q
  proof -
    have "set (po_path q # (case po_move_to q of None \<Rightarrow> [] | Some m \<Rightarrow> [m])) \<subseteq> {p}"
      using that all by blast
    then show ?thesis by (cases "po_move_to q") auto
  qed
  then show ?thesis using j o ne by (auto simp: list_all_iff)
qed

theorem patch_path_is_the_only_path_witness:
  "\<exists>raw ops. json_get [(lit ''input'', JStr (print_patch (tl sample_patch)))] (lit ''input'') = JStr raw \<and>
     parse_codex_patch raw = Inr ops \<and> ops \<noteq> [] \<and>
     list_all (\<lambda>q. po_path q = lit ''new.txt'' \<and> (po_move_to q = None \<or> po_move_to q = Some (lit ''new.txt''))) ops"
proof (rule patch_path_is_the_only_path)
  show "path_from_edit_inputs (\<lambda>_. []) [(lit ''input'', JStr (print_patch (tl sample_patch)))] (lit ''apply_patch'') =
      lit ''new.txt''" by code_simp
qed simp

end
