(* ===== verification/Permission_Gate.thy ===== *)
theory Permission_Gate
  imports Permissions
begin

text \<open>
  The decision for one gated tool call: the session's permission callback
  (\<open>SessionRuntime.permission_callback\<close> in \<open>kolega_code/session/runtime.py\<close>) and the part of
  \<open>BaseAgent.execute_single_tool\<close> (\<open>kolega_code/agent/baseagent.py\<close>) that decides whether the tool
  runs. The answer of the controlling client is a parameter, a function of the payload it is sent;
  so are the verdict of the pre-tool hooks and whether the rule file can be written.
\<close>

section \<open>Wire forms\<close>

definition serialize_permission_request :: "permission_request \<Rightarrow> pydict" where
  "serialize_permission_request r =
     [(lit ''kind'', JStr (kind_value (rq_kind r))), (lit ''tool_name'', JStr (rq_tool r)),
      (lit ''inputs'', JObj (rq_inputs r)), (lit ''command'', JStr (rq_command r)),
      (lit ''path'', JStr (rq_path r)), (lit ''mcp_server'', JStr (rq_server r)),
      (lit ''mcp_tool'', JStr (rq_mcp_tool r)), (lit ''summary'', JStr (request_summary r))]"

text \<open>\<open>PermissionKind(v)\<close> of a value that is not a string is a \<open>ValueError\<close>; \<open>dict(v)\<close> of a value that is not an object is an error here.\<close>

definition deserialize_permission_request ::
  "(json \<Rightarrow> pystr) \<Rightarrow> pydict \<Rightarrow> perm_exc + permission_request" where
  "deserialize_permission_request repr payload =
     (let field = (\<lambda>k. str_or_empty repr (json_get payload (lit k)));
          kind_json = json_get payload (lit ''kind'');
          kind = (if truthy kind_json then (case kind_json of JStr s \<Rightarrow> kind_of_value s | _ \<Rightarrow> None)
                  else Some COMMAND);
          inputs_json = json_get payload (lit ''inputs'')
      in case kind of
           None \<Rightarrow> Inl KindValueError
         | Some k \<Rightarrow>
             (case (if truthy inputs_json then inputs_json else JObj []) of
                JObj inputs \<Rightarrow>
                  Inr \<lparr>rq_kind = k, rq_tool = field ''tool_name'', rq_inputs = inputs,
                       rq_command = field ''command'', rq_path = field ''path'',
                       rq_server = field ''mcp_server'', rq_mcp_tool = field ''mcp_tool''\<rparr>
              | _ \<Rightarrow> Inl KindValueError))"

definition option_to_dict :: "rule_option \<Rightarrow> json" where
  "option_to_dict opt =
     JObj [(lit ''label'', JStr (opt_label opt)), (lit ''description'', JStr (opt_description opt)),
           (lit ''rule'', JObj (rule_to_dict (opt_rule opt)))]"

definition deserialize_permission_rule_options :: "(json \<Rightarrow> pystr) \<Rightarrow> json \<Rightarrow> rule_option list" where
  "deserialize_permission_rule_options repr payload =
     (case payload of
        JList entries \<Rightarrow>
          List.map_filter
            (\<lambda>entry. case entry of
               JObj e \<Rightarrow>
                 (case json_get e (lit ''rule'') of
                    JObj r \<Rightarrow>
                      (case rule_from_dict repr (JObj r) of
                         Inl err \<Rightarrow> None
                       | Inr rule \<Rightarrow>
                           Some \<lparr>opt_label = str_or_empty repr (json_get e (lit ''label'')),
                                 opt_description = str_or_empty repr (json_get e (lit ''description'')),
                                 opt_rule = rule\<rparr>)
                  | _ \<Rightarrow> None)
             | _ \<Rightarrow> None)
            entries
      | _ \<Rightarrow> [])"

section \<open>The session's permission callback\<close>

record permission_decision =
  de_allowed :: bool
  de_reason :: pystr
  de_rule :: "permission_rule option"

record permission_world =
  pw_file :: rule_file
  pw_notices :: "perm_exc list"
  pw_asked :: "pydict list"

definition denied_by_default :: pydict where
  "denied_by_default =
     [(lit ''allowed'', JBool False),
      (lit ''reason'', JStr (lit ''No client was able to answer this permission request.''))]"

definition permission_rule_from_response ::
  "(json \<Rightarrow> pystr) \<Rightarrow> pydict \<Rightarrow> rule_option list \<Rightarrow> permission_rule option" where
  "permission_rule_from_response repr response options =
     (case json_get response (lit ''rule'') of
        JObj rule_data \<Rightarrow>
          if json_get response (lit ''allowed'') \<noteq> JBool True then None
          else (case rule_from_dict repr (JObj rule_data) of
                  Inl e \<Rightarrow> None
                | Inr rule \<Rightarrow>
                    map_option opt_rule (find (\<lambda>opt. rule_key rule = rule_key (opt_rule opt)) options))
      | _ \<Rightarrow> None)"

definition decision_from_response ::
  "(json \<Rightarrow> pystr) \<Rightarrow> bool \<Rightarrow> pydict \<Rightarrow> rule_option list \<Rightarrow> permission_world \<Rightarrow>
     (perm_exc + permission_decision) \<times> permission_world" where
  "decision_from_response repr can_write response options w =
     (let allowed = (json_get response (lit ''allowed'') = JBool True);
          rule = permission_rule_from_response repr response options;
          decided = Inr \<lparr>de_allowed = allowed,
                         de_reason = str_or_empty repr (json_get response (lit ''reason'')), de_rule = rule\<rparr>
      in case rule of
           None \<Rightarrow> (decided, w)
         | Some r \<Rightarrow>
             (case add_rule repr can_write r (pw_file w) of
                (Inl (StoreError e), file) \<Rightarrow>
                  (Inr \<lparr>de_allowed = True,
                        de_reason = lit ''Allowed once because the rule could not be saved.'', de_rule = None\<rparr>,
                   w\<lparr>pw_file := file, pw_notices := pw_notices w @ [StoreError e]\<rparr>)
              | (Inl e, file) \<Rightarrow> (Inl e, w\<lparr>pw_file := file\<rparr>)
              | (Inr _, file) \<Rightarrow> (decided, w\<lparr>pw_file := file\<rparr>)))"

definition ask_client ::
  "(json \<Rightarrow> pystr) \<Rightarrow> minter \<Rightarrow> bool \<Rightarrow> (pydict \<Rightarrow> pydict) \<Rightarrow> permission_request \<Rightarrow> permission_world \<Rightarrow>
     (perm_exc + permission_decision) \<times> permission_world" where
  "ask_client repr mint can_write answer request w =
     (let options = allow_rule_options repr mint request;
          payload = [(lit ''request'', JObj (serialize_permission_request request)),
                     (lit ''rule_options'', JList (map option_to_dict options))]
      in decision_from_response repr can_write (answer payload) options (w\<lparr>pw_asked := pw_asked w @ [payload]\<rparr>))"

definition permission_callback ::
  "(json \<Rightarrow> pystr) \<Rightarrow> (pystr \<Rightarrow> pystr) \<Rightarrow> minter \<Rightarrow> bool \<Rightarrow> (pydict \<Rightarrow> pydict) \<Rightarrow> permission_mode \<Rightarrow>
     permission_request \<Rightarrow> permission_world \<Rightarrow> (perm_exc + permission_decision) \<times> permission_world" where
  "permission_callback repr casefold mint can_write answer mode request w =
     (if mode \<noteq> ASK then (Inr \<lparr>de_allowed = True, de_reason = [], de_rule = None\<rparr>, w)
      else (case first_match repr casefold request (pw_file w) of
              Inr (Some rule) \<Rightarrow>
                (Inr \<lparr>de_allowed = True, de_reason = lit ''Allowed by saved rule '' @ ru_id rule @ lit ''.'',
                      de_rule = None\<rparr>, w)
            | Inr None \<Rightarrow> ask_client repr mint can_write answer request w
            | Inl (StoreError e) \<Rightarrow>
                ask_client repr mint can_write answer request
                  (w\<lparr>pw_notices := pw_notices w @ [StoreError e]\<rparr>)
            | Inl e \<Rightarrow> (Inl e, w)))"

section \<open>The gate of a tool call\<close>

record hook_verdict =
  hv_blocked :: bool
  hv_reason :: pystr
  hv_updated_input :: "pydict option"

datatype gate_outcome =
    ToolUnavailable
  | PermissionCheckFailed perm_exc
  | PermissionDenied pystr
  | HookBlocked pystr
  | ToolRuns pydict

definition tool_inputs :: "(json \<Rightarrow> pystr) \<Rightarrow> bool \<Rightarrow> json \<Rightarrow> pydict" where
  "tool_inputs repr freeform v =
     (let inputs = (case v of JStr s \<Rightarrow> if freeform then JObj [(lit ''input'', v)] else v | _ \<Rightarrow> v)
      in case inputs of
           JObj d \<Rightarrow> d
         | _ \<Rightarrow> [(lit ''input'', JStr (py_str repr inputs))])"

definition execute_gate ::
  "(json \<Rightarrow> pystr) \<Rightarrow> (permission_request \<Rightarrow> permission_world \<Rightarrow> (perm_exc + permission_decision) \<times> permission_world) \<Rightarrow>
     (pystr \<Rightarrow> pydict \<Rightarrow> hook_verdict) \<Rightarrow> pystr list \<Rightarrow> permission_mode \<Rightarrow> pystr \<Rightarrow> bool \<Rightarrow> json \<Rightarrow>
     permission_world \<Rightarrow> gate_outcome \<times> permission_world" where
  "execute_gate repr callback pre_hook registry mode tool_name freeform raw w =
     (let inputs = tool_inputs repr freeform raw;
          hooks = (\<lambda>w. let pre = pre_hook tool_name inputs
                       in if hv_blocked pre then (HookBlocked (hv_reason pre), w)
                          else (ToolRuns (case hv_updated_input pre of None \<Rightarrow> inputs | Some i \<Rightarrow> i), w))
      in if tool_name \<notin> set registry then (ToolUnavailable, w)
         else (case permission_request_for_tool repr tool_name inputs of
                 None \<Rightarrow> hooks w
               | Some request \<Rightarrow>
                   if mode \<noteq> ASK then hooks w
                   else (case callback request w of
                           (Inl e, w') \<Rightarrow> (PermissionCheckFailed e, w')
                         | (Inr decision, w') \<Rightarrow>
                             if \<not> de_allowed decision
                             then (PermissionDenied
                                     (if de_reason decision \<noteq> [] then de_reason decision
                                      else lit ''The user denied permission for this action.''), w')
                             else hooks w')))"

section \<open>Samples for the witnesses\<close>

definition empty_world :: permission_world where
  "empty_world = \<lparr>pw_file = FileAbsent, pw_notices = [], pw_asked = []\<rparr>"

definition quiet_hook :: "pystr \<Rightarrow> pydict \<Rightarrow> hook_verdict" where
  "quiet_hook tool inputs = \<lparr>hv_blocked = False, hv_reason = [], hv_updated_input = None\<rparr>"

text \<open>A client that allows every request and picks the last offered rule.\<close>

definition eager_client :: "pydict \<Rightarrow> pydict" where
  "eager_client payload =
     [(lit ''allowed'', JBool True),
      (lit ''rule'', (case json_get payload (lit ''rule_options'') of
                      JList opts \<Rightarrow> (case last opts of JObj e \<Rightarrow> json_get e (lit ''rule'') | _ \<Rightarrow> JNull)
                    | _ \<Rightarrow> JNull))]"

section \<open>Decisions\<close>

definition client_allows :: "pydict \<Rightarrow> bool" where
  "client_allows response = (json_get response (lit ''allowed'') = JBool True)"

lemma rule_from_response_offered:
  "permission_rule_from_response repr response options = Some r \<Longrightarrow>
     client_allows response \<and> (\<exists>opt \<in> set options. r = opt_rule opt)"
  by (auto simp: permission_rule_from_response_def client_allows_def find_Some_iff
      split: json.splits if_splits sum.splits)

lemma decision_from_response_cases:
  assumes "decision_from_response repr can_write response options w = (result, w')"
  shows "(\<forall>d. result = Inr d \<and> de_allowed d \<longrightarrow> client_allows response) \<and> pw_asked w' = pw_asked w \<and>
    (pw_file w' = pw_file w \<or>
       client_allows response \<and>
       (\<exists>opt \<in> set options. pw_file w' = snd (add_rule repr can_write (opt_rule opt) (pw_file w))))"
proof (cases "permission_rule_from_response repr response options")
  case None
  then show ?thesis using assms by (auto simp: decision_from_response_def client_allows_def)
next
  case (Some r)
  obtain res f where a: "add_rule repr can_write r (pw_file w) = (res, f)" by (metis surj_pair)
  have "pw_asked w' = pw_asked w \<and> pw_file w' = f"
  proof (cases res)
    case (Inl e)
    then show ?thesis using assms Some a by (cases e) (auto simp: decision_from_response_def Let_def)
  next
    case (Inr u)
    have "snd (decision_from_response repr can_write response options w) = w\<lparr>pw_file := f\<rparr>"
      using Some a Inr by (simp add: decision_from_response_def Let_def)
    then show ?thesis using assms by auto
  qed
  then have f: "pw_asked w' = pw_asked w" "pw_file w' = snd (add_rule repr can_write r (pw_file w))"
    using a by simp_all
  from rule_from_response_offered [OF Some] obtain opt where "client_allows response"
    "opt \<in> set options" "r = opt_rule opt" by blast
  with f show ?thesis by blast
qed

lemma callback_asks:
  assumes "permission_callback repr casefold mint can_write answer ASK request w = (result, w')"
  shows "(\<exists>rule. first_match repr casefold request (pw_file w) = Inr (Some rule) \<and> w' = w) \<or>
    (\<exists>w0. pw_file w0 = pw_file w \<and> pw_asked w0 = pw_asked w \<and>
       ask_client repr mint can_write answer request w0 = (result, w')) \<or>
    (\<exists>e. result = Inl e \<and> w' = w)"
proof (cases "first_match repr casefold request (pw_file w)")
  case (Inl e)
  then show ?thesis
  proof (cases e)
    case (StoreError s)
    then have "ask_client repr mint can_write answer request (w\<lparr>pw_notices := pw_notices w @ [e]\<rparr>) = (result, w')"
      using assms Inl by (simp add: permission_callback_def)
    then show ?thesis by (intro disjI2 disjI1 exI [of _ "w\<lparr>pw_notices := pw_notices w @ [e]\<rparr>"]) simp
  qed (use assms Inl in \<open>auto simp: permission_callback_def\<close>)
next
  case (Inr m)
  then show ?thesis using assms by (cases m) (auto simp: permission_callback_def)
qed

definition permission_payload :: "(json \<Rightarrow> pystr) \<Rightarrow> minter \<Rightarrow> permission_request \<Rightarrow> pydict" where
  "permission_payload repr mint request =
     [(lit ''request'', JObj (serialize_permission_request request)),
      (lit ''rule_options'', JList (map option_to_dict (allow_rule_options repr mint request)))]"

lemma ask_client_cases:
  assumes "ask_client repr mint can_write answer request w = (result, w')"
  shows "(\<forall>d. result = Inr d \<and> de_allowed d \<longrightarrow> client_allows (answer (permission_payload repr mint request))) \<and>
    pw_asked w' = pw_asked w @ [permission_payload repr mint request] \<and>
    (pw_file w' = pw_file w \<or>
       client_allows (answer (permission_payload repr mint request)) \<and>
       (\<exists>opt \<in> set (allow_rule_options repr mint request).
          pw_file w' = snd (add_rule repr can_write (opt_rule opt) (pw_file w))))"
  using decision_from_response_cases [OF assms [unfolded ask_client_def Let_def]]
  by (simp add: permission_payload_def)

text \<open>
  C18: in ask mode a gated tool runs only with a reason: a saved rule that matches the request, or an
  answer of the client to this very request that says \<open>allowed: true\<close>.
\<close>

theorem gated_tool_runs_only_if_allowed:
  assumes "execute_gate repr (permission_callback repr casefold mint can_write answer ASK) pre_hook registry ASK
      tool_name freeform raw w = (ToolRuns inputs, w')"
    and "permission_request_for_tool repr tool_name (tool_inputs repr freeform raw) = Some request"
  shows "(\<exists>rules rule. store_load repr (pw_file w) = Inr rules \<and> rule \<in> set rules \<and> rule_matches repr casefold rule request) \<or>
    pw_asked w' = pw_asked w @ [permission_payload repr mint request] \<and>
    client_allows (answer (permission_payload repr mint request))"
proof -
  let ?cb = "permission_callback repr casefold mint can_write answer ASK request w"
  obtain result w1 where cb: "?cb = (result, w1)" by (metis surj_pair)
  from assms cb obtain d where d: "result = Inr d" "de_allowed d" and w: "w' = w1"
    by (auto simp: execute_gate_def Let_def split: if_splits sum.splits)
  from callback_asks [OF cb] consider
    (rule) rule where "first_match repr casefold request (pw_file w) = Inr (Some rule)"
  | (ask) w0 where "pw_asked w0 = pw_asked w" "ask_client repr mint can_write answer request w0 = (result, w1)"
    using d by auto
  then show ?thesis
  proof cases
    case rule
    then show ?thesis by (auto simp: first_match_def rbind_eq_Inr find_Some_iff)
  next
    case ask
    from ask_client_cases [OF ask(2)] show ?thesis using ask(1) d w by auto
  qed
qed

theorem gated_tool_runs_only_if_allowed_witness:
  "\<exists>inputs w'. execute_gate (\<lambda>_. []) (permission_callback (\<lambda>_. []) (\<lambda>s. s) sample_mint True eager_client ASK) quiet_hook
       [lit ''exec_command''] ASK (lit ''exec_command'') False (JObj sample_inputs) empty_world = (ToolRuns inputs, w') \<and>
     pw_asked w' = pw_asked empty_world @ [permission_payload (\<lambda>_. []) sample_mint sample_request] \<and>
     client_allows (eager_client (permission_payload (\<lambda>_. []) sample_mint sample_request))"
proof -
  let ?run = "execute_gate (\<lambda>_. []) (permission_callback (\<lambda>_. []) (\<lambda>s. s) sample_mint True eager_client ASK) quiet_hook
       [lit ''exec_command''] ASK (lit ''exec_command'') False (JObj sample_inputs) empty_world"
  have "fst ?run = ToolRuns sample_inputs" by code_simp
  then have run: "?run = (ToolRuns sample_inputs, snd ?run)" by (metis prod.collapse)
  have "permission_request_for_tool (\<lambda>_. []) (lit ''exec_command'') (tool_inputs (\<lambda>_. []) False (JObj sample_inputs)) =
      Some sample_request" by code_simp
  from gated_tool_runs_only_if_allowed [OF run this] run show ?thesis
    by (auto simp: empty_world_def store_load_def)
qed

text \<open>
  C19: deciding a request changes the rule file only by adding one of the rules offered for that
  request, and only when the client's answer allows it; a rule made up by the client is never saved.
\<close>

theorem only_offered_rules_are_saved:
  assumes "permission_callback repr casefold mint can_write answer mode request w = (result, w')"
    and "pw_file w' \<noteq> pw_file w"
  shows "mode = ASK \<and> client_allows (answer (permission_payload repr mint request)) \<and>
    (\<exists>opt \<in> set (allow_rule_options repr mint request).
       pw_file w' = snd (add_rule repr can_write (opt_rule opt) (pw_file w)))"
proof -
  have mode: "mode = ASK" using assms by (cases mode) (auto simp: permission_callback_def)
  from callback_asks [OF assms(1) [unfolded mode]] assms(2) obtain w0 where
    "pw_file w0 = pw_file w" "ask_client repr mint can_write answer request w0 = (result, w')" by auto
  then show ?thesis using ask_client_cases [of repr mint can_write answer request w0] assms(2) mode by auto
qed

theorem only_offered_rules_are_saved_witness:
  "\<exists>opt \<in> set (allow_rule_options (\<lambda>_. []) sample_mint sample_request).
     pw_file (snd (permission_callback (\<lambda>_. []) (\<lambda>s. s) sample_mint True eager_client ASK sample_request empty_world)) =
       snd (add_rule (\<lambda>_. []) True (opt_rule opt) FileAbsent)"
proof -
  let ?run = "permission_callback (\<lambda>_. []) (\<lambda>s. s) sample_mint True eager_client ASK sample_request empty_world"
  have "pw_file (snd ?run) \<noteq> pw_file empty_world" by code_simp
  from only_offered_rules_are_saved [OF prod.collapse [symmetric] this]
  show ?thesis by (simp add: empty_world_def)
qed

text \<open>
  A permission request survives the trip to the client and back: decoding its wire form gives the
  request, and decoding the offered options gives the options.
\<close>

theorem permission_wire_roundtrip:
  "deserialize_permission_request repr (serialize_permission_request request) = Inr request \<and>
   deserialize_permission_rule_options repr (JList (map option_to_dict options)) = options"
proof
  have "kind_value k \<noteq> []" for k by (cases k) (simp_all add: kind_value_def)
  then show "deserialize_permission_request repr (serialize_permission_request request) = Inr request"
    by (simp add: deserialize_permission_request_def serialize_permission_request_def json_get_def Let_def
        str_or_empty_def)
  show "deserialize_permission_rule_options repr (JList (map option_to_dict options)) = options"
    by (induction options)
      (auto simp: deserialize_permission_rule_options_def option_to_dict_def json_get_def map_filter_simps)
qed

text \<open>
  a rule file that is JSON but not an object makes every gated call of ask mode fail, whatever
  the client would have answered: the attribute error is not a store error, so the session neither
  falls back to asking nor tells the user.
\<close>

theorem json_array_rule_file_fails_every_call:
  assumes "tool_name \<in> set registry"
    and "permission_request_for_tool repr tool_name (tool_inputs repr freeform raw) = Some request"
    and "pw_file w = FileJson (JList rules)"
  shows "execute_gate repr (permission_callback repr casefold mint can_write answer ASK) pre_hook registry ASK
      tool_name freeform raw w = (PermissionCheckFailed AttributeError, w)"
  using assms by (simp add: execute_gate_def permission_callback_def first_match_def store_load_def Let_def)

theorem json_array_rule_file_fails_every_call_witness:
  "execute_gate (\<lambda>_. []) (permission_callback (\<lambda>_. []) (\<lambda>s. s) sample_mint True eager_client ASK) quiet_hook
     [lit ''exec_command''] ASK (lit ''exec_command'') False (JObj sample_inputs)
     (empty_world\<lparr>pw_file := FileJson (JList [])\<rparr>) =
   (PermissionCheckFailed AttributeError, empty_world\<lparr>pw_file := FileJson (JList [])\<rparr>)"
proof (rule json_array_rule_file_fails_every_call)
  show "permission_request_for_tool (\<lambda>_. []) (lit ''exec_command'') (tool_inputs (\<lambda>_. []) False (JObj sample_inputs)) =
      Some sample_request" by code_simp
qed simp_all

end
