(* ===== verification/Transition_Systems.thy ===== *)
theory Transition_Systems
  imports Main
begin

text \<open>
  Interleaving of atomic operations. Components whose operations are called from several coroutines
  are step relations on a state; a property that holds in every reachable state is an invariant of
  the initial states that every step keeps.
\<close>

inductive reach :: "('s \<Rightarrow> bool) \<Rightarrow> ('s \<Rightarrow> 's \<Rightarrow> bool) \<Rightarrow> 's \<Rightarrow> bool"
  for initial :: "'s \<Rightarrow> bool" and step :: "'s \<Rightarrow> 's \<Rightarrow> bool" where
  reach_initial: "initial s \<Longrightarrow> reach initial step s"
| reach_step: "reach initial step s \<Longrightarrow> step s s' \<Longrightarrow> reach initial step s'"

text \<open>The interface of an invariant proof: what a component has to show of its steps.\<close>

locale invariant_system =
  fixes initial :: "'s \<Rightarrow> bool" and step :: "'s \<Rightarrow> 's \<Rightarrow> bool" and inv :: "'s \<Rightarrow> bool"
  assumes inv_initial: "initial s \<Longrightarrow> inv s"
    and inv_step: "inv s \<Longrightarrow> step s s' \<Longrightarrow> inv s'"
begin

lemma inv_reach: "reach initial step s \<Longrightarrow> inv s"
  by (induction rule: reach.induct) (auto intro: inv_initial inv_step)

lemma inv_steps: "step\<^sup>*\<^sup>* s s' \<Longrightarrow> inv s \<Longrightarrow> inv s'"
  by (induction rule: rtranclp_induct) (auto intro: inv_step)

end

text \<open>A quantity that no step changes once it has a value.\<close>

locale write_once_system = invariant_system +
  fixes cell :: "'s \<Rightarrow> 'k \<Rightarrow> 'v option"
  assumes cell_step: "inv s \<Longrightarrow> step s s' \<Longrightarrow> cell s k = Some v \<Longrightarrow> cell s' k = Some v"
begin

lemma cell_stable:
  assumes "step\<^sup>*\<^sup>* s s'" and "inv s" and "cell s k = Some v"
  shows "cell s' k = Some v"
  using assms
proof (induction rule: rtranclp_induct)
  case (step y z)
  then show ?case using inv_steps cell_step by blast
qed simp

end

lemma reach_rtranclp: "reach initial step s \<Longrightarrow> step\<^sup>*\<^sup>* s s' \<Longrightarrow> reach initial step s'"
  by (rotate_tac, induction rule: rtranclp_induct) (auto intro: reach_step)

end
