(* ===== verification/Control_Channel.thy ===== *)
theory Control_Channel
  imports Kolega_Prelude Transition_Systems
begin

text \<open>
  The control channel between an agent and the client that answers its prompts,
  \<open>kolega_code/session/control.py\<close>. The channel's methods are functions on its state; the coroutine
  \<open>request\<close> is cut at its awaits (announcing, waiting, and the moment between the expiry of its timer
  and its resumption), and the steps of any number of clients and requests interleave.

  The result of a request's future is kept under the request's identifier, because the coroutine still
  holds the request after it has left the table of pending ones. Announcements are appended to a log;
  delivering them is the transport's work. Fresh identifiers (\<open>uuid4\<close>) are a guard of the step.
\<close>

section \<open>State\<close>

type_synonym response = "(pystr \<times> json) list"

record control_request =
  cr_id :: pystr
  cr_kind :: pystr
  cr_payload :: response
  cr_default :: response
  cr_delivered :: bool

datatype announcement =
    ControlRequested pystr bool
  | ControlResolved pystr response pystr

record channel =
  ch_pending :: "(pystr \<times> control_request) list"
  ch_lease :: "pystr option"
  ch_futures :: "pystr \<Rightarrow> response option"
  ch_events :: "announcement list"

datatype lease_error = HeldBy pystr | DoesNotHold pystr pystr

definition new_channel :: channel where
  "new_channel = \<lparr>ch_pending = [], ch_lease = None, ch_futures = (\<lambda>_. None), ch_events = []\<rparr>"

definition has_controller :: "channel \<Rightarrow> bool" where
  "has_controller ch = (ch_lease ch \<noteq> None)"

section \<open>Operations\<close>

definition settle :: "control_request \<Rightarrow> response \<Rightarrow> pystr \<Rightarrow> channel \<Rightarrow> channel" where
  "settle request response reason ch =
     ch\<lparr>ch_pending := filter (\<lambda>(i, _). i \<noteq> cr_id request) (ch_pending ch),
        ch_futures := (if ch_futures ch (cr_id request) = None
                       then (ch_futures ch)(cr_id request := Some response) else ch_futures ch),
        ch_events := ch_events ch @ [ControlResolved (cr_id request) response reason]\<rparr>"

definition acquire :: "pystr \<Rightarrow> channel \<Rightarrow> lease_error + channel" where
  "acquire client ch =
     (case ch_lease ch of
        Some holder \<Rightarrow> if holder \<noteq> client then Inl (HeldBy holder) else Inr (ch\<lparr>ch_lease := Some client\<rparr>)
      | None \<Rightarrow> Inr (ch\<lparr>ch_lease := Some client\<rparr>))"

definition release :: "pystr \<Rightarrow> channel \<Rightarrow> channel" where
  "release client ch =
     (if ch_lease ch \<noteq> Some client then ch
      else fold (\<lambda>(_, request). settle request (cr_default request) (lit ''controller_left''))
             (ch_pending ch) (ch\<lparr>ch_lease := None\<rparr>))"

text \<open>The coroutine \<open>request\<close> up to its first await, after it, and at its ends.\<close>

definition open_request :: "control_request \<Rightarrow> channel \<Rightarrow> channel" where
  "open_request request ch =
     ch\<lparr>ch_pending := dict_set (cr_id request) request (ch_pending ch),
        ch_events := ch_events ch @ [ControlRequested (cr_id request) (has_controller ch)]\<rparr>"

definition after_announce :: "control_request \<Rightarrow> channel \<Rightarrow> channel" where
  "after_announce request ch =
     (if \<not> has_controller ch then settle request (cr_default request) (lit ''no_controller'') ch else ch)"

definition mark_delivered :: "pystr \<Rightarrow> channel \<Rightarrow> control_request option \<times> channel" where
  "mark_delivered request_id ch =
     (case map_of (ch_pending ch) request_id of
        None \<Rightarrow> (None, ch)
      | Some request \<Rightarrow>
          if \<not> has_controller ch \<or> cr_delivered request \<or> ch_futures ch (cr_id request) \<noteq> None then (None, ch)
          else (Some (request\<lparr>cr_delivered := True\<rparr>),
                ch\<lparr>ch_pending := dict_set request_id (request\<lparr>cr_delivered := True\<rparr>) (ch_pending ch)\<rparr>))"

definition respond :: "pystr \<Rightarrow> response \<Rightarrow> pystr option \<Rightarrow> channel \<Rightarrow> lease_error + (bool \<times> channel)" where
  "respond request_id response client ch =
     (case (client, ch_lease ch) of
        (Some c, Some holder) \<Rightarrow>
          if c \<noteq> holder then Inl (DoesNotHold c holder)
          else (case map_of (ch_pending ch) request_id of
                  None \<Rightarrow> Inr (False, ch)
                | Some request \<Rightarrow> Inr (True, settle request response (lit ''answered'') ch))
      | (None, Some holder) \<Rightarrow>
          (case map_of (ch_pending ch) request_id of
             None \<Rightarrow> Inr (False, ch)
           | Some request \<Rightarrow> Inr (True, settle request response (lit ''answered'') ch))
      | (_, None) \<Rightarrow> Inr (False, ch))"

section \<open>Interleaved execution\<close>

datatype phase = Announcing | Waiting | TimerFired | Returned response | Cancelled

record system =
  sy_channel :: channel
  sy_waiters :: "pystr \<Rightarrow> (control_request \<times> phase) option"
  sy_answers :: "(pystr \<times> response \<times> pystr option \<times> pystr) list"

definition system_start :: "system \<Rightarrow> bool" where
  "system_start s = (s = \<lparr>sy_channel = new_channel, sy_waiters = (\<lambda>_. None), sy_answers = []\<rparr>)"

abbreviation with_phase :: "pystr \<Rightarrow> control_request \<Rightarrow> phase \<Rightarrow> system \<Rightarrow> system" where
  "with_phase i request p s \<equiv> s\<lparr>sy_waiters := (sy_waiters s)(i \<mapsto> (request, p))\<rparr>"

inductive system_step :: "system \<Rightarrow> system \<Rightarrow> bool" where
  step_acquire:
    "acquire client (sy_channel s) = Inr ch \<Longrightarrow> system_step s (s\<lparr>sy_channel := ch\<rparr>)"
| step_release:
    "system_step s (s\<lparr>sy_channel := release client (sy_channel s)\<rparr>)"
| step_request:
    "sy_waiters s (cr_id request) = None \<Longrightarrow> \<not> cr_delivered request \<Longrightarrow>
     system_step s ((with_phase (cr_id request) request Announcing s)\<lparr>sy_channel := open_request request (sy_channel s)\<rparr>)"
| step_announced_wait:
    "sy_waiters s i = Some (request, Announcing) \<Longrightarrow> has_controller (sy_channel s) \<Longrightarrow>
     system_step s (with_phase i request Waiting s)"
| step_announced_default:
    "sy_waiters s i = Some (request, Announcing) \<Longrightarrow> \<not> has_controller (sy_channel s) \<Longrightarrow>
     ch = after_announce request (sy_channel s) \<Longrightarrow> ch_futures ch i = Some r \<Longrightarrow>
     system_step s ((with_phase i request (Returned r) s)\<lparr>sy_channel := ch\<rparr>)"
| step_answered:
    "sy_waiters s i = Some (request, Waiting) \<Longrightarrow> ch_futures (sy_channel s) i = Some r \<Longrightarrow>
     system_step s (with_phase i request (Returned r) s)"
| step_timer:
    "sy_waiters s i = Some (request, Waiting) \<Longrightarrow> ch_futures (sy_channel s) i = None \<Longrightarrow>
     system_step s (with_phase i request TimerFired s)"
| step_timeout:
    "sy_waiters s i = Some (request, TimerFired) \<Longrightarrow>
     system_step s ((with_phase i request (Returned (cr_default request)) s)
       \<lparr>sy_channel := settle request (cr_default request) (lit ''timeout'') (sy_channel s)\<rparr>)"
| step_cancel:
    "sy_waiters s i = Some (request, p) \<Longrightarrow> p \<in> {Announcing, Waiting, TimerFired} \<Longrightarrow>
     system_step s ((with_phase i request Cancelled s)
       \<lparr>sy_channel := settle request (cr_default request) (lit ''cancelled'') (sy_channel s)\<rparr>)"
| step_delivered:
    "mark_delivered i (sy_channel s) = (d, ch) \<Longrightarrow> system_step s (s\<lparr>sy_channel := ch\<rparr>)"
| step_respond:
    "respond i r client (sy_channel s) = Inr (ok, ch) \<Longrightarrow> ch_lease (sy_channel s) = Some holder \<Longrightarrow>
     system_step s (s\<lparr>sy_channel := ch, sy_answers := (if ok then sy_answers s @ [(i, r, client, holder)] else sy_answers s)\<rparr>)"

inductive_cases system_stepE: "system_step s s'"

section \<open>Effects of the operations\<close>

lemma settle_simps [simp]:
  "ch_lease (settle q r why ch) = ch_lease ch"
  "set (ch_pending (settle q r why ch)) = {(i, p) \<in> set (ch_pending ch). i \<noteq> cr_id q}"
  "ch_futures (settle q r why ch) i =
     (if i = cr_id q \<and> ch_futures ch i = None then Some r else ch_futures ch i)"
  by (auto simp: settle_def)

lemma fold_settle:
  "ch_lease (fold (\<lambda>(_, q). settle q (cr_default q) why) ps ch) = ch_lease ch"
  "set (ch_pending (fold (\<lambda>(_, q). settle q (cr_default q) why) ps ch)) =
     {(i, p) \<in> set (ch_pending ch). i \<notin> (cr_id \<circ> snd) ` set ps}"
  "ch_futures ch i = Some v \<Longrightarrow> ch_futures (fold (\<lambda>(_, q). settle q (cr_default q) why) ps ch) i = Some v"
  by (induction ps arbitrary: ch) auto

lemma fold_settle_default:
  "ch_futures ch i = None \<Longrightarrow>
     (case ch_futures (fold (\<lambda>(_, q). settle q (cr_default q) why) ps ch) i of
        None \<Rightarrow> i \<notin> (cr_id \<circ> snd) ` set ps
      | Some v \<Rightarrow> \<exists>q \<in> snd ` set ps. cr_id q = i \<and> v = cr_default q)"
proof (induction ps arbitrary: ch)
  case (Cons p ps)
  obtain k q where p: "p = (k, q)" by (cases p)
  show ?case
  proof (cases "cr_id q = i")
    case True
    then have "ch_futures (settle q (cr_default q) why ch) i = Some (cr_default q)" using Cons.prems by simp
    then show ?thesis using True by (simp add: p fold_settle(3))
  next
    case False
    then show ?thesis using Cons.IH [of "settle q (cr_default q) why ch"] Cons.prems
      by (auto simp: p split: option.splits)
  qed
qed simp

section \<open>The invariant\<close>

text \<open>What the state says about one identifier: its coroutine, its entries among the pending requests, its future, its accepted answers.\<close>

definition live :: "phase set" where
  "live = {Announcing, Waiting, TimerFired}"

definition entries :: "channel \<Rightarrow> pystr \<Rightarrow> control_request set" where
  "entries ch i = {q. (i, q) \<in> set (ch_pending ch)}"

definition answers :: "system \<Rightarrow> pystr \<Rightarrow> (response \<times> pystr option \<times> pystr) set" where
  "answers s i = {a. (i, a) \<in> set (sy_answers s)}"

definition waiter_ok ::
  "bool \<Rightarrow> pystr \<Rightarrow> control_request \<Rightarrow> phase \<Rightarrow> control_request set \<Rightarrow> response option \<Rightarrow>
     (response \<times> pystr option \<times> pystr) set \<Rightarrow> bool" where
  "waiter_ok held i q p es f as =
     (cr_id q = i \<and> (\<forall>e \<in> es. cr_id e = i \<and> cr_default e = cr_default q) \<and>
      (case f of
         None \<Rightarrow> es \<noteq> {} \<and> p \<in> live \<and> (p \<noteq> Announcing \<longrightarrow> held)
       | Some v \<Rightarrow> es = {} \<and> (v = cr_default q \<or> (\<exists>c h. (v, c, h) \<in> as))) \<and>
      (case p of Returned v \<Rightarrow> v = cr_default q \<or> f = Some v | _ \<Rightarrow> True))"

definition answers_ok :: "response option \<Rightarrow> (response \<times> pystr option \<times> pystr) set \<Rightarrow> bool" where
  "answers_ok f as = (as \<subseteq> {(v, c, h). c \<in> {None, Some h} \<and> f = Some v})"

lemma answers_ok_simps: "answers_ok None as \<longleftrightarrow> as = {}" "answers_ok f {}"
  "c \<in> {None, Some h} \<Longrightarrow> answers_ok (Some v) {(v, c, h)}"
  by (auto simp: answers_ok_def)

definition index_ok ::
  "bool \<Rightarrow> pystr \<Rightarrow> (control_request \<times> phase) option \<Rightarrow> control_request set \<Rightarrow> response option \<Rightarrow>
     (response \<times> pystr option \<times> pystr) set \<Rightarrow> bool" where
  "index_ok held i w es f as =
     (answers_ok f as \<and>
      (case w of None \<Rightarrow> es = {} \<and> f = None | Some (q, p) \<Rightarrow> waiter_ok held i q p es f as))"

definition system_index_ok :: "system \<Rightarrow> pystr \<Rightarrow> bool" where
  "system_index_ok s i =
     index_ok (has_controller (sy_channel s)) i (sy_waiters s i) (entries (sy_channel s) i)
       (ch_futures (sy_channel s) i) (answers s i)"

definition channel_inv :: "system \<Rightarrow> bool" where
  "channel_inv s = (\<forall>i. system_index_ok s i)"

lemmas ok_defs = system_index_ok_def index_ok_def waiter_ok_def live_def

lemma settle_views [simp]:
  "has_controller (settle q r why ch) = has_controller ch"
  "entries (settle q r why ch) i = (if i = cr_id q then {} else entries ch i)"
  by (auto simp: has_controller_def entries_def)

lemma channel_inv_start: "system_start s \<Longrightarrow> channel_inv s"
  by (simp add: system_start_def channel_inv_def new_channel_def ok_defs entries_def answers_def answers_ok_simps)

lemma channel_inv_waiter:
  "channel_inv s \<Longrightarrow> sy_waiters s i = Some (q, p) \<Longrightarrow>
     waiter_ok (has_controller (sy_channel s)) i q p (entries (sy_channel s) i) (ch_futures (sy_channel s) i) (answers s i)"
  by (auto simp: channel_inv_def system_index_ok_def index_ok_def dest!: spec [of _ i])

lemma channel_inv_entry:
  assumes "channel_inv s" "(i, e) \<in> set (ch_pending (sy_channel s))"
  obtains q p where "sy_waiters s i = Some (q, p)" "cr_id e = i" "cr_default e = cr_default q"
    "ch_futures (sy_channel s) i = None"
proof -
  have e: "e \<in> entries (sy_channel s) i" using assms(2) by (simp add: entries_def)
  have ok: "system_index_ok s i" using assms(1) by (simp add: channel_inv_def)
  then obtain q p where w: "sy_waiters s i = Some (q, p)"
    using e by (cases "sy_waiters s i") (auto simp: system_index_ok_def index_ok_def)
  have "waiter_ok (has_controller (sy_channel s)) i q p (entries (sy_channel s) i) (ch_futures (sy_channel s) i) (answers s i)"
    using channel_inv_waiter [OF assms(1) w] .
  then show thesis using e w by (intro that [of q p]) (auto simp: waiter_ok_def split: option.splits)
qed

lemma answers_channel [simp]: "answers (s\<lparr>sy_channel := ch\<rparr>) i = answers s i"
  "answers (s\<lparr>sy_waiters := ws\<rparr>) i = answers s i"
  by (simp_all add: answers_def)

text \<open>The cases of one identifier.\<close>

lemma index_ok_unresolved:
  "index_ok held i (Some (q, p)) es None as \<longleftrightarrow>
     as = {} \<and> cr_id q = i \<and> es \<noteq> {} \<and> (\<forall>e \<in> es. cr_id e = i \<and> cr_default e = cr_default q) \<and>
     p \<in> live \<and> (p \<noteq> Announcing \<longrightarrow> held)"
  unfolding index_ok_def waiter_ok_def live_def by (cases p) (auto simp: answers_ok_simps)

lemma index_ok_resolved:
  "index_ok held i (Some (q, p)) es (Some v) as \<longleftrightarrow>
     answers_ok (Some v) as \<and> cr_id q = i \<and> es = {} \<and>
     (v = cr_default q \<or> (\<exists>c h. (v, c, h) \<in> as)) \<and> (\<forall>u. p = Returned u \<longrightarrow> u = cr_default q \<or> u = v)"
  unfolding index_ok_def waiter_ok_def by (cases p) auto

lemma index_ok_held: "index_ok held i w es f as \<Longrightarrow> index_ok True i w es f as"
  by (auto simp: index_ok_def waiter_ok_def split: option.splits)

lemma index_ok_settled:
  assumes ok: "index_ok held i (Some (q, p)) es f as"
    and v: "f = None \<Longrightarrow> v = cr_default q" "\<And>u. f = Some u \<Longrightarrow> v = u"
    and p': "p' = p \<or> p' = Cancelled \<or> p' = Returned (cr_default q) \<or> p' = Returned v"
  shows "index_ok held' i (Some (q, p')) {} (Some v) as"
proof (cases f)
  case None
  then have "as = {}" "cr_id q = i" "p \<in> live" "v = cr_default q"
    using ok v(1) unfolding None index_ok_unresolved by blast+
  then show ?thesis using p' unfolding index_ok_resolved live_def by (auto simp: answers_ok_simps)
next
  case (Some u)
  have "v = u" using v(2) Some by blast
  then show ?thesis using ok p' unfolding Some index_ok_resolved by blast
qed

lemma index_ok_answered:
  assumes "index_ok held i (Some (q, p)) es None as" and "c \<in> {None, Some h}"
  shows "index_ok held' i (Some (q, p)) {} (Some v) (insert (v, c, h) as)"
proof -
  have "as = {}" "cr_id q = i" "p \<in> live" using assms(1) unfolding index_ok_unresolved by blast+
  moreover have "answers_ok (Some v) {(v, c, h)}" using assms(2) by (rule answers_ok_simps)
  ultimately show ?thesis unfolding index_ok_resolved live_def by auto
qed

lemma index_ok_phase:
  assumes "index_ok held i (Some (q, p)) es f as"
    and "p' \<in> live" and "p' \<noteq> Announcing \<longrightarrow> held"
  shows "index_ok held i (Some (q, p')) es f as"
proof (cases f)
  case None
  then show ?thesis using assms unfolding None index_ok_unresolved by blast
next
  case (Some v)
  then show ?thesis using assms unfolding Some index_ok_resolved live_def by blast
qed

lemma index_ok_entry:
  assumes "index_ok held i w es f as" and "e \<in> es"
  obtains q p where "w = Some (q, p)" "cr_id e = i" "cr_default e = cr_default q" "f = None"
  using assms by (cases w; cases f) (auto simp: index_ok_def waiter_ok_def)

text \<open>Steps that touch one identifier.\<close>

lemma channel_inv_local:
  assumes "channel_inv s"
    and "has_controller (sy_channel s') = has_controller (sy_channel s)"
    and "\<And>j. j \<noteq> i \<Longrightarrow> sy_waiters s' j = sy_waiters s j \<and> entries (sy_channel s') j = entries (sy_channel s) j \<and>
           ch_futures (sy_channel s') j = ch_futures (sy_channel s) j \<and> answers s' j = answers s j"
    and "system_index_ok s' i"
  shows "channel_inv s'"
  unfolding channel_inv_def
proof
  fix j show "system_index_ok s' j"
    using assms by (cases "j = i") (auto simp: channel_inv_def system_index_ok_def)
qed

lemma inv_acquire:
  assumes "channel_inv s" "acquire client (sy_channel s) = Inr ch"
  shows "channel_inv (s\<lparr>sy_channel := ch\<rparr>)"
proof -
  have ch: "ch = (sy_channel s)\<lparr>ch_lease := Some client\<rparr>"
    using assms(2) by (auto simp: acquire_def split: option.splits if_splits)
  have views: "has_controller ch" "entries ch i = entries (sy_channel s) i" for i
    by (simp_all add: ch has_controller_def entries_def)
  show ?thesis unfolding channel_inv_def system_index_ok_def
  proof
    fix i
    have "system_index_ok s i" using assms(1) by (simp add: channel_inv_def)
    from index_ok_held [OF this [unfolded system_index_ok_def]]
    show "index_ok (has_controller (sy_channel (s\<lparr>sy_channel := ch\<rparr>))) i (sy_waiters (s\<lparr>sy_channel := ch\<rparr>) i)
        (entries (sy_channel (s\<lparr>sy_channel := ch\<rparr>)) i) (ch_futures (sy_channel (s\<lparr>sy_channel := ch\<rparr>)) i)
        (answers (s\<lparr>sy_channel := ch\<rparr>) i)"
      by (simp add: views) (simp add: ch)
  qed
qed

lemma inv_release:
  assumes inv: "channel_inv s"
  shows "channel_inv (s\<lparr>sy_channel := release client (sy_channel s)\<rparr>)"
proof (cases "ch_lease (sy_channel s) = Some client")
  case True
  let ?ps = "ch_pending (sy_channel s)"
  let ?ch' = "release client (sy_channel s)"
  have ch': "?ch' = fold (\<lambda>(_, q). settle q (cr_default q) (lit ''controller_left'')) ?ps ((sy_channel s)\<lparr>ch_lease := None\<rparr>)"
    using True by (simp add: release_def)
  have ids: "(cr_id \<circ> snd) ` set ?ps = fst ` set ?ps"
    by (force elim: channel_inv_entry [OF inv])
  have none: "entries ?ch' i = {}" for i
    unfolding ch' entries_def fold_settle(2) ids by force
  have "index_ok (has_controller ?ch') i (sy_waiters s i) {} (ch_futures ?ch' i) (answers s i)" for i
  proof (cases "sy_waiters s i")
    case None
    have old: "ch_futures (sy_channel s) i = None" "answers s i = {}"
      using inv None by (auto simp: channel_inv_def system_index_ok_def index_ok_def answers_ok_simps dest!: spec [of _ i])
    have "\<not> (\<exists>q \<in> snd ` set ?ps. cr_id q = i)" using None by (force elim: channel_inv_entry [OF inv])
    then have "ch_futures ?ch' i = None"
      using fold_settle_default [where ch = "(sy_channel s)\<lparr>ch_lease := None\<rparr>" and i = i and ps = ?ps and why = "lit ''controller_left''"] old
      unfolding ch' by (auto split: option.splits)
    then show ?thesis using None old by (simp add: index_ok_def answers_ok_simps)
  next
    case (Some qp)
    obtain q p where w: "sy_waiters s i = Some (q, p)" using Some by (cases qp) auto
    have ok: "index_ok (has_controller (sy_channel s)) i (Some (q, p)) (entries (sy_channel s) i)
        (ch_futures (sy_channel s) i) (answers s i)"
      using inv w by (auto simp: channel_inv_def system_index_ok_def dest!: spec [of _ i])
    obtain v where v: "ch_futures ?ch' i = Some v"
      "ch_futures (sy_channel s) i = None \<Longrightarrow> v = cr_default q" "\<And>u. ch_futures (sy_channel s) i = Some u \<Longrightarrow> v = u"
    proof (cases "ch_futures (sy_channel s) i")
      case (Some u)
      then have "ch_futures ?ch' i = Some u" unfolding ch' by (intro fold_settle(3)) simp
      then show thesis using that Some by simp
    next
      case None
      then have "i \<in> fst ` set ?ps" using ok by (force simp: index_ok_def waiter_ok_def entries_def)
      then obtain e where e: "ch_futures ?ch' i = Some (cr_default e)" "e \<in> snd ` set ?ps" "cr_id e = i"
        using fold_settle_default [where ch = "(sy_channel s)\<lparr>ch_lease := None\<rparr>" and i = i and ps = ?ps and why = "lit ''controller_left''"] None
        unfolding ch' ids by (auto split: option.splits)
      then have "cr_default e = cr_default q" using w by (force elim: channel_inv_entry [OF inv])
      then show thesis using that e None by simp
    qed
    show ?thesis unfolding v(1) w using index_ok_settled [OF ok v(2,3)] by blast
  qed
  then show ?thesis by (simp add: channel_inv_def system_index_ok_def none)
next
  case False
  then show ?thesis using inv by (simp add: release_def)
qed

lemma inv_settle:
  assumes inv: "channel_inv s" and w: "sy_waiters s i = Some (q, p)"
    and p': "p' = Cancelled \<or> p' = Returned (cr_default q) \<or>
             (\<exists>v. p' = Returned v \<and> ch_futures (settle q (cr_default q) why (sy_channel s)) i = Some v)"
  shows "channel_inv ((with_phase i q p' s)\<lparr>sy_channel := settle q (cr_default q) why (sy_channel s)\<rparr>)"
proof (rule channel_inv_local [OF inv, where i = i])
  have q: "cr_id q = i" using channel_inv_waiter [OF inv w] by (simp add: waiter_ok_def)
  have ok: "index_ok (has_controller (sy_channel s)) i (Some (q, p)) (entries (sy_channel s) i)
      (ch_futures (sy_channel s) i) (answers s i)"
    using inv w by (auto simp: channel_inv_def system_index_ok_def dest!: spec [of _ i])
  obtain v where v: "ch_futures (settle q (cr_default q) why (sy_channel s)) i = Some v"
    "ch_futures (sy_channel s) i = None \<Longrightarrow> v = cr_default q" "\<And>u. ch_futures (sy_channel s) i = Some u \<Longrightarrow> v = u"
    by (cases "ch_futures (sy_channel s) i") (auto simp: q)
  have "index_ok (has_controller (sy_channel s)) i (Some (q, p')) {} (Some v) (answers s i)"
    using p' v(1) by (intro index_ok_settled [OF ok v(2,3)]) auto
  then show "system_index_ok ((with_phase i q p' s)\<lparr>sy_channel := settle q (cr_default q) why (sy_channel s)\<rparr>) i"
    using v(1) by (simp add: system_index_ok_def q)
  fix j assume "j \<noteq> i"
  then show "sy_waiters ((with_phase i q p' s)\<lparr>sy_channel := settle q (cr_default q) why (sy_channel s)\<rparr>) j = sy_waiters s j \<and>
      entries (sy_channel ((with_phase i q p' s)\<lparr>sy_channel := settle q (cr_default q) why (sy_channel s)\<rparr>)) j = entries (sy_channel s) j \<and>
      ch_futures (sy_channel ((with_phase i q p' s)\<lparr>sy_channel := settle q (cr_default q) why (sy_channel s)\<rparr>)) j = ch_futures (sy_channel s) j \<and>
      answers ((with_phase i q p' s)\<lparr>sy_channel := settle q (cr_default q) why (sy_channel s)\<rparr>) j = answers s j"
    by (simp add: q)
qed simp

lemma set_dict_set_other: "j \<noteq> k \<Longrightarrow> (j, q) \<in> set (dict_set k v d) \<longleftrightarrow> (j, q) \<in> set d"
  by (induction k v d rule: dict_set.induct) auto

lemma set_dict_set_same: "(k, q) \<in> set (dict_set k v d) \<Longrightarrow> q = v \<or> (k, q) \<in> set d"
  by (induction k v d rule: dict_set.induct) (auto split: if_splits)

lemma dict_set_mem: "(k, v) \<in> set (dict_set k v d)"
  by (induction k v d rule: dict_set.induct) auto

lemma channel_inv_index: "channel_inv s \<Longrightarrow> system_index_ok s i"
  by (simp add: channel_inv_def)

lemma channel_inv_at:
  "channel_inv s \<Longrightarrow> sy_waiters s i = w \<Longrightarrow>
     index_ok (has_controller (sy_channel s)) i w (entries (sy_channel s) i) (ch_futures (sy_channel s) i) (answers s i)"
  using channel_inv_index [of s i] by (simp add: system_index_ok_def)

lemma inv_request:
  assumes inv: "channel_inv s" and fresh: "sy_waiters s (cr_id q) = None"
  shows "channel_inv ((with_phase (cr_id q) q Announcing s)\<lparr>sy_channel := open_request q (sy_channel s)\<rparr>)"
proof (rule channel_inv_local [OF inv, where i = "cr_id q"])
  let ?s = "(with_phase (cr_id q) q Announcing s)\<lparr>sy_channel := open_request q (sy_channel s)\<rparr>"
  have views: "has_controller (open_request q (sy_channel s)) = has_controller (sy_channel s)"
    "ch_futures (open_request q (sy_channel s)) = ch_futures (sy_channel s)"
    by (simp_all add: open_request_def has_controller_def)
  then show "has_controller (sy_channel ?s) = has_controller (sy_channel s)" by simp
  have old: "entries (sy_channel s) (cr_id q) = {}" "ch_futures (sy_channel s) (cr_id q) = None" "answers s (cr_id q) = {}"
    using channel_inv_at [OF inv fresh] by (auto simp: index_ok_def answers_ok_simps)
  have "entries (open_request q (sy_channel s)) (cr_id q) = {q}"
    using old(1) dict_set_mem set_dict_set_same by (fastforce simp: open_request_def entries_def)
  then show "system_index_ok ?s (cr_id q)"
    by (simp add: system_index_ok_def views old index_ok_unresolved live_def)
  show "sy_waiters ?s j = sy_waiters s j \<and> entries (sy_channel ?s) j = entries (sy_channel s) j \<and>
      ch_futures (sy_channel ?s) j = ch_futures (sy_channel s) j \<and> answers ?s j = answers s j" if "j \<noteq> cr_id q" for j
    using that by (simp add: views) (simp add: open_request_def entries_def set_dict_set_other)
qed

lemma inv_phase:
  assumes inv: "channel_inv s" and w: "sy_waiters s i = Some (q, p)"
    and ok: "index_ok (has_controller (sy_channel s)) i (Some (q, p')) (entries (sy_channel s) i)
      (ch_futures (sy_channel s) i) (answers s i)"
  shows "channel_inv (with_phase i q p' s)"
  by (rule channel_inv_local [OF inv, where i = i]) (use ok in \<open>simp_all add: system_index_ok_def\<close>)

lemma inv_delivered:
  assumes inv: "channel_inv s" and d: "mark_delivered i (sy_channel s) = (d, ch)"
  shows "channel_inv (s\<lparr>sy_channel := ch\<rparr>)"
proof (cases "ch = sy_channel s")
  case False
  then obtain e where e: "map_of (ch_pending (sy_channel s)) i = Some e"
    and ch: "ch = (sy_channel s)\<lparr>ch_pending := dict_set i (e\<lparr>cr_delivered := True\<rparr>) (ch_pending (sy_channel s))\<rparr>"
    using d by (auto simp: mark_delivered_def split: option.splits if_splits)
  have views: "has_controller ch = has_controller (sy_channel s)" "ch_futures ch = ch_futures (sy_channel s)"
    by (simp_all add: ch has_controller_def)
  from map_of_SomeD [OF e] obtain q p where w: "sy_waiters s i = Some (q, p)"
    and eq: "cr_id e = i" "cr_default e = cr_default q" "ch_futures (sy_channel s) i = None"
    by (rule channel_inv_entry [OF inv])
  have ok: "index_ok (has_controller (sy_channel s)) i (Some (q, p)) (entries (sy_channel s) i) None (answers s i)"
    using channel_inv_at [OF inv w] eq(3) by simp
  have "entries ch i \<subseteq> insert (e\<lparr>cr_delivered := True\<rparr>) (entries (sy_channel s) i)" "entries ch i \<noteq> {}"
    using set_dict_set_same dict_set_mem by (fastforce simp: ch entries_def)+
  then have "index_ok (has_controller (sy_channel s)) i (Some (q, p)) (entries ch i) None (answers s i)"
    using ok eq unfolding index_ok_unresolved by auto
  then show ?thesis
    by (intro channel_inv_local [OF inv, where i = i])
      (simp_all add: system_index_ok_def views w eq, simp add: ch entries_def set_dict_set_other)
qed (use inv in simp)

lemma respond_cases:
  assumes "respond i r client ch = Inr (ok, ch')" "ch_lease ch = Some holder"
  shows "ok = False \<and> ch' = ch \<or>
    ok = True \<and> client \<in> {None, Some holder} \<and>
      (\<exists>e. map_of (ch_pending ch) i = Some e \<and> ch' = settle e r (lit ''answered'') ch)"
  using assms by (auto simp: respond_def split: option.splits if_splits)

lemma inv_respond:
  assumes inv: "channel_inv s" and r: "respond i r client (sy_channel s) = Inr (ok, ch)"
    and held: "ch_lease (sy_channel s) = Some holder"
  shows "channel_inv (s\<lparr>sy_channel := ch, sy_answers := (if ok then sy_answers s @ [(i, r, client, holder)] else sy_answers s)\<rparr>)"
proof (cases ok)
  case True
  then obtain e where e: "map_of (ch_pending (sy_channel s)) i = Some e"
    and ch: "ch = settle e r (lit ''answered'') (sy_channel s)" and client: "client \<in> {None, Some holder}"
    using respond_cases [OF r held] by auto
  from map_of_SomeD [OF e] obtain q p where w: "sy_waiters s i = Some (q, p)"
    and eq: "cr_id e = i" "ch_futures (sy_channel s) i = None"
    by (rule channel_inv_entry [OF inv])
  let ?s = "s\<lparr>sy_channel := ch, sy_answers := sy_answers s @ [(i, r, client, holder)]\<rparr>"
  have ans: "answers (s\<lparr>sy_channel := c, sy_answers := sy_answers s @ [(i, r, client, holder)]\<rparr>) j =
      (if j = i then insert (r, client, holder) (answers s i) else answers s j)" for c j
    by (auto simp: answers_def)
  have "index_ok (has_controller (sy_channel s)) i (Some (q, p)) (entries (sy_channel s) i) None (answers s i)"
    using channel_inv_at [OF inv w] eq(2) by simp
  then have "index_ok (has_controller (sy_channel s)) i (Some (q, p)) {} (Some r) (insert (r, client, holder) (answers s i))"
    using client by (rule index_ok_answered)
  then have "channel_inv ?s"
    by (intro channel_inv_local [OF inv, where i = i])
      (simp_all add: system_index_ok_def ch w eq ans)
  then show ?thesis using True by simp
next
  case False
  then have "ch = sy_channel s" using respond_cases [OF r held] by simp
  then show ?thesis using False inv by simp
qed

lemma channel_inv_step: "channel_inv s \<Longrightarrow> system_step s s' \<Longrightarrow> channel_inv s'"
proof (erule system_stepE)
  fix i q assume inv: "channel_inv s" and w: "sy_waiters s i = Some (q, Announcing)"
    and h: "has_controller (sy_channel s)" and s': "s' = with_phase i q Waiting s"
  show "channel_inv s'" unfolding s'
    by (rule inv_phase [OF inv w index_ok_phase [OF channel_inv_at [OF inv w]]]) (simp_all add: live_def h)
next
  fix i q r assume inv: "channel_inv s" and w: "sy_waiters s i = Some (q, Announcing)"
    and h: "\<not> has_controller (sy_channel s)"
    and r: "ch_futures (after_announce q (sy_channel s)) i = Some r"
    and s': "s' = (with_phase i q (Returned r) s)\<lparr>sy_channel := after_announce q (sy_channel s)\<rparr>"
  have "after_announce q (sy_channel s) = settle q (cr_default q) (lit ''no_controller'') (sy_channel s)"
    using h by (simp add: after_announce_def)
  then show "channel_inv s'" unfolding s' using r by (simp only:) (rule inv_settle [OF inv w], blast)
next
  fix i q r assume inv: "channel_inv s" and w: "sy_waiters s i = Some (q, Waiting)"
    and r: "ch_futures (sy_channel s) i = Some r" and s': "s' = with_phase i q (Returned r) s"
  show "channel_inv s'" unfolding s'
    using channel_inv_at [OF inv w] r by (intro inv_phase [OF inv w]) (simp add: index_ok_resolved)
next
  fix i q assume inv: "channel_inv s" and w: "sy_waiters s i = Some (q, Waiting)"
    and r: "ch_futures (sy_channel s) i = None" and s': "s' = with_phase i q TimerFired s"
  have "has_controller (sy_channel s)" using channel_inv_at [OF inv w] r by (simp add: index_ok_unresolved)
  then show "channel_inv s'" unfolding s'
    by (intro inv_phase [OF inv w index_ok_phase [OF channel_inv_at [OF inv w]]]) (simp_all add: live_def)
qed (auto intro: inv_acquire inv_release inv_request inv_settle inv_delivered inv_respond
    simp del: fun_upd_apply split del: if_split)

lemma futures_step:
  assumes "channel_inv s" "system_step s s'" "ch_futures (sy_channel s) i = Some v"
  shows "ch_futures (sy_channel s') i = Some v"
  using assms(2,3)
proof cases
  case (step_release client)
  then show ?thesis using assms(3) by (auto simp: release_def intro: fold_settle(3))
next
  case (step_respond j r client ok ch holder)
  then show ?thesis using assms(3) respond_cases [OF step_respond(2,3)] by auto
qed (auto simp: acquire_def open_request_def after_announce_def mark_delivered_def split: option.splits if_splits)

interpretation cc: write_once_system system_start system_step channel_inv "\<lambda>s. ch_futures (sy_channel s)"
  by unfold_locales (auto intro: channel_inv_start channel_inv_step futures_step)

section \<open>Guarantees of the channel\<close>

text \<open>
  C22: what a request returns is its own default, or the answer that was accepted for this very
  request, given anonymously or by the client that held the lease at that moment.
\<close>

theorem returned_value_is_default_or_holders_answer:
  assumes "reach system_start system_step s" and "sy_waiters s i = Some (q, Returned v)"
  shows "cr_id q = i \<and> (v = cr_default q \<or>
    (\<exists>client holder. (i, v, client, holder) \<in> set (sy_answers s) \<and> (client = None \<or> client = Some holder)))"
proof -
  have ok: "index_ok (has_controller (sy_channel s)) i (Some (q, Returned v)) (entries (sy_channel s) i)
      (ch_futures (sy_channel s) i) (answers s i)"
    using channel_inv_at [OF cc.inv_reach [OF assms(1)] assms(2)] .
  then obtain u where u: "ch_futures (sy_channel s) i = Some u"
    by (cases "ch_futures (sy_channel s) i") (auto simp: index_ok_unresolved live_def)
  have client: "c = None \<or> c = Some h" if "(u, c, h) \<in> answers s i" for c h
    using ok that unfolding u index_ok_resolved answers_ok_def by auto
  have mem: "(i, a) \<in> set (sy_answers s) \<longleftrightarrow> a \<in> answers s i" for a by (simp add: answers_def)
  show ?thesis using ok client unfolding u index_ok_resolved mem by blast
qed

text \<open>
  C24: nobody waits for an answer that cannot come. When no client holds the lease, the future of
  every waiting request is already resolved, so the request can return at once.
\<close>

theorem no_request_is_stranded:
  assumes "reach system_start system_step s" and "ch_lease (sy_channel s) = None"
    and "sy_waiters s i = Some (q, Waiting)"
  shows "\<exists>v. ch_futures (sy_channel s) i = Some v \<and> system_step s (with_phase i q (Returned v) s)"
proof -
  have "index_ok False i (Some (q, Waiting)) (entries (sy_channel s) i) (ch_futures (sy_channel s) i) (answers s i)"
    using channel_inv_at [OF cc.inv_reach [OF assms(1)] assms(3)] assms(2) by (simp add: has_controller_def)
  then obtain v where "ch_futures (sy_channel s) i = Some v"
    by (cases "ch_futures (sy_channel s) i") (auto simp: index_ok_unresolved)
  then show ?thesis using step_answered [OF assms(3)] by blast
qed

text \<open>
  C37: the first settlement of a request is final. Whatever happens later, its future keeps the value,
  and a late answer is refused and changes nothing.
\<close>

theorem first_settlement_is_final:
  assumes "reach system_start system_step s" and "ch_futures (sy_channel s) i = Some v"
    and "system_step\<^sup>*\<^sup>* s s'"
  shows "ch_futures (sy_channel s') i = Some v \<and>
    (case respond i r client (sy_channel s') of Inl e \<Rightarrow> True | Inr (ok, ch) \<Rightarrow> \<not> ok \<and> ch = sy_channel s')"
proof -
  have inv: "channel_inv s" using assms(1) by (rule cc.inv_reach)
  have inv': "channel_inv s'" using assms(3) inv by (rule cc.inv_steps)
  have f: "ch_futures (sy_channel s') i = Some v" using assms(3) inv assms(2) by (rule cc.cell_stable)
  have "map_of (ch_pending (sy_channel s')) i = None"
  proof (rule ccontr)
    assume "map_of (ch_pending (sy_channel s')) i \<noteq> None"
    then obtain e where "(i, e) \<in> set (ch_pending (sy_channel s'))" by (auto dest: map_of_SomeD)
    then show False using f by (elim channel_inv_entry [OF inv']) simp
  qed
  then show ?thesis using f by (auto simp: respond_def split: option.splits)
qed

section \<open>A run for the witnesses\<close>

definition sample_control_request :: control_request where
  "sample_control_request = \<lparr>cr_id = lit ''r1'', cr_kind = lit ''permission'', cr_payload = [],
     cr_default = [(lit ''allowed'', JBool False)], cr_delivered = False\<rparr>"

definition run0 :: system where
  "run0 = \<lparr>sy_channel = new_channel, sy_waiters = (\<lambda>_. None), sy_answers = []\<rparr>"

definition run1 :: system where "run1 = run0\<lparr>sy_channel := new_channel\<lparr>ch_lease := Some (lit ''tui'')\<rparr>\<rparr>"

definition run2 :: system where
  "run2 = (with_phase (lit ''r1'') sample_control_request Announcing run1)
     \<lparr>sy_channel := open_request sample_control_request (sy_channel run1)\<rparr>"

definition run3 :: system where "run3 = with_phase (lit ''r1'') sample_control_request Waiting run2"

definition run4 :: system where
  "run4 = run3\<lparr>sy_channel := settle sample_control_request [] (lit ''answered'') (sy_channel run3),
               sy_answers := [(lit ''r1'', [], Some (lit ''tui''), lit ''tui'')]\<rparr>"

definition run5 :: system where "run5 = with_phase (lit ''r1'') sample_control_request (Returned []) run4"

definition run_left :: system where "run_left = run3\<lparr>sy_channel := release (lit ''tui'') (sy_channel run3)\<rparr>"

lemmas run_defs = run0_def run1_def run2_def run3_def run4_def run5_def run_left_def sample_control_request_def
  new_channel_def open_request_def has_controller_def

lemma reach_run3: "reach system_start system_step run3"
proof -
  have "reach system_start system_step run0" by (rule reach_initial) (simp add: system_start_def run0_def)
  moreover have "system_step run0 run1"
    using step_acquire [of "lit ''tui''" run0] by (simp add: run0_def run1_def acquire_def new_channel_def)
  moreover have "system_step run1 run2"
    using step_request [of run1 sample_control_request] by (simp add: run0_def run1_def run2_def sample_control_request_def)
  moreover have "system_step run2 run3" unfolding run3_def
    by (rule step_announced_wait) (simp_all add: run_defs)
  ultimately show ?thesis by (blast intro: reach_step)
qed

lemma steps_run5: "system_step run3 run4" "system_step run4 run5" "system_step run3 run_left"
proof -
  have "respond (lit ''r1'') [] (Some (lit ''tui'')) (sy_channel run3) = Inr (True, sy_channel run4)"
    by (simp add: run_defs respond_def)
  from step_respond [OF this] show "system_step run3 run4"
    by (simp add: run4_def) (simp add: run_defs)
  show "system_step run4 run5" unfolding run5_def by (rule step_answered) (simp_all add: run_defs)
  show "system_step run3 run_left" unfolding run_left_def by (rule step_release)
qed

theorem returned_value_is_default_or_holders_answer_witness:
  "reach system_start system_step run5 \<and> sy_waiters run5 (lit ''r1'') = Some (sample_control_request, Returned []) \<and>
   (\<exists>client holder. (lit ''r1'', [], client, holder) \<in> set (sy_answers run5) \<and> (client = None \<or> client = Some holder))"
proof -
  have r: "reach system_start system_step run5" using reach_run3 steps_run5 by (blast intro: reach_step)
  have w: "sy_waiters run5 (lit ''r1'') = Some (sample_control_request, Returned [])" by (simp add: run5_def)
  have "cr_default sample_control_request \<noteq> []" by (simp add: sample_control_request_def)
  then show ?thesis using r w returned_value_is_default_or_holders_answer [OF r w] by auto
qed

theorem no_request_is_stranded_witness:
  "\<exists>v. ch_futures (sy_channel run_left) (lit ''r1'') = Some v \<and>
       system_step run_left (with_phase (lit ''r1'') sample_control_request (Returned v) run_left)"
proof (rule no_request_is_stranded)
  show "reach system_start system_step run_left" using reach_run3 steps_run5(3) by (rule reach_step)
  show "ch_lease (sy_channel run_left) = None" by (simp add: run_defs release_def settle_def)
  show "sy_waiters run_left (lit ''r1'') = Some (sample_control_request, Waiting)"
    by (simp add: run_left_def run3_def)
qed

theorem first_settlement_is_final_witness:
  "ch_futures (sy_channel run5) (lit ''r1'') = Some [] \<and>
   (case respond (lit ''r1'') [] None (sy_channel run5) of Inl e \<Rightarrow> True | Inr (ok, ch) \<Rightarrow> \<not> ok \<and> ch = sy_channel run5)"
proof (rule first_settlement_is_final)
  show "reach system_start system_step run4" using reach_run3 steps_run5(1) by (rule reach_step)
  show "ch_futures (sy_channel run4) (lit ''r1'') = Some []" by (simp add: run_defs)
  show "system_step\<^sup>*\<^sup>* run4 run5" using steps_run5(2) by (rule r_into_rtranclp)
qed

end
