(* ===== verification/Terminal_Buffer.thy ===== *)
theory Terminal_Buffer
  imports Kolega_Prelude
begin

text \<open>
  Bounded, recoverable output of terminal sessions, \<open>kolega_code/services/terminal_buffer.py\<close>. Byte
  strings are lists of numbers. The spill file is part of the writer's state: its content, or nothing
  before it exists; the path a store allocates is a parameter, as is the incremental decoder of
  \<open>codecs\<close> that turns raw bytes into text before anything else happens.
\<close>

section \<open>Limits\<close>

definition GLOBAL_MAX_TOOL_OUTPUT_TOKENS :: int where "GLOBAL_MAX_TOOL_OUTPUT_TOKENS = 10000"
definition SPILL_THRESHOLD_BYTES :: nat where "SPILL_THRESHOLD_BYTES = 50 * 1024"
definition PREVIEW_HEAD_BYTES :: nat where "PREVIEW_HEAD_BYTES = 20 * 1024"
definition PREVIEW_TAIL_BYTES :: nat where "PREVIEW_TAIL_BYTES = 30 * 1024"
definition LINE_CAP_BYTES :: nat where "LINE_CAP_BYTES = 1024"
definition LINE_TRUNCATION_MARKER :: pystr where "LINE_TRUNCATION_MARKER = 8230 # lit '' [line truncated]''"
definition MIN_YIELD_MS :: int where "MIN_YIELD_MS = 250"
definition MAX_YIELD_MS :: int where "MAX_YIELD_MS = 30000"
definition MIN_POLL_MS :: int where "MIN_POLL_MS = 5000"
definition MAX_POLL_MS :: int where "MAX_POLL_MS = 300000"
definition DEFAULT_YIELD_MS :: int where "DEFAULT_YIELD_MS = 10000"

definition clamp_yield :: "(pystr \<Rightarrow> int option) \<Rightarrow> json \<Rightarrow> bool \<Rightarrow> int" where
  "clamp_yield parse v poll =
     (let millis = (case py_int parse v of Some i \<Rightarrow> i | None \<Rightarrow> DEFAULT_YIELD_MS);
          millis = (if millis \<le> 0 then DEFAULT_YIELD_MS else millis);
          low = (if poll then MIN_POLL_MS else MIN_YIELD_MS);
          high = (if poll then MAX_POLL_MS else MAX_YIELD_MS)
      in max low (min high millis))"

definition clamp_output_tokens :: "(pystr \<Rightarrow> int option) \<Rightarrow> json \<Rightarrow> int" where
  "clamp_output_tokens parse v =
     (let tokens = (case py_int parse v of Some i \<Rightarrow> i | None \<Rightarrow> GLOBAL_MAX_TOOL_OUTPUT_TOKENS)
      in max 1 (min tokens GLOBAL_MAX_TOOL_OUTPUT_TOKENS))"

section \<open>Head and tail of a stream\<close>

definition omitted_marker :: "nat \<Rightarrow> nat \<Rightarrow> pystr" where
  "omitted_marker num_bytes num_lines =
     [10] @ lit ''[... omitted '' @ show_commas num_bytes @ lit '' bytes across '' @ show_commas num_lines @ lit '' '' @
     (if num_lines = 1 then lit ''line'' else lit ''lines'') @ lit '' ...]'' @ [10]"

record head_tail =
  ht_head_cap :: nat
  ht_tail_cap :: nat
  ht_head :: "nat list"
  ht_tail :: "nat list"
  ht_breaks :: nat
  ht_ends_newline :: bool
  ht_total :: nat

definition new_head_tail :: "nat \<Rightarrow> nat \<Rightarrow> head_tail" where
  "new_head_tail head_bytes tail_bytes =
     \<lparr>ht_head_cap = head_bytes, ht_tail_cap = tail_bytes, ht_head = [], ht_tail = [], ht_breaks = 0,
      ht_ends_newline = False, ht_total = 0\<rparr>"

definition ht_append_tail :: "nat list \<Rightarrow> head_tail \<Rightarrow> head_tail" where
  "ht_append_tail data b =
     (if data = [] then b
      else (let tail = ht_tail b @ data;
                excess = length tail - ht_tail_cap b
            in if excess > 0
               then b\<lparr>ht_breaks := ht_breaks b + count_sub [10] (take excess tail),
                      ht_ends_newline := endswith (take excess tail) [10],
                      ht_tail := drop excess tail\<rparr>
               else b\<lparr>ht_tail := tail\<rparr>))"

definition ht_append :: "nat list \<Rightarrow> head_tail \<Rightarrow> head_tail" where
  "ht_append data b =
     (if data = [] then b
      else (let b = b\<lparr>ht_total := ht_total b + length data\<rparr>
            in if length (ht_head b) < ht_head_cap b
               then (let room = ht_head_cap b - length (ht_head b)
                     in ht_append_tail (drop room data) (b\<lparr>ht_head := ht_head b @ take room data\<rparr>))
               else ht_append_tail data b))"

record head_tail_view =
  vw_head :: pystr
  vw_tail :: pystr
  vw_omitted_bytes :: nat
  vw_omitted_newlines :: nat
  vw_ends_newline :: bool
  vw_omitted_lines :: nat

text \<open>The strict decoding of an uncut buffer reads the bytes of encoded text, where it agrees with the lenient one.\<close>

definition ht_view :: "head_tail \<Rightarrow> head_tail_view" where
  "ht_view b =
     (let raw_omitted = ht_total b - length (ht_head b) - length (ht_tail b)
      in if raw_omitted = 0
         then \<lparr>vw_head = utf8_decode_ignore (ht_head b @ ht_tail b), vw_tail = [], vw_omitted_bytes = 0,
               vw_omitted_newlines = 0, vw_ends_newline = False, vw_omitted_lines = 0\<rparr>
         else (let head = utf8_decode_ignore (ht_head b);
                   tail = utf8_decode_ignore (ht_tail b);
                   retained = length (utf8 head) + length (utf8 tail);
                   skipped_tail = length (ht_tail b) - length (utf8 tail);
                   ends_newline = (if skipped_tail = 0 then ht_ends_newline b else False);
                   omitted_lines = ht_breaks b + (if ends_newline then 0 else 1)
               in \<lparr>vw_head = head, vw_tail = tail, vw_omitted_bytes = ht_total b - retained,
                   vw_omitted_newlines = ht_breaks b, vw_ends_newline = ends_newline,
                   vw_omitted_lines = max 1 omitted_lines\<rparr>))"

definition ht_text :: "head_tail \<Rightarrow> pystr" where
  "ht_text b =
     (let view = ht_view b
      in if vw_omitted_bytes view = 0 then vw_head view
         else vw_head view @ omitted_marker (vw_omitted_bytes view) (vw_omitted_lines view) @ vw_tail view)"

definition ht_reset :: "head_tail \<Rightarrow> head_tail" where
  "ht_reset b = b\<lparr>ht_head := [], ht_tail := [], ht_breaks := 0, ht_ends_newline := False, ht_total := 0\<rparr>"

section \<open>Caps on text\<close>

record capped_output =
  co_text :: pystr
  co_truncated :: bool
  co_original_tokens :: nat
  co_spill_path :: "pystr option"
  co_spill_bytes :: nat
  co_line_count :: nat
  co_line_bytes :: nat
  co_omitted_bytes :: nat
  co_omitted_lines :: nat

definition capped :: "pystr \<Rightarrow> bool \<Rightarrow> nat \<Rightarrow> capped_output" where
  "capped text truncated original =
     \<lparr>co_text = text, co_truncated = truncated, co_original_tokens = original, co_spill_path = None,
      co_spill_bytes = 0, co_line_count = 0, co_line_bytes = 0, co_omitted_bytes = 0, co_omitted_lines = 0\<rparr>"

definition truncation_marker :: "int \<Rightarrow> pystr" where
  "truncation_marker max_tokens =
     [10] @ lit ''[... output truncated to fit '' @ show_int max_tokens @ lit '' tokens ...]'' @ [10]"

definition estimated_tokens :: "nat \<Rightarrow> nat" where
  "estimated_tokens char_count = (if char_count = 0 then 0 else (char_count + 3) div 4)"

definition last_chars :: "nat \<Rightarrow> 'a list \<Rightarrow> 'a list" where
  "last_chars n s = drop (length s - n) s"

definition cap_chars :: "pystr \<Rightarrow> int \<Rightarrow> pystr \<Rightarrow> nat option \<Rightarrow> capped_output" where
  "cap_chars text budget_chars marker original_token_count =
     (let budget = nat budget_chars;
          original = (case original_token_count of Some n \<Rightarrow> n | None \<Rightarrow> estimated_tokens (length text))
      in if length text \<le> budget then capped text False original
         else if budget = 0 then capped [] True original
         else if length marker \<ge> budget then capped (take budget marker) True original
         else (let available = budget - length marker;
                   head = available div 2;
                   tail = available - head
               in capped (take head text @ marker @ (if tail \<noteq> 0 then last_chars tail text else [])) True original))"

definition cap_tokens ::
  "(pystr \<Rightarrow> int option) \<Rightarrow> pystr \<Rightarrow> int \<Rightarrow> pystr \<Rightarrow> nat option \<Rightarrow> bool \<Rightarrow> capped_output" where
  "cap_tokens parse text max_tokens protected_suffix original_token_count hard_limit =
     (let effective = (if hard_limit then clamp_output_tokens parse (JInt max_tokens) else max 1 max_tokens);
          original = (case original_token_count of Some n \<Rightarrow> n | None \<Rightarrow> estimated_tokens (length text));
          full = text @ protected_suffix;
          budget = nat (effective * 4)
      in if length full \<le> budget then capped full (int original > effective) original
         else (let marker = truncation_marker effective;
                   suffix = (if length protected_suffix \<le> budget then protected_suffix else []);
                   available = budget - length marker - length suffix;
                   content = (if available = 0 then (if suffix \<noteq> [] then last_chars budget suffix else [])
                              else co_text (cap_chars text (int (available + length marker)) marker (Some original)) @ suffix)
               in capped (take budget content) True original))"

section \<open>Spill files\<close>

text \<open>
  Where a writer sends its bytes: a backing file that the terminal's child appends to itself, a store
  that hands out a fresh path, or nowhere. \<open>sp_file\<close> is the content of the file the writer opened.
\<close>

datatype spill_target = BackingFile pystr | FreshFile pystr | NoStore

record spill_writer =
  sp_target :: spill_target
  sp_total :: nat
  sp_path :: "pystr option"
  sp_file :: "nat list option"
  sp_pending :: "nat list"
  sp_active :: bool
  sp_finalized :: bool
  sp_backing_removed :: bool

definition new_spill :: "spill_target \<Rightarrow> spill_writer" where
  "new_spill target =
     \<lparr>sp_target = target, sp_total = 0,
      sp_path = (case target of BackingFile p \<Rightarrow> Some p | _ \<Rightarrow> None),
      sp_file = None, sp_pending = [], sp_active = False, sp_finalized = False, sp_backing_removed = False\<rparr>"

definition spill_path :: "spill_writer \<Rightarrow> pystr option" where
  "spill_path w = (if sp_active w then sp_path w else None)"

datatype spill_error = AppendAfterFinalize

definition spill_append :: "nat list \<Rightarrow> spill_writer \<Rightarrow> spill_error + spill_writer" where
  "spill_append data w =
     (if data = [] then Inr w
      else if sp_finalized w then Inl AppendAfterFinalize
      else (let w = w\<lparr>sp_total := sp_total w + length data\<rparr>
            in case sp_target w of
                 BackingFile p \<Rightarrow> Inr (if sp_total w > SPILL_THRESHOLD_BYTES then w\<lparr>sp_active := True\<rparr> else w)
               | FreshFile p \<Rightarrow>
                   (case sp_file w of
                      Some content \<Rightarrow> Inr (w\<lparr>sp_file := Some (content @ data)\<rparr>)
                    | None \<Rightarrow>
                        if sp_total w \<le> SPILL_THRESHOLD_BYTES then Inr (w\<lparr>sp_pending := sp_pending w @ data\<rparr>)
                        else Inr (w\<lparr>sp_path := Some p, sp_file := Some (sp_pending w @ data), sp_pending := [],
                                    sp_active := True\<rparr>))
               | NoStore \<Rightarrow>
                   (let remaining = SPILL_THRESHOLD_BYTES + 1 - length (sp_pending w)
                    in Inr (w\<lparr>sp_pending := sp_pending w @ take remaining data\<rparr>))))"

text \<open>After \<open>finalize\<close> the file is closed; its content stays. An unused backing file is removed.\<close>

definition spill_finalize :: "spill_writer \<Rightarrow> spill_writer" where
  "spill_finalize w =
     (if sp_finalized w then w
      else (let w = w\<lparr>sp_finalized := True\<rparr>;
                w = (case sp_target w of
                       BackingFile p \<Rightarrow> if \<not> sp_active w then w\<lparr>sp_path := None, sp_backing_removed := True\<rparr> else w
                     | _ \<Rightarrow> w)
            in w\<lparr>sp_pending := []\<rparr>))"

section \<open>Line caps\<close>

record line_cap =
  lc_cap :: nat
  lc_payload :: nat
  lc_visible :: nat
  lc_truncated :: bool
  lc_counted :: bool
  lc_lines :: nat
  lc_bytes :: nat

definition new_line_cap :: "nat \<Rightarrow> line_cap" where
  "new_line_cap cap_bytes =
     (let marker_bytes = length (utf8 LINE_TRUNCATION_MARKER);
          cap = max marker_bytes cap_bytes
      in \<lparr>lc_cap = cap, lc_payload = cap - marker_bytes, lc_visible = 0, lc_truncated = False,
          lc_counted = False, lc_lines = 0, lc_bytes = 0\<rparr>)"

definition line_cap_char :: "nat \<Rightarrow> line_cap \<Rightarrow> line_cap \<times> pystr" where
  "line_cap_char c l =
     (if c = 10 then (l\<lparr>lc_visible := 0, lc_truncated := False, lc_counted := False\<rparr>, [c])
      else (let size = length (utf8_char c)
            in if \<not> lc_truncated l \<and> lc_visible l + size \<le> lc_payload l
               then (l\<lparr>lc_visible := lc_visible l + size\<rparr>, [c])
               else (let out = (if lc_truncated l then [] else LINE_TRUNCATION_MARKER);
                         l = l\<lparr>lc_truncated := True\<rparr>;
                         l = (if lc_counted l then l else l\<lparr>lc_lines := lc_lines l + 1, lc_counted := True\<rparr>)
                     in (l\<lparr>lc_bytes := lc_bytes l + size\<rparr>, out))))"

fun line_cap_chars :: "pystr \<Rightarrow> line_cap \<Rightarrow> line_cap \<times> pystr" where
  "line_cap_chars [] l = (l, [])"
| "line_cap_chars (c # cs) l =
     (case line_cap_char c l of (l', out) \<Rightarrow> (case line_cap_chars cs l' of (l'', rest) \<Rightarrow> (l'', out @ rest)))"

definition line_cap_append :: "pystr \<Rightarrow> line_cap \<Rightarrow> line_cap \<times> nat list" where
  "line_cap_append text l = (case line_cap_chars text l of (l', rendered) \<Rightarrow> (l', utf8 rendered))"

definition take_delta_stats :: "line_cap \<Rightarrow> line_cap \<times> nat \<times> nat" where
  "take_delta_stats l = (l\<lparr>lc_lines := 0, lc_bytes := 0, lc_counted := False\<rparr>, lc_lines l, lc_bytes l)"

section \<open>Previews\<close>

definition allocate_preview_chars :: "nat \<Rightarrow> nat \<Rightarrow> int \<Rightarrow> nat \<times> nat" where
  "allocate_preview_chars head_length tail_length available =
     (let available = nat available;
          head = min head_length (available * PREVIEW_HEAD_BYTES div (PREVIEW_HEAD_BYTES + PREVIEW_TAIL_BYTES));
          tail = min tail_length (available - head);
          remaining = available - head - tail;
          extra_head = (if remaining \<noteq> 0 then min remaining (head_length - head) else 0);
          head = head + extra_head;
          remaining = remaining - extra_head;
          tail = (if remaining \<noteq> 0 then tail + min remaining (tail_length - tail) else tail)
      in (head, tail))"

text \<open>One round of the fixpoint loop: the kept lengths for a marker, the counts they give and the next marker.\<close>

record preview_round =
  pr_head_keep :: nat
  pr_tail_keep :: nat
  pr_bytes :: nat
  pr_lines :: nat
  pr_marker :: pystr

definition preview_round_for :: "head_tail_view \<Rightarrow> pystr \<Rightarrow> pystr \<Rightarrow> nat \<Rightarrow> pystr \<Rightarrow> preview_round" where
  "preview_round_for view source_head source_tail budget marker =
     (case allocate_preview_chars (length source_head) (length source_tail) (int budget - int (length marker)) of
        (head_keep, tail_keep) \<Rightarrow>
          (let removed_head = drop head_keep source_head;
               removed_tail = (if tail_keep \<noteq> 0 then take (length source_tail - tail_keep) source_tail else source_tail);
               omitted_bytes = vw_omitted_bytes view + length (utf8 removed_head) + length (utf8 removed_tail);
               omitted_newlines = vw_omitted_newlines view + count_sub [10] removed_head + count_sub [10] removed_tail;
               ends_newline = (if removed_tail \<noteq> [] then endswith removed_tail [10]
                               else if vw_omitted_bytes view \<noteq> 0 then vw_ends_newline view
                               else endswith removed_head [10]);
               omitted_lines = max 1 (omitted_newlines + (if ends_newline then 0 else 1))
           in \<lparr>pr_head_keep = head_keep, pr_tail_keep = tail_keep, pr_bytes = omitted_bytes,
               pr_lines = omitted_lines, pr_marker = omitted_marker omitted_bytes omitted_lines\<rparr>))"

text \<open>The loop, with the kept lengths of the round before (none at first); it leaves with the last round computed.\<close>

fun preview_loop ::
  "nat \<Rightarrow> (pystr \<Rightarrow> preview_round) \<Rightarrow> (nat \<times> nat) option \<Rightarrow> pystr \<Rightarrow> preview_round \<Rightarrow> preview_round" where
  "preview_loop 0 round keep marker current = current"
| "preview_loop (Suc n) round keep marker current =
     (let next = round marker
      in if keep = Some (pr_head_keep next, pr_tail_keep next) \<and> pr_marker next = marker then next
         else preview_loop n round (Some (pr_head_keep next, pr_tail_keep next)) (pr_marker next) next)"

definition render_preview :: "head_tail_view \<Rightarrow> int \<Rightarrow> pystr \<times> nat \<times> nat" where
  "render_preview view budget_chars =
     (let budget = nat budget_chars
      in if vw_omitted_bytes view = 0 \<and> length (vw_head view) \<le> budget then (vw_head view, 0, 0)
         else (let split = length (vw_head view) * PREVIEW_HEAD_BYTES div (PREVIEW_HEAD_BYTES + PREVIEW_TAIL_BYTES);
                   source_head = (if vw_omitted_bytes view = 0 then take split (vw_head view) else vw_head view);
                   source_tail = (if vw_omitted_bytes view = 0 then drop split (vw_head view) else vw_tail view);
                   marker = omitted_marker (max 1 (vw_omitted_bytes view)) (max 1 (vw_omitted_lines view));
                   round = preview_round_for view source_head source_tail budget;
                   final = preview_loop 6 round None marker (round marker)
               in if length (pr_marker final) > budget
                  then (co_text (cap_chars (source_head @ source_tail) (int budget)
                                   (truncation_marker (max 1 (int budget div 4))) None),
                        pr_bytes final, pr_lines final)
                  else (take (pr_head_keep final) source_head @ pr_marker final @
                        (if pr_tail_keep final > 0 then last_chars (pr_tail_keep final) source_tail else []),
                        pr_bytes final, pr_lines final)))"

section \<open>The accumulator\<close>

text \<open>\<open>'d\<close> is the state of the incremental decoder.\<close>

record 'd accumulator =
  ac_spill :: spill_writer
  ac_preview :: head_tail
  ac_line_cap :: line_cap
  ac_decoder :: 'd
  ac_full_delta :: "nat list option"
  ac_delta_chars :: nat
  ac_finalized :: bool

definition new_accumulator :: "'d \<Rightarrow> spill_target \<Rightarrow> nat \<Rightarrow> bool \<Rightarrow> 'd accumulator" where
  "new_accumulator decoder target line_cap_bytes retain_full_delta =
     \<lparr>ac_spill = new_spill target, ac_preview = new_head_tail PREVIEW_HEAD_BYTES PREVIEW_TAIL_BYTES,
      ac_line_cap = new_line_cap line_cap_bytes, ac_decoder = decoder,
      ac_full_delta = (if retain_full_delta then Some [] else None), ac_delta_chars = 0, ac_finalized = False\<rparr>"

definition append_normalized :: "pystr \<Rightarrow> 'd accumulator \<Rightarrow> spill_error + 'd accumulator" where
  "append_normalized text a =
     (if text = [] then Inr a
      else rbind (spill_append (utf8 text) (ac_spill a)) (\<lambda>spill.
        case line_cap_append text (ac_line_cap a) of
          (lc, shown) \<Rightarrow>
            Inr (a\<lparr>ac_spill := spill, ac_full_delta := map_option (\<lambda>d. d @ utf8 text) (ac_full_delta a),
                   ac_line_cap := lc, ac_preview := ht_append shown (ac_preview a),
                   ac_delta_chars := ac_delta_chars a + length text\<rparr>)))"

definition append_bytes ::
  "('d \<Rightarrow> nat list \<Rightarrow> bool \<Rightarrow> 'd \<times> pystr) \<Rightarrow> nat list \<Rightarrow> 'd accumulator \<Rightarrow> spill_error + 'd accumulator" where
  "append_bytes decode data a =
     (if data = [] then Inr a
      else (case decode (ac_decoder a) data False of (d, text) \<Rightarrow> append_normalized text (a\<lparr>ac_decoder := d\<rparr>)))"

definition acc_finalize ::
  "('d \<Rightarrow> nat list \<Rightarrow> bool \<Rightarrow> 'd \<times> pystr) \<Rightarrow> 'd accumulator \<Rightarrow> spill_error + 'd accumulator" where
  "acc_finalize decode a =
     (if ac_finalized a then Inr a
      else (case decode (ac_decoder a) [] True of
              (d, text) \<Rightarrow>
                rbind (append_normalized text (a\<lparr>ac_finalized := True, ac_decoder := d\<rparr>)) (\<lambda>a.
                Inr (a\<lparr>ac_spill := spill_finalize (ac_spill a)\<rparr>))))"

definition read_delta ::
  "(pystr \<Rightarrow> int option) \<Rightarrow> int \<Rightarrow> bool \<Rightarrow> 'd accumulator \<Rightarrow> 'd accumulator \<times> capped_output" where
  "read_delta parse max_output_tokens hard_limit a =
     (case take_delta_stats (ac_line_cap a) of
        (lc, line_count, line_bytes) \<Rightarrow>
          (let path = spill_path (ac_spill a);
               spilled = (if path \<noteq> None then sp_total (ac_spill a) else 0);
               cleared = a\<lparr>ac_line_cap := lc, ac_preview := ht_reset (ac_preview a),
                           ac_full_delta := map_option (\<lambda>_. []) (ac_full_delta a), ac_delta_chars := 0\<rparr>
           in case (hard_limit, ac_full_delta a) of
                (False, Some delta) \<Rightarrow>
                  (let text = utf8_decode_ignore delta
                   in (cleared, (capped text False (estimated_tokens (length text)))
                                  \<lparr>co_spill_path := path, co_spill_bytes := spilled\<rparr>))
              | _ \<Rightarrow>
                  (let effective = (if hard_limit then clamp_output_tokens parse (JInt max_output_tokens)
                                    else max 1 max_output_tokens)
                   in case render_preview (ht_view (ac_preview a)) (effective * 4) of
                        (text, omitted_bytes, omitted_lines) \<Rightarrow>
                          (cleared, \<lparr>co_text = text, co_truncated = (omitted_bytes > 0 \<or> line_bytes > 0),
                                     co_original_tokens = estimated_tokens (ac_delta_chars a),
                                     co_spill_path = path, co_spill_bytes = spilled, co_line_count = line_count,
                                     co_line_bytes = line_bytes, co_omitted_bytes = omitted_bytes,
                                     co_omitted_lines = omitted_lines\<rparr>))))"

section \<open>What the buffer keeps of a stream\<close>

text \<open>Reference: the buffer as a function of all bytes appended so far.\<close>

definition ht_middle :: "nat \<Rightarrow> nat \<Rightarrow> nat list \<Rightarrow> nat list" where
  "ht_middle h t bytes = take (length (drop h bytes) - t) (drop h bytes)"

definition ht_of :: "nat \<Rightarrow> nat \<Rightarrow> nat list \<Rightarrow> head_tail" where
  "ht_of h t bytes =
     \<lparr>ht_head_cap = h, ht_tail_cap = t, ht_head = take h bytes, ht_tail = last_chars t (drop h bytes),
      ht_breaks = count_sub [10] (ht_middle h t bytes), ht_ends_newline = endswith (ht_middle h t bytes) [10],
      ht_total = length bytes\<rparr>"

lemma count_sub_single: "count_sub [c] s = count_list s c"
  by (induction s) (simp_all add: startswith_def)

lemma count_sub_single_append [simp]: "count_sub [c] (s @ t) = count_sub [c] s + count_sub [c] t"
  by (simp add: count_sub_single)

lemma endswith_append_single: "t \<noteq> [] \<Longrightarrow> endswith (s @ t) [c] = endswith t [c]"
  by (simp add: endswith_single)

lemma last_chars_append: "last_chars n (last_chars n s @ t) = last_chars n (s @ t)"
  by (cases "n \<le> length s") (auto simp: last_chars_def add.commute)

lemma ht_append_tail_of:
  assumes "h \<le> length bytes"
  shows "ht_append_tail data ((ht_of h t bytes)\<lparr>ht_total := n\<rparr>) = (ht_of h t (bytes @ data))\<lparr>ht_total := n\<rparr>"
proof (cases "data = []")
  case False
  define r where "r = drop h bytes"
  let ?tail = "last_chars t r @ data"
  let ?ex = "length ?tail - t"
  have drop: "drop h (bytes @ data) = r @ data" using assms by (simp add: r_def)
  have mid: "ht_middle h t (bytes @ data) = ht_middle h t bytes @ take ?ex ?tail"
  proof (cases "length r \<le> t")
    case True
    then show ?thesis unfolding ht_middle_def drop r_def [symmetric] by (simp add: last_chars_def)
  next
    case False
    then have "take (length r + length data - t) (r @ data) =
        take (length r - t) r @ take (length data) (drop (length r - t) (r @ data))"
      using take_add [of "length r - t" "length data" "r @ data"] by (simp add: add.commute)
    then show ?thesis using False unfolding ht_middle_def drop r_def [symmetric] by (simp add: last_chars_def)
  qed
  have tail: "last_chars t (r @ data) = drop ?ex ?tail"
    using last_chars_append [of t r data] by (simp add: last_chars_def)
  show ?thesis
  proof (cases "?ex > 0")
    case True
    then have "take ?ex ?tail \<noteq> []" by (auto simp: last_chars_def)
    then show ?thesis
      using True False assms
      by (simp add: ht_append_tail_def ht_of_def Let_def mid tail r_def [symmetric] endswith_append_single)
  next
    case ex: False
    then show ?thesis
      using False assms by (simp add: ht_append_tail_def ht_of_def Let_def mid tail r_def [symmetric])
  qed
qed (simp add: ht_append_tail_def)

lemma ht_append_of: "ht_append data (ht_of h t bytes) = ht_of h t (bytes @ data)"
proof (cases "data = []")
  case False
  show ?thesis
  proof (cases "length bytes < h")
    case True
    let ?room = "h - length bytes"
    have start: "(ht_of h t bytes)\<lparr>ht_total := length bytes + length data, ht_head := bytes @ take ?room data\<rparr> =
        (ht_of h t (bytes @ take ?room data))\<lparr>ht_total := length bytes + length data\<rparr>"
      using True by (simp add: ht_of_def ht_middle_def last_chars_def)
    have "ht_append data (ht_of h t bytes) =
        ht_append_tail (drop ?room data) ((ht_of h t (bytes @ take ?room data))\<lparr>ht_total := length bytes + length data\<rparr>)"
      using False True start by (simp add: ht_append_def ht_of_def Let_def)
    also have "\<dots> = ht_of h t (bytes @ data)"
    proof (cases "h \<le> length (bytes @ take ?room data)")
      case True
      then show ?thesis by (subst ht_append_tail_of) (simp_all add: ht_of_def)
    next
      case short: False
      then have "drop ?room data = []" "take ?room data = data" using True by auto
      then show ?thesis by (simp add: ht_append_tail_def ht_of_def)
    qed
    finally show ?thesis .
  next
    case full: False
    then have "ht_append data (ht_of h t bytes) =
        ht_append_tail data ((ht_of h t bytes)\<lparr>ht_total := length bytes + length data\<rparr>)"
      using False by (simp add: ht_append_def ht_of_def Let_def)
    also have "\<dots> = ht_of h t (bytes @ data)"
      using full by (subst ht_append_tail_of) (simp_all add: ht_of_def)
    finally show ?thesis .
  qed
qed (simp add: ht_append_def)

lemma new_head_tail_of: "new_head_tail h t = ht_of h t []"
  by (simp add: new_head_tail_def ht_of_def ht_middle_def last_chars_def endswith_single)

text \<open>
  The interface of a streaming consumer: consuming a concatenation is consuming its parts in turn.
  Then the chunk boundaries of the terminal do not matter.
\<close>

locale stream_consumer =
  fixes consume :: "'a list \<Rightarrow> 's \<Rightarrow> 's \<times> 'b list"
  assumes consume_Nil: "consume [] s = (s, [])"
    and consume_append: "consume (xs @ ys) s =
      (case consume xs s of (s', out) \<Rightarrow> (case consume ys s' of (s'', out') \<Rightarrow> (s'', out @ out')))"
begin

fun consume_chunks :: "'a list list \<Rightarrow> 's \<Rightarrow> 's \<times> 'b list" where
  "consume_chunks [] s = (s, [])"
| "consume_chunks (c # cs) s =
     (case consume c s of (s', out) \<Rightarrow> (case consume_chunks cs s' of (s'', out') \<Rightarrow> (s'', out @ out')))"

lemma consume_chunks_concat: "consume_chunks cs s = consume (concat cs) s"
  by (induction cs arbitrary: s) (simp_all add: consume_Nil consume_append)

lemma chunking_irrelevant: "concat cs = concat ds \<Longrightarrow> consume_chunks cs s = consume_chunks ds s"
  by (simp add: consume_chunks_concat)

end

lemma line_cap_chars_append:
  "line_cap_chars (xs @ ys) l =
     (case line_cap_chars xs l of (l', out) \<Rightarrow> (case line_cap_chars ys l' of (l'', out') \<Rightarrow> (l'', out @ out')))"
  by (induction xs arbitrary: l) (auto split: prod.splits)

interpretation lcap: stream_consumer line_cap_append
  by unfold_locales (auto simp: line_cap_append_def line_cap_chars_append split: prod.splits)

lemma fold_ht_append: "fold ht_append chunks (ht_of h t bytes) = ht_of h t (bytes @ concat chunks)"
  by (induction chunks arbitrary: bytes) (simp_all add: ht_append_of)

text \<open>
  C38: however a stream is cut into chunks, the buffer holds its first bytes, its last bytes, the
  length of the whole, and the number of line breaks in the part that is gone.
\<close>

theorem head_tail_of_stream:
  "let b = fold ht_append chunks (new_head_tail h t);
       bytes = concat chunks;
       rest = drop h bytes;
       gone = take (length rest - t) rest
   in ht_head b = take h bytes \<and> ht_tail b = last_chars t rest \<and> ht_total b = length bytes \<and>
      ht_breaks b = count_list gone 10 \<and> ht_head b @ gone @ ht_tail b = bytes"
  unfolding new_head_tail_of fold_ht_append
  by (simp add: Let_def ht_of_def ht_middle_def count_sub_single last_chars_def del: drop_drop length_drop)

section \<open>Line caps\<close>

abbreviation marker_bytes :: nat where
  "marker_bytes \<equiv> length (utf8 LINE_TRUNCATION_MARKER)"

text \<open>A state of the cap and the number of bytes already shown of the current line.\<close>

definition line_open :: "line_cap \<Rightarrow> nat \<Rightarrow> bool" where
  "line_open l b =
     (lc_cap l = lc_payload l + marker_bytes \<and>
      (if lc_truncated l then b \<le> lc_payload l + marker_bytes else b = lc_visible l \<and> b \<le> lc_payload l))"

lemma new_line_open: "line_open (new_line_cap n) 0"
  by (simp add: line_open_def new_line_cap_def Let_def)

lemma marker_no_break: "10 \<notin> set LINE_TRUNCATION_MARKER"
  by (simp add: LINE_TRUNCATION_MARKER_def lit_def)

lemma split_on_prefix: "c \<notin> set s \<Longrightarrow> split_on c (s @ t) = (s @ hd (split_on c t)) # tl (split_on c t)"
  by (induction s) (auto split: list.splits)

lemma line_cap_char_open:
  assumes "line_open l b" "line_cap_char c l = (l', out)"
  shows "lc_cap l' = lc_cap l \<and>
    (if c = 10 then out = [10] \<and> line_open l' 0
     else 10 \<notin> set out \<and> line_open l' (b + length (utf8 out)) \<and> b + length (utf8 out) \<le> lc_cap l)"
  using assms marker_no_break
  by (auto simp: line_cap_char_def line_open_def Let_def utf8_def split: if_splits)

lemma line_cap_chars_open:
  "line_open l b \<Longrightarrow> line_cap_chars cs0 l = (l', out) \<Longrightarrow>
     lc_cap l' = lc_cap l \<and> b + length (utf8 (hd (split_on 10 out))) \<le> lc_cap l \<and>
     list_all (\<lambda>line. length (utf8 line) \<le> lc_cap l) (tl (split_on 10 out))"
proof (induction cs0 arbitrary: l b l' out)
  case Nil
  then show ?case by (auto simp: line_open_def split: if_splits)
next
  case (Cons c cs)
  obtain l1 o1 where step: "line_cap_char c l = (l1, o1)" by (metis surj_pair)
  obtain l2 o2 where rest: "line_cap_chars cs l1 = (l2, o2)" by (metis surj_pair)
  have res: "l' = l2" "out = o1 @ o2" using Cons.prems(2) step rest by auto
  note st = line_cap_char_open [OF Cons.prems(1) step]
  show ?case
  proof (cases "c = 10")
    case True
    then have o1: "o1 = [10]" and cap: "lc_cap l1 = lc_cap l" and "line_open l1 0" using st by simp_all
    from Cons.IH [OF this(3) rest] cap
    have ih: "lc_cap l2 = lc_cap l" "length (utf8 (hd (split_on 10 o2))) \<le> lc_cap l"
      "list_all (\<lambda>line. length (utf8 line) \<le> lc_cap l) (tl (split_on 10 o2))" by simp_all
    have "b \<le> lc_cap l" using Cons.prems(1) by (auto simp: line_open_def split: if_splits)
    then show ?thesis using ih res o1
      by (cases "split_on 10 o2") auto
  next
    case False
    then have cap: "lc_cap l1 = lc_cap l" and nb: "10 \<notin> set o1" and op: "line_open l1 (b + length (utf8 o1))"
      using st by simp_all
    from Cons.IH [OF op rest] cap show ?thesis
      by (simp add: res split_on_prefix [OF nb] add.assoc)
  qed
qed

lemma line_cap_char_bytes:
  "line_cap_char c l = (l', out) \<Longrightarrow> lc_bytes l \<le> lc_bytes l' \<and> (lc_bytes l' = lc_bytes l \<longrightarrow> out = [c])"
  using utf8_char_pos [of c] by (auto simp: line_cap_char_def Let_def split: if_splits)

lemma line_cap_chars_bytes:
  "line_cap_chars cs0 l = (l', out) \<Longrightarrow> lc_bytes l \<le> lc_bytes l' \<and> (lc_bytes l' = lc_bytes l \<longrightarrow> out = cs0)"
proof (induction cs0 arbitrary: l l' out)
  case (Cons c cs)
  obtain l1 o1 where step: "line_cap_char c l = (l1, o1)" by (metis surj_pair)
  obtain l2 o2 where rest: "line_cap_chars cs l1 = (l2, o2)" by (metis surj_pair)
  show ?case using Cons.prems step rest line_cap_char_bytes [OF step] Cons.IH [OF rest] by auto
qed simp

text \<open>
  The line cap does not depend on how the text is cut into chunks; no line it shows has more
  bytes than the cap, its marker included; and when no byte was counted as dropped, what it shows
  is the text.
\<close>

theorem line_cap_bounds_every_line:
  "line_cap_append (a @ b) (new_line_cap n) =
     (case line_cap_append a (new_line_cap n) of (l1, out1) \<Rightarrow>
        (case line_cap_append b l1 of (l2, out2) \<Rightarrow> (l2, out1 @ out2))) \<and>
   (case line_cap_chars a (new_line_cap n) of (l, shown) \<Rightarrow>
      list_all (\<lambda>line. length (utf8 line) \<le> max marker_bytes n) (split_on 10 shown) \<and>
      (lc_bytes l = 0 \<longrightarrow> shown = a))"
proof (rule conjI [OF lcap.consume_append])
  obtain l shown where r: "line_cap_chars a (new_line_cap n) = (l, shown)" by (metis surj_pair)
  have cap: "lc_cap (new_line_cap n) = max marker_bytes n" "lc_bytes (new_line_cap n) = 0"
    by (simp_all add: new_line_cap_def Let_def)
  have "list_all (\<lambda>line. length (utf8 line) \<le> max marker_bytes n) (split_on 10 shown)"
    using line_cap_chars_open [OF new_line_open r] unfolding cap by (cases "split_on 10 shown") auto
  moreover have "lc_bytes l = 0 \<longrightarrow> shown = a" using line_cap_chars_bytes [OF r] cap by simp
  ultimately show "case line_cap_chars a (new_line_cap n) of (l, shown) \<Rightarrow>
      list_all (\<lambda>line. length (utf8 line) \<le> max marker_bytes n) (split_on 10 shown) \<and> (lc_bytes l = 0 \<longrightarrow> shown = a)"
    by (simp add: r)
qed

theorem line_cap_bounds_every_line_witness:
  "snd (line_cap_chars (lit ''ok'') (new_line_cap 1024)) = lit ''ok''"
proof -
  have "lc_bytes (fst (line_cap_chars (lit ''ok'') (new_line_cap 1024))) = 0" by code_simp
  then show ?thesis using line_cap_bounds_every_line [of "lit ''ok''" "[]" 1024] by (auto split: prod.splits)
qed

section \<open>Token caps\<close>

lemma length_last_chars: "length (last_chars n s) = min n (length s)"
  by (simp add: last_chars_def)

lemma cap_chars_length: "length (co_text (cap_chars s budget marker original)) \<le> nat budget"
  by (auto simp: cap_chars_def capped_def Let_def length_last_chars)

lemma clamp_output_tokens_bounds:
  "1 \<le> clamp_output_tokens parse v \<and> clamp_output_tokens parse v \<le> 10000"
  by (simp add: clamp_output_tokens_def Let_def GLOBAL_MAX_TOOL_OUTPUT_TOKENS_def)

text \<open>
  Capped text never has more than four characters per allowed token; text that fits is returned
  whole; and the recovery suffix ends the result whenever it fits beside the truncation marker.
\<close>

theorem cap_tokens_within_budget:
  assumes "e = (if hard then clamp_output_tokens parse (JInt n) else max 1 n)"
    and "r = co_text (cap_tokens parse s n suffix original hard)"
  shows "int (length r) \<le> 4 * e \<and> (hard \<longrightarrow> e \<le> 10000) \<and>
    (int (length (s @ suffix)) \<le> 4 * e \<longrightarrow> r = s @ suffix) \<and>
    (int (length suffix + length (truncation_marker e)) < 4 * e \<longrightarrow> endswith r suffix)"
proof -
  have e: "1 \<le> e" "hard \<longrightarrow> e \<le> 10000" using assms(1) clamp_output_tokens_bounds by auto
  let ?b = "nat (e * 4)"
  let ?m = "truncation_marker e"
  show ?thesis
  proof (cases "length (s @ suffix) \<le> ?b")
    case True
    then have "r = s @ suffix"
      unfolding assms(2) cap_tokens_def assms(1) [symmetric] Let_def by (simp add: capped_def)
    then show ?thesis using True e by (auto simp: endswith_def)
  next
    case False
    define suf where "suf = (if length suffix \<le> ?b then suffix else [])"
    define av where "av = ?b - length ?m - length suf"
    define orig where "orig = Some (case original of Some n \<Rightarrow> n | None \<Rightarrow> estimated_tokens (length s))"
    define body where "body = (if av = 0 then (if suf \<noteq> [] then last_chars ?b suf else [])
        else co_text (cap_chars s (int (av + length ?m)) ?m orig) @ suf)"
    have r: "r = take ?b body"
      using False unfolding assms(2) cap_tokens_def assms(1) [symmetric] Let_def body_def av_def suf_def orig_def
      by (simp add: capped_def)
    have "endswith r suffix" if fits: "int (length suffix + length ?m) < 4 * e"
    proof -
      have av: "suf = suffix" "av \<noteq> 0" "av + length ?m + length suf = ?b"
        using fits by (auto simp: suf_def av_def)
      then have "length body \<le> ?b"
        using cap_chars_length [of s "int (av + length ?m)" ?m orig] by (simp add: body_def nat_add_distrib)
      then show ?thesis using av by (simp add: r body_def endswith_def)
    qed
    moreover have "int (length r) \<le> 4 * e" using e by (simp add: r)
    ultimately show ?thesis using False e by auto
  qed
qed

theorem cap_tokens_within_budget_witness:
  "let r = co_text (cap_tokens (\<lambda>_. None) (replicate 200 120) 20 (lit ''[saved]'') None True)
   in length r \<le> 80 \<and> endswith r (lit ''[saved]'')"
proof -
  have e: "20 = (if True then clamp_output_tokens (\<lambda>_. None) (JInt 20) else max 1 20)" by code_simp
  have "int (length (lit ''[saved]'') + length (truncation_marker 20)) < 4 * 20" by code_simp
  then show ?thesis
    using cap_tokens_within_budget [OF e refl, of "replicate 200 120" "lit ''[saved]''" None]
    by (simp only: Let_def) simp
qed

section \<open>Spilled output is complete\<close>

text \<open>Reference: the writer of a fresh file as a function of all bytes.\<close>

definition spill_of :: "pystr \<Rightarrow> nat list \<Rightarrow> spill_writer" where
  "spill_of p bytes =
     (let small = (length bytes \<le> SPILL_THRESHOLD_BYTES)
      in \<lparr>sp_target = FreshFile p, sp_total = length bytes, sp_path = (if small then None else Some p),
          sp_file = (if small then None else Some bytes), sp_pending = (if small then bytes else []),
          sp_active = (\<not> small), sp_finalized = False, sp_backing_removed = False\<rparr>)"

lemma new_spill_of: "new_spill (FreshFile p) = spill_of p []"
  by (simp add: new_spill_def spill_of_def Let_def)

lemma spill_append_of: "spill_append data (spill_of p bytes) = Inr (spill_of p (bytes @ data))"
  by (auto simp: spill_append_def spill_of_def Let_def)

text \<open>What happens to an accumulator between its creation and its end: text arrives, the model reads.\<close>

datatype terminal_action = Arrives pystr | Reads int bool

fun terminal_run ::
  "(pystr \<Rightarrow> int option) \<Rightarrow> terminal_action list \<Rightarrow> 'd accumulator \<Rightarrow> spill_error + 'd accumulator" where
  "terminal_run parse [] a = Inr a"
| "terminal_run parse (Arrives s # acts) a = rbind (append_normalized s a) (terminal_run parse acts)"
| "terminal_run parse (Reads n hard # acts) a = terminal_run parse acts (fst (read_delta parse n hard a))"

fun arrived :: "terminal_action list \<Rightarrow> pystr" where
  "arrived [] = []"
| "arrived (Arrives s # acts) = s @ arrived acts"
| "arrived (Reads n hard # acts) = arrived acts"

lemma read_delta_spill: "ac_spill (fst (read_delta parse n hard a)) = ac_spill a"
  by (auto simp: read_delta_def take_delta_stats_def Let_def split: prod.splits option.splits bool.splits)

lemma append_normalized_spill:
  assumes "ac_spill a = spill_of p bytes"
  obtains a' where "append_normalized s a = Inr a'" "ac_spill a' = spill_of p (bytes @ utf8 s)"
proof (cases "s = []")
  case False
  obtain lc shown where "line_cap_append s (ac_line_cap a) = (lc, shown)" by (metis surj_pair)
  then show thesis using that assms False by (simp add: append_normalized_def spill_append_of)
qed (use that assms in \<open>simp add: append_normalized_def\<close>)

lemma terminal_run_spill:
  "ac_spill a = spill_of p bytes \<Longrightarrow>
     \<exists>a'. terminal_run parse acts a = Inr a' \<and> ac_spill a' = spill_of p (bytes @ utf8 (arrived acts))"
proof (induction parse acts a arbitrary: bytes rule: terminal_run.induct)
  case (2 parse s acts a)
  obtain a' where a': "append_normalized s a = Inr a'" "ac_spill a' = spill_of p (bytes @ utf8 s)"
    using append_normalized_spill [OF 2(2)] by blast
  from 2(1) [OF a'(2)] show ?case using a'(1) by simp
qed (auto simp: read_delta_spill)

text \<open>
  C26: output that outgrows the threshold can be recovered completely: whatever text arrives and
  whatever the model reads in between, nothing fails, and the spill file is announced and holds the
  encoding of all the text that arrived, in order; below the threshold there is no spill file.
\<close>

theorem spilled_output_is_complete:
  "\<exists>a. terminal_run parse acts (new_accumulator d (FreshFile p) cap retain) = Inr a \<and>
     sp_total (ac_spill a) = length (utf8 (arrived acts)) \<and>
     (if length (utf8 (arrived acts)) \<le> SPILL_THRESHOLD_BYTES then spill_path (ac_spill a) = None
      else spill_path (ac_spill a) = Some p \<and> sp_file (ac_spill a) = Some (utf8 (arrived acts)))"
proof -
  have "ac_spill (new_accumulator d (FreshFile p) cap retain) = spill_of p []"
    by (simp add: new_accumulator_def new_spill_of)
  from terminal_run_spill [OF this, of parse acts] show ?thesis
    by (auto simp: spill_of_def spill_path_def Let_def)
qed

section \<open>Previews\<close>

lemma allocate_arith:
  fixes H :: nat
  assumes "H \<le> h" "H \<le> av" "T = min t (av - H)" "R = av - H - T" "X = (if R \<noteq> 0 then min R (h - H) else 0)"
    and "Y = (if R - X \<noteq> 0 then T + min (R - X) (t - T) else T)"
  shows "H + X \<le> h \<and> Y \<le> t \<and> H + X + Y = min av (h + t)"
  using assms unfolding min_def by (auto split: if_splits)

lemma allocate_preview_bounds:
  assumes "allocate_preview_chars h t available = (x, y)"
  shows "x \<le> h \<and> y \<le> t \<and> x + y = min (nat available) (h + t)"
proof -
  define H where "H = min h (nat available * PREVIEW_HEAD_BYTES div (PREVIEW_HEAD_BYTES + PREVIEW_TAIL_BYTES))"
  have "nat available * PREVIEW_HEAD_BYTES div (PREVIEW_HEAD_BYTES + PREVIEW_TAIL_BYTES) \<le> nat available"
    by (simp add: PREVIEW_HEAD_BYTES_def PREVIEW_TAIL_BYTES_def)
  then have H: "H \<le> h" "H \<le> nat available" by (simp_all add: H_def)
  show ?thesis
    using allocate_arith [OF H refl refl refl refl, of t] assms
    unfolding allocate_preview_chars_def Let_def H_def [symmetric] by auto
qed

text \<open>
  A preview settles when the last round of the loop keeps the marker it was computed for.
\<close>

definition preview_settles :: "head_tail_view \<Rightarrow> int \<Rightarrow> bool" where
  "preview_settles view budget_chars =
     (let budget = nat budget_chars;
          split = length (vw_head view) * PREVIEW_HEAD_BYTES div (PREVIEW_HEAD_BYTES + PREVIEW_TAIL_BYTES);
          source_head = (if vw_omitted_bytes view = 0 then take split (vw_head view) else vw_head view);
          source_tail = (if vw_omitted_bytes view = 0 then drop split (vw_head view) else vw_tail view);
          marker = omitted_marker (max 1 (vw_omitted_bytes view)) (max 1 (vw_omitted_lines view));
          round = preview_round_for view source_head source_tail budget;
          final = preview_loop 6 round None marker (round marker)
      in round (pr_marker final) = final)"

lemma settled_round_fits:
  assumes "preview_round_for view sh st budget m = r" and "pr_marker r = m" and "length m \<le> budget"
  shows "pr_head_keep r + length m + pr_tail_keep r \<le> budget \<and> pr_head_keep r \<le> length sh \<and> pr_tail_keep r \<le> length st"
proof -
  obtain x y where a: "allocate_preview_chars (length sh) (length st) (int budget - int (length m)) = (x, y)"
    by (metis surj_pair)
  have "pr_head_keep r = x" "pr_tail_keep r = y"
    using assms(1) a by (auto simp: preview_round_for_def Let_def)
  then show ?thesis using allocate_preview_bounds [OF a] assms(3) by auto
qed

text \<open>
  a preview whose marker has settled fits the character budget.
\<close>

theorem settled_preview_fits:
  assumes "preview_settles view budget"
  shows "length (fst (render_preview view budget)) \<le> nat budget"
proof (cases "vw_omitted_bytes view = 0 \<and> length (vw_head view) \<le> nat budget")
  case True
  then show ?thesis by (simp add: render_preview_def Let_def)
next
  case False
  define split where "split = length (vw_head view) * PREVIEW_HEAD_BYTES div (PREVIEW_HEAD_BYTES + PREVIEW_TAIL_BYTES)"
  define sh where "sh = (if vw_omitted_bytes view = 0 then take split (vw_head view) else vw_head view)"
  define st where "st = (if vw_omitted_bytes view = 0 then drop split (vw_head view) else vw_tail view)"
  define marker where "marker = omitted_marker (max 1 (vw_omitted_bytes view)) (max 1 (vw_omitted_lines view))"
  define round where "round = preview_round_for view sh st (nat budget)"
  define final where "final = preview_loop 6 round None marker (round marker)"
  have stable: "round (pr_marker final) = final"
    using assms unfolding preview_settles_def Let_def split_def [symmetric] sh_def [symmetric] st_def [symmetric]
      marker_def [symmetric] round_def [symmetric] final_def [symmetric] .
  have r: "fst (render_preview view budget) =
      (if length (pr_marker final) > nat budget
       then co_text (cap_chars (sh @ st) (int (nat budget)) (truncation_marker (max 1 (int (nat budget) div 4))) None)
       else take (pr_head_keep final) sh @ pr_marker final @
            (if pr_tail_keep final > 0 then last_chars (pr_tail_keep final) st else []))"
    unfolding render_preview_def Let_def split_def [symmetric] sh_def [symmetric] st_def [symmetric]
      marker_def [symmetric] round_def [symmetric] final_def [symmetric] if_not_P [OF False] if_distrib [of fst] fst_conv ..
  show ?thesis
  proof (cases "length (pr_marker final) > nat budget")
    case True
    show ?thesis
      unfolding r if_P [OF True] by (rule order_trans [OF cap_chars_length]) simp
  next
    case short: False
    have "pr_head_keep final + length (pr_marker final) + pr_tail_keep final \<le> nat budget \<and>
        pr_head_keep final \<le> length sh \<and> pr_tail_keep final \<le> length st"
      using short settled_round_fits [OF stable [unfolded round_def] refl] by simp
    then show ?thesis using short by (auto simp: r length_last_chars)
  qed
qed

theorem settled_preview_fits_witness:
  "length (fst (render_preview (ht_view (ht_append (replicate 70 120) (new_head_tail 12 12))) 60)) \<le> nat 60"
proof (rule settled_preview_fits)
  show "preview_settles (ht_view (ht_append (replicate 70 120) (new_head_tail 12 12))) 60" by code_simp
qed

end
