(* ===== verification/Lsp_Edits.thy ===== *)
theory Lsp_Edits
  imports Kolega_Prelude "HOL-Library.Product_Lexorder" "HOL-Library.Multiset"
begin

text \<open>
  Application of the workspace edits of a language server, \<open>kolega_code/services/lsp/edits.py\<close>.
  Payloads are dynamic values; every \<open>WorkspaceEditError\<close> is a constructor of \<open>ws_error\<close>.

  Parameters: \<open>resolve\<close>, the translation of a file URI to a path (\<open>_uri_to_relative_path\<close>, which is
  URL parsing and path arithmetic of the standard library), and the file system, the operations of the abstract class \<open>FileSystem\<close>
  (\<open>services/file_system.py\<close>) that the applier calls, as a record of functions on a state \<open>'f\<close>.
\<close>

section \<open>Data\<close>

datatype ws_error =
    EditNotObject | ChangesNotObject | DocumentChangesNotArray | EntryNotObject | TextDocumentNotObject
  | UriNotString | UnsupportedEntry json | ResourceUriNotString | OptionsNotObject | EditsNotArray
  | EditEntryNotObject | RangeNotObject | NewTextNotString | EndBeforeStart | OverlappingEdits
  | PositionNotObject | PositionNotIntegers | PositionNegative | PositionOutsideDocument | LineOutsideDocument
  | SplitsSurrogatePair | CharacterOutsideLine | BadUri pystr | DeletedFile pystr | MissingFile pystr
  | DirectoryAsText pystr | CreateTargetExists pystr | RenameSourceMissing pystr | RenameTargetExists pystr
  | DeleteTargetMissing pystr | UnhashableKind | FileSystemFailure pystr

record text_change =
  tc_path :: pystr
  tc_old :: pystr
  tc_new :: pystr

record ws_result =
  wr_applied :: bool
  wr_summaries :: "pystr list"
  wr_touched :: "pystr list"
  wr_changes :: "text_change list"

record resolved_edit =
  re_start :: nat
  re_end :: nat
  re_text :: pystr
  re_index :: nat

type_synonym jdict = "(pystr \<times> json) list"

datatype ws_op =
    TextEditOp pystr "jdict list"
  | CreateOp pystr bool bool
  | RenameOp pystr pystr bool bool
  | DeleteOp pystr bool bool

record 'f file_system =
  fs_exists :: "'f \<Rightarrow> pystr \<Rightarrow> bool"
  fs_is_dir :: "'f \<Rightarrow> pystr \<Rightarrow> bool"
  fs_read_text :: "'f \<Rightarrow> pystr \<Rightarrow> ws_error + pystr"
  fs_read_bytes :: "'f \<Rightarrow> pystr \<Rightarrow> nat list option"
  fs_get_parent :: "pystr \<Rightarrow> pystr"
  fs_write_text :: "pystr \<Rightarrow> pystr \<Rightarrow> 'f \<Rightarrow> ws_error option \<times> 'f"
  fs_mkdir :: "pystr \<Rightarrow> 'f \<Rightarrow> ws_error option \<times> 'f"
  fs_rename :: "pystr \<Rightarrow> pystr \<Rightarrow> 'f \<Rightarrow> ws_error option \<times> 'f"
  fs_remove :: "pystr \<Rightarrow> 'f \<Rightarrow> ws_error option \<times> 'f"
  fs_rmdir :: "pystr \<Rightarrow> 'f \<Rightarrow> ws_error option \<times> 'f"
  fs_rmtree :: "pystr \<Rightarrow> 'f \<Rightarrow> ws_error option \<times> 'f"

section \<open>Positions\<close>

fun utf16_loop :: "pystr \<Rightarrow> nat \<Rightarrow> int \<Rightarrow> int \<Rightarrow> ws_error + nat" where
  "utf16_loop [] index units_seen target =
     (if units_seen = target then Inr index else Inl CharacterOutsideLine)"
| "utf16_loop (c # cs) index units_seen target =
     (if units_seen = target then Inr index
      else (let units_seen = units_seen + (if c > 65535 then 2 else 1)
            in if units_seen > target then Inl SplitsSurrogatePair
               else utf16_loop cs (index + 1) units_seen target))"

definition python_offset_for_utf16 :: "pystr \<Rightarrow> int \<Rightarrow> ws_error + nat" where
  "python_offset_for_utf16 line utf16_character = utf16_loop line 0 0 utf16_character"

text \<open>\<open>isinstance(v, int)\<close> holds for booleans too.\<close>

definition as_int :: "json \<Rightarrow> int option" where
  "as_int v = (case v of JInt i \<Rightarrow> Some i | JBool b \<Rightarrow> Some (if b then 1 else 0) | _ \<Rightarrow> None)"

definition line_body :: "pystr \<Rightarrow> pystr" where
  "line_body line =
     (if endswith line [13, 10] then take (length line - 2) line
      else if endswith line [10] \<or> endswith line [13] then butlast line else line)"

definition offset_for_position :: "pystr \<Rightarrow> json \<Rightarrow> ws_error + nat" where
  "offset_for_position content position =
     (case position of
        JObj p \<Rightarrow>
          (case (as_int (json_get p (lit ''line'')), as_int (json_get p (lit ''character''))) of
             (Some line, Some character) \<Rightarrow>
               if line < 0 \<or> character < 0 then Inl PositionNegative
               else (let lines = splitlines_keep content
                     in if lines = [] then
                          (if line = 0 \<and> character = 0 then Inr 0 else Inl PositionOutsideDocument)
                        else if line = int (length lines) \<and> character = 0 then Inr (length content)
                        else if line \<ge> int (length lines) then Inl LineOutsideDocument
                        else (let line_start = length (concat (take (nat line) lines))
                              in rbind (python_offset_for_utf16 (line_body (lines ! nat line)) character)
                                   (\<lambda>k. Inr (line_start + k))))
           | _ \<Rightarrow> Inl PositionNotIntegers)
      | _ \<Rightarrow> Inl PositionNotObject)"

section \<open>Text edits\<close>

text \<open>\<open>edit["range"]\<close> and \<open>edit["newText"]\<close> of an edit whose shape was checked when the payload was read.\<close>

definition edit_range :: "jdict \<Rightarrow> jdict" where
  "edit_range e = (case json_get e (lit ''range'') of JObj r \<Rightarrow> r | _ \<Rightarrow> [])"

definition edit_text :: "jdict \<Rightarrow> pystr" where
  "edit_text e = (case json_get e (lit ''newText'') of JStr s \<Rightarrow> s | _ \<Rightarrow> [])"

fun resolve_edits :: "pystr \<Rightarrow> nat \<Rightarrow> (nat \<times> nat \<times> pystr) list \<Rightarrow> jdict list \<Rightarrow> ws_error + resolved_edit list" where
  "resolve_edits content index seen [] = Inr []"
| "resolve_edits content index seen (e # es) =
     rbind (offset_for_position content (json_get (edit_range e) (lit ''start''))) (\<lambda>start.
     rbind (offset_for_position content (json_get (edit_range e) (lit ''end''))) (\<lambda>stop.
     if stop < start then Inl EndBeforeStart
     else (let key = (start, stop, edit_text e)
           in if start \<noteq> stop \<and> key \<in> set seen then resolve_edits content (index + 1) seen es
              else rbind (resolve_edits content (index + 1) (if start \<noteq> stop then key # seen else seen) es) (\<lambda>rest.
                   Inr (\<lparr>re_start = start, re_end = stop, re_text = edit_text e, re_index = index\<rparr> # rest)))))"

fun overlapping :: "resolved_edit list \<Rightarrow> bool" where
  "overlapping (previous # current # rest) = (re_end previous > re_start current \<or> overlapping (current # rest))"
| "overlapping _ = False"

definition edit_splice_of :: "resolved_edit \<Rightarrow> nat splice" where
  "edit_splice_of r = (re_start r, re_end r, re_text r)"

definition apply_text_edits :: "pystr \<Rightarrow> jdict list \<Rightarrow> ws_error + pystr" where
  "apply_text_edits content edits =
     rbind (resolve_edits content 0 [] edits) (\<lambda>resolved.
     if overlapping (sort_key (\<lambda>r. (re_start r, re_end r, re_index r)) resolved) then Inl OverlappingEdits
     else Inr (fold (\<lambda>r. slice_assign (edit_splice_of r))
                 (rev (sort_key (\<lambda>r. (re_start r, re_index r)) resolved)) content))"

section \<open>Line endings\<close>

definition dominant_line_ending :: "nat list \<Rightarrow> pystr" where
  "dominant_line_ending raw =
     (let crlf_count = count_sub [13, 10] raw;
          without_crlf = replace_all [13, 10] [] raw;
          lf_count = count_sub [10] without_crlf;
          cr_count = count_sub [13] without_crlf
      in if crlf_count > 0 \<and> crlf_count \<ge> lf_count \<and> crlf_count \<ge> cr_count then [13, 10]
         else if cr_count > 0 \<and> cr_count > lf_count then [13] else [10])"

definition preserve_line_endings :: "'f file_system \<Rightarrow> 'f \<Rightarrow> pystr \<Rightarrow> pystr \<Rightarrow> pystr \<Rightarrow> pystr" where
  "preserve_line_endings fs disk path old_text new_text =
     (let line_ending = dominant_line_ending (case fs_read_bytes fs disk path of Some raw \<Rightarrow> raw | None \<Rightarrow> old_text)
      in if line_ending = [10] then new_text
         else replace_all [10] line_ending (replace_all [13] [10] (replace_all [13, 10] [10] new_text)))"

section \<open>Reading a payload\<close>

definition validate_text_edit_list :: "json \<Rightarrow> ws_error + jdict list" where
  "validate_text_edit_list edits =
     (case edits of
        JList es \<Rightarrow>
          traverse (\<lambda>e. case e of
              JObj d \<Rightarrow>
                (case json_get d (lit ''range'') of
                   JObj _ \<Rightarrow> (case json_get d (lit ''newText'') of JStr _ \<Rightarrow> Inr d | _ \<Rightarrow> Inl NewTextNotString)
                 | _ \<Rightarrow> Inl RangeNotObject)
            | _ \<Rightarrow> Inl EditEntryNotObject) es
      | _ \<Rightarrow> Inl EditsNotArray)"

type_synonym uri_resolver = "pystr \<Rightarrow> ws_error + pystr"

definition entry_options :: "jdict \<Rightarrow> ws_error + jdict" where
  "entry_options entry =
     (let v = json_get entry (lit ''options'')
      in if \<not> truthy v then Inr [] else (case v of JObj d \<Rightarrow> Inr d | _ \<Rightarrow> Inl OptionsNotObject))"

definition parse_create_file :: "uri_resolver \<Rightarrow> jdict \<Rightarrow> ws_error + ws_op" where
  "parse_create_file resolve entry =
     (case json_get entry (lit ''uri'') of
        JStr uri \<Rightarrow>
          rbind (entry_options entry) (\<lambda>options.
          rbind (resolve uri) (\<lambda>path.
          Inr (CreateOp path (truthy (json_get options (lit ''overwrite'')))
                 (truthy (json_get options (lit ''ignoreIfExists''))))))
      | _ \<Rightarrow> Inl ResourceUriNotString)"

definition parse_rename_file :: "uri_resolver \<Rightarrow> jdict \<Rightarrow> ws_error + ws_op" where
  "parse_rename_file resolve entry =
     (case (json_get entry (lit ''oldUri''), json_get entry (lit ''newUri'')) of
        (JStr old_uri, JStr new_uri) \<Rightarrow>
          rbind (entry_options entry) (\<lambda>options.
          rbind (resolve old_uri) (\<lambda>old_path.
          rbind (resolve new_uri) (\<lambda>new_path.
          Inr (RenameOp old_path new_path (truthy (json_get options (lit ''overwrite'')))
                 (truthy (json_get options (lit ''ignoreIfExists'')))))))
      | _ \<Rightarrow> Inl ResourceUriNotString)"

definition parse_delete_file :: "uri_resolver \<Rightarrow> jdict \<Rightarrow> ws_error + ws_op" where
  "parse_delete_file resolve entry =
     (case json_get entry (lit ''uri'') of
        JStr uri \<Rightarrow>
          rbind (entry_options entry) (\<lambda>options.
          rbind (resolve uri) (\<lambda>path.
          Inr (DeleteOp path (truthy (json_get options (lit ''ignoreIfNotExists'')))
                 (truthy (json_get options (lit ''recursive''))))))
      | _ \<Rightarrow> Inl ResourceUriNotString)"

definition parse_document_change :: "uri_resolver \<Rightarrow> json \<Rightarrow> ws_error + ws_op" where
  "parse_document_change resolve value =
     (case value of
        JObj entry \<Rightarrow>
          (let kind = json_get entry (lit ''kind'')
           in if (case kind of JList _ \<Rightarrow> True | JObj _ \<Rightarrow> True | _ \<Rightarrow> False) then Inl UnhashableKind
              else if kind \<in> {JStr (lit ''create''), JStr (lit ''createFile'')} then parse_create_file resolve entry
              else if kind \<in> {JStr (lit ''rename''), JStr (lit ''renameFile'')} then parse_rename_file resolve entry
              else if kind \<in> {JStr (lit ''delete''), JStr (lit ''deleteFile'')} then parse_delete_file resolve entry
              else if kind \<in> {JStr (lit ''textDocument/edit''), JStr (lit ''edit'')} \<or>
                      json_get entry (lit ''textDocument'') \<noteq> JNull then
                (case json_get entry (lit ''textDocument'') of
                   JObj doc \<Rightarrow>
                     (case json_get doc (lit ''uri'') of
                        JStr uri \<Rightarrow>
                          rbind (resolve uri) (\<lambda>path.
                          rbind (validate_text_edit_list
                                   (case dict_get entry (lit ''edits'') of None \<Rightarrow> JList [] | Some v \<Rightarrow> v)) (\<lambda>edits.
                          Inr (TextEditOp path edits)))
                      | _ \<Rightarrow> Inl UriNotString)
                 | _ \<Rightarrow> Inl TextDocumentNotObject)
              else Inl (UnsupportedEntry kind))
      | _ \<Rightarrow> Inl EntryNotObject)"

definition parse_workspace_edit :: "uri_resolver \<Rightarrow> json \<Rightarrow> ws_error + ws_op list" where
  "parse_workspace_edit resolve edit =
     (case edit of
        JObj d \<Rightarrow>
          if json_get d (lit ''changes'') \<noteq> JNull then
            (case json_get d (lit ''changes'') of
               JObj changes \<Rightarrow>
                 traverse (\<lambda>(uri, text_edits).
                     rbind (resolve uri) (\<lambda>path.
                     rbind (validate_text_edit_list text_edits) (\<lambda>edits. Inr (TextEditOp path edits))))
                   (filter (\<lambda>(uri, text_edits). truthy text_edits) changes)
             | _ \<Rightarrow> Inl ChangesNotObject)
          else
            (case json_get d (lit ''documentChanges'') of
               JNull \<Rightarrow> Inr []
             | JList entries \<Rightarrow> traverse (parse_document_change resolve) entries
             | _ \<Rightarrow> Inl DocumentChangesNotArray)
      | _ \<Rightarrow> Inl EditNotObject)"

section \<open>Planning\<close>

type_synonym virtual_files = "pystr \<rightharpoonup> pystr option"

definition virtual_exists :: "'f file_system \<Rightarrow> 'f \<Rightarrow> virtual_files \<Rightarrow> pystr \<Rightarrow> bool" where
  "virtual_exists fs disk virtual path =
     (case virtual path of Some content \<Rightarrow> content \<noteq> None | None \<Rightarrow> fs_exists fs disk path)"

definition virtual_or_disk_content :: "'f file_system \<Rightarrow> 'f \<Rightarrow> virtual_files \<Rightarrow> pystr \<Rightarrow> ws_error + pystr" where
  "virtual_or_disk_content fs disk virtual path =
     (case virtual path of
        Some (Some content) \<Rightarrow> Inr content
      | Some None \<Rightarrow> Inl (DeletedFile path)
      | None \<Rightarrow>
          if \<not> fs_exists fs disk path then Inl (MissingFile path)
          else if fs_is_dir fs disk path then Inl (DirectoryAsText path)
          else fs_read_text fs disk path)"

fun validate_resource_op :: "'f file_system \<Rightarrow> 'f \<Rightarrow> virtual_files \<Rightarrow> ws_op \<Rightarrow> ws_error option" where
  "validate_resource_op fs disk virtual (CreateOp path overwrite ignore) =
     (if virtual_exists fs disk virtual path \<and> \<not> (overwrite \<or> ignore) then Some (CreateTargetExists path) else None)"
| "validate_resource_op fs disk virtual (RenameOp old new overwrite ignore) =
     (if \<not> virtual_exists fs disk virtual old then Some (RenameSourceMissing old)
      else if virtual_exists fs disk virtual new \<and> \<not> (overwrite \<or> ignore) then Some (RenameTargetExists new)
      else None)"
| "validate_resource_op fs disk virtual (DeleteOp path ignore recursive) =
     (if \<not> virtual_exists fs disk virtual path \<and> \<not> ignore then Some (DeleteTargetMissing path) else None)"
| "validate_resource_op fs disk virtual (TextEditOp path edits) = None"

fun apply_virtual_resource_op :: "'f file_system \<Rightarrow> 'f \<Rightarrow> virtual_files \<Rightarrow> ws_op \<Rightarrow> ws_error + virtual_files" where
  "apply_virtual_resource_op fs disk virtual (CreateOp path overwrite ignore) =
     (if ignore \<and> virtual_exists fs disk virtual path then Inr virtual else Inr (virtual(path \<mapsto> Some [])))"
| "apply_virtual_resource_op fs disk virtual (RenameOp old new overwrite ignore) =
     (if ignore \<and> virtual_exists fs disk virtual new then Inr virtual
      else (case virtual old of
              Some content \<Rightarrow> Inr ((virtual(old := None))(new \<mapsto> content, old \<mapsto> None))
            | None \<Rightarrow>
                if fs_exists fs disk old \<and> \<not> fs_is_dir fs disk old
                then rbind (fs_read_text fs disk old) (\<lambda>content. Inr (virtual(new \<mapsto> Some content, old \<mapsto> None)))
                else Inr (virtual(old \<mapsto> None))))"
| "apply_virtual_resource_op fs disk virtual (DeleteOp path ignore recursive) =
     (if ignore \<and> \<not> virtual_exists fs disk virtual path then Inr virtual else Inr (virtual(path \<mapsto> None)))"
| "apply_virtual_resource_op fs disk virtual (TextEditOp path edits) = Inr virtual"

fun op_summary :: "ws_op \<Rightarrow> pystr" where
  "op_summary (TextEditOp path edits) =
     lit ''updated '' @ path @ lit '' ('' @ show_nat (length edits) @ lit '' text edit(s))''"
| "op_summary (CreateOp path _ _) = lit ''created '' @ path"
| "op_summary (RenameOp old new _ _) = lit ''renamed '' @ old @ lit '' -> '' @ new"
| "op_summary (DeleteOp path _ _) = lit ''deleted '' @ path"

fun op_paths :: "ws_op \<Rightarrow> pystr list" where
  "op_paths (TextEditOp path edits) = [path]"
| "op_paths (CreateOp path _ _) = filter (\<lambda>p. p \<noteq> []) [path]"
| "op_paths (RenameOp old new _ _) = filter (\<lambda>p. p \<noteq> []) [old, new]"
| "op_paths (DeleteOp path _ _) = filter (\<lambda>p. p \<noteq> []) [path]"

text \<open>One operation of the plan: the virtual files after it, and its text change if it is a text edit.\<close>

definition plan_op ::
  "'f file_system \<Rightarrow> 'f \<Rightarrow> virtual_files \<Rightarrow> ws_op \<Rightarrow> ws_error + (virtual_files \<times> text_change option)" where
  "plan_op fs disk virtual op =
     (case op of
        TextEditOp path edits \<Rightarrow>
          rbind (virtual_or_disk_content fs disk virtual path) (\<lambda>old_text.
          rbind (apply_text_edits old_text edits) (\<lambda>new_text.
          let new_text = preserve_line_endings fs disk path old_text new_text
          in Inr (virtual(path \<mapsto> Some new_text), Some \<lparr>tc_path = path, tc_old = old_text, tc_new = new_text\<rparr>)))
      | _ \<Rightarrow>
          (case validate_resource_op fs disk virtual op of
             Some e \<Rightarrow> Inl e
           | None \<Rightarrow> rbind (apply_virtual_resource_op fs disk virtual op) (\<lambda>virtual. Inr (virtual, None))))"

type_synonym edit_plan = "(ws_op \<times> text_change option) list"

fun make_plan :: "'f file_system \<Rightarrow> 'f \<Rightarrow> virtual_files \<Rightarrow> ws_op list \<Rightarrow> ws_error + edit_plan" where
  "make_plan fs disk virtual [] = Inr []"
| "make_plan fs disk virtual (op # ops) =
     rbind (plan_op fs disk virtual op) (\<lambda>(virtual, change).
     rbind (make_plan fs disk virtual ops) (\<lambda>plan. Inr ((op, change) # plan)))"

section \<open>Writing\<close>

definition fs_then :: "ws_error option \<times> 'f \<Rightarrow> ('f \<Rightarrow> ws_error option \<times> 'f) \<Rightarrow> ws_error option \<times> 'f" where
  "fs_then r k = (case r of (Some e, disk) \<Rightarrow> (Some e, disk) | (None, disk) \<Rightarrow> k disk)"

definition ensure_parent_directory :: "'f file_system \<Rightarrow> pystr \<Rightarrow> 'f \<Rightarrow> ws_error option \<times> 'f" where
  "ensure_parent_directory fs path disk =
     (let parent = fs_get_parent fs path
      in if parent \<noteq> [] \<and> parent \<noteq> lit ''.'' \<and> \<not> fs_exists fs disk parent then fs_mkdir fs parent disk
         else (None, disk))"

definition write_text :: "'f file_system \<Rightarrow> pystr \<Rightarrow> pystr \<Rightarrow> 'f \<Rightarrow> ws_error option \<times> 'f" where
  "write_text fs path content disk =
     fs_then (ensure_parent_directory fs path disk) (fs_write_text fs path content)"

definition remove_path :: "'f file_system \<Rightarrow> pystr \<Rightarrow> bool \<Rightarrow> 'f \<Rightarrow> ws_error option \<times> 'f" where
  "remove_path fs path recursive disk =
     (if fs_is_dir fs disk path then (if recursive then fs_rmtree fs path disk else fs_rmdir fs path disk)
      else fs_remove fs path disk)"

fun write_resource_op :: "'f file_system \<Rightarrow> ws_op \<Rightarrow> 'f \<Rightarrow> ws_error option \<times> 'f" where
  "write_resource_op fs (CreateOp path overwrite ignore) disk =
     (if ignore \<and> fs_exists fs disk path then (None, disk)
      else if overwrite \<or> \<not> fs_exists fs disk path then write_text fs path [] disk
      else (None, disk))"
| "write_resource_op fs (RenameOp old new overwrite ignore) disk =
     (if ignore \<and> fs_exists fs disk new then (None, disk)
      else fs_then (if overwrite \<and> fs_exists fs disk new then remove_path fs new True disk else (None, disk))
             (\<lambda>disk. fs_then (ensure_parent_directory fs new disk) (fs_rename fs old new)))"
| "write_resource_op fs (DeleteOp path ignore recursive) disk =
     (if ignore \<and> \<not> fs_exists fs disk path then (None, disk) else remove_path fs path recursive disk)"
| "write_resource_op fs (TextEditOp path edits) disk = (None, disk)"

fun write_plan :: "'f file_system \<Rightarrow> edit_plan \<Rightarrow> 'f \<Rightarrow> ws_error option \<times> 'f" where
  "write_plan fs [] disk = (None, disk)"
| "write_plan fs ((op, change) # plan) disk =
     fs_then (case change of Some c \<Rightarrow> write_text fs (tc_path c) (tc_new c) disk | None \<Rightarrow> write_resource_op fs op disk)
       (write_plan fs plan)"

definition plan_result :: "bool \<Rightarrow> edit_plan \<Rightarrow> ws_result" where
  "plan_result should_write plan =
     \<lparr>wr_applied = should_write, wr_summaries = map (\<lambda>(op, _). op_summary op) plan,
      wr_touched = dedup (concat (map (\<lambda>(op, _). op_paths op) plan)),
      wr_changes = List.map_filter snd plan\<rparr>"

definition no_edits :: "bool \<Rightarrow> ws_result" where
  "no_edits should_write =
     \<lparr>wr_applied = should_write, wr_summaries = [lit ''No edits returned.''], wr_touched = [], wr_changes = []\<rparr>"

definition apply_workspace_edit ::
  "'f file_system \<Rightarrow> uri_resolver \<Rightarrow> bool \<Rightarrow> json \<Rightarrow> 'f \<Rightarrow> (ws_error + ws_result) \<times> 'f" where
  "apply_workspace_edit fs resolve should_write edit disk =
     (if \<not> truthy edit then (Inr (no_edits should_write), disk)
      else (case parse_workspace_edit resolve edit of
              Inl e \<Rightarrow> (Inl e, disk)
            | Inr [] \<Rightarrow> (Inr (no_edits should_write), disk)
            | Inr ops \<Rightarrow>
                (case make_plan fs disk Map.empty ops of
                   Inl e \<Rightarrow> (Inl e, disk)
                 | Inr plan \<Rightarrow>
                     if should_write
                     then (case write_plan fs plan disk of
                             (Some e, disk) \<Rightarrow> (Inl e, disk)
                           | (None, disk) \<Rightarrow> (Inr (plan_result should_write plan), disk))
                     else (Inr (plan_result should_write plan), disk))))"

section \<open>Positions are UTF-16 offsets\<close>

definition utf16_len :: "pystr \<Rightarrow> nat" where
  "utf16_len s = sum_list (map (\<lambda>c. if c > 65535 then 2 else 1) s)"

lemma utf16_loop_iff:
  "utf16_loop s i u t = Inr k \<longleftrightarrow> (\<exists>j. k = i + j \<and> j \<le> length s \<and> u + int (utf16_len (take j s)) = t)"
proof (induction s arbitrary: i u)
  case Nil
  then show ?case by (auto simp: utf16_len_def)
next
  case (Cons c cs)
  let ?w = "if c > 65535 then 2 else 1 :: int"
  have len: "int (utf16_len (take (Suc j) (c # cs))) = ?w + int (utf16_len (take j cs))" for j
    by (simp add: utf16_len_def)
  show ?case
  proof (cases "u = t")
    case True
    have "j = 0" if "u + int (utf16_len (take j (c # cs))) = t" for j
      using that True by (cases j) (auto simp: utf16_len_def split: if_splits)
    then show ?thesis using True by (auto simp: utf16_len_def intro: exI [of _ 0])
  next
    case False
    have "(\<exists>j. k = i + j \<and> j \<le> length (c # cs) \<and> u + int (utf16_len (take j (c # cs))) = t) \<longleftrightarrow>
        (\<exists>j. k = i + Suc j \<and> j \<le> length cs \<and> u + ?w + int (utf16_len (take j cs)) = t)"
    proof
      assume "\<exists>j. k = i + j \<and> j \<le> length (c # cs) \<and> u + int (utf16_len (take j (c # cs))) = t"
      then obtain j where j: "k = i + j" "j \<le> length (c # cs)" "u + int (utf16_len (take j (c # cs))) = t" by blast
      obtain j' where "j = Suc j'" using j(3) False by (cases j) (auto simp: utf16_len_def)
      then show "\<exists>j. k = i + Suc j \<and> j \<le> length cs \<and> u + ?w + int (utf16_len (take j cs)) = t"
        using j len [of j'] by auto
    next
      assume "\<exists>j. k = i + Suc j \<and> j \<le> length cs \<and> u + ?w + int (utf16_len (take j cs)) = t"
      then obtain j where "k = i + Suc j" "j \<le> length cs" "u + ?w + int (utf16_len (take j cs)) = t" by blast
      then show "\<exists>j. k = i + j \<and> j \<le> length (c # cs) \<and> u + int (utf16_len (take j (c # cs))) = t"
        using len [of j] by (intro exI [of _ "Suc j"]) auto
    qed
    moreover have "\<not> (\<exists>j. k = i + Suc j \<and> j \<le> length cs \<and> u + ?w + int (utf16_len (take j cs)) = t)" if "u + ?w > t"
      using that by auto
    ultimately show ?thesis using False Cons.IH [of "i + 1" "u + ?w"]
      by (cases "u + ?w > t") (simp_all add: Let_def)
  qed
qed

text \<open>
  The character of a position counts UTF-16 code units: the offset found is the one before which
  exactly that many units stand, it exists only inside the line, and a position inside a surrogate
  pair or beyond the line has none.
\<close>

theorem utf16_offset_exact:
  "python_offset_for_utf16 line n = Inr k \<longleftrightarrow> k \<le> length line \<and> int (utf16_len (take k line)) = n"
  by (simp add: python_offset_for_utf16_def utf16_loop_iff)

lemma utf16_offset_le: "python_offset_for_utf16 line n = Inr k \<Longrightarrow> k \<le> length line"
  by (auto simp: python_offset_for_utf16_def utf16_loop_iff)

lemma length_line_body: "length (line_body l) \<le> length l"
  by (simp add: line_body_def)

lemma length_concat_take: "n < length ls \<Longrightarrow> length (concat (take n ls)) + length (ls ! n) \<le> length (concat ls)"
proof -
  assume n: "n < length ls"
  have "concat ls = concat (take n ls) @ ls ! n @ concat (drop (Suc n) ls)"
    using n by (metis append.assoc concat.simps(2) concat_append id_take_nth_drop)
  then show ?thesis by simp
qed

lemma offset_for_position_le:
  assumes "offset_for_position content p = Inr off"
  shows "off \<le> length content"
proof -
  let ?ls = "splitlines_keep content"
  from assms obtain d line character where l: "as_int (json_get d (lit ''line'')) = Some line"
    "as_int (json_get d (lit ''character'')) = Some character" "p = JObj d"
    by (auto simp: offset_for_position_def split: json.splits option.splits)
  have nonneg: "\<not> (line < 0 \<or> character < 0)" using assms l by (auto simp: offset_for_position_def)
  consider "off = 0" | "off = length content"
  | k where "nat line < length ?ls" "python_offset_for_utf16 (line_body (?ls ! nat line)) character = Inr k"
      "off = length (concat (take (nat line) ?ls)) + k"
    using assms l nonneg
    by (auto simp: offset_for_position_def Let_def rbind_eq_Inr nat_less_iff split: if_splits)
  then show ?thesis
  proof cases
    case (3 k)
    have "k \<le> length (?ls ! nat line)"
      using utf16_offset_le [OF 3(2)] length_line_body [of "?ls ! nat line"] by simp
    then show ?thesis using length_concat_take [OF 3(1)] 3(3) by (simp add: concat_splitlines_keep)
  qed simp_all
qed

section \<open>Edits act on one snapshot\<close>

lemma resolve_edits_wf:
  "resolve_edits content i seen es = Inr rs \<Longrightarrow>
     list_all (\<lambda>r. re_start r \<le> re_end r \<and> re_end r \<le> length content \<and> i \<le> re_index r) rs \<and>
     sorted_wrt (\<lambda>a b. re_index a < re_index b) rs"
proof (induction es arbitrary: i seen rs)
  case (Cons e es)
  from Cons.prems obtain start stop where
    p: "offset_for_position content (json_get (edit_range e) (lit ''start'')) = Inr start"
       "offset_for_position content (json_get (edit_range e) (lit ''end'')) = Inr stop" "start \<le> stop"
    by (auto elim!: rbindE split: if_splits)
  then have stop: "stop \<le> length content" using offset_for_position_le by blast
  have weaken: "list_all (\<lambda>r. re_start r \<le> re_end r \<and> re_end r \<le> length content \<and> i \<le> re_index r) xs"
    if "list_all (\<lambda>r. re_start r \<le> re_end r \<and> re_end r \<le> length content \<and> i + 1 \<le> re_index r) xs" for xs
    using that by (auto simp: list_all_iff)
  show ?case
  proof (cases "start \<noteq> stop \<and> (start, stop, edit_text e) \<in> set seen")
    case True
    then have "resolve_edits content (i + 1) seen es = Inr rs" using Cons.prems p by (auto simp: Let_def)
    from Cons.IH [OF this] weaken show ?thesis by blast
  next
    case False
    then obtain rest where r: "resolve_edits content (i + 1)
          (if start \<noteq> stop then (start, stop, edit_text e) # seen else seen) es = Inr rest"
      and rs: "rs = \<lparr>re_start = start, re_end = stop, re_text = edit_text e, re_index = i\<rparr> # rest"
      using Cons.prems p by (auto simp: Let_def rbind_eq_Inr split: if_splits)
    from Cons.IH [OF r] weaken [of rest] p(3) stop show ?thesis
      by (auto simp: rs list_all_iff)
  qed
qed simp

lemma not_overlapping_pairs:
  "\<not> overlapping rs \<Longrightarrow> list_all (\<lambda>r. re_start r \<le> re_end r) rs \<Longrightarrow> sorted_wrt (\<lambda>a b. re_end a \<le> re_start b) rs"
proof (induction rs rule: overlapping.induct)
  case (1 a b rest)
  then have ih: "sorted_wrt (\<lambda>a b. re_end a \<le> re_start b) (b # rest)" and ab: "re_end a \<le> re_start b" by auto
  have "re_end a \<le> re_start c" if "c \<in> set (b # rest)" for c
    using that ih ab 1(3) by (auto simp: list_all_iff)
  then show ?case using ih by simp
qed auto

text \<open>
  The order of edits that start at the same place, as the protocol demands it: any number of
  insertions, then at most one replacement.
\<close>

definition inserts_first :: "resolved_edit list \<Rightarrow> bool" where
  "inserts_first rs =
     list_all (\<lambda>a. list_all (\<lambda>b. re_start a = re_start b \<and> re_index a < re_index b \<longrightarrow> re_start a = re_end a) rs) rs"

definition by_start :: "resolved_edit list \<Rightarrow> resolved_edit list" where
  "by_start rs = sort_key (\<lambda>r. (re_start r, re_index r)) rs"

lemma set_sort_key_eq: "set (sort_key f xs) = set xs"
  by simp

lemma sorted_wrt_cases:
  "sorted_wrt P xs \<Longrightarrow> distinct xs \<Longrightarrow> a \<in> set xs \<Longrightarrow> b \<in> set xs \<Longrightarrow> a \<noteq> b \<Longrightarrow> P a b \<or> P b a"
  by (induction xs) auto

lemma sorted_wrt_distinct: "sorted_wrt P xs \<Longrightarrow> distinct xs \<Longrightarrow> sorted_wrt (\<lambda>a b. P a b \<and> a \<noteq> b) xs"
  by (induction xs) auto

lemma by_start_disjoint:
  assumes wf: "list_all (\<lambda>r. re_start r \<le> re_end r) rs" and idx: "sorted_wrt (\<lambda>a b. re_index a < re_index b) rs"
    and no: "\<not> overlapping (sort_key (\<lambda>r. (re_start r, re_end r, re_index r)) rs)" and first: "inserts_first rs"
  shows "sorted_wrt (\<lambda>a b. re_end a \<le> re_start b) (by_start rs)"
proof -
  let ?asc = "sort_key (\<lambda>r. (re_start r, re_end r, re_index r)) rs"
  have d: "distinct rs" using idx by (induction rs) auto
  have inj: "a = b" if "a \<in> set rs" "b \<in> set rs" "re_index a = re_index b" for a b
    using sorted_wrt_cases [OF idx d that(1,2)] that(3) by auto
  have pairs: "sorted_wrt (\<lambda>a b. re_end a \<le> re_start b) ?asc"
    using wf by (intro not_overlapping_pairs [OF no]) (simp add: list_all_iff)
  have asc: "re_end a \<le> re_start b \<or> re_end b \<le> re_start a" if "a \<in> set rs" "b \<in> set rs" "a \<noteq> b" for a b
    using sorted_wrt_cases [OF pairs] that d by simp
  have "sorted_wrt (\<lambda>a b. (re_start a, re_index a) \<le> (re_start b, re_index b)) (by_start rs)"
    unfolding by_start_def using sorted_sort_key [of "\<lambda>r. (re_start r, re_index r)" rs] by (simp add: sorted_wrt_map)
  moreover have "distinct (by_start rs)" using d by (simp add: by_start_def)
  ultimately have strict: "sorted_wrt (\<lambda>a b. (re_start a, re_index a) \<le> (re_start b, re_index b) \<and> a \<noteq> b) (by_start rs)"
    by (rule sorted_wrt_distinct)
  show ?thesis
  proof (rule sorted_wrt_mono_rel [OF _ strict])
    fix a b assume ab: "a \<in> set (by_start rs)" "b \<in> set (by_start rs)"
      and le: "(re_start a, re_index a) \<le> (re_start b, re_index b) \<and> a \<noteq> b"
    have mem: "a \<in> set rs" "b \<in> set rs" using ab by (simp_all add: by_start_def)
    have w: "re_start a \<le> re_end a" "re_start b \<le> re_end b" using wf mem by (auto simp: list_all_iff)
    have "re_index a \<noteq> re_index b" using inj mem le by blast
    then have order: "re_start a < re_start b \<or> re_start a = re_start b \<and> re_index a < re_index b"
      using le by auto
    show "re_end a \<le> re_start b"
    proof (cases "re_end a \<le> re_start b")
      case False
      then have b: "re_end b \<le> re_start a" using asc mem le by blast
      then have eq: "re_start a = re_start b" "re_index a < re_index b" using order w by auto
      then have "re_start a = re_end a" using first mem by (auto simp: inserts_first_def list_all_iff)
      then show ?thesis using eq(1) by simp
    qed simp
  qed
qed

lemma ascending_from_sorted:
  "sorted_wrt (\<lambda>a b. re_end a \<le> re_start b) rs \<Longrightarrow>
   list_all (\<lambda>r. re_start r \<le> re_end r \<and> re_end r \<le> n) rs \<Longrightarrow>
   list_all (\<lambda>r. pos \<le> re_start r) rs \<Longrightarrow> pos \<le> n \<Longrightarrow> ascending_from pos (map edit_splice_of rs) n"
  by (induction rs arbitrary: pos) (auto simp: edit_splice_of_def list_all_iff)

text \<open>
  C31: text edits that pass the overlap check and keep the protocol's order at equal starts act
  simultaneously: every edit replaces its own range of the original text, and all other text stays.
\<close>

theorem text_edits_act_on_snapshot:
  assumes "resolve_edits content 0 [] edits = Inr rs"
    and "\<not> overlapping (sort_key (\<lambda>r. (re_start r, re_end r, re_index r)) rs)"
    and "inserts_first rs"
  shows "apply_text_edits content edits = Inr (splice_snapshot content 0 (map edit_splice_of (by_start rs))) \<and>
    ascending_from 0 (map edit_splice_of (by_start rs)) (length content)"
proof -
  have wf: "list_all (\<lambda>r. re_start r \<le> re_end r \<and> re_end r \<le> length content \<and> 0 \<le> re_index r) rs"
    "sorted_wrt (\<lambda>a b. re_index a < re_index b) rs"
    using resolve_edits_wf [OF assms(1)] by auto
  have "sorted_wrt (\<lambda>a b. re_end a \<le> re_start b) (by_start rs)"
    using wf assms(2,3) by (intro by_start_disjoint) (auto simp: list_all_iff)
  then have asc: "ascending_from 0 (map edit_splice_of (by_start rs)) (length content)"
    using wf(1) by (intro ascending_from_sorted) (auto simp: list_all_iff by_start_def)
  have "fold (\<lambda>r. slice_assign (edit_splice_of r)) (rev (by_start rs)) content =
      fold slice_assign (rev (map edit_splice_of (by_start rs))) content"
    by (simp add: fold_map rev_map comp_def)
  also have "\<dots> = splice_snapshot content 0 (map edit_splice_of (by_start rs))"
    using asc by (rule fold_rev_slice_assign)
  finally show ?thesis using assms(1,2) asc by (simp add: apply_text_edits_def by_start_def)
qed

section \<open>Sample payloads\<close>

definition pos_at :: "int \<Rightarrow> int \<Rightarrow> json" where
  "pos_at line character = JObj [(lit ''line'', JInt line), (lit ''character'', JInt character)]"

definition edit_at :: "int \<times> int \<Rightarrow> int \<times> int \<Rightarrow> string \<Rightarrow> jdict" where
  "edit_at start stop new =
     [(lit ''range'', JObj [(lit ''start'', pos_at (fst start) (snd start)), (lit ''end'', pos_at (fst stop) (snd stop))]),
      (lit ''newText'', JStr (lit new))]"

theorem text_edits_act_on_snapshot_witness:
  "apply_text_edits (lit ''one two'') [edit_at (0, 4) (0, 7) ''2'', edit_at (0, 0) (0, 3) ''1''] = Inr (lit ''1 2'')"
proof -
  let ?rs = "[\<lparr>re_start = 4, re_end = 7, re_text = lit ''2'', re_index = 0\<rparr>,
    \<lparr>re_start = 0, re_end = 3, re_text = lit ''1'', re_index = 1\<rparr>]"
  have r: "resolve_edits (lit ''one two'') 0 [] [edit_at (0, 4) (0, 7) ''2'', edit_at (0, 0) (0, 3) ''1''] = Inr ?rs"
    by code_simp
  have o: "\<not> overlapping (sort_key (\<lambda>r. (re_start r, re_end r, re_index r)) ?rs)" and i: "inserts_first ?rs"
    by code_simp+
  have "splice_snapshot (lit ''one two'') 0 (map edit_splice_of (by_start ?rs)) = lit ''1 2''" by code_simp
  then show ?thesis using text_edits_act_on_snapshot [OF r o i] by simp
qed

text \<open>
  a replacement followed by an insertion at its start passes the overlap check and loses text:
  replacing \<open>ab\<close> of \<open>abc\<close> by \<open>X\<close> and inserting \<open>YY\<close> before it gives \<open>Xabc\<close>, without the inserted text and
  with the replaced text still there.
\<close>

theorem replace_then_insert_corrupts:
  "apply_text_edits (lit ''abc'') [edit_at (0, 0) (0, 2) ''X'', edit_at (0, 0) (0, 0) ''YY''] = Inr (lit ''Xabc'')"
  by code_simp

text \<open>
  lines are counted at every boundary of \<open>str.splitlines\<close>, not only at the three line endings of the
  protocol: in a text whose first line holds a form feed, line 1 starts after the form feed, where no line ending
  has been passed.
\<close>

theorem form_feed_shifts_lines:
  "offset_for_position (lit ''a'' @ [12] @ lit ''b'' @ [10] @ lit ''c'') (pos_at 1 0) = Inr 2 \<and>
   10 \<notin> set (take 2 (lit ''a'' @ [12] @ lit ''b'' @ [10] @ lit ''c'')) \<and>
   13 \<notin> set (take 2 (lit ''a'' @ [12] @ lit ''b'' @ [10] @ lit ''c''))"
  by code_simp

section \<open>Previews and writes\<close>

text \<open>
  A preview never writes, and applying does what the preview said: they fail with the same error
  before anything is written, or the applied edit reports the previewed summaries, paths and
  changes, unless the file system itself fails on the way.
\<close>

theorem preview_predicts_apply:
  assumes "apply_workspace_edit fs resolve False edit disk = (previewed, disk0)"
    and "apply_workspace_edit fs resolve True edit disk = (applied, disk')"
  shows "disk0 = disk \<and>
    (case previewed of
       Inl e \<Rightarrow> applied = Inl e \<and> disk' = disk
     | Inr r \<Rightarrow> applied = Inr (r\<lparr>wr_applied := True\<rparr>) \<or>
         (\<exists>e plan. applied = Inl e \<and> r = plan_result False plan \<and> write_plan fs plan disk = (Some e, disk')))"
  using assms
  by (auto simp: apply_workspace_edit_def no_edits_def plan_result_def split: if_splits sum.splits list.splits
      option.splits prod.splits)

definition empty_disk_ops :: "unit file_system" where
  "empty_disk_ops =
     \<lparr>fs_exists = (\<lambda>_ _. False), fs_is_dir = (\<lambda>_ _. False), fs_read_text = (\<lambda>_ p. Inl (MissingFile p)),
      fs_read_bytes = (\<lambda>_ _. None), fs_get_parent = (\<lambda>_. lit ''.''), fs_write_text = (\<lambda>_ _ d. (None, d)),
      fs_mkdir = (\<lambda>_ d. (None, d)), fs_rename = (\<lambda>_ _ d. (None, d)), fs_remove = (\<lambda>_ d. (None, d)),
      fs_rmdir = (\<lambda>_ d. (None, d)), fs_rmtree = (\<lambda>_ d. (None, d))\<rparr>"

definition create_payload :: json where
  "create_payload =
     JObj [(lit ''documentChanges'', JList [JObj [(lit ''kind'', JStr (lit ''create'')), (lit ''uri'', JStr (lit ''file:///a''))]])]"

theorem preview_predicts_apply_witness:
  "\<exists>r. apply_workspace_edit empty_disk_ops (\<lambda>u. Inr u) False create_payload () = (Inr r, ()) \<and>
       apply_workspace_edit empty_disk_ops (\<lambda>u. Inr u) True create_payload () = (Inr (r\<lparr>wr_applied := True\<rparr>), ())"
proof -
  let ?p = "apply_workspace_edit empty_disk_ops (\<lambda>u. Inr u) False create_payload ()"
  let ?a = "apply_workspace_edit empty_disk_ops (\<lambda>u. Inr u) True create_payload ()"
  have "\<not> isl (fst ?p)" "\<not> isl (fst ?a)" by code_simp+
  then obtain r r' where "?p = (Inr r, ())" "?a = (Inr r', ())"
    by (cases "?p"; cases "?a"; cases "fst ?p"; cases "fst ?a") auto
  then show ?thesis using preview_predicts_apply [of empty_disk_ops "\<lambda>u. Inr u" create_payload "()"] by fastforce
qed

end
