(* ===== verification/Usage.thy ===== *)
theory Usage
  imports Kolega_Prelude
begin

text \<open>
  Token accounting: normalisation of provider usage, \<open>kolega_code/llm/usage.py\<close>, and usage
  observations, \<open>kolega_code/llm/accounting.py\<close>. Usage metadata are objects of dynamic values; SDK objects
  are taken in their dict form. All values are finite JSON, so that freezing them changes nothing.

  Parameters: \<open>decimal\<close>, the text of a value as a finite non-negative decimal (the \<open>decimal\<close> module),
  and \<open>lower\<close>, \<open>str.lower\<close>. Log messages are not modelled.
\<close>

type_synonym metadata = "(pystr \<times> json) list"

section \<open>Providers\<close>

definition anthropic_usage_providers :: "pystr list" where
  "anthropic_usage_providers =
     map lit [''anthropic'', ''moonshot'', ''minimax'', ''zai'', ''kimi_coding'', ''thinking_machines'', ''tinker'']"

definition openai_usage_providers :: "pystr list" where
  "openai_usage_providers =
     map lit [''openai'', ''openai_chatgpt'', ''together'', ''groq'', ''fireworks'', ''llama'', ''xai'', ''dashscope'',
              ''deepseek'', ''ollama_cloud'', ''cloudflare_workers_ai'', ''openrouter'', ''perplexity_agent'', ''mistral'',
              ''refuseless'']"

definition google_usage_providers :: "pystr list" where
  "google_usage_providers = [lit ''google'']"

definition zero_input_sentinel_providers :: "pystr list" where
  "zero_input_sentinel_providers = map lit [''kimi_coding'', ''moonshot'']"

definition output_excludes_reasoning_providers :: "pystr list" where
  "output_excludes_reasoning_providers = [lit ''xai'']"

definition usage_token_fields :: "pystr \<Rightarrow> metadata \<Rightarrow> (pystr \<times> pystr) option" where
  "usage_token_fields provider md =
     (if provider \<in> set anthropic_usage_providers then Some (lit ''input_tokens'', lit ''output_tokens'')
      else if provider \<in> set openai_usage_providers then Some (lit ''prompt_tokens'', lit ''completion_tokens'')
      else if provider \<in> set google_usage_providers then Some (lit ''prompt_token_count'', lit ''candidates_token_count'')
      else if startswith provider (lit ''custom:'') then
        (if dict_get md (lit ''output_tokens'') \<noteq> None then Some (lit ''input_tokens'', lit ''output_tokens'')
         else Some (lit ''prompt_tokens'', lit ''completion_tokens''))
      else None)"

section \<open>Counts\<close>

text \<open>\<open>type(v) is int\<close> rejects booleans, floats and numeric text.\<close>

definition strict_nonneg_int :: "json \<Rightarrow> int option" where
  "strict_nonneg_int v = (case v of JInt i \<Rightarrow> if i \<ge> 0 then Some i else None | _ \<Rightarrow> None)"

definition read_detail_int :: "json \<Rightarrow> pystr \<Rightarrow> int option" where
  "read_detail_int details name =
     (case details of JObj d \<Rightarrow> strict_nonneg_int (json_get d name) | _ \<Rightarrow> None)"

definition read_wire :: "json \<Rightarrow> pystr \<Rightarrow> json" where
  "read_wire v key = (case v of JObj d \<Rightarrow> json_get d key | _ \<Rightarrow> JNull)"

record normalized_usage =
  nu_provider :: pystr
  nu_model :: "pystr option"
  nu_reported :: bool
  nu_input :: "int option"
  nu_output :: "int option"
  nu_total :: "int option"
  nu_cache_read :: "int option"
  nu_cache_write :: "int option"
  nu_reasoning :: "int option"
  nu_reason :: "pystr option"

definition usage_to_dict :: "normalized_usage \<Rightarrow> metadata" where
  "usage_to_dict u =
     [(lit ''provider'', JStr (nu_provider u)), (lit ''model'', opt_str (nu_model u)),
      (lit ''reported'', JBool (nu_reported u)), (lit ''input_tokens'', opt_int (nu_input u)),
      (lit ''output_tokens'', opt_int (nu_output u)), (lit ''total_tokens'', opt_int (nu_total u)),
      (lit ''cache_read_input_tokens'', opt_int (nu_cache_read u)),
      (lit ''cache_write_input_tokens'', opt_int (nu_cache_write u)),
      (lit ''reasoning_output_tokens'', opt_int (nu_reasoning u)),
      (lit ''unavailable_reason'', opt_str (nu_reason u))]"

text \<open>An optional text and an optional count of a serialized record: \<open>None\<close> when malformed.\<close>

definition text_field :: "json \<Rightarrow> pystr option option" where
  "text_field v = (case v of JNull \<Rightarrow> Some None | JStr s \<Rightarrow> Some (Some s) | _ \<Rightarrow> None)"

definition count_field :: "json \<Rightarrow> int option option" where
  "count_field v =
     (if v = JNull then Some None else (case strict_nonneg_int v of Some i \<Rightarrow> Some (Some i) | None \<Rightarrow> None))"

definition usage_from_dict :: "json \<Rightarrow> normalized_usage option" where
  "usage_from_dict data =
     (case data of
        JObj d \<Rightarrow>
          (case (json_get d (lit ''provider''), json_get d (lit ''reported''), text_field (json_get d (lit ''model'')),
                 text_field (json_get d (lit ''unavailable_reason''))) of
             (JStr provider, JBool reported, Some model, Some reason) \<Rightarrow>
               if provider = [] then None
               else (case (count_field (json_get d (lit ''input_tokens'')), count_field (json_get d (lit ''output_tokens'')),
                           count_field (json_get d (lit ''total_tokens'')),
                           count_field (json_get d (lit ''cache_read_input_tokens'')),
                           count_field (json_get d (lit ''cache_write_input_tokens'')),
                           count_field (json_get d (lit ''reasoning_output_tokens''))) of
                       (Some i, Some o', Some t, Some cr, Some cw, Some r) \<Rightarrow>
                         Some \<lparr>nu_provider = provider, nu_model = model, nu_reported = reported, nu_input = i,
                               nu_output = o', nu_total = t, nu_cache_read = cr, nu_cache_write = cw,
                               nu_reasoning = r, nu_reason = reason\<rparr>
                     | _ \<Rightarrow> None)
           | _ \<Rightarrow> None)
      | _ \<Rightarrow> None)"

definition reason_not_reported :: pystr where "reason_not_reported = lit ''provider_did_not_report_usage''"
definition reason_malformed :: pystr where "reason_malformed = lit ''provider_reported_malformed_usage''"

definition unreported :: "pystr \<Rightarrow> pystr option \<Rightarrow> pystr \<Rightarrow> normalized_usage" where
  "unreported provider model reason =
     \<lparr>nu_provider = provider, nu_model = model, nu_reported = False, nu_input = None, nu_output = None,
      nu_total = None, nu_cache_read = None, nu_cache_write = None, nu_reasoning = None, nu_reason = Some reason\<rparr>"

definition classify :: "metadata \<Rightarrow> pystr \<Rightarrow> int option \<times> bool" where
  "classify md key =
     (case dict_get md key of
        None \<Rightarrow> (None, False)
      | Some raw \<Rightarrow>
          if raw = JNull then (None, False)
          else (let v = strict_nonneg_int raw in (v, v = None)))"

text \<open>The counts as a function of the key, or why usage is unavailable.\<close>

definition read_counts ::
  "metadata \<Rightarrow> pystr \<times> pystr \<Rightarrow> pystr list \<Rightarrow> pystr list \<Rightarrow> pystr + (pystr \<Rightarrow> int option)" where
  "read_counts md core arithmetic informational =
     (let core_keys = [fst core, snd core]
      in if list_ex (\<lambda>k. snd (classify md k)) (core_keys @ arithmetic) then Inl reason_malformed
         else if list_ex (\<lambda>k. fst (classify md k) = None) core_keys then Inl reason_not_reported
         else Inr (\<lambda>k. if k \<in> set (core_keys @ arithmetic @ informational) then fst (classify md k) else None))"

definition check_subset :: "int option \<Rightarrow> int \<Rightarrow> int option" where
  "check_subset part bound = (case part of Some s \<Rightarrow> if s > bound then None else Some s | None \<Rightarrow> None)"

abbreviation or_zero :: "int option \<Rightarrow> int" where
  "or_zero v \<equiv> (case v of Some i \<Rightarrow> i | None \<Rightarrow> 0)"

section \<open>Normalisation by family\<close>

definition normalize_anthropic :: "metadata \<Rightarrow> pystr \<Rightarrow> pystr option \<Rightarrow> normalized_usage" where
  "normalize_anthropic md provider model =
     (let md = (if provider \<in> set zero_input_sentinel_providers \<and> json_eq_int (json_get md (lit ''input_tokens'')) (- 1)
                then dict_set (lit ''input_tokens'') (JInt 0) md else md)
      in case read_counts md (lit ''input_tokens'', lit ''output_tokens'')
                [lit ''cache_read_input_tokens'', lit ''cache_write_input_tokens''] [lit ''reasoning_output_tokens''] of
           Inl reason \<Rightarrow> unreported provider model reason
         | Inr values \<Rightarrow>
             (let cache_read = values (lit ''cache_read_input_tokens'');
                  cache_write = values (lit ''cache_write_input_tokens'');
                  input = or_zero (values (lit ''input_tokens'')) + or_zero cache_read + or_zero cache_write;
                  output = or_zero (values (lit ''output_tokens''))
              in \<lparr>nu_provider = provider, nu_model = model, nu_reported = True, nu_input = Some input,
                  nu_output = Some output, nu_total = Some (input + output), nu_cache_read = cache_read,
                  nu_cache_write = cache_write,
                  nu_reasoning = check_subset (values (lit ''reasoning_output_tokens'')) output,
                  nu_reason = None\<rparr>))"

definition normalize_openai :: "metadata \<Rightarrow> pystr \<Rightarrow> pystr option \<Rightarrow> normalized_usage" where
  "normalize_openai md provider model =
     (let arithmetic_reasoning = (provider \<in> set output_excludes_reasoning_providers)
      in case read_counts md (lit ''prompt_tokens'', lit ''completion_tokens'')
                (lit ''cache_write_input_tokens'' # (if arithmetic_reasoning then [lit ''reasoning_output_tokens''] else []))
                (lit ''cache_read_input_tokens'' # (if arithmetic_reasoning then [] else [lit ''reasoning_output_tokens''])) of
           Inl reason \<Rightarrow> unreported provider model reason
         | Inr values \<Rightarrow>
             (let cache_write = values (lit ''cache_write_input_tokens'');
                  raw_reasoning = values (lit ''reasoning_output_tokens'');
                  input = or_zero (values (lit ''prompt_tokens'')) + or_zero cache_write;
                  completion = or_zero (values (lit ''completion_tokens''));
                  output = (if arithmetic_reasoning then completion + or_zero raw_reasoning else completion);
                  reasoning = (if arithmetic_reasoning then raw_reasoning else check_subset raw_reasoning completion)
              in \<lparr>nu_provider = provider, nu_model = model, nu_reported = True, nu_input = Some input,
                  nu_output = Some output, nu_total = Some (input + output),
                  nu_cache_read = check_subset (values (lit ''cache_read_input_tokens'')) input,
                  nu_cache_write = cache_write, nu_reasoning = reasoning, nu_reason = None\<rparr>))"

definition normalize_google :: "metadata \<Rightarrow> pystr \<Rightarrow> pystr option \<Rightarrow> normalized_usage" where
  "normalize_google md provider model =
     (case read_counts md (lit ''prompt_token_count'', lit ''candidates_token_count'')
             [lit ''thoughts_token_count'', lit ''tool_use_prompt_token_count''] [lit ''cached_content_token_count''] of
        Inl reason \<Rightarrow> unreported provider model reason
      | Inr values \<Rightarrow>
          (let thoughts = values (lit ''thoughts_token_count'');
               input = or_zero (values (lit ''prompt_token_count'')) + or_zero (values (lit ''tool_use_prompt_token_count''));
               output = or_zero (values (lit ''candidates_token_count'')) + or_zero thoughts
           in \<lparr>nu_provider = provider, nu_model = model, nu_reported = True, nu_input = Some input,
               nu_output = Some output, nu_total = Some (input + output),
               nu_cache_read = check_subset (values (lit ''cached_content_token_count'')) input,
               nu_cache_write = None, nu_reasoning = thoughts, nu_reason = None\<rparr>))"

datatype usage_error = NoFamily pystr | BadObservation pystr

definition anthropic_shaped :: "metadata \<Rightarrow> pystr \<Rightarrow> bool" where
  "anthropic_shaped md provider =
     (provider \<in> set anthropic_usage_providers \<or>
      startswith provider (lit ''custom:'') \<and> dict_get md (lit ''input_tokens'') \<noteq> None)"

definition normalize_usage :: "metadata \<Rightarrow> pystr \<Rightarrow> pystr option \<Rightarrow> usage_error + normalized_usage" where
  "normalize_usage md provider model =
     (if anthropic_shaped md provider then Inr (normalize_anthropic md provider model)
      else if provider \<in> set openai_usage_providers \<or> startswith provider (lit ''custom:'')
      then Inr (normalize_openai md provider model)
      else if provider \<in> set google_usage_providers then Inr (normalize_google md provider model)
      else Inl (NoFamily provider))"

section \<open>Observations\<close>

record usage_observation =
  uo_provider :: pystr
  uo_model :: "pystr option"
  uo_input :: "int option"
  uo_output :: "int option"
  uo_total :: "int option"
  uo_cache_read :: "int option"
  uo_cache_write :: "int option"
  uo_reasoning :: "int option"
  uo_complete :: bool
  uo_cost :: "metadata option"
  uo_quantities :: metadata
  uo_reason :: "pystr option"

definition nonnegative_decimal :: "(json \<Rightarrow> pystr option) \<Rightarrow> json \<Rightarrow> pystr option" where
  "nonnegative_decimal decimal v =
     (case v of JStr _ \<Rightarrow> decimal v | JInt _ \<Rightarrow> decimal v | JFloat _ _ \<Rightarrow> decimal v | _ \<Rightarrow> None)"

definition cost_record :: "pystr \<Rightarrow> pystr \<Rightarrow> metadata \<Rightarrow> metadata" where
  "cost_record amount scope provenance =
     [(lit ''source'', JStr (lit ''provider_reported'')), (lit ''amount'', JStr amount),
      (lit ''currency'', JStr (lit ''USD'')), (lit ''denomination'', JStr (lit ''currency'')),
      (lit ''scope'', JStr scope), (lit ''complete'', JBool True), (lit ''missing_components'', JList []),
      (lit ''provenance'', JObj provenance)]"

definition reported_cost :: "(json \<Rightarrow> pystr option) \<Rightarrow> pystr \<Rightarrow> metadata \<Rightarrow> metadata option" where
  "reported_cost decimal provider usage =
     (if provider = lit ''perplexity_agent'' then
        (let breakdown = json_get usage (lit ''cost'');
             provenance = [(lit ''field'', JStr (lit ''usage.cost.total_cost''))] @
               (case breakdown of JObj b \<Rightarrow> [(lit ''breakdown'', JObj b)] | _ \<Rightarrow> [])
         in map_option (\<lambda>amount. cost_record amount (lit ''request'') provenance)
              (nonnegative_decimal decimal (read_wire breakdown (lit ''total_cost''))))
      else if provider = lit ''openrouter'' then
        (let provenance = [(lit ''field'', JStr (lit ''usage.cost''))] @
               (case json_get usage (lit ''cost_details'') of JObj d \<Rightarrow> [(lit ''cost_details'', JObj d)] | _ \<Rightarrow> [])
         in map_option (\<lambda>amount. cost_record amount (lit ''gateway_request_charge'') provenance)
              (nonnegative_decimal decimal (json_get usage (lit ''cost''))))
      else if provider = lit ''xai'' then
        (case strict_nonneg_int (json_get usage (lit ''cost_in_usd_ticks'')) of
           None \<Rightarrow> None
         | Some ticks \<Rightarrow>
             map_option (\<lambda>amount. cost_record amount (lit ''request'')
                 [(lit ''field'', JStr (lit ''usage.cost_in_usd_ticks'')), (lit ''cost_in_usd_ticks'', JInt ticks),
                  (lit ''ticks_per_usd'', JInt (10 ^ 10))])
               (nonnegative_decimal decimal (JStr (show_int ticks @ lit ''e-10''))))
      else None)"

text \<open>The checks of a new observation; a missing total is filled in.\<close>

definition fill_total :: "usage_observation \<Rightarrow> usage_error + usage_observation" where
  "fill_total ob =
     (case (uo_input ob, uo_output ob) of
        (Some i, Some out) \<Rightarrow>
          (case uo_total ob of
             None \<Rightarrow> Inr (ob\<lparr>uo_total := Some (i + out)\<rparr>)
           | Some t \<Rightarrow> if t \<noteq> i + out then Inl (BadObservation (lit ''total must equal inclusive input plus output''))
                       else Inr ob)
      | _ \<Rightarrow> Inr ob)"

definition cost_accepted :: "(json \<Rightarrow> pystr option) \<Rightarrow> metadata option \<Rightarrow> bool" where
  "cost_accepted decimal cost =
     (case cost of Some c \<Rightarrow> nonnegative_decimal decimal (json_get c (lit ''amount'')) \<noteq> None | None \<Rightarrow> True)"

definition make_observation :: "(json \<Rightarrow> pystr option) \<Rightarrow> usage_observation \<Rightarrow> usage_error + usage_observation" where
  "make_observation decimal ob =
     (if uo_provider ob = [] then Inl (BadObservation (lit ''provider is required''))
      else if list_ex (\<lambda>v. case v of Some i \<Rightarrow> i < 0 | None \<Rightarrow> False)
                [uo_input ob, uo_output ob, uo_total ob, uo_cache_read ob, uo_cache_write ob, uo_reasoning ob]
      then Inl (BadObservation (lit ''invalid count''))
      else rbind (fill_total ob) (\<lambda>ob.
        if uo_complete ob \<and> (uo_input ob = None \<or> uo_output ob = None \<or> uo_total ob = None)
        then Inl (BadObservation (lit ''complete observation needs core token counts''))
        else if \<not> cost_accepted decimal (uo_cost ob) then Inl (BadObservation (lit ''invalid observed cost''))
        else Inr ob))"

text \<open>Adding arithmetic participants to a base count; a malformed one makes the sum unknown.\<close>

fun add_counts :: "metadata \<Rightarrow> int option \<Rightarrow> pystr list \<Rightarrow> int option" where
  "add_counts raw base [] = base"
| "add_counts raw base (k # ks) =
     (case base of
        None \<Rightarrow> None
      | Some b \<Rightarrow> if snd (classify raw k) then None else add_counts raw (Some (b + or_zero (fst (classify raw k)))) ks)"

record partial_counts =
  pc_input :: "int option"
  pc_output :: "int option"
  pc_total :: "int option"
  pc_cache_read :: "int option"
  pc_cache_write :: "int option"
  pc_reasoning :: "int option"

definition bounded_by :: "int option \<Rightarrow> int option \<Rightarrow> int option" where
  "bounded_by part whole =
     (case (part, whole) of (Some p, Some w) \<Rightarrow> if p \<le> w then Some p else None | _ \<Rightarrow> part)"

definition unreported_counts :: "metadata \<Rightarrow> pystr \<Rightarrow> partial_counts" where
  "unreported_counts md provider =
     (let anthropic = anthropic_shaped md provider;
          google = (provider \<in> set google_usage_providers);
          in_key = (if anthropic then lit ''input_tokens'' else if google then lit ''prompt_token_count'' else lit ''prompt_tokens'');
          out_key = (if anthropic then lit ''output_tokens'' else if google then lit ''candidates_token_count''
                     else lit ''completion_tokens'');
          raw = (if provider \<in> set zero_input_sentinel_providers \<and> json_eq_int (json_get md in_key) (- 1)
                 then dict_set in_key (JInt 0) md else md);
          read_key = (if google then lit ''cached_content_token_count'' else lit ''cache_read_input_tokens'');
          write_key = lit ''cache_write_input_tokens'';
          reason_key = (if google then lit ''thoughts_token_count'' else lit ''reasoning_output_tokens'');
          inp = add_counts raw (strict_nonneg_int (json_get raw in_key))
                  (if anthropic then [read_key, write_key] else if google then [lit ''tool_use_prompt_token_count'']
                   else [write_key]);
          out = add_counts raw (strict_nonneg_int (json_get raw out_key))
                  (if google \<or> provider = lit ''xai'' then [reason_key] else [])
      in \<lparr>pc_input = inp, pc_output = out,
          pc_total = (case (inp, out) of
                        (Some i, Some o') \<Rightarrow> Some (i + o')
                      | _ \<Rightarrow> strict_nonneg_int (json_get raw (if google then lit ''total_token_count'' else lit ''total_tokens''))),
          pc_cache_read = bounded_by (strict_nonneg_int (json_get raw read_key)) inp,
          pc_cache_write = strict_nonneg_int (json_get raw write_key),
          pc_reasoning = bounded_by (strict_nonneg_int (json_get raw reason_key)) out\<rparr>)"

section \<open>Pricing quantities\<close>

definition pricing_detail_keys :: "pystr list" where
  "pricing_detail_keys =
     map lit [''cache_creation'', ''server_tool_use'', ''tool_calls_details'', ''prompt_tokens_details'',
              ''completion_tokens_details'', ''candidates_tokens_details'', ''cache_tokens_details'',
              ''tool_use_prompt_tokens_details'', ''service_tier'', ''pricing_tier_input_tokens'', ''resolved_model'',
              ''base_model'']"

definition set_count :: "pystr \<Rightarrow> int option \<Rightarrow> metadata \<Rightarrow> metadata" where
  "set_count key v q = (case v of None \<Rightarrow> q | Some i \<Rightarrow> dict_set key (JInt i) q)"

definition add_modality :: "(pystr \<Rightarrow> pystr) \<Rightarrow> pystr \<Rightarrow> json \<Rightarrow> metadata \<Rightarrow> metadata" where
  "add_modality lower direction detail q =
     (case (read_wire detail (lit ''modality''), read_detail_int detail (lit ''token_count'')) of
        (JStr modality, Some v) \<Rightarrow>
          (let key = lower modality @ lit ''_'' @ direction @ lit ''_tokens''
           in dict_set key (JInt ((case dict_get q key of Some (JInt i) \<Rightarrow> i | _ \<Rightarrow> 0) + v)) q)
      | _ \<Rightarrow> q)"

definition add_details :: "(pystr \<Rightarrow> pystr) \<Rightarrow> metadata \<Rightarrow> pystr \<times> pystr \<Rightarrow> metadata \<Rightarrow> metadata" where
  "add_details lower raw spec q =
     (case json_get raw (fst spec) of
        JObj details \<Rightarrow>
          fold (\<lambda>modality. set_count (lit modality @ lit ''_'' @ snd spec @ lit ''_tokens'')
                             (read_detail_int (JObj details) (lit modality @ lit ''_tokens'')))
            [''text'', ''audio'', ''image'', ''video''] q
      | JList details \<Rightarrow> fold (add_modality lower (snd spec)) details q
      | _ \<Rightarrow> q)"

definition add_tool_counts :: "metadata \<Rightarrow> pystr \<Rightarrow> metadata \<Rightarrow> metadata" where
  "add_tool_counts raw container q =
     (case json_get raw container of
        JObj details \<Rightarrow> fold (\<lambda>(key, v). set_count key (strict_nonneg_int v)) details q
      | _ \<Rightarrow> q)"

definition pricing_quantities :: "(pystr \<Rightarrow> pystr) \<Rightarrow> metadata \<Rightarrow> metadata" where
  "pricing_quantities lower raw =
     (let q = map (\<lambda>k. (k, json_get raw k)) (filter (\<lambda>k. json_get raw k \<noteq> JNull) pricing_detail_keys);
          q = fold (\<lambda>(key, source). set_count (lit key) (read_detail_int (json_get raw (lit ''cache_creation'')) (lit source)))
                [(''cache_write_5m'', ''ephemeral_5m_input_tokens''), (''cache_write_1h'', ''ephemeral_1h_input_tokens'')] q;
          q = fold (add_details lower raw)
                [(lit ''prompt_tokens_details'', lit ''input''), (lit ''completion_tokens_details'', lit ''output''),
                 (lit ''candidates_tokens_details'', lit ''output'')] q
      in fold (add_tool_counts raw) [lit ''server_tool_use'', lit ''tool_calls_details'', lit ''pricing_quantities''] q)"

definition observation_from_metadata ::
  "(json \<Rightarrow> pystr option) \<Rightarrow> (pystr \<Rightarrow> pystr) \<Rightarrow> metadata \<Rightarrow> pystr \<Rightarrow> pystr option \<Rightarrow> bool \<Rightarrow>
     usage_error + usage_observation" where
  "observation_from_metadata decimal lower md provider model complete =
     rbind (normalize_usage md provider model) (\<lambda>usage.
     let counts = (if nu_reported usage
                   then \<lparr>pc_input = nu_input usage, pc_output = nu_output usage, pc_total = nu_total usage,
                         pc_cache_read = nu_cache_read usage, pc_cache_write = nu_cache_write usage,
                         pc_reasoning = nu_reasoning usage\<rparr>
                   else unreported_counts md provider);
         raw = (if \<not> nu_reported usage \<and> provider \<in> set zero_input_sentinel_providers \<and>
                   json_eq_int (json_get md (lit ''input_tokens'')) (- 1)
                then dict_set (lit ''input_tokens'') (JInt 0) md else md)
     in make_observation decimal
          \<lparr>uo_provider = provider,
           uo_model = (case json_get raw (lit ''resolved_model'') of JStr s \<Rightarrow> Some s | _ \<Rightarrow> model),
           uo_input = pc_input counts, uo_output = pc_output counts, uo_total = pc_total counts,
           uo_cache_read = pc_cache_read counts, uo_cache_write = pc_cache_write counts,
           uo_reasoning = pc_reasoning counts, uo_complete = (complete \<and> nu_reported usage),
           uo_cost = reported_cost decimal provider raw, uo_quantities = pricing_quantities lower raw,
           uo_reason = (if complete \<and> nu_reported usage then None else nu_reason usage)\<rparr>)"

definition from_usage :: "(json \<Rightarrow> pystr option) \<Rightarrow> normalized_usage \<Rightarrow> usage_error + usage_observation" where
  "from_usage decimal u =
     make_observation decimal
       \<lparr>uo_provider = nu_provider u, uo_model = nu_model u, uo_input = nu_input u, uo_output = nu_output u,
        uo_total = nu_total u, uo_cache_read = nu_cache_read u, uo_cache_write = nu_cache_write u,
        uo_reasoning = nu_reasoning u, uo_complete = nu_reported u, uo_cost = None, uo_quantities = [],
        uo_reason = nu_reason u\<rparr>"

definition newer_or :: "'a option \<Rightarrow> 'a option \<Rightarrow> 'a option" where
  "newer_or new old = (case new of Some v \<Rightarrow> Some v | None \<Rightarrow> old)"

text \<open>The observation that \<open>refined_by\<close> builds, before the checks.\<close>

definition merged_observation :: "usage_observation \<Rightarrow> usage_observation \<Rightarrow> usage_observation" where
  "merged_observation self newer =
     (let keep_core = (uo_complete self \<and> \<not> uo_complete newer);
          core = (\<lambda>field. if keep_core then field self else newer_or (field newer) (field self))
      in \<lparr>uo_provider = uo_provider self, uo_model = newer_or (uo_model newer) (uo_model self),
          uo_input = core uo_input, uo_output = core uo_output,
          uo_total = (if (uo_complete newer \<or> \<not> uo_complete self) \<and> (uo_input newer \<noteq> None \<or> uo_output newer \<noteq> None)
                      then None else core uo_total),
          uo_cache_read = newer_or (uo_cache_read newer) (uo_cache_read self),
          uo_cache_write = newer_or (uo_cache_write newer) (uo_cache_write self),
          uo_reasoning = newer_or (uo_reasoning newer) (uo_reasoning self),
          uo_complete = (uo_complete self \<or> uo_complete newer),
          uo_cost = newer_or (uo_cost newer) (uo_cost self),
          uo_quantities = fold (\<lambda>(k, v). dict_set k v) (uo_quantities newer) (uo_quantities self),
          uo_reason = (if uo_complete newer then uo_reason newer
                       else if keep_core then uo_reason self else newer_or (uo_reason newer) (uo_reason self))\<rparr>)"

definition refined_by ::
  "(json \<Rightarrow> pystr option) \<Rightarrow> usage_observation \<Rightarrow> usage_observation \<Rightarrow> usage_error + usage_observation" where
  "refined_by decimal self newer = make_observation decimal (merged_observation self newer)"

section \<open>Capture of provider usage\<close>

definition capture_present :: "json \<Rightarrow> (string \<times> string) list \<Rightarrow> metadata" where
  "capture_present usage keys =
     map (\<lambda>(k, w). (lit k, read_wire usage (lit w))) (filter (\<lambda>(k, w). read_wire usage (lit w) \<noteq> JNull) keys)"

definition anthropic_usage_metadata :: "json \<Rightarrow> metadata" where
  "anthropic_usage_metadata usage =
     (let md = capture_present usage
            [(''input_tokens'', ''input_tokens''), (''output_tokens'', ''output_tokens''),
             (''cache_read_input_tokens'', ''cache_read_input_tokens''),
             (''cache_write_input_tokens'', ''cache_creation_input_tokens'')];
          md = set_count (lit ''reasoning_output_tokens'')
                 (read_detail_int (read_wire usage (lit ''output_tokens_details'')) (lit ''thinking_tokens'')) md
      in fold (\<lambda>key md. if read_wire usage (lit key) \<noteq> JNull then dict_set (lit key) (read_wire usage (lit key)) md else md)
           [''cache_creation'', ''server_tool_use'', ''service_tier'', ''pricing_tier_input_tokens''] md)"

definition capture_modalities :: "json list \<Rightarrow> json list" where
  "capture_modalities details =
     List.map_filter
       (\<lambda>detail. case (read_wire detail (lit ''modality''), read_detail_int detail (lit ''token_count'')) of
          (JStr modality, Some count) \<Rightarrow>
            Some (JObj [(lit ''modality'', JStr modality), (lit ''token_count'', JInt count)])
        | _ \<Rightarrow> None) details"

definition google_usage_metadata :: "json \<Rightarrow> metadata" where
  "google_usage_metadata usage =
     (let md = capture_present usage
            (map (\<lambda>k. (k, k)) [''prompt_token_count'', ''candidates_token_count'', ''total_token_count'',
                               ''cached_content_token_count'', ''thoughts_token_count'', ''tool_use_prompt_token_count''])
      in fold (\<lambda>key md. case read_wire usage (lit key) of
                 JList details \<Rightarrow> dict_set (lit key) (JList (capture_modalities details)) md
               | _ \<Rightarrow> md)
           [''prompt_tokens_details'', ''candidates_tokens_details'', ''cache_tokens_details'',
            ''tool_use_prompt_tokens_details''] md)"

section \<open>The normalised counts\<close>

definition nonneg :: "int option \<Rightarrow> bool" where
  "nonneg v = (case v of Some i \<Rightarrow> i \<ge> 0 | None \<Rightarrow> True)"

definition within :: "int option \<Rightarrow> int option \<Rightarrow> bool" where
  "within part whole = (case (part, whole) of (Some p, Some w) \<Rightarrow> p \<le> w | _ \<Rightarrow> True)"

lemma nonneg_simps [simp]:
  "nonneg None" "nonneg (Some i) = (i \<ge> 0)"
  by (simp_all add: nonneg_def)

lemma within_simps [simp]:
  "within None w" "within p None" "within (Some i) (Some j) = (i \<le> j)"
  by (simp_all add: within_def split: option.splits)

lemma or_zero_nonneg [simp]: "nonneg v \<Longrightarrow> 0 \<le> or_zero v"
  by (cases v) simp_all

lemma within_or_zero [simp]: "within v (Some j) = (v = None \<or> or_zero v \<le> j)"
  by (cases v) simp_all

lemma strict_nonneg_int_nonneg [simp]: "nonneg (strict_nonneg_int v)"
  by (simp add: strict_nonneg_int_def split: json.splits)

lemma classify_nonneg [simp]: "nonneg (fst (classify md k))"
  by (simp add: classify_def Let_def split: option.splits)

lemma check_subset_nonneg [simp]: "nonneg p \<Longrightarrow> nonneg (check_subset p b)"
  by (cases p) (simp_all add: check_subset_def)

lemma check_subset_within [simp]: "check_subset p b = None \<or> or_zero (check_subset p b) \<le> b"
  by (simp add: check_subset_def split: option.splits)

lemma read_counts_Inr:
  assumes "read_counts md core ar info = Inr values"
  shows "values (fst core) \<noteq> None" "values (snd core) \<noteq> None" "nonneg (values k)"
  using assms by (auto simp: read_counts_def Let_def split: if_splits)

lemma read_counts_Inl:
  "read_counts md core ar info = Inl r \<Longrightarrow> r = reason_malformed \<or> r = reason_not_reported"
  by (auto simp: read_counts_def Let_def split: if_splits)

text \<open>A usage record that is either fully consistent or fully unreported.\<close>

definition usage_ok :: "normalized_usage \<Rightarrow> bool" where
  "usage_ok u =
     (list_all nonneg [nu_input u, nu_output u, nu_total u, nu_cache_read u, nu_cache_write u, nu_reasoning u] \<and>
      within (nu_cache_read u) (nu_input u) \<and> within (nu_cache_write u) (nu_input u) \<and>
      within (nu_reasoning u) (nu_output u) \<and>
      (if nu_reported u
       then nu_reason u = None \<and>
            (case (nu_input u, nu_output u) of (Some i, Some out) \<Rightarrow> nu_total u = Some (i + out) | _ \<Rightarrow> False)
       else (nu_reason u = Some reason_not_reported \<or> nu_reason u = Some reason_malformed) \<and>
            list_all (\<lambda>v. v = None)
              [nu_input u, nu_output u, nu_total u, nu_cache_read u, nu_cache_write u, nu_reasoning u]))"

lemma unreported_ok:
  "r = reason_malformed \<or> r = reason_not_reported \<Longrightarrow> usage_ok (unreported p m r)"
  by (auto simp: usage_ok_def unreported_def)

lemma reported_ok:
  assumes "0 \<le> i" "0 \<le> out" "list_all nonneg [cr, cw, re]"
    and "within cr (Some i)" "within cw (Some i)" "within re (Some out)"
  shows "usage_ok \<lparr>nu_provider = p, nu_model = m, nu_reported = True, nu_input = Some i, nu_output = Some out,
           nu_total = Some (i + out), nu_cache_read = cr, nu_cache_write = cw, nu_reasoning = re, nu_reason = None\<rparr>"
  using assms by (simp add: usage_ok_def)

lemma normalize_anthropic_ok: "usage_ok (normalize_anthropic md p m)"
  unfolding normalize_anthropic_def Let_def
  by (auto split: sum.split intro!: reported_ok unreported_ok dest: read_counts_Inl simp: read_counts_Inr(3))

lemma normalize_openai_ok: "usage_ok (normalize_openai md p m)"
  unfolding normalize_openai_def Let_def
  by (auto split: sum.split intro!: reported_ok unreported_ok dest: read_counts_Inl simp: read_counts_Inr(3))

lemma normalize_google_ok: "usage_ok (normalize_google md p m)"
  unfolding normalize_google_def Let_def
  by (auto split: sum.split intro!: reported_ok unreported_ok dest: read_counts_Inl simp: read_counts_Inr(3))

lemma normalize_usage_ok: "normalize_usage md p m = Inr u \<Longrightarrow> usage_ok u"
  by (auto simp: normalize_usage_def normalize_anthropic_ok normalize_openai_ok normalize_google_ok split: if_splits)


section \<open>Valid observations\<close>

definition counts_nonneg :: "usage_observation \<Rightarrow> bool" where
  "counts_nonneg ob =
     list_all nonneg [uo_input ob, uo_output ob, uo_total ob, uo_cache_read ob, uo_cache_write ob, uo_reasoning ob]"

definition core_complete :: "usage_observation \<Rightarrow> bool" where
  "core_complete ob =
     (case (uo_input ob, uo_output ob) of (Some i, Some out) \<Rightarrow> uo_total ob = Some (i + out) | _ \<Rightarrow> False)"

definition core_consistent :: "usage_observation \<Rightarrow> bool" where
  "core_consistent ob = (uo_input ob = None \<or> uo_output ob = None \<or> core_complete ob)"

definition observation_ok :: "usage_observation \<Rightarrow> bool" where
  "observation_ok ob =
     (uo_provider ob \<noteq> [] \<and> counts_nonneg ob \<and> core_consistent ob \<and> (uo_complete ob \<longrightarrow> core_complete ob))"

lemma counts_nonneg_iff:
  "counts_nonneg ob \<longleftrightarrow>
     \<not> list_ex (\<lambda>v. case v of Some i \<Rightarrow> i < 0 | None \<Rightarrow> False)
         [uo_input ob, uo_output ob, uo_total ob, uo_cache_read ob, uo_cache_write ob, uo_reasoning ob]"
  by (simp add: counts_nonneg_def nonneg_def not_less option.case_eq_if)

lemma fill_total_Inr:
  assumes "fill_total ob = Inr ob'"
  shows "ob' = ob\<lparr>uo_total := uo_total ob'\<rparr>" "uo_total ob \<noteq> None \<Longrightarrow> ob' = ob" "core_consistent ob'"
    and "counts_nonneg ob \<Longrightarrow> counts_nonneg ob'"
  using assms
  by (auto simp: fill_total_def core_consistent_def core_complete_def counts_nonneg_def split: option.splits if_splits)

lemma fill_total_consistent: "core_consistent ob \<Longrightarrow> fill_total ob = Inr ob"
  by (auto simp: fill_total_def core_consistent_def core_complete_def split: option.splits)

lemma fill_total_provider: "fill_total ob = Inr ob' \<Longrightarrow> uo_provider ob' = uo_provider ob"
  by (drule fill_total_Inr(1)) (metis usage_observation.select_convs(1) usage_observation.surjective usage_observation.update_convs(5))

lemma make_observation_Inr:
  assumes "make_observation decimal ob = Inr ob'"
  shows "fill_total ob = Inr ob'" "observation_ok ob'" "cost_accepted decimal (uo_cost ob')"
proof -
  from assms have prov: "uo_provider ob \<noteq> []" and nn: "counts_nonneg ob"
    unfolding make_observation_def counts_nonneg_iff by (simp_all split: if_splits)
  with assms show fill: "fill_total ob = Inr ob'"
    unfolding make_observation_def counts_nonneg_iff by (auto elim!: rbindE split: if_splits)
  with assms prov nn have "uo_complete ob' \<longrightarrow> uo_input ob' \<noteq> None \<and> uo_output ob' \<noteq> None"
    and cost: "cost_accepted decimal (uo_cost ob')"
    unfolding make_observation_def counts_nonneg_iff by (auto split: if_splits)
  with fill_total_Inr[OF fill] fill_total_provider[OF fill] prov nn show "observation_ok ob'"
    by (auto simp: observation_ok_def core_consistent_def)
  from cost show "cost_accepted decimal (uo_cost ob')" .
qed

lemma make_observation_accepts:
  assumes "observation_ok ob" "cost_accepted decimal (uo_cost ob)"
  shows "make_observation decimal ob = Inr ob"
proof -
  from assms(1) have "uo_complete ob \<Longrightarrow> uo_input ob \<noteq> None \<and> uo_output ob \<noteq> None \<and> uo_total ob \<noteq> None"
    by (auto simp: observation_ok_def core_complete_def split: option.splits)
  with assms show ?thesis
    unfolding make_observation_def observation_ok_def counts_nonneg_iff by (auto simp: fill_total_consistent)
qed

section \<open>Observing a response\<close>

lemma add_counts_nonneg: "nonneg base \<Longrightarrow> nonneg (add_counts raw base ks)"
proof (induction raw base ks rule: add_counts.induct)
  case (2 raw base k ks)
  then show ?case
    using classify_nonneg[of raw k] by (cases base; cases "fst (classify raw k)") (auto simp del: classify_nonneg)
qed simp

lemma bounded_by_nonneg: "nonneg p \<Longrightarrow> nonneg (bounded_by p w)"
  by (cases p; cases w) (auto simp: bounded_by_def)

lemma reported_cost_accepted:
  assumes "\<And>v t. decimal v = Some t \<Longrightarrow> decimal (JStr t) \<noteq> None"
  shows "cost_accepted decimal (reported_cost decimal p md)"
proof -
  have "nonnegative_decimal decimal v = Some t \<Longrightarrow> nonnegative_decimal decimal (JStr t) \<noteq> None" for v t
    using assms by (auto simp: nonnegative_decimal_def split: json.splits)
  moreover have "json_get (cost_record t sc pr) (lit ''amount'') = JStr t" for t sc pr
    by (simp add: cost_record_def json_get_def lit_def)
  ultimately show ?thesis
    by (auto simp: reported_cost_def cost_accepted_def Let_def split: option.splits)
qed

text \<open>The observation that is checked at the end of \<open>observation_from_metadata\<close>.\<close>

lemma unreported_counts_ok:
  fixes md p
  defines "c \<equiv> unreported_counts md p"
  shows "list_all nonneg [pc_input c, pc_output c, pc_total c, pc_cache_read c, pc_cache_write c, pc_reasoning c]"
    and "(case (pc_input c, pc_output c) of (Some i, Some out) \<Rightarrow> pc_total c = Some (i + out) | _ \<Rightarrow> True)"
proof -
  have "nonneg (pc_input c)" "nonneg (pc_output c)"
    unfolding c_def unreported_counts_def Let_def by (simp_all add: add_counts_nonneg)
  moreover have "nonneg (pc_cache_read c)" "nonneg (pc_cache_write c)" "nonneg (pc_reasoning c)"
    unfolding c_def unreported_counts_def Let_def by (simp_all add: bounded_by_nonneg)
  moreover obtain t where tot: "pc_total c = (case (pc_input c, pc_output c) of (Some i, Some o') \<Rightarrow> Some (i + o')
      | _ \<Rightarrow> strict_nonneg_int t)"
    unfolding c_def unreported_counts_def Let_def by simp
  ultimately show "list_all nonneg [pc_input c, pc_output c, pc_total c, pc_cache_read c, pc_cache_write c, pc_reasoning c]"
    by (auto split: option.splits)
  show "(case (pc_input c, pc_output c) of (Some i, Some out) \<Rightarrow> pc_total c = Some (i + out) | _ \<Rightarrow> True)"
    using tot by (auto split: option.splits)
qed

lemma checked_observation_ok:
  assumes "p \<noteq> []" "usage_ok u"
    and c: "c = (if nu_reported u
                 then \<lparr>pc_input = nu_input u, pc_output = nu_output u, pc_total = nu_total u,
                       pc_cache_read = nu_cache_read u, pc_cache_write = nu_cache_write u,
                       pc_reasoning = nu_reasoning u\<rparr>
                 else unreported_counts md p)"
  shows "observation_ok
           \<lparr>uo_provider = p, uo_model = m, uo_input = pc_input c, uo_output = pc_output c, uo_total = pc_total c,
            uo_cache_read = pc_cache_read c, uo_cache_write = pc_cache_write c, uo_reasoning = pc_reasoning c,
            uo_complete = (complete \<and> nu_reported u), uo_cost = cost, uo_quantities = q, uo_reason = r\<rparr>"
proof (cases "nu_reported u")
  case True
  with assms show ?thesis
    by (auto simp: observation_ok_def core_consistent_def core_complete_def counts_nonneg_def usage_ok_def
             split: option.splits)
next
  case False
  with c have c': "c = unreported_counts md p"
    by simp
  from unreported_counts_ok[of md p] False assms(1) show ?thesis
    unfolding observation_ok_def core_consistent_def core_complete_def counts_nonneg_def c'[symmetric]
    by (auto split: option.splits)
qed

text \<open>
  C20: Usage that a family normaliser accepts is internally consistent whatever the provider sent: when it is
  reported, input and output are known, the total is their sum, the cache reads and cache writes lie within
  the input and the reasoning within the output, and no count is negative; when it is not reported, every
  count is absent and the reason is one of the two documented ones.
\<close>

theorem normalized_usage_is_consistent:
  assumes "normalize_usage md provider model = Inr u"
  shows "usage_ok u"
  using assms by (rule normalize_usage_ok)

definition sample_metadata :: metadata where
  "sample_metadata =
     [(lit ''input_tokens'', JInt (- 1)), (lit ''output_tokens'', JInt 7), (lit ''cache_read_input_tokens'', JInt 5),
      (lit ''reasoning_output_tokens'', JInt 9)]"

definition sample_usage :: normalized_usage where
  "sample_usage =
     \<lparr>nu_provider = lit ''moonshot'', nu_model = None, nu_reported = True, nu_input = Some 5, nu_output = Some 7,
      nu_total = Some 12, nu_cache_read = Some 5, nu_cache_write = None, nu_reasoning = None, nu_reason = None\<rparr>"

lemma sample_normalized: "normalize_usage sample_metadata (lit ''moonshot'') None = Inr sample_usage"
  by code_simp

theorem normalized_usage_is_consistent_witness:
  "normalize_usage sample_metadata (lit ''moonshot'') None = Inr sample_usage \<and> usage_ok sample_usage"
  using normalized_usage_is_consistent[OF sample_normalized] sample_normalized by simp



definition integer_decimal :: "json \<Rightarrow> pystr option" where
  "integer_decimal v =
     (case v of JInt i \<Rightarrow> if i \<ge> 0 then Some (show_int i) else None | JStr s \<Rightarrow> Some s | _ \<Rightarrow> None)"


text \<open>An accepted usage record is serialised and read back.\<close>

lemma text_field_opt_str [simp]: "text_field (opt_str v) = Some v"
  by (cases v) (simp_all add: text_field_def opt_str_def)

lemma count_field_opt_int [simp]: "nonneg v \<Longrightarrow> count_field (opt_int v) = Some v"
  by (cases v) (simp_all add: count_field_def opt_int_def strict_nonneg_int_def)

lemma usage_roundtrip:
  assumes "usage_ok u" "nu_provider u \<noteq> []"
  shows "usage_from_dict (JObj (usage_to_dict u)) = Some u"
proof -
  have get:
    "json_get (usage_to_dict u) (lit ''provider'') = JStr (nu_provider u)"
    "json_get (usage_to_dict u) (lit ''model'') = opt_str (nu_model u)"
    "json_get (usage_to_dict u) (lit ''reported'') = JBool (nu_reported u)"
    "json_get (usage_to_dict u) (lit ''input_tokens'') = opt_int (nu_input u)"
    "json_get (usage_to_dict u) (lit ''output_tokens'') = opt_int (nu_output u)"
    "json_get (usage_to_dict u) (lit ''total_tokens'') = opt_int (nu_total u)"
    "json_get (usage_to_dict u) (lit ''cache_read_input_tokens'') = opt_int (nu_cache_read u)"
    "json_get (usage_to_dict u) (lit ''cache_write_input_tokens'') = opt_int (nu_cache_write u)"
    "json_get (usage_to_dict u) (lit ''reasoning_output_tokens'') = opt_int (nu_reasoning u)"
    "json_get (usage_to_dict u) (lit ''unavailable_reason'') = opt_str (nu_reason u)"
    by (simp_all add: usage_to_dict_def json_get_def lit_def)
  from assms show ?thesis
    by (simp add: usage_from_dict_def get usage_ok_def)
qed

lemma normalize_usage_provider: "normalize_usage md p m = Inr u \<Longrightarrow> nu_provider u = p"
  by (auto simp: normalize_usage_def normalize_anthropic_def normalize_openai_def normalize_google_def unreported_def
        Let_def split: if_splits sum.splits)

text \<open>
  A normalised usage record survives persistence: the dictionary written for it is read back to the same
  record, absent counts and the reason included.
\<close>

theorem usage_record_roundtrip:
  assumes "normalize_usage md provider model = Inr u" "provider \<noteq> []"
  shows "usage_from_dict (JObj (usage_to_dict u)) = Some u"
  using assms usage_roundtrip normalize_usage_ok normalize_usage_provider by blast

theorem usage_record_roundtrip_witness:
  "usage_from_dict (JObj (usage_to_dict sample_usage)) = Some sample_usage"
  by (rule usage_record_roundtrip[OF sample_normalized]) (simp add: lit_def)

section \<open>Refining an observation\<close>

definition conflicting_total :: "usage_observation \<Rightarrow> usage_observation \<Rightarrow> bool" where
  "conflicting_total self newer =
     (\<not> uo_complete self \<and> \<not> uo_complete newer \<and> uo_input newer = None \<and> uo_output newer = None \<and>
      (case (uo_input self, uo_output self, uo_total newer) of
         (Some i, Some out, Some t) \<Rightarrow> t \<noteq> i + out | _ \<Rightarrow> False))"

definition same_core :: "usage_observation \<Rightarrow> usage_observation \<Rightarrow> bool" where
  "same_core a b = (uo_input a = uo_input b \<and> uo_output a = uo_output b \<and> uo_total a = uo_total b)"

lemma newer_or_simps [simp]: "newer_or None v = v" "newer_or (Some a) v = Some a"
  by (simp_all add: newer_or_def)

lemma newer_or_nonneg: "nonneg a \<Longrightarrow> nonneg b \<Longrightarrow> nonneg (newer_or a b)"
  by (cases a) simp_all

lemma core_completeE:
  assumes "core_complete ob"
  obtains i out where "uo_input ob = Some i" "uo_output ob = Some out" "uo_total ob = Some (i + out)"
  using assms by (auto simp: core_complete_def split: option.splits)

lemma merged_simps [simp]:
  "uo_provider (merged_observation self newer) = uo_provider self"
  "uo_complete (merged_observation self newer) = (uo_complete self \<or> uo_complete newer)"
  "uo_cost (merged_observation self newer) = newer_or (uo_cost newer) (uo_cost self)"
  by (simp_all add: merged_observation_def Let_def)

lemma merged_counts_nonneg:
  "counts_nonneg self \<Longrightarrow> counts_nonneg newer \<Longrightarrow> counts_nonneg (merged_observation self newer)"
  by (simp add: counts_nonneg_def merged_observation_def Let_def newer_or_nonneg)

lemma merged_core:
  "uo_complete self \<Longrightarrow> \<not> uo_complete newer \<Longrightarrow> same_core (merged_observation self newer) self"
  "uo_complete newer \<Longrightarrow> core_complete newer \<Longrightarrow> same_core ((merged_observation self newer)\<lparr>uo_total := uo_total newer\<rparr>) newer"
  by (auto simp: same_core_def merged_observation_def Let_def elim!: core_completeE)

lemma fill_total_Some:
  "uo_input ob = Some i \<Longrightarrow> uo_output ob = Some out \<Longrightarrow>
     fill_total ob = Inr ob' \<Longrightarrow> uo_input ob' = Some i \<and> uo_output ob' = Some out \<and> uo_total ob' = Some (i + out)"
  by (auto simp: fill_total_def split: option.splits if_splits)

text \<open>
  Refining an observation by a newer one, when it succeeds, gives a valid observation of the same provider
  that is complete exactly if one of the two was; a complete observation keeps its input, output and total
  against a later partial one, and a later complete observation replaces them.
\<close>

theorem refinement_keeps_complete_counts:
  assumes "observation_ok self" "observation_ok newer" "refined_by decimal self newer = Inr ob"
  shows "observation_ok ob \<and> uo_provider ob = uo_provider self \<and>
         uo_complete ob = (uo_complete self \<or> uo_complete newer) \<and>
         (uo_complete self \<and> \<not> uo_complete newer \<longrightarrow> same_core ob self) \<and>
         (uo_complete newer \<longrightarrow> same_core ob newer)"
proof -
  from assms(3) have fill: "fill_total (merged_observation self newer) = Inr ob" and ok: "observation_ok ob"
    unfolding refined_by_def by (rule make_observation_Inr)+
  note eq = fill_total_Inr(1)[OF fill]
  have "uo_provider ob = uo_provider self" "uo_complete ob = (uo_complete self \<or> uo_complete newer)"
    by (subst eq, simp)+
  moreover have "same_core ob self" if "uo_complete self" "\<not> uo_complete newer"
  proof -
    from that assms(1) obtain i out where "uo_input self = Some i" "uo_output self = Some out" "uo_total self = Some (i + out)"
      by (auto simp: observation_ok_def elim: core_completeE)
    with merged_core(1)[OF that] fill_total_Some[OF _ _ fill] show ?thesis
      by (simp add: same_core_def)
  qed
  moreover have "same_core ob newer" if "uo_complete newer"
  proof -
    from that assms(2) have cc: "core_complete newer"
      by (simp add: observation_ok_def)
    then obtain i out where "uo_input newer = Some i" "uo_output newer = Some out" "uo_total newer = Some (i + out)"
      by (rule core_completeE)
    with merged_core(2)[OF that cc] fill_total_Some[OF _ _ fill] show ?thesis
      by (simp add: same_core_def)
  qed
  ultimately show ?thesis
    using ok by blast
qed

definition partial_observation :: "int option \<Rightarrow> int option \<Rightarrow> int option \<Rightarrow> usage_observation" where
  "partial_observation i out t =
     \<lparr>uo_provider = lit ''google'', uo_model = None, uo_input = i, uo_output = out, uo_total = t, uo_cache_read = None,
      uo_cache_write = None, uo_reasoning = None, uo_complete = False, uo_cost = None, uo_quantities = [],
      uo_reason = None\<rparr>"

definition complete_observation :: usage_observation where
  "complete_observation = (partial_observation (Some 3) (Some 4) (Some 7))\<lparr>uo_complete := True\<rparr>"

lemma complete_observation_refined:
  "observation_ok complete_observation" "observation_ok (partial_observation (Some 1) None None)"
  "refined_by integer_decimal complete_observation (partial_observation (Some 1) None None) = Inr complete_observation"
  "refined_by integer_decimal (partial_observation (Some 1) None None) complete_observation = Inr complete_observation"
  by code_simp+

theorem refinement_keeps_complete_counts_witness:
  "refined_by integer_decimal (partial_observation (Some 1) None None) complete_observation = Inr complete_observation \<and>
   uo_complete complete_observation = (uo_complete (partial_observation (Some 1) None None) \<or> uo_complete complete_observation)"
  using refinement_keeps_complete_counts[OF complete_observation_refined(2,1,4)] complete_observation_refined(4) by blast

lemma fill_total_defined:
  "(\<exists>ob'. fill_total ob = Inr ob') \<longleftrightarrow>
     \<not> (case (uo_input ob, uo_output ob, uo_total ob) of (Some i, Some out, Some t) \<Rightarrow> t \<noteq> i + out | _ \<Rightarrow> False)"
  by (auto simp: fill_total_def split: option.splits)

lemma merged_conflict:
  assumes "observation_ok self" "observation_ok newer"
  defines "ob \<equiv> merged_observation self newer"
  shows "(case (uo_input ob, uo_output ob, uo_total ob) of (Some i, Some out, Some t) \<Rightarrow> t \<noteq> i + out | _ \<Rightarrow> False)
         = conflicting_total self newer"
proof (cases "uo_complete self \<or> uo_complete newer")
  case True
  with assms(1,2) have "core_complete self \<and> \<not> uo_complete newer \<or> uo_complete newer \<and> core_complete newer"
    by (auto simp: observation_ok_def)
  with True show ?thesis
    unfolding ob_def merged_observation_def conflicting_total_def Let_def
    by (elim disjE conjE core_completeE) simp_all
next
  case False
  show ?thesis
  proof (cases "uo_input newer = None \<and> uo_output newer = None")
    case True
    with False assms(1) show ?thesis
      unfolding ob_def merged_observation_def conflicting_total_def Let_def observation_ok_def core_consistent_def
      by (cases "uo_total newer"; cases "uo_input self"; cases "uo_output self") (auto simp: core_complete_def)
  next
    case present: False
    with False have "uo_total ob = None" "\<not> conflicting_total self newer"
      by (auto simp: ob_def merged_observation_def conflicting_total_def Let_def)
    then show ?thesis
      by (simp split: option.split)
  qed
qed

lemma make_observation_defined:
  assumes "uo_provider ob \<noteq> []" "counts_nonneg ob" "cost_accepted decimal (uo_cost ob)" "fill_total ob = Inr ob'"
    and "uo_complete ob \<Longrightarrow> uo_input ob \<noteq> None \<and> uo_output ob \<noteq> None"
  shows "make_observation decimal ob = Inr ob'"
proof -
  note eq = fill_total_Inr(1)[OF assms(4)]
  have same: "uo_complete ob' = uo_complete ob" "uo_input ob' = uo_input ob" "uo_output ob' = uo_output ob"
    "uo_cost ob' = uo_cost ob"
    by (subst eq, simp)+
  have "uo_complete ob' \<Longrightarrow> uo_total ob' \<noteq> None"
    using fill_total_Some[OF _ _ assms(4)] assms(5) same by auto
  with assms same show ?thesis
    unfolding make_observation_def counts_nonneg_iff by simp
qed

text \<open>
  For two valid observations whose costs are accepted, refining fails in exactly one situation: both are
  partial, the newer one carries a total but neither an input nor an output count, and that total differs from
  the sum of the older input and output.
\<close>

theorem refinement_fails_only_on_conflicting_total:
  assumes "observation_ok self" "observation_ok newer"
    and "cost_accepted decimal (uo_cost self)" "cost_accepted decimal (uo_cost newer)"
  shows "(\<exists>ob. refined_by decimal self newer = Inr ob) \<longleftrightarrow> \<not> conflicting_total self newer"
proof
  assume "\<exists>ob. refined_by decimal self newer = Inr ob"
  then have "\<exists>ob. fill_total (merged_observation self newer) = Inr ob"
    unfolding refined_by_def by (blast dest: make_observation_Inr(1))
  then show "\<not> conflicting_total self newer"
    unfolding fill_total_defined merged_conflict[OF assms(1,2)] .
next
  assume "\<not> conflicting_total self newer"
  then obtain ob where fill: "fill_total (merged_observation self newer) = Inr ob"
    using fill_total_defined[of "merged_observation self newer"] merged_conflict[OF assms(1,2)] by blast
  have "cost_accepted decimal (newer_or (uo_cost newer) (uo_cost self))"
    using assms(3,4) by (cases "uo_cost newer") simp_all
  moreover have "uo_input (merged_observation self newer) \<noteq> None \<and> uo_output (merged_observation self newer) \<noteq> None"
    if "uo_complete self \<or> uo_complete newer"
    using that assms(1,2) by (auto simp: observation_ok_def merged_observation_def Let_def elim!: core_completeE)
  ultimately show "\<exists>ob. refined_by decimal self newer = Inr ob"
    unfolding refined_by_def using assms(1,2)
    by (intro exI[of _ ob] make_observation_defined fill) (simp_all add: merged_counts_nonneg observation_ok_def)
qed

theorem refinement_fails_only_on_conflicting_total_witness:
  "\<not> (\<exists>ob. refined_by integer_decimal (partial_observation (Some 3) (Some 4) (Some 7))
              (partial_observation None None (Some 8)) = Inr ob)"
proof -
  have "conflicting_total (partial_observation (Some 3) (Some 4) (Some 7)) (partial_observation None None (Some 8))"
    "observation_ok (partial_observation (Some 3) (Some 4) (Some 7))"
    "observation_ok (partial_observation None None (Some 8))"
    by code_simp+
  then show ?thesis
    by (subst refinement_fails_only_on_conflicting_total)
       (simp_all add: partial_observation_def cost_accepted_def)
qed

end
