(* ===== verification/Session_Log.thy ===== *)
theory Session_Log
  imports Transition_Systems Kolega_Prelude "HOL-Library.Sublist"
begin

text \<open>
  The durable session journal, \<open>SessionEvent\<close> and \<open>SessionJournal\<close> of \<open>kolega_code/cli/session_journal.py\<close>:
  the event file as bytes, allocation of sequence numbers, appending with every way a write can fail, tail
  repair, re-synchronisation with another writer and renumbering.

  Parameters: \<open>dumps\<close>, the compact JSON text of a value in UTF-8 (\<open>None\<close> when it cannot be encoded),
  \<open>loads\<close>, its inverse on a line (\<open>None\<close> when the line is rejected), and \<open>repr\<close>, the text of floats and
  containers. Identifiers and timestamps of new events are arguments. Listeners, file modes and the order
  of directory creation are not modelled.
\<close>

section \<open>Events\<close>

record agent_stamp =
  st_agent_id :: pystr
  st_agent_name :: pystr
  st_parent_agent :: "pystr option"
  st_parent_call :: "pystr option"
  st_depth :: int

record session_event =
  se_version :: int
  se_id :: pystr
  se_session :: pystr
  se_seq :: int
  se_epoch :: pystr
  se_turn :: "pystr option"
  se_timestamp :: pystr
  se_actor :: pystr
  se_type :: pystr
  se_payload :: "(pystr \<times> json) list"
  se_artifacts :: "json list"
  se_agent_id :: "pystr option"
  se_agent_name :: "pystr option"
  se_parent_agent :: "pystr option"
  se_parent_call :: "pystr option"
  se_depth :: "int option"

datatype journal_error =
    MissingFields
  | UnhashableVersion
  | UnsupportedVersion
  | BadSequence
  | BadPayload
  | BadArtifacts
  | BadTextField pystr
  | BadDepth
  | ReadFailed
  | RepairFailed
  | WriteFailed
  | EncodeFailed
  | BlankLine nat
  | InvalidJson nat
  | NotAnObject nat
  | ForeignEvent nat
  | SequenceGap nat
  | NoEpoch
  | LogLocked
  | RecorderError pystr

definition event_to_dict :: "session_event \<Rightarrow> (pystr \<times> json) list" where
  "event_to_dict e =
     [(lit ''version'', JInt (se_version e)), (lit ''id'', JStr (se_id e)), (lit ''session_id'', JStr (se_session e)),
      (lit ''seq'', JInt (se_seq e)), (lit ''epoch_id'', JStr (se_epoch e)), (lit ''turn_id'', opt_str (se_turn e)),
      (lit ''timestamp'', JStr (se_timestamp e)), (lit ''actor'', JStr (se_actor e)), (lit ''type'', JStr (se_type e)),
      (lit ''payload'', JObj (se_payload e)), (lit ''artifacts'', JList (se_artifacts e))] @
     (if se_version e \<ge> 2
      then [(lit ''schema'', JStr (lit ''kolega.session.event'')), (lit ''agent_id'', opt_str (se_agent_id e)),
            (lit ''agent_name'', opt_str (se_agent_name e)), (lit ''parent_agent_id'', opt_str (se_parent_agent e)),
            (lit ''parent_tool_call_id'', opt_str (se_parent_call e)), (lit ''depth'', opt_int (se_depth e))]
      else [])"

definition required_fields :: "pystr list" where
  "required_fields =
     map lit [''version'', ''id'', ''session_id'', ''seq'', ''epoch_id'', ''timestamp'', ''actor'', ''type'', ''payload'']"

text \<open>\<open>isinstance(v, int)\<close> holds of booleans too.\<close>

fun int_instance :: "json \<Rightarrow> int option" where
  "int_instance (JInt i) = Some i"
| "int_instance (JBool b) = Some (of_bool b)"
| "int_instance _ = None"

definition nonempty_text :: "json \<Rightarrow> pystr option" where
  "nonempty_text v = (case v of JStr s \<Rightarrow> if s = [] then None else Some s | _ \<Rightarrow> None)"

definition text_or_fail :: "(pystr \<times> json) list \<Rightarrow> string \<Rightarrow> journal_error + pystr" where
  "text_or_fail d field =
     (case nonempty_text (json_get d (lit field)) of None \<Rightarrow> Inl (BadTextField (lit field)) | Some s \<Rightarrow> Inr s)"

definition parent_or_fail :: "(pystr \<times> json) list \<Rightarrow> string \<Rightarrow> journal_error + pystr option" where
  "parent_or_fail d field =
     (if json_get d (lit field) = JNull then Inr None
      else (case nonempty_text (json_get d (lit field)) of
              None \<Rightarrow> Inl (BadTextField (lit field)) | Some s \<Rightarrow> Inr (Some s)))"

record lineage =
  ln_agent_id :: "pystr option"
  ln_agent_name :: "pystr option"
  ln_parent_agent :: "pystr option"
  ln_parent_call :: "pystr option"
  ln_depth :: "int option"

definition lineage_from_dict :: "int \<Rightarrow> (pystr \<times> json) list \<Rightarrow> journal_error + lineage" where
  "lineage_from_dict version d =
     (if version \<ge> 2 then
        rbind (text_or_fail d ''agent_id'') (\<lambda>agent.
        rbind (text_or_fail d ''agent_name'') (\<lambda>name.
        (case int_instance (json_get d (lit ''depth'')) of
           None \<Rightarrow> Inl BadDepth
         | Some depth \<Rightarrow>
             if depth < 0 then Inl BadDepth
             else rbind (parent_or_fail d ''parent_agent_id'') (\<lambda>parent.
                  rbind (parent_or_fail d ''parent_tool_call_id'') (\<lambda>call.
                  Inr \<lparr>ln_agent_id = Some agent, ln_agent_name = Some name, ln_parent_agent = parent,
                       ln_parent_call = call, ln_depth = Some depth\<rparr>)))))
      else Inr \<lparr>ln_agent_id = None, ln_agent_name = None, ln_parent_agent = None, ln_parent_call = None,
                ln_depth = None\<rparr>)"

text \<open>Membership of the supported versions: a list or an object cannot be hashed.\<close>

definition event_version :: "json \<Rightarrow> journal_error + int" where
  "event_version v =
     (case v of
        JList _ \<Rightarrow> Inl UnhashableVersion
      | JObj _ \<Rightarrow> Inl UnhashableVersion
      | _ \<Rightarrow> if json_eq_int v 1 then Inr 1 else if json_eq_int v 2 then Inr 2 else Inl UnsupportedVersion)"

definition is_object :: "json \<Rightarrow> bool" where
  "is_object v = (case v of JObj _ \<Rightarrow> True | _ \<Rightarrow> False)"

definition event_from_dict :: "(json \<Rightarrow> pystr) \<Rightarrow> (pystr \<times> json) list \<Rightarrow> journal_error + session_event" where
  "event_from_dict repr d =
     (if list_ex (\<lambda>k. dict_get d k = None) required_fields then Inl MissingFields
      else rbind (event_version (json_get d (lit ''version''))) (\<lambda>version.
        case int_instance (json_get d (lit ''seq'')) of
          None \<Rightarrow> Inl BadSequence
        | Some seq \<Rightarrow>
            if seq < 1 then Inl BadSequence
            else (case json_get d (lit ''payload'') of
                    JObj payload \<Rightarrow>
                      (let arts = json_get d (lit ''artifacts'')
                       in case (if truthy arts then arts else JList []) of
                            JList artifacts \<Rightarrow>
                              if \<not> list_all is_object artifacts then Inl BadArtifacts
                              else rbind (text_or_fail d ''id'') (\<lambda>eid.
                                   rbind (text_or_fail d ''session_id'') (\<lambda>session.
                                   rbind (text_or_fail d ''epoch_id'') (\<lambda>epoch.
                                   rbind (text_or_fail d ''timestamp'') (\<lambda>timestamp.
                                   rbind (text_or_fail d ''actor'') (\<lambda>actor.
                                   rbind (text_or_fail d ''type'') (\<lambda>etype.
                                   rbind (lineage_from_dict version d) (\<lambda>ln.
                                   Inr \<lparr>se_version = version, se_id = eid, se_session = session, se_seq = seq,
                                        se_epoch = epoch,
                                        se_turn = (let t = json_get d (lit ''turn_id'')
                                                   in if t = JNull then None else Some (py_str repr t)),
                                        se_timestamp = timestamp, se_actor = actor, se_type = etype,
                                        se_payload = payload, se_artifacts = artifacts,
                                        se_agent_id = ln_agent_id ln, se_agent_name = ln_agent_name ln,
                                        se_parent_agent = ln_parent_agent ln, se_parent_call = ln_parent_call ln,
                                        se_depth = ln_depth ln\<rparr>)))))))
                          | _ \<Rightarrow> Inl BadArtifacts)
                  | _ \<Rightarrow> Inl BadPayload)))"

section \<open>Bytes and lines\<close>

type_synonym bytes = "nat list"

text \<open>\<open>bytes.splitlines\<close>: the boundaries are LF, CR and the pair CR LF.\<close>

function byte_lines :: "bytes \<Rightarrow> bytes list" where
  "byte_lines [] = []"
| "byte_lines (c # cs) =
     (if c = 10 then [] # byte_lines cs
      else if c = 13 then [] # byte_lines (if cs \<noteq> [] \<and> hd cs = 10 then tl cs else cs)
      else (case byte_lines cs of [] \<Rightarrow> [[c]] | l # ls \<Rightarrow> (c # l) # ls))"
  by pat_completeness auto
termination by (relation "measure length") auto

text \<open>The bytes up to and including the last LF.\<close>

definition complete_part :: "bytes \<Rightarrow> bytes" where
  "complete_part raw = rev (dropWhile (\<lambda>c. c \<noteq> 10) (rev raw))"

fun parse_lines ::
  "(bytes \<Rightarrow> json option) \<Rightarrow> (json \<Rightarrow> pystr) \<Rightarrow> pystr \<Rightarrow> bool \<Rightarrow> nat \<Rightarrow> bytes list \<Rightarrow>
     journal_error + session_event list" where
  "parse_lines loads repr session strict n [] = Inr []"
| "parse_lines loads repr session strict n (l # ls) =
     (if blank_bytes l then Inl (BlankLine n)
      else (case loads l of
              None \<Rightarrow> Inl (InvalidJson n)
            | Some (JObj d) \<Rightarrow>
                rbind (event_from_dict repr d) (\<lambda>e.
                if se_session e \<noteq> session then Inl (ForeignEvent n)
                else if strict \<and> se_seq e \<noteq> int n then Inl (SequenceGap n)
                else rbind (parse_lines loads repr session strict (Suc n) ls) (\<lambda>es. Inr (e # es)))
            | Some _ \<Rightarrow> Inl (NotAnObject n)))"

definition parse_event_bytes ::
  "(bytes \<Rightarrow> json option) \<Rightarrow> (json \<Rightarrow> pystr) \<Rightarrow> pystr \<Rightarrow> bool \<Rightarrow> bytes \<Rightarrow> journal_error + session_event list" where
  "parse_event_bytes loads repr session strict raw = parse_lines loads repr session strict 1 (byte_lines raw)"

section \<open>The journal\<close>

record journal =
  jn_session :: pystr
  jn_root :: agent_stamp
  jn_file :: "bytes option"
  jn_loaded :: bool
  jn_tail_recovery :: bool
  jn_next_seq :: int
  jn_epoch :: "pystr option"

text \<open>
  What the operating system does during one operation: whether reading fails, whether truncating the tail
  fails (and if so whether the truncation took place), and whether the write fails, leaving some of the bytes
  of the line on disk: none when the failed write was undone, all of them when only closing failed.
\<close>

record faults =
  read_fails :: bool
  repair_fault :: "bool option"
  write_fault :: "nat option"

text \<open>The cross-process lock: absent, held for the life of the process, free, or held by another process.\<close>

datatype lock_state = NoLock | OwnedLock | FreeLock | BusyLock

definition file_bytes :: "journal \<Rightarrow> bytes" where
  "file_bytes j = (case jn_file j of None \<Rightarrow> [] | Some b \<Rightarrow> b)"

definition read_event_bytes :: "bool \<Rightarrow> faults \<Rightarrow> journal \<Rightarrow> (journal_error + bytes) \<times> journal" where
  "read_event_bytes repair f j =
     (case jn_file j of
        None \<Rightarrow> (Inr [], j\<lparr>jn_tail_recovery := False\<rparr>)
      | Some raw \<Rightarrow>
          if read_fails f then (Inl ReadFailed, j)
          else if raw \<noteq> [] \<and> last raw \<noteq> 10 then
            (let valid = complete_part raw
             in if repair then
                  (case repair_fault f of
                     None \<Rightarrow> (Inr valid, j\<lparr>jn_file := Some valid, jn_tail_recovery := False\<rparr>)
                   | Some truncated \<Rightarrow> (Inl RepairFailed, if truncated then j\<lparr>jn_file := Some valid\<rparr> else j))
                else (Inr valid, j\<lparr>jn_tail_recovery := True\<rparr>))
          else (Inr raw, j\<lparr>jn_tail_recovery := False\<rparr>))"

definition latest_epoch :: "session_event list \<Rightarrow> pystr option" where
  "latest_epoch es =
     fold (\<lambda>e epoch. if se_type e = lit ''context.epoch_started'' then Some (se_epoch e) else epoch) es None"

definition set_state_from_events :: "session_event list \<Rightarrow> journal \<Rightarrow> journal" where
  "set_state_from_events es j =
     j\<lparr>jn_next_seq := (if es = [] then 1 else se_seq (last es) + 1), jn_epoch := latest_epoch es, jn_loaded := True\<rparr>"

type_synonym codec = "(json \<Rightarrow> bytes option) \<times> (bytes \<Rightarrow> json option) \<times> (json \<Rightarrow> pystr)"

definition read_events_locked ::
  "codec \<Rightarrow> bool \<Rightarrow> bool \<Rightarrow> faults \<Rightarrow> journal \<Rightarrow> (journal_error + session_event list) \<times> journal" where
  "read_events_locked cd repair strict f j =
     (case read_event_bytes repair f j of
        (Inl e, j') \<Rightarrow> (Inl e, j')
      | (Inr raw, j') \<Rightarrow> (parse_event_bytes (fst (snd cd)) (snd (snd cd)) (jn_session j) strict raw, j'))"

text \<open>A tail is repaired only with the lock, which is tried without waiting.\<close>

definition read_events_with_recovery ::
  "codec \<Rightarrow> lock_state \<Rightarrow> bool \<Rightarrow> faults \<Rightarrow> journal \<Rightarrow> (journal_error + session_event list) \<times> journal" where
  "read_events_with_recovery cd lk repair f j =
     (if \<not> repair \<or> lk = NoLock then read_events_locked cd repair True f j
      else read_events_locked cd (lk \<noteq> BusyLock) True f j)"

definition read_events ::
  "codec \<Rightarrow> lock_state \<Rightarrow> bool \<Rightarrow> faults \<Rightarrow> journal \<Rightarrow> (journal_error + session_event list) \<times> journal" where
  "read_events cd lk repair f j =
     (case read_events_with_recovery cd lk repair f j of
        (Inl e, j') \<Rightarrow> (Inl e, j')
      | (Inr es, j') \<Rightarrow> (Inr es, set_state_from_events es j'))"

definition ensure_loaded :: "codec \<Rightarrow> lock_state \<Rightarrow> faults \<Rightarrow> journal \<Rightarrow> (journal_error + unit) \<times> journal" where
  "ensure_loaded cd lk f j =
     (if jn_loaded j \<and> \<not> jn_tail_recovery j then (Inr (), j)
      else (case read_events_with_recovery cd lk True f j of
              (Inl e, j') \<Rightarrow> (Inl e, j')
            | (Inr es, j') \<Rightarrow> (Inr (), set_state_from_events es j')))"

definition epoch_id :: "codec \<Rightarrow> lock_state \<Rightarrow> faults \<Rightarrow> journal \<Rightarrow> (journal_error + pystr) \<times> journal" where
  "epoch_id cd lk f j =
     (case ensure_loaded cd lk f j of
        (Inl e, j') \<Rightarrow> (Inl e, j')
      | (Inr _, j') \<Rightarrow> (case jn_epoch j' of None \<Rightarrow> (Inl NoEpoch, j') | Some ep \<Rightarrow> (Inr ep, j')))"

section \<open>Appending\<close>

text \<open>The last line is looked for in the final 64 KiB of the file.\<close>

definition tail_window :: nat where "tail_window = 65536"

definition read_tail_seq :: "codec \<Rightarrow> faults \<Rightarrow> journal \<Rightarrow> int option" where
  "read_tail_seq cd f j =
     (case jn_file j of
        None \<Rightarrow> None
      | Some raw \<Rightarrow>
          if raw = [] \<or> read_fails f then None
          else (let chunk = drop (length raw - tail_window) raw
                in if last chunk \<noteq> 10 then None
                   else (let lines = split_on 10 chunk;
                             line = (if length lines \<ge> 2 then lines ! (length lines - 2) else [])
                         in if blank_bytes line then None
                            else (case fst (snd cd) line of
                                    Some (JObj d) \<Rightarrow> int_instance (json_get d (lit ''seq''))
                                  | _ \<Rightarrow> None))))"

definition resync_seq_from_tail :: "codec \<Rightarrow> faults \<Rightarrow> journal \<Rightarrow> (journal_error + unit) \<times> journal" where
  "resync_seq_from_tail cd f j =
     (case read_tail_seq cd f j of
        None \<Rightarrow> (case read_events_locked cd True True f j of
                   (Inl e, j') \<Rightarrow> (Inl e, j')
                 | (Inr es, j') \<Rightarrow> (Inr (), set_state_from_events es j'))
      | Some seq \<Rightarrow> (Inr (), if seq + 1 \<noteq> jn_next_seq j then j\<lparr>jn_next_seq := seq + 1\<rparr> else j))"

text \<open>A new event without what the journal adds to it, and the identity it is given.\<close>

record draft =
  dr_type :: pystr
  dr_actor :: pystr
  dr_payload :: "(pystr \<times> json) list"
  dr_turn :: "pystr option"
  dr_epoch :: "pystr option"
  dr_artifacts :: "json list"
  dr_agent :: agent_stamp

type_synonym identity = "pystr \<times> pystr"

definition make_event :: "identity \<Rightarrow> pystr \<Rightarrow> draft \<Rightarrow> journal \<Rightarrow> session_event" where
  "make_event ident epoch d j =
     \<lparr>se_version = 2, se_id = fst ident, se_session = jn_session j, se_seq = jn_next_seq j, se_epoch = epoch,
      se_turn = dr_turn d, se_timestamp = snd ident, se_actor = dr_actor d, se_type = dr_type d,
      se_payload = dr_payload d, se_artifacts = dr_artifacts d, se_agent_id = Some (st_agent_id (dr_agent d)),
      se_agent_name = Some (st_agent_name (dr_agent d)), se_parent_agent = st_parent_agent (dr_agent d),
      se_parent_call = st_parent_call (dr_agent d), se_depth = Some (st_depth (dr_agent d))\<rparr>"

definition event_line :: "codec \<Rightarrow> session_event \<Rightarrow> bytes option" where
  "event_line cd e = map_option (\<lambda>b. b @ [10]) (fst cd (JObj (event_to_dict e)))"

definition write_event :: "codec \<Rightarrow> faults \<Rightarrow> session_event \<Rightarrow> journal \<Rightarrow> (journal_error + unit) \<times> journal" where
  "write_event cd f e j =
     (case event_line cd e of
        None \<Rightarrow> (Inl EncodeFailed, j)
      | Some data \<Rightarrow>
          (case write_fault f of
             None \<Rightarrow> (Inr (), j\<lparr>jn_file := Some (file_bytes j @ data)\<rparr>)
           | Some k \<Rightarrow> (Inl WriteFailed, j\<lparr>jn_file := Some (file_bytes j @ take k data)\<rparr>)))"

text \<open>The part of an append that follows loading and re-synchronisation.\<close>

definition commit_event ::
  "codec \<Rightarrow> faults \<Rightarrow> identity \<Rightarrow> draft \<Rightarrow> journal \<Rightarrow> (journal_error + session_event) \<times> journal" where
  "commit_event cd f ident d j =
     (case (case dr_epoch d of Some ep \<Rightarrow> if ep \<noteq> [] then Some ep else jn_epoch j | None \<Rightarrow> jn_epoch j) of
        None \<Rightarrow> (Inl NoEpoch, j)
      | Some epoch \<Rightarrow>
          if epoch = [] then (Inl NoEpoch, j)
          else (let event = make_event ident epoch d j
                in case write_event cd f event j of
                     (Inl e, j) \<Rightarrow> (Inl e, j\<lparr>jn_loaded := False\<rparr>)
                   | (Inr _, j) \<Rightarrow>
                       (Inr event,
                        j\<lparr>jn_next_seq := jn_next_seq j + 1,
                          jn_epoch := (if dr_type d = lit ''context.epoch_started'' then Some epoch else jn_epoch j)\<rparr>)))"

definition append_locked ::
  "codec \<Rightarrow> lock_state \<Rightarrow> bool \<Rightarrow> faults \<Rightarrow> identity \<Rightarrow> draft \<Rightarrow> journal \<Rightarrow> (journal_error + session_event) \<times> journal" where
  "append_locked cd lk resync f ident d j =
     (case ensure_loaded cd lk f j of
        (Inl e, j) \<Rightarrow> (Inl e, j)
      | (Inr _, j) \<Rightarrow>
          (case (if resync \<and> lk \<noteq> NoLock then resync_seq_from_tail cd f j else (Inr (), j)) of
             (Inl e, j) \<Rightarrow> (Inl e, j)
           | (Inr _, j) \<Rightarrow> commit_event cd f ident d j))"

definition journal_append ::
  "codec \<Rightarrow> lock_state \<Rightarrow> faults \<Rightarrow> identity \<Rightarrow> draft \<Rightarrow> journal \<Rightarrow> (journal_error + session_event) \<times> journal" where
  "journal_append cd lk f ident d j =
     (case lk of
        NoLock \<Rightarrow> append_locked cd lk True f ident d j
      | OwnedLock \<Rightarrow> append_locked cd lk False f ident d j
      | FreeLock \<Rightarrow> append_locked cd lk True f ident d j
      | BusyLock \<Rightarrow> (Inl LogLocked, j))"

definition start_epoch ::
  "codec \<Rightarrow> lock_state \<Rightarrow> faults \<Rightarrow> identity \<Rightarrow> pystr \<Rightarrow> pystr \<Rightarrow> journal \<Rightarrow> (journal_error + pystr) \<times> journal" where
  "start_epoch cd lk f ident new_epoch reason j =
     (case journal_append cd lk f ident
             \<lparr>dr_type = lit ''context.epoch_started'', dr_actor = lit ''system'',
              dr_payload = [(lit ''reason'', JStr reason)], dr_turn = None, dr_epoch = Some new_epoch,
              dr_artifacts = [], dr_agent = jn_root j\<rparr> j of
        (Inl e, j') \<Rightarrow> (Inl e, j')
      | (Inr _, j') \<Rightarrow> (Inr new_epoch, j'))"

section \<open>Renumbering\<close>

text \<open>The loops over \<open>enumerate(events, start=1)\<close>.\<close>

fun renumber_from :: "nat \<Rightarrow> session_event list \<Rightarrow> session_event list" where
  "renumber_from n [] = []"
| "renumber_from n (e # es) = e\<lparr>se_seq := int n\<rparr> # renumber_from (Suc n) es"

fun needs_rewrite :: "nat \<Rightarrow> session_event list \<Rightarrow> bool" where
  "needs_rewrite n [] = False"
| "needs_rewrite n (e # es) = (se_seq e \<noteq> int n \<or> needs_rewrite (Suc n) es)"

text \<open>
  The rewritten file replaces the old one atomically; \<open>replace_fails\<close> stands for any failure before that.
  The state is set from the events as they were read.
\<close>

definition repair_sequence ::
  "codec \<Rightarrow> bool \<Rightarrow> faults \<Rightarrow> journal \<Rightarrow> (journal_error + nat) \<times> journal" where
  "repair_sequence cd replace_fails f j =
     (case read_events_locked cd True False f j of
        (Inl e, j) \<Rightarrow> (Inl e, j)
      | (Inr es, j) \<Rightarrow>
          if es = [] then (Inr 0, set_state_from_events es j)
          else if needs_rewrite 1 es then
            (if replace_fails then (Inl WriteFailed, j)
             else (case those (map (event_line cd) (renumber_from 1 es)) of
                     None \<Rightarrow> (Inl EncodeFailed, j)
                   | Some ls \<Rightarrow> (Inr (length es), set_state_from_events es (j\<lparr>jn_file := Some (concat ls)\<rparr>))))
          else (Inr (length es), set_state_from_events es j))"

section \<open>Events on a line\<close>

definition good_event :: "pystr \<Rightarrow> session_event \<Rightarrow> bool" where
  "good_event session e =
     (se_version e = 2 \<and> se_session e = session \<and> se_seq e \<ge> 1 \<and> list_all is_object (se_artifacts e) \<and>
      list_all (\<lambda>s. s \<noteq> []) [se_id e, se_session e, se_epoch e, se_timestamp e, se_actor e, se_type e] \<and>
      list_all (\<lambda>s. s \<noteq> None \<and> s \<noteq> Some []) [se_agent_id e, se_agent_name e] \<and>
      list_all (\<lambda>s. s \<noteq> Some []) [se_parent_agent e, se_parent_call e] \<and>
      (case se_depth e of Some d \<Rightarrow> d \<ge> 0 | None \<Rightarrow> False))"

lemma event_dict_get:
  "se_version e = 2 \<Longrightarrow> json_get (event_to_dict e) (lit k) =
     (case map_of [(''version'', JInt (se_version e)), (''id'', JStr (se_id e)), (''session_id'', JStr (se_session e)),
        (''seq'', JInt (se_seq e)), (''epoch_id'', JStr (se_epoch e)), (''turn_id'', opt_str (se_turn e)),
        (''timestamp'', JStr (se_timestamp e)), (''actor'', JStr (se_actor e)), (''type'', JStr (se_type e)),
        (''payload'', JObj (se_payload e)), (''artifacts'', JList (se_artifacts e)),
        (''schema'', JStr (lit ''kolega.session.event'')), (''agent_id'', opt_str (se_agent_id e)),
        (''agent_name'', opt_str (se_agent_name e)), (''parent_agent_id'', opt_str (se_parent_agent e)),
        (''parent_tool_call_id'', opt_str (se_parent_call e)), (''depth'', opt_int (se_depth e))] k of
      None \<Rightarrow> JNull | Some v \<Rightarrow> v)"
  by (simp add: event_to_dict_def json_get_def)

lemma opt_str_simps [simp]: "opt_str (Some s) = JStr s" "opt_str None = JNull" "opt_int (Some i) = JInt i"
  by (simp_all add: opt_str_def opt_int_def)

lemma event_has_fields: "\<not> list_ex (\<lambda>k. dict_get (event_to_dict e) k = None) required_fields"
  by (simp add: required_fields_def event_to_dict_def dict_get_def)

lemma event_lineage:
  assumes "good_event session e"
  shows "lineage_from_dict 2 (event_to_dict e) =
           Inr \<lparr>ln_agent_id = se_agent_id e, ln_agent_name = se_agent_name e, ln_parent_agent = se_parent_agent e,
                ln_parent_call = se_parent_call e, ln_depth = se_depth e\<rparr>"
proof -
  obtain a n d where ev: "se_version e = 2" "se_agent_id e = Some a" "a \<noteq> []" "se_agent_name e = Some n" "n \<noteq> []"
      "se_depth e = Some d" "d \<ge> 0"
    using assms by (auto simp: good_event_def split: option.splits)
  have "parent_or_fail (event_to_dict e) ''parent_agent_id'' = Inr (se_parent_agent e)"
    "parent_or_fail (event_to_dict e) ''parent_tool_call_id'' = Inr (se_parent_call e)"
    using assms by (auto simp: parent_or_fail_def event_dict_get good_event_def nonempty_text_def opt_str_def split: option.splits)
  with ev show ?thesis
    by (simp add: lineage_from_dict_def text_or_fail_def nonempty_text_def event_dict_get)
qed

lemma event_texts:
  assumes "good_event session e"
  shows "text_or_fail (event_to_dict e) ''id'' = Inr (se_id e)"
    "text_or_fail (event_to_dict e) ''session_id'' = Inr (se_session e)"
    "text_or_fail (event_to_dict e) ''epoch_id'' = Inr (se_epoch e)"
    "text_or_fail (event_to_dict e) ''timestamp'' = Inr (se_timestamp e)"
    "text_or_fail (event_to_dict e) ''actor'' = Inr (se_actor e)"
    "text_or_fail (event_to_dict e) ''type'' = Inr (se_type e)"
  using assms by (auto simp: good_event_def text_or_fail_def nonempty_text_def event_dict_get)

lemma event_roundtrip:
  assumes "good_event session e"
  shows "event_from_dict repr (event_to_dict e) = Inr e"
proof -
  have v: "se_version e = 2" "se_seq e \<ge> 1" "list_all is_object (se_artifacts e)"
    using assms by (simp_all add: good_event_def)
  have turn: "(let t = opt_str (se_turn e) in if t = JNull then None else Some (py_str repr t)) = se_turn e"
    by (cases "se_turn e") simp_all
  have ev: "event_version (JInt 2) = Inr 2"
    by (simp add: event_version_def)
  show ?thesis
    unfolding event_from_dict_def
    using v turn ev
    by (simp add: event_has_fields event_dict_get event_texts[OF assms] event_lineage[OF assms] Let_def)
qed

text \<open>What is relied on of the JSON module for one event: a text that is read back and has no line break.\<close>

definition codec_law :: "codec \<Rightarrow> session_event \<Rightarrow> bool" where
  "codec_law cd e \<longleftrightarrow>
     (\<forall>b. fst cd (JObj (event_to_dict e)) = Some b \<longrightarrow>
          fst (snd cd) b = Some (JObj (event_to_dict e)) \<and> 10 \<notin> set b \<and> 13 \<notin> set b \<and> \<not> blank_bytes b \<and>
          (\<forall>n. 0 < n \<and> n \<le> length b \<longrightarrow> fst (snd cd) (drop n b) = None))"

fun numbered_from :: "nat \<Rightarrow> session_event list \<Rightarrow> bool" where
  "numbered_from n [] = True"
| "numbered_from n (e # es) = (se_seq e = int n \<and> numbered_from (Suc n) es)"

abbreviation numbered :: "session_event list \<Rightarrow> bool" where
  "numbered es \<equiv> numbered_from 1 es"

lemma numbered_from_append [simp]:
  "numbered_from n (es @ fs) \<longleftrightarrow> numbered_from n es \<and> numbered_from (n + length es) fs"
  by (induction es arbitrary: n) simp_all

lemma numbered_last: "numbered es \<Longrightarrow> es \<noteq> [] \<Longrightarrow> se_seq (last es) = int (length es)"
  by (cases es rule: rev_cases) simp_all

text \<open>The file holds exactly the lines of these events.\<close>

definition lines_of :: "codec \<Rightarrow> session_event list \<Rightarrow> bytes" where
  "lines_of cd es = concat (map (\<lambda>e. the (event_line cd e)) es)"

definition loggable :: "codec \<Rightarrow> pystr \<Rightarrow> session_event \<Rightarrow> bool" where
  "loggable cd session e \<longleftrightarrow> good_event session e \<and> codec_law cd e \<and> event_line cd e \<noteq> None"

lemma loggableE:
  assumes "loggable cd session e"
  obtains b where "event_line cd e = Some (b @ [10])" "fst cd (JObj (event_to_dict e)) = Some b"
    "fst (snd cd) b = Some (JObj (event_to_dict e))" "10 \<notin> set b" "13 \<notin> set b" "\<not> blank_bytes b"
    "\<And>n. 0 < n \<Longrightarrow> n \<le> length b \<Longrightarrow> fst (snd cd) (drop n b) = None"
  using assms by (auto simp: loggable_def codec_law_def event_line_def)

lemma byte_lines_line: "10 \<notin> set l \<Longrightarrow> 13 \<notin> set l \<Longrightarrow> byte_lines (l @ 10 # s) = l # byte_lines s"
  by (induction l) simp_all

lemma byte_lines_lines_of:
  "list_all (loggable cd session) es \<Longrightarrow> byte_lines (lines_of cd es) = map (\<lambda>e. the (fst cd (JObj (event_to_dict e)))) es"
proof (induction es)
  case (Cons e es)
  then obtain b where b: "event_line cd e = Some (b @ [10])" "fst cd (JObj (event_to_dict e)) = Some b"
      "10 \<notin> set b" "13 \<notin> set b"
    by (auto elim: loggableE)
  have "byte_lines (b @ 10 # lines_of cd es) = b # byte_lines (lines_of cd es)"
    using b by (simp add: byte_lines_line)
  with b Cons show ?case
    by (simp add: lines_of_def)
qed (simp add: lines_of_def)

lemma parse_lines_of:
  assumes "list_all (loggable cd session) es" "strict \<Longrightarrow> numbered_from n es"
  shows "parse_lines (fst (snd cd)) repr session strict n (map (\<lambda>e. the (fst cd (JObj (event_to_dict e)))) es) = Inr es"
  using assms
proof (induction es arbitrary: n)
  case (Cons e es)
  then obtain b where "fst cd (JObj (event_to_dict e)) = Some b" "fst (snd cd) b = Some (JObj (event_to_dict e))"
      "\<not> blank_bytes b"
    by (auto elim: loggableE)
  moreover have "good_event session e" "strict \<Longrightarrow> se_seq e = int n"
    using Cons.prems by (auto simp: loggable_def)
  moreover have "parse_lines (fst (snd cd)) repr session strict (Suc n) (map (\<lambda>e. the (fst cd (JObj (event_to_dict e)))) es) = Inr es"
    using Cons.prems by (intro Cons.IH) auto
  ultimately show ?case
    by (simp add: event_roundtrip) (simp add: good_event_def)
qed simp

lemma parse_event_bytes_lines_of:
  assumes "list_all (loggable cd session) es" "strict \<Longrightarrow> numbered es"
  shows "parse_event_bytes (fst (snd cd)) repr session strict (lines_of cd es) = Inr es"
  using parse_lines_of[OF assms(1), of strict 1] assms
  by (simp add: parse_event_bytes_def byte_lines_lines_of)

lemma complete_part_tail: "10 \<notin> set t \<Longrightarrow> s = [] \<or> last s = 10 \<Longrightarrow> complete_part (s @ t) = s"
  by (cases s rule: rev_cases) (auto simp: complete_part_def dropWhile_append3 dropWhile_eq_Nil_conv dropWhile_append)

lemma lines_of_simps [simp]:
  "lines_of cd [] = []" "lines_of cd (es @ fs) = lines_of cd es @ lines_of cd fs"
  by (simp_all add: lines_of_def)

lemma last_lines_of:
  assumes "list_all (loggable cd session) es"
  shows "lines_of cd es = [] \<or> last (lines_of cd es) = 10" "lines_of cd es = [] \<longleftrightarrow> es = []"
  using assms by (cases es rule: rev_cases; auto simp: lines_of_def elim!: loggableE)+

section \<open>What the file holds\<close>

definition stored :: "codec \<Rightarrow> journal \<Rightarrow> session_event list \<Rightarrow> bool" where
  "stored cd j es \<longleftrightarrow>
     list_all (loggable cd (jn_session j)) es \<and> numbered es \<and> (\<exists>t. 10 \<notin> set t \<and> file_bytes j = lines_of cd es @ t)"

text \<open>The cached state agrees with the file whenever it is going to be used without reading the file again.\<close>

definition cache_current :: "codec \<Rightarrow> journal \<Rightarrow> session_event list \<Rightarrow> bool" where
  "cache_current cd j es \<longleftrightarrow>
     (jn_loaded j \<and> \<not> jn_tail_recovery j \<longrightarrow>
        file_bytes j = lines_of cd es \<and> jn_next_seq j = int (length es) + 1 \<and> jn_epoch j = latest_epoch es)"

lemma stored_complete_part:
  assumes "stored cd j es"
  shows "complete_part (file_bytes j) = lines_of cd es"
  using assms last_lines_of(1) complete_part_tail unfolding stored_def by metis

lemma stored_ends_line:
  assumes "stored cd j es" "file_bytes j = [] \<or> last (file_bytes j) = 10"
  shows "file_bytes j = lines_of cd es"
proof -
  from assms obtain t where t: "10 \<notin> set t" "file_bytes j = lines_of cd es @ t"
    by (auto simp: stored_def)
  with assms(2) have "t = []"
    by (cases t rule: rev_cases) auto
  with t show ?thesis by simp
qed

lemma stored_same_file:
  "stored cd j es \<Longrightarrow> jn_session j' = jn_session j \<Longrightarrow> file_bytes j' = file_bytes j \<Longrightarrow> stored cd j' es"
  by (simp add: stored_def)

lemma stored_lines:
  "stored cd j es \<Longrightarrow> jn_session j' = jn_session j \<Longrightarrow> file_bytes j' = lines_of cd es \<Longrightarrow> stored cd j' es"
  unfolding stored_def by (metis append_Nil2 empty_iff empty_set)

lemma read_event_bytes_stored:
  assumes st: "stored cd j es" and read: "read_event_bytes repair f j = (r, j')"
  shows "stored cd j' es" "jn_session j' = jn_session j" "jn_loaded j' = jn_loaded j"
    "jn_next_seq j' = jn_next_seq j" "jn_epoch j' = jn_epoch j"
    "r = Inr raw \<Longrightarrow> raw = lines_of cd es"
    "r = Inr raw \<Longrightarrow> \<not> jn_tail_recovery j' \<Longrightarrow> file_bytes j' = lines_of cd es"
    "r = Inr raw \<Longrightarrow> repair \<Longrightarrow> \<not> jn_tail_recovery j'"
    "r = Inl e \<Longrightarrow> file_bytes j = lines_of cd es \<Longrightarrow> j' = j"
    "\<not> read_fails f \<Longrightarrow> repair_fault f = None \<Longrightarrow> r = Inr (lines_of cd es)"
    "r = Inl e \<Longrightarrow> jn_tail_recovery j' = jn_tail_recovery j"
proof -
  note cp = stored_complete_part[OF st]
  note ends = stored_ends_line[OF st]
  have lines: "lines_of cd es = [] \<or> last (lines_of cd es) = 10"
    using st last_lines_of(1) unfolding stored_def by blast
  have sess: "jn_session j' = jn_session j"
    using read by (auto simp: read_event_bytes_def Let_def split: option.splits if_splits)
  have "file_bytes j' = file_bytes j \<or> file_bytes j' = lines_of cd es"
    using read cp by (auto simp: read_event_bytes_def file_bytes_def Let_def split: option.splits if_splits)
  then show "stored cd j' es"
    using stored_same_file[OF st sess] stored_lines[OF st sess] by blast
  show "jn_session j' = jn_session j" by (rule sess)
  show "jn_loaded j' = jn_loaded j" "jn_next_seq j' = jn_next_seq j" "jn_epoch j' = jn_epoch j"
    using read by (auto simp: read_event_bytes_def Let_def split: option.splits if_splits)
  show "raw = lines_of cd es" if "r = Inr raw"
    using read that cp ends by (auto simp: read_event_bytes_def file_bytes_def Let_def split: option.splits if_splits)
  show "file_bytes j' = lines_of cd es" if "r = Inr raw" "\<not> jn_tail_recovery j'"
    using read that cp ends by (auto simp: read_event_bytes_def file_bytes_def Let_def split: option.splits if_splits)
  show "\<not> jn_tail_recovery j'" if "r = Inr raw" "repair"
    using read that by (auto simp: read_event_bytes_def Let_def split: option.splits if_splits)
  show "j' = j" if "r = Inl e" "file_bytes j = lines_of cd es"
    using read that lines by (auto simp: read_event_bytes_def file_bytes_def Let_def split: option.splits if_splits)
  show "r = Inr (lines_of cd es)" if "\<not> read_fails f" "repair_fault f = None"
    using read that cp ends by (auto simp: read_event_bytes_def file_bytes_def Let_def split: option.splits if_splits)
  show "jn_tail_recovery j' = jn_tail_recovery j" if "r = Inl e"
    using read that by (auto simp: read_event_bytes_def Let_def split: option.splits if_splits)
qed

lemma read_events_locked_stored:
  assumes st: "stored cd j es" and read: "read_events_locked cd repair True f j = (r, j')"
  shows "stored cd j' es" "jn_session j' = jn_session j" "jn_loaded j' = jn_loaded j"
    "jn_next_seq j' = jn_next_seq j" "jn_epoch j' = jn_epoch j"
    "r = Inr fs \<Longrightarrow> fs = es"
    "r = Inr fs \<Longrightarrow> \<not> jn_tail_recovery j' \<Longrightarrow> file_bytes j' = lines_of cd es"
    "r = Inr fs \<Longrightarrow> repair \<Longrightarrow> \<not> jn_tail_recovery j'"
    "r = Inl e \<Longrightarrow> file_bytes j = lines_of cd es \<Longrightarrow> j' = j"
    "\<not> read_fails f \<Longrightarrow> repair_fault f = None \<Longrightarrow> r = Inr es"
    "r = Inl e \<Longrightarrow> jn_tail_recovery j' = jn_tail_recovery j"
proof -
  obtain rb jb where rb: "read_event_bytes repair f j = (rb, jb)"
    by fastforce
  note bytes = read_event_bytes_stored[OF st rb]
  have parse: "parse_event_bytes (fst (snd cd)) (snd (snd cd)) (jn_session j) True (lines_of cd es) = Inr es"
    using st by (intro parse_event_bytes_lines_of) (auto simp: stored_def)
  have res: "jb = j' \<and> (case rb of Inl e \<Rightarrow> r = Inl e | Inr _ \<Rightarrow> r = Inr es)"
    using read rb bytes(6) parse by (auto simp: read_events_locked_def split: sum.splits)
  show "stored cd j' es" "jn_session j' = jn_session j" "jn_loaded j' = jn_loaded j"
    "jn_next_seq j' = jn_next_seq j" "jn_epoch j' = jn_epoch j"
    using bytes(1-5) res by simp_all
  show "r = Inr fs \<Longrightarrow> fs = es" "r = Inr fs \<Longrightarrow> \<not> jn_tail_recovery j' \<Longrightarrow> file_bytes j' = lines_of cd es"
    "r = Inr fs \<Longrightarrow> repair \<Longrightarrow> \<not> jn_tail_recovery j'"
    "r = Inl e \<Longrightarrow> file_bytes j = lines_of cd es \<Longrightarrow> j' = j"
    "\<not> read_fails f \<Longrightarrow> repair_fault f = None \<Longrightarrow> r = Inr es"
    "r = Inl e \<Longrightarrow> jn_tail_recovery j' = jn_tail_recovery j"
    using bytes(7-11) res by (auto split: sum.splits)
qed

lemma set_state_simps [simp]:
  "file_bytes (set_state_from_events es j) = file_bytes j"
  "jn_session (set_state_from_events es j) = jn_session j"
  "jn_tail_recovery (set_state_from_events es j) = jn_tail_recovery j"
  "jn_epoch (set_state_from_events es j) = latest_epoch es"
  by (simp_all add: set_state_from_events_def file_bytes_def)

lemma set_state_next_seq: "numbered es \<Longrightarrow> jn_next_seq (set_state_from_events es j) = int (length es) + 1"
  by (simp add: set_state_from_events_def numbered_last)

text \<open>A loaded state that agrees with the file.\<close>

definition in_step :: "codec \<Rightarrow> journal \<Rightarrow> session_event list \<Rightarrow> bool" where
  "in_step cd j es \<longleftrightarrow>
     file_bytes j = lines_of cd es \<and> jn_next_seq j = int (length es) + 1 \<and> jn_epoch j = latest_epoch es"

lemma set_state_in_step:
  assumes "stored cd j es" "file_bytes j = lines_of cd es"
  shows "in_step cd (set_state_from_events es j) es"
  using assms by (simp add: in_step_def set_state_next_seq stored_def)

lemma ensure_loaded_stored:
  assumes st: "stored cd j es" and lk: "lk \<noteq> BusyLock" and load: "ensure_loaded cd lk f j = (r, j')"
  shows "stored cd j' es" "jn_session j' = jn_session j" "cache_current cd j es \<Longrightarrow> cache_current cd j' es"
    "r = Inr u \<Longrightarrow> cache_current cd j es \<Longrightarrow> in_step cd j' es"
proof -
  have "stored cd j' es \<and> jn_session j' = jn_session j \<and> (cache_current cd j es \<longrightarrow> cache_current cd j' es) \<and>
        (r = Inr u \<longrightarrow> cache_current cd j es \<longrightarrow> in_step cd j' es)" (is ?claim)
  proof (cases "jn_loaded j \<and> \<not> jn_tail_recovery j")
    case True
    with load st show ?claim
      by (auto simp: ensure_loaded_def cache_current_def in_step_def)
  next
    case nl: False
    obtain r1 j1 where r1: "read_events_locked cd True True f j = (r1, j1)"
      by fastforce
    note rd = read_events_locked_stored[OF st r1]
    show ?claim
    proof (cases r1)
      case (Inl e)
      with load nl lk r1 have "j' = j1" "r = Inl e"
        by (auto simp: ensure_loaded_def read_events_with_recovery_def split: if_splits)
      moreover have "\<not> (jn_loaded j1 \<and> \<not> jn_tail_recovery j1)"
        using nl Inl rd(3,11) by simp
      ultimately show ?claim
        using rd(1,2) by (auto simp: cache_current_def)
    next
      case (Inr fs)
      with load nl lk r1 have j': "j' = set_state_from_events es j1" "r = Inr ()"
        using rd(6) by (auto simp: ensure_loaded_def read_events_with_recovery_def split: if_splits)
      have "file_bytes j1 = lines_of cd es"
        using rd(7,8) Inr by simp
      with j' have "in_step cd j' es" "stored cd j' es"
        using set_state_in_step[OF rd(1)] stored_same_file[OF rd(1)] by simp_all
      with j' rd(2) show ?claim
        by (simp add: cache_current_def in_step_def)
    qed
  qed
  then show "stored cd j' es" "jn_session j' = jn_session j" "cache_current cd j es \<Longrightarrow> cache_current cd j' es"
    "r = Inr u \<Longrightarrow> cache_current cd j es \<Longrightarrow> in_step cd j' es"
    by blast+
qed

text \<open>The last line of a file, in the window read from its end.\<close>

lemma split_on_last_line:
  assumes "c \<notin> set b" "x = [] \<or> last x = c"
  shows "split_on c (x @ b @ [c]) ! (length (split_on c (x @ b @ [c])) - 2) = b"
    and "length (split_on c (x @ b @ [c])) \<ge> 2"
proof -
  have split: "split_on c (x @ b @ [c]) = butlast (split_on c x) @ [b, []]"
  proof (cases x rule: rev_cases)
    case Nil
    with assms show ?thesis
      using split_on_append[of c b "[]"] by simp
  next
    case (snoc y z)
    with assms have x: "x = y @ [c]" by simp
    have "split_on c (y @ c # t) = split_on c y @ split_on c t" for t
    proof (induction y)
      case (Cons a y)
      then show ?case
        by (cases "split_on c y") (auto simp: Cons_eq_append_conv split: list.splits)
    qed simp
    from this[of "b @ [c]"] this[of "[]"] show ?thesis
      using split_on_append[OF assms(1), of "[]"] by (simp add: x)
  qed
  show "split_on c (x @ b @ [c]) ! (length (split_on c (x @ b @ [c])) - 2) = b"
    "length (split_on c (x @ b @ [c])) \<ge> 2"
    unfolding split using split_on_neq_Nil[of c x] by (auto simp: nth_append Suc_le_eq)
qed

lemma last_drop_lines:
  assumes "list_all (loggable cd session) es"
  shows "drop n (lines_of cd es) = [] \<or> last (drop n (lines_of cd es)) = 10"
  using last_lines_of(1)[OF assms] by (cases "n < length (lines_of cd es)") auto

lemma read_tail_seq_stored:
  assumes st: "stored cd j es" and tail: "read_tail_seq cd f j = Some seq"
  shows "file_bytes j = lines_of cd es" "seq = int (length es)"
proof -
  obtain raw where raw: "jn_file j = Some raw" "raw \<noteq> []"
    using tail by (auto simp: read_tail_seq_def split: option.splits if_splits)
  define chunk where "chunk = drop (length raw - tail_window) raw"
  have win: "chunk \<noteq> []"
    using raw(2) by (cases raw) (simp_all add: chunk_def tail_window_def)
  have chunk: "last chunk = 10"
    using tail raw by (simp add: read_tail_seq_def chunk_def[symmetric] Let_def split: if_splits)
  then have "last raw = 10"
    using win last_drop[of "length raw - tail_window" raw] by (simp add: chunk_def)
  then show fb: "file_bytes j = lines_of cd es"
    using stored_ends_line[OF st] raw by (simp add: file_bytes_def)
  then obtain fs e where es: "es = fs @ [e]"
    using raw by (cases es rule: rev_cases) (simp_all add: file_bytes_def)
  obtain b where b: "event_line cd e = Some (b @ [10])" "fst (snd cd) b = Some (JObj (event_to_dict e))" "10 \<notin> set b"
      "\<not> blank_bytes b" "\<And>n. 0 < n \<Longrightarrow> n \<le> length b \<Longrightarrow> fst (snd cd) (drop n b) = None"
    using st es by (auto simp: stored_def elim: loggableE)
  have rawb: "raw = lines_of cd fs @ b @ [10]"
    using fb raw es b by (simp add: file_bytes_def lines_of_def)
  have fsl: "list_all (loggable cd (jn_session j)) fs"
    using st es by (simp add: stored_def)
  have "event_line cd e = Some (b @ [10])" "se_seq e = int (length es)" "se_version e = 2"
    using b st es by (auto simp: stored_def loggable_def good_event_def)
  define m where "m = length raw - tail_window"
  have chunk_m: "chunk = drop m raw"
    by (simp add: chunk_def m_def)
  show "seq = int (length es)"
  proof (cases "m \<le> length (lines_of cd fs)")
    case True
    then have "chunk = drop m (lines_of cd fs) @ b @ [10]"
      by (simp add: chunk_m rawb)
    with tail raw b(1-4) show ?thesis
      using split_on_last_line[OF b(3) last_drop_lines[OF fsl]] \<open>se_seq e = int (length es)\<close> \<open>se_version e = 2\<close>
      by (simp add: read_tail_seq_def chunk_def[symmetric] event_dict_get split: if_splits)
  next
    case False
    define n where "n = m - length (lines_of cd fs)"
    have n: "0 < n" using False by (simp add: n_def)
    have "chunk = drop n (b @ [10])"
      using False by (simp add: chunk_m rawb n_def)
    moreover have "n \<le> length b"
      using calculation win by (cases "n \<le> length b") auto
    ultimately have "chunk = drop n b @ [10]"
      by simp
    moreover have nb: "10 \<notin> set (drop n b)"
      using b(3) in_set_dropD[of 10 n b] by blast
    ultimately show ?thesis
      using tail raw b(5)[OF n \<open>n \<le> length b\<close>] split_on_last_line[OF nb, of "[]"]
      by (simp add: read_tail_seq_def chunk_def[symmetric] Let_def split: if_splits)
  qed
qed

lemma resync_stored:
  assumes st: "stored cd j es" and resync: "resync_seq_from_tail cd f j = (r, j')"
  shows "stored cd j' es" "jn_session j' = jn_session j" "cache_current cd j es \<Longrightarrow> cache_current cd j' es"
    "r = Inr u \<Longrightarrow> file_bytes j' = lines_of cd es \<and> jn_next_seq j' = int (length es) + 1"
    "r = Inr u \<Longrightarrow> in_step cd j es \<Longrightarrow> in_step cd j' es"
proof -
  have "stored cd j' es \<and> jn_session j' = jn_session j \<and> (cache_current cd j es \<longrightarrow> cache_current cd j' es) \<and>
        (r = Inr u \<longrightarrow> file_bytes j' = lines_of cd es \<and> jn_next_seq j' = int (length es) + 1) \<and>
        (r = Inr u \<longrightarrow> in_step cd j es \<longrightarrow> in_step cd j' es)" (is ?claim)
  proof (cases "read_tail_seq cd f j")
    case (Some seq)
    with resync have r: "r = Inr ()" "j' = (if seq + 1 \<noteq> jn_next_seq j then j\<lparr>jn_next_seq := seq + 1\<rparr> else j)"
      by (simp_all add: resync_seq_from_tail_def split: if_splits)
    note tail = read_tail_seq_stored[OF st Some]
    have "file_bytes j' = file_bytes j" "jn_session j' = jn_session j" "jn_next_seq j' = seq + 1" "jn_epoch j' = jn_epoch j"
      "jn_loaded j' = jn_loaded j" "jn_tail_recovery j' = jn_tail_recovery j"
      by (simp_all add: r(2) file_bytes_def)
    with tail stored_same_file[OF st] r show ?claim
      by (simp add: cache_current_def in_step_def)
  next
    case None
    obtain r1 j1 where r1: "read_events_locked cd True True f j = (r1, j1)"
      by fastforce
    note rd = read_events_locked_stored[OF st r1]
    show ?claim
    proof (cases r1)
      case (Inl e)
      with None resync r1 have r: "j' = j1" "r = Inl e"
        by (simp_all add: resync_seq_from_tail_def)
      have "cache_current cd j1 es" if cc: "cache_current cd j es"
      proof (cases "jn_loaded j \<and> \<not> jn_tail_recovery j")
        case True
        then show ?thesis using cc rd(9)[OF Inl] by (simp add: cache_current_def)
      next
        case False
        then show ?thesis using rd(3) rd(11)[OF Inl] by (auto simp: cache_current_def)
      qed
      with r rd(1,2) show ?claim by simp
    next
      case (Inr fs)
      with None resync r1 have r: "j' = set_state_from_events es j1" "r = Inr ()"
        using rd(6) by (simp_all add: resync_seq_from_tail_def)
      have "file_bytes j1 = lines_of cd es"
        using rd(7,8) Inr by simp
      with r have "in_step cd j' es" "stored cd j' es"
        using set_state_in_step[OF rd(1)] stored_same_file[OF rd(1)] by simp_all
      with r rd(2) show ?claim
        by (simp add: cache_current_def in_step_def)
    qed
  qed
  then show "stored cd j' es" "jn_session j' = jn_session j" "cache_current cd j es \<Longrightarrow> cache_current cd j' es"
    "r = Inr u \<Longrightarrow> file_bytes j' = lines_of cd es \<and> jn_next_seq j' = int (length es) + 1"
    "r = Inr u \<Longrightarrow> in_step cd j es \<Longrightarrow> in_step cd j' es"
    by blast+
qed

section \<open>Appending is atomic\<close>

text \<open>What the callers of the journal provide.\<close>

definition good_draft :: "identity \<Rightarrow> draft \<Rightarrow> bool" where
  "good_draft ident d \<longleftrightarrow>
     fst ident \<noteq> [] \<and> snd ident \<noteq> [] \<and> dr_type d \<noteq> [] \<and> dr_actor d \<noteq> [] \<and> list_all is_object (dr_artifacts d) \<and>
     st_agent_id (dr_agent d) \<noteq> [] \<and> st_agent_name (dr_agent d) \<noteq> [] \<and> st_parent_agent (dr_agent d) \<noteq> Some [] \<and>
     st_parent_call (dr_agent d) \<noteq> Some [] \<and> st_depth (dr_agent d) \<ge> 0"

lemma make_event_good:
  assumes "good_draft ident d" "jn_session j \<noteq> []" "epoch \<noteq> []" "jn_next_seq j \<ge> 1"
  shows "good_event (jn_session j) (make_event ident epoch d j)"
  using assms by (simp add: good_draft_def good_event_def make_event_def)

lemma latest_epoch_snoc:
  "latest_epoch (es @ [e]) = (if se_type e = lit ''context.epoch_started'' then Some (se_epoch e) else latest_epoch es)"
  by (simp add: latest_epoch_def)

lemma write_event_stored:
  assumes st: "stored cd j es" and fb: "file_bytes j = lines_of cd es"
    and e: "good_event (jn_session j) e" "codec_law cd e" "se_seq e = int (length es) + 1"
    and wr: "write_event cd f e j = (r, j')"
  shows "jn_session j' = jn_session j" "jn_next_seq j' = jn_next_seq j" "jn_epoch j' = jn_epoch j"
    "r = Inr u \<Longrightarrow> stored cd j' (es @ [e]) \<and> file_bytes j' = lines_of cd (es @ [e])"
    "r = Inl x \<Longrightarrow> stored cd j' es \<or> stored cd j' (es @ [e])"
proof -
  show same: "jn_session j' = jn_session j" "jn_next_seq j' = jn_next_seq j" "jn_epoch j' = jn_epoch j"
    using wr by (auto simp: write_event_def split: option.splits)
  have whole: "stored cd j' (es @ [e])" if "event_line cd e = Some l" "file_bytes j' = lines_of cd es @ l" for l
    using that st e same unfolding stored_def by (auto simp: loggable_def lines_of_def)
  show "stored cd j' (es @ [e]) \<and> file_bytes j' = lines_of cd (es @ [e])" if "r = Inr u"
  proof -
    from wr that obtain l where l: "event_line cd e = Some l" "file_bytes j' = lines_of cd es @ l"
      by (auto simp: write_event_def fb file_bytes_def[of "j\<lparr>jn_file := _\<rparr>"] split: option.splits)
    with whole[OF l] show ?thesis by (simp add: lines_of_def)
  qed
  show "stored cd j' es \<or> stored cd j' (es @ [e])" if "r = Inl x"
  proof (cases "event_line cd e")
    case None
    with wr that st show ?thesis by (simp add: write_event_def)
  next
    case (Some l)
    then obtain b where b: "l = b @ [10]" "10 \<notin> set b"
      using e(2) by (auto simp: event_line_def codec_law_def)
    from wr that Some obtain k where k: "file_bytes j' = lines_of cd es @ take k l"
      by (auto simp: write_event_def fb file_bytes_def[of "j\<lparr>jn_file := _\<rparr>"] split: option.splits)
    show ?thesis
    proof (cases "k \<le> length b")
      case True
      then have "10 \<notin> set (take k l)" using b in_set_takeD[of 10 k b] by auto
      with k st same have "stored cd j' es" unfolding stored_def by metis
      then show ?thesis ..
    next
      case False
      then have "take k l = l" using b by simp
      with whole[OF Some] k show ?thesis by simp
    qed
  qed
qed


definition next_event :: "identity \<Rightarrow> pystr \<Rightarrow> draft \<Rightarrow> pystr \<Rightarrow> session_event list \<Rightarrow> session_event" where
  "next_event ident epoch d session es =
     make_event ident epoch d
       \<lparr>jn_session = session, jn_root = dr_agent d, jn_file = None, jn_loaded = False, jn_tail_recovery = False,
        jn_next_seq = int (length es) + 1, jn_epoch = None\<rparr>"

lemma make_event_next:
  "jn_next_seq j = int (length es) + 1 \<Longrightarrow> make_event ident epoch d j = next_event ident epoch d (jn_session j) es"
  by (simp add: make_event_def next_event_def)

text \<open>The epoch of a new event: the one asked for, or else the current one.\<close>

definition epoch_of :: "draft \<Rightarrow> pystr option \<Rightarrow> pystr \<Rightarrow> bool" where
  "epoch_of d current ep \<longleftrightarrow>
     (case dr_epoch d of Some x \<Rightarrow> if x \<noteq> [] then ep = x else current = Some ep | None \<Rightarrow> current = Some ep)"

lemma next_event_good:
  "good_draft ident d \<Longrightarrow> session \<noteq> [] \<Longrightarrow> epoch \<noteq> [] \<Longrightarrow> good_event session (next_event ident epoch d session es)"
  by (simp add: good_draft_def good_event_def next_event_def make_event_def)

lemma commit_event_stored:
  assumes st: "stored cd j es" and fb: "file_bytes j = lines_of cd es" "jn_next_seq j = int (length es) + 1"
    and good: "good_draft ident d" "jn_session j \<noteq> []" and law: "\<And>e. codec_law cd e"
    and commit: "commit_event cd f ident d j = (r, j')"
  shows "jn_session j' = jn_session j"
    "r = Inr e \<Longrightarrow> stored cd j' (es @ [e]) \<and> (\<exists>ep. e = next_event ident ep d (jn_session j) es \<and> epoch_of d (jn_epoch j) ep)"
    "r = Inl x \<Longrightarrow> stored cd j' es \<or> (\<exists>ep. stored cd j' (es @ [next_event ident ep d (jn_session j) es]) \<and> epoch_of d (jn_epoch j) ep)"
    "in_step cd j es \<Longrightarrow> r = Inr e \<Longrightarrow> in_step cd j' (es @ [e])"
    "r = Inl x \<Longrightarrow> j' = j \<or> \<not> jn_loaded j'"
proof -
  define ep where "ep = (case dr_epoch d of Some ep \<Rightarrow> if ep \<noteq> [] then Some ep else jn_epoch j | None \<Rightarrow> jn_epoch j)"
  have "jn_session j' = jn_session j \<and>
    (r = Inr e \<longrightarrow> stored cd j' (es @ [e]) \<and> (\<exists>ep. e = next_event ident ep d (jn_session j) es \<and> epoch_of d (jn_epoch j) ep)) \<and>
    (r = Inl x \<longrightarrow> stored cd j' es \<or> (\<exists>ep. stored cd j' (es @ [next_event ident ep d (jn_session j) es]) \<and> epoch_of d (jn_epoch j) ep)) \<and>
    (in_step cd j es \<longrightarrow> r = Inr e \<longrightarrow> in_step cd j' (es @ [e])) \<and> (r = Inl x \<longrightarrow> j' = j \<or> \<not> jn_loaded j')" (is ?claim)
  proof (cases "ep = None \<or> ep = Some []")
    case True
    with commit st show ?claim
      by (auto simp: commit_event_def ep_def[symmetric])
  next
    case False
    then obtain epoch where epoch: "ep = Some epoch" "epoch \<noteq> []" by auto
    have eo: "epoch_of d (jn_epoch j) epoch"
      using epoch by (auto simp: ep_def epoch_of_def split: option.splits if_splits)
    define ev where "ev = next_event ident epoch d (jn_session j) es"
    have ev: "make_event ident epoch d j = ev" "good_event (jn_session j) ev" "se_seq ev = int (length es) + 1"
      "se_type ev = dr_type d" "se_epoch ev = epoch"
      using fb(2) next_event_good[OF good epoch(2)]
      by (simp_all add: ev_def make_event_next) (simp_all add: next_event_def make_event_def)
    obtain rw jw where wr: "write_event cd f ev j = (rw, jw)" by fastforce
    note w = write_event_stored[OF st fb(1) ev(2) law ev(3) wr]
    show ?claim
    proof (cases rw)
      case (Inl y)
      with commit epoch ev(1) wr have "r = Inl y" "j' = jw\<lparr>jn_loaded := False\<rparr>"
        by (simp_all add: commit_event_def ep_def[symmetric])
      with w(1) w(5)[OF Inl] stored_same_file[of cd jw _ j'] show ?claim
        using eo by (auto simp: ev_def file_bytes_def)
    next
      case (Inr u)
      with commit epoch ev(1) wr have r: "r = Inr ev"
        "j' = jw\<lparr>jn_next_seq := jn_next_seq jw + 1,
                 jn_epoch := (if dr_type d = lit ''context.epoch_started'' then Some epoch else jn_epoch jw)\<rparr>"
        by (simp_all add: commit_event_def ep_def[symmetric])
      have j': "jn_session j' = jn_session jw" "file_bytes j' = file_bytes jw"
        by (simp_all add: r(2) file_bytes_def)
      have "stored cd j' (es @ [ev])"
        using w(4)[OF Inr] stored_same_file[OF _ j'] by blast
      moreover have "in_step cd j' (es @ [ev])" if "in_step cd j es"
        using that w(2,3) w(4)[OF Inr] j'(2) ev(4,5) by (simp add: in_step_def r(2) latest_epoch_snoc)
      ultimately show ?claim
        using r w(1) j' eo by (auto simp: ev_def)
    qed
  qed
  then show "jn_session j' = jn_session j"
    "r = Inr e \<Longrightarrow> stored cd j' (es @ [e]) \<and> (\<exists>ep. e = next_event ident ep d (jn_session j) es \<and> epoch_of d (jn_epoch j) ep)"
    "r = Inl x \<Longrightarrow> stored cd j' es \<or> (\<exists>ep. stored cd j' (es @ [next_event ident ep d (jn_session j) es]) \<and> epoch_of d (jn_epoch j) ep)"
    "in_step cd j es \<Longrightarrow> r = Inr e \<Longrightarrow> in_step cd j' (es @ [e])"
    "r = Inl x \<Longrightarrow> j' = j \<or> \<not> jn_loaded j'"
    by blast+
qed

lemma append_locked_stored:
  assumes st: "stored cd j es" and lk: "lk \<noteq> BusyLock" and cur: "cache_current cd j es \<or> (resync \<and> lk \<noteq> NoLock)"
    and good: "good_draft ident d" "jn_session j \<noteq> []" and law: "\<And>e. codec_law cd e"
    and app: "append_locked cd lk resync f ident d j = (r, j')"
  shows "jn_session j' = jn_session j"
    "r = Inr e \<Longrightarrow> stored cd j' (es @ [e]) \<and> (\<exists>ep. e = next_event ident ep d (jn_session j) es \<and> (cache_current cd j es \<longrightarrow> epoch_of d (latest_epoch es) ep))"
    "r = Inl x \<Longrightarrow> stored cd j' es \<or> (\<exists>ep. stored cd j' (es @ [next_event ident ep d (jn_session j) es]) \<and> (cache_current cd j es \<longrightarrow> epoch_of d (latest_epoch es) ep))"
    "r = Inr e \<Longrightarrow> cache_current cd j es \<Longrightarrow> cache_current cd j' (es @ [e])"
    "r = Inl x \<Longrightarrow> cache_current cd j es \<Longrightarrow> stored cd j' es \<and> cache_current cd j' es \<or> \<not> jn_loaded j'"
proof -
  have "jn_session j' = jn_session j \<and>
    (r = Inr e \<longrightarrow> stored cd j' (es @ [e]) \<and> (\<exists>ep. e = next_event ident ep d (jn_session j) es \<and> (cache_current cd j es \<longrightarrow> epoch_of d (latest_epoch es) ep))) \<and>
    (r = Inl x \<longrightarrow> stored cd j' es \<or> (\<exists>ep. stored cd j' (es @ [next_event ident ep d (jn_session j) es]) \<and> (cache_current cd j es \<longrightarrow> epoch_of d (latest_epoch es) ep))) \<and>
    (r = Inr e \<longrightarrow> cache_current cd j es \<longrightarrow> cache_current cd j' (es @ [e])) \<and>
    (r = Inl x \<longrightarrow> cache_current cd j es \<longrightarrow> stored cd j' es \<and> cache_current cd j' es \<or> \<not> jn_loaded j')" (is ?claim)
  proof -
    obtain r1 j1 where l: "ensure_loaded cd lk f j = (r1, j1)" by fastforce
    note ld = ensure_loaded_stored[OF st lk l]
    show ?claim
    proof (cases r1)
      case (Inl y)
      with app l ld show ?claim by (auto simp: append_locked_def)
    next
      case r1: (Inr u1)
      obtain r2 j2 where s: "(if resync \<and> lk \<noteq> NoLock then resync_seq_from_tail cd f j1 else (Inr (), j1)) = (r2, j2)"
        by fastforce
      have sync: "stored cd j2 es" "jn_session j2 = jn_session j1" "cache_current cd j1 es \<Longrightarrow> cache_current cd j2 es"
        "r2 = Inr () \<Longrightarrow> file_bytes j2 = lines_of cd es \<and> jn_next_seq j2 = int (length es) + 1"
        "r2 = Inr () \<Longrightarrow> in_step cd j1 es \<Longrightarrow> in_step cd j2 es"
        using s ld(1) ld(4)[OF r1] cur resync_stored[OF ld(1)]
        by (auto simp: in_step_def split: if_splits)
      show ?claim
      proof (cases r2)
        case (Inl y)
        with app l r1 s have "r = Inl y" "j' = j2"
          by (simp_all add: append_locked_def)
        with sync(1-3) ld(2,3) show ?claim by auto
      next
        case r2: (Inr u2)
        with app l r1 s have com: "commit_event cd f ident d j2 = (r, j')"
          by (simp add: append_locked_def)
        have r2': "r2 = Inr ()" using r2 by simp
        have sess: "jn_session j2 = jn_session j" using sync(2) ld(2) by simp
        note c = commit_event_stored[OF sync(1) conjunct1[OF sync(4)[OF r2']] conjunct2[OF sync(4)[OF r2']] good(1) _ law com, unfolded sess, OF good(2)]
        have "cache_current cd j' (es @ [e])" if "r = Inr e" "cache_current cd j es"
          using c(4)[OF sync(5)[OF r2' ld(4)[OF r1 that(2)]] that(1)] by (simp add: cache_current_def in_step_def)
        moreover have "stored cd j' es \<and> cache_current cd j' es \<or> \<not> jn_loaded j'" if "r = Inl x" "cache_current cd j es"
          using c(5)[OF that(1)] sync(1) sync(3)[OF ld(3)[OF that(2)]] by auto
        moreover have "epoch_of d (jn_epoch j2) ep \<longrightarrow> cache_current cd j es \<longrightarrow> epoch_of d (latest_epoch es) ep" for ep
          using sync(5)[OF r2' ld(4)[OF r1]] by (auto simp: in_step_def)
        ultimately show ?claim
          using c(1-3) by blast
      qed
    qed
  qed
  then show "jn_session j' = jn_session j"
    "r = Inr e \<Longrightarrow> stored cd j' (es @ [e]) \<and> (\<exists>ep. e = next_event ident ep d (jn_session j) es \<and> (cache_current cd j es \<longrightarrow> epoch_of d (latest_epoch es) ep))"
    "r = Inl x \<Longrightarrow> stored cd j' es \<or> (\<exists>ep. stored cd j' (es @ [next_event ident ep d (jn_session j) es]) \<and> (cache_current cd j es \<longrightarrow> epoch_of d (latest_epoch es) ep))"
    "r = Inr e \<Longrightarrow> cache_current cd j es \<Longrightarrow> cache_current cd j' (es @ [e])"
    "r = Inl x \<Longrightarrow> cache_current cd j es \<Longrightarrow> stored cd j' es \<and> cache_current cd j' es \<or> \<not> jn_loaded j'"
    by blast+
qed

definition journal_ok :: "codec \<Rightarrow> journal \<Rightarrow> session_event list \<Rightarrow> bool" where
  "journal_ok cd j es \<longleftrightarrow> jn_session j \<noteq> [] \<and> stored cd j es \<and> cache_current cd j es"

lemma journal_append_stored:
  assumes "stored cd j es" "cache_current cd j es \<or> lk = FreeLock" "good_draft ident d" "jn_session j \<noteq> []"
    and law: "\<And>e. codec_law cd e" and app: "journal_append cd lk f ident d j = (r, j')"
  shows "jn_session j' = jn_session j"
    "r = Inr e \<Longrightarrow> stored cd j' (es @ [e]) \<and> (\<exists>ep. e = next_event ident ep d (jn_session j) es \<and> (cache_current cd j es \<longrightarrow> epoch_of d (latest_epoch es) ep))"
    "r = Inl x \<Longrightarrow> stored cd j' es \<or> (\<exists>ep. stored cd j' (es @ [next_event ident ep d (jn_session j) es]) \<and> (cache_current cd j es \<longrightarrow> epoch_of d (latest_epoch es) ep))"
    "r = Inr e \<Longrightarrow> cache_current cd j es \<Longrightarrow> cache_current cd j' (es @ [e])"
    "r = Inl x \<Longrightarrow> cache_current cd j es \<Longrightarrow> stored cd j' es \<and> cache_current cd j' es \<or> \<not> jn_loaded j'"
proof -
  have busy: "r = Inl LogLocked" "j' = j" if "lk = BusyLock"
    using app that by (simp_all add: journal_append_def)
  have al: "append_locked cd lk (lk \<noteq> OwnedLock) f ident d j = (r, j')" if "lk \<noteq> BusyLock"
    using app that by (cases lk) (simp_all add: journal_append_def)
  have cur: "cache_current cd j es \<or> (lk \<noteq> OwnedLock \<and> lk \<noteq> NoLock)"
    using assms(2) by auto
  note a = append_locked_stored[OF assms(1) _ cur assms(3,4) law al]
  show "jn_session j' = jn_session j"
    using busy a(1) by (cases "lk = BusyLock") simp_all
  show "stored cd j' (es @ [e]) \<and> (\<exists>ep. e = next_event ident ep d (jn_session j) es \<and> (cache_current cd j es \<longrightarrow> epoch_of d (latest_epoch es) ep))" if "r = Inr e"
    using busy a(2) that by (cases "lk = BusyLock") simp_all
  show "stored cd j' es \<or> (\<exists>ep. stored cd j' (es @ [next_event ident ep d (jn_session j) es]) \<and> (cache_current cd j es \<longrightarrow> epoch_of d (latest_epoch es) ep))" if "r = Inl x"
    using busy a(3) that assms(1) by (cases "lk = BusyLock") simp_all
  show "cache_current cd j' (es @ [e])" if "r = Inr e" "cache_current cd j es"
    using busy a(4) that by (cases "lk = BusyLock") simp_all
  show "stored cd j' es \<and> cache_current cd j' es \<or> \<not> jn_loaded j'" if "r = Inl x" "cache_current cd j es"
    using busy a(5) that assms(1) by (cases "lk = BusyLock") simp_all
qed

lemma append_ok:
  assumes "journal_ok cd j es" "good_draft ident d" "\<And>e. codec_law cd e" "journal_append cd lk f ident d j = (r, j')"
  shows "case r of
           Inr e \<Rightarrow> journal_ok cd j' (es @ [e]) \<and> (\<exists>ep. e = next_event ident ep d (jn_session j) es \<and> epoch_of d (latest_epoch es) ep)
         | Inl _ \<Rightarrow> journal_ok cd j' es \<or> (\<exists>ep. journal_ok cd j' (es @ [next_event ident ep d (jn_session j) es]) \<and> epoch_of d (latest_epoch es) ep)"
proof -
  note a = journal_append_stored[OF _ _ assms(2) _ assms(3,4), of es]
  show ?thesis
  proof (cases r)
    case (Inr e)
    with a(1,2,4) assms(1) show ?thesis by (simp add: journal_ok_def)
  next
    case (Inl x)
    have "\<not> jn_loaded j' \<Longrightarrow> cache_current cd j' fs" for fs
      by (simp add: cache_current_def)
    with a(1,3,5) Inl assms(1) show ?thesis
      by (auto simp: journal_ok_def)
  qed
qed

section \<open>Reading\<close>

lemma read_events_ok:
  assumes ok: "journal_ok cd j es" and read: "read_events cd lk repair f j = (r, j')"
  shows "journal_ok cd j' es" "r = Inr fs \<Longrightarrow> fs = es" "\<not> read_fails f \<Longrightarrow> repair_fault f = None \<Longrightarrow> r = Inr es"
    "r = Inr fs \<Longrightarrow> repair \<Longrightarrow> lk \<noteq> BusyLock \<Longrightarrow> in_step cd j' es"
proof -
  define rp where "rp = (repair \<and> lk \<noteq> BusyLock)"
  obtain r1 j1 where r1: "read_events_locked cd rp True f j = (r1, j1)" by fastforce
  have st: "stored cd j es" "jn_session j \<noteq> []" "cache_current cd j es"
    using ok by (simp_all add: journal_ok_def)
  note rd = read_events_locked_stored[OF st(1) r1]
  have res: "(case r1 of Inl e \<Rightarrow> r = Inl e \<and> j' = j1 | Inr _ \<Rightarrow> r = Inr es \<and> j' = set_state_from_events es j1)"
  proof -
    have "read_events_with_recovery cd lk repair f j = (r1, j1)"
      using r1 by (cases lk; cases repair) (simp_all add: read_events_with_recovery_def rp_def)
    note eq = this
    show ?thesis
    proof (cases r1)
      case (Inl e)
      with read[symmetric] eq show ?thesis by (simp add: read_events_def)
    next
      case (Inr gs)
      with read[symmetric] eq rd(6)[OF Inr] show ?thesis by (simp add: read_events_def)
    qed
  qed
  show "r = Inr fs \<Longrightarrow> fs = es" "\<not> read_fails f \<Longrightarrow> repair_fault f = None \<Longrightarrow> r = Inr es"
    using res rd(10) by (auto split: sum.splits)
  show "in_step cd j' es" if "r = Inr fs" "repair" "lk \<noteq> BusyLock"
  proof (cases r1)
    case (Inr gs)
    with that rd(7,8) have "file_bytes j1 = lines_of cd es" by (simp add: rp_def)
    with Inr res set_state_in_step[OF rd(1)] show ?thesis by simp
  qed (use that(1) res in simp)
  show "journal_ok cd j' es"
  proof (cases r1)
    case (Inl e)
    have "cache_current cd j1 es"
    proof (cases "jn_loaded j \<and> \<not> jn_tail_recovery j")
      case True
      then show ?thesis using st(3) rd(9)[OF Inl] by (simp add: cache_current_def)
    next
      case False
      then show ?thesis using rd(3) rd(11)[OF Inl] by (auto simp: cache_current_def)
    qed
    with Inl res rd(1,2) st show ?thesis by (simp add: journal_ok_def)
  next
    case (Inr gs)
    then have j': "j' = set_state_from_events es j1" using res by simp
    have "stored cd j' es" using stored_same_file[OF rd(1)] by (simp add: j')
    moreover have "cache_current cd j' es"
      using set_state_in_step[OF rd(1)] rd(7)[OF Inr] by (simp add: j' cache_current_def in_step_def)
    ultimately show ?thesis using rd(2) st(2) by (simp add: journal_ok_def j')
  qed
qed

section \<open>Several writers\<close>

text \<open>
  Processes that share one session file, none of which owns the lock. Each has its own cached state; a step
  is an append or a read under the lock, with any faults, or the restart of a process with a fresh journal.
  A process that dies during a write is a failed append followed by a restart.
\<close>

record log_system =
  ls_file :: "bytes option"
  ls_views :: "nat \<Rightarrow> journal"
  ls_acks :: "session_event list"

definition fresh_journal :: "pystr \<Rightarrow> agent_stamp \<Rightarrow> journal" where
  "fresh_journal session root =
     \<lparr>jn_session = session, jn_root = root, jn_file = None, jn_loaded = False, jn_tail_recovery = False,
      jn_next_seq = 1, jn_epoch = None\<rparr>"

definition view_of :: "log_system \<Rightarrow> nat \<Rightarrow> journal" where
  "view_of s p = (ls_views s p)\<lparr>jn_file := ls_file s\<rparr>"

definition after_view :: "nat \<Rightarrow> journal \<Rightarrow> session_event list \<Rightarrow> log_system \<Rightarrow> log_system" where
  "after_view p j acks s = s\<lparr>ls_file := jn_file j, ls_views := (ls_views s)(p := j), ls_acks := ls_acks s @ acks\<rparr>"

inductive writer_step :: "codec \<Rightarrow> log_system \<Rightarrow> log_system \<Rightarrow> bool" for cd where
  writer_appends:
    "good_draft ident d \<Longrightarrow> journal_append cd FreeLock f ident d (view_of s p) = (r, j) \<Longrightarrow>
     writer_step cd s (after_view p j (case r of Inr e \<Rightarrow> [e] | Inl _ \<Rightarrow> []) s)"
| writer_reads:
    "read_events cd FreeLock repair f (view_of s p) = (r, j) \<Longrightarrow> writer_step cd s (after_view p j [] s)"
| writer_restarts:
    "writer_step cd s (s\<lparr>ls_views := (ls_views s)(p := fresh_journal (jn_session (ls_views s p)) root)\<rparr>)"

definition log_initial :: "codec \<Rightarrow> pystr \<Rightarrow> log_system \<Rightarrow> bool" where
  "log_initial cd session s \<longleftrightarrow>
     (\<forall>e. codec_law cd e) \<and> session \<noteq> [] \<and> ls_file s = None \<and> ls_acks s = [] \<and> (\<forall>p. jn_session (ls_views s p) = session)"

definition log_inv :: "codec \<Rightarrow> pystr \<Rightarrow> log_system \<Rightarrow> bool" where
  "log_inv cd session s \<longleftrightarrow>
     (\<forall>e. codec_law cd e) \<and> session \<noteq> [] \<and> (\<forall>p. jn_session (ls_views s p) = session) \<and>
     (\<exists>es. (\<forall>p. stored cd (view_of s p) es) \<and> subseq (ls_acks s) es)"

lemma view_of_simps [simp]:
  "jn_session (view_of s p) = jn_session (ls_views s p)" "file_bytes (view_of s p) = (case ls_file s of None \<Rightarrow> [] | Some b \<Rightarrow> b)"
  by (simp_all add: view_of_def file_bytes_def)

lemma stored_view_cong:
  assumes "stored cd j es" "jn_file j = ls_file s" "jn_session (ls_views s p) = jn_session j"
  shows "stored cd (view_of s p) es"
  using assms(2,3) by (intro stored_same_file[OF assms(1)]) (simp_all add: file_bytes_def[of j])

lemma after_view_simps [simp]:
  "ls_file (after_view p j acks s) = jn_file j" "ls_acks (after_view p j acks s) = ls_acks s @ acks"
  "ls_views (after_view p j acks s) = (ls_views s)(p := j)"
  by (simp_all add: after_view_def)

lemma after_view_inv:
  assumes inv: "log_inv cd session s" and st: "stored cd j es'" "jn_session j = session" "subseq (ls_acks s @ acks) es'"
  shows "log_inv cd session (after_view p j acks s)"
proof -
  have "\<forall>q. jn_session (ls_views (after_view p j acks s) q) = session"
    using inv st(2) by (simp add: log_inv_def)
  moreover from this have "\<forall>q. stored cd (view_of (after_view p j acks s) q) es'"
    using st(2) by (auto intro!: stored_view_cong[OF st(1)])
  ultimately show ?thesis
    using inv st(3) by (auto simp: log_inv_def)
qed

lemma read_stored:
  assumes "stored cd j es" "read_events cd lk repair f j = (r, j')"
  shows "stored cd j' es \<and> jn_session j' = jn_session j"
proof -
  obtain rp r1 j1 where r1: "read_events_with_recovery cd lk repair f j = (r1, j1)"
      and rp: "read_events_locked cd rp True f j = (r1, j1)"
    by (metis read_events_with_recovery_def surj_pair)
  note rd = read_events_locked_stored[OF assms(1) rp]
  from assms(2) r1 have "j' = j1 \<or> (\<exists>fs. j' = set_state_from_events fs j1)"
    by (cases r1) (auto simp: read_events_def)
  with rd(1,2) stored_same_file[OF rd(1)] show ?thesis by auto
qed

lemma log_inv_step:
  assumes "log_inv cd session s" "writer_step cd s s'"
  shows "log_inv cd session s'"
  using assms(2,1)
proof (induction rule: writer_step.induct)
  case (writer_appends ident d f s p r j)
  from writer_appends(3) obtain es where es: "stored cd (view_of s p) es" "subseq (ls_acks s) es"
      and law: "\<And>e. codec_law cd e" and sess: "jn_session (view_of s p) = session" "session \<noteq> []"
    by (auto simp: log_inv_def)
  note a = journal_append_stored[OF es(1) disjI2[OF refl] writer_appends(1) _ law writer_appends(2), unfolded sess(1), OF sess(2)]
  show ?case
  proof (cases r)
    case (Inr e)
    then have "stored cd j (es @ [e])" using a(2) by blast
    with Inr writer_appends(3) a(1) es(2) show ?thesis
      by (intro after_view_inv) (auto intro: list_emb_append_mono)
  next
    case (Inl x)
    then obtain es' where "stored cd j es'" "subseq es es'"
      using a(3) by (auto intro: subseq_rev_drop_many)
    with Inl writer_appends(3) a(1) es(2) show ?thesis
      by (intro after_view_inv[where es' = es']) (auto intro: subseq_order.trans)
  qed
next
  case (writer_reads repair f s p r j)
  from writer_reads(2) obtain es where es: "stored cd (view_of s p) es" "subseq (ls_acks s) es"
      and sess: "jn_session (view_of s p) = session"
    by (auto simp: log_inv_def)
  from read_stored[OF es(1) writer_reads(1)] sess es(2) writer_reads(2) show ?case
    by (intro after_view_inv[where es' = es]) auto
next
  case (writer_restarts s p root)
  then obtain es where es: "\<forall>q. stored cd (view_of s q) es" "subseq (ls_acks s) es"
    by (auto simp: log_inv_def)
  define s' where "s' = s\<lparr>ls_views := (ls_views s)(p := fresh_journal (jn_session (ls_views s p)) root)\<rparr>"
  have sess: "\<forall>q. jn_session (ls_views s' q) = session"
    using writer_restarts by (simp add: s'_def log_inv_def fresh_journal_def)
  have "stored cd (view_of s' q) es" for q
  proof (rule stored_same_file)
    show "stored cd (view_of s q) es" using es(1) by blast
    show "jn_session (view_of s' q) = jn_session (view_of s q)"
      using sess writer_restarts by (simp add: log_inv_def)
    show "file_bytes (view_of s' q) = file_bytes (view_of s q)" by (simp add: s'_def)
  qed
  moreover have "ls_acks s' = ls_acks s"
    by (simp add: s'_def)
  ultimately have "\<exists>es. (\<forall>q. stored cd (view_of s' q) es) \<and> subseq (ls_acks s') es"
    using es(2) by metis
  with writer_restarts sess show ?case
    unfolding s'_def[symmetric] log_inv_def by blast
qed

interpretation wl: invariant_system "log_initial cd session" "writer_step cd" "log_inv cd session"
  for cd session
proof
  show "log_inv cd session s" if "log_initial cd session s" for s
  proof -
    have "\<forall>p. stored cd (view_of s p) []"
      using that by (simp add: log_initial_def stored_def)
    with that show ?thesis
      by (auto simp: log_initial_def log_inv_def)
  qed
qed (rule log_inv_step)

section \<open>Properties\<close>

text \<open>
  C7: Appending to the journal is atomic, whatever fails. From a journal that agrees with its file, a
  successful append extends the stored events by exactly the new event, with the next sequence number and the epoch asked for or the current one; a
  failed one (unreadable file, failed repair, short write, undone or not, failed close, unencodable event)
  leaves the stored events as they were or extended by that one event, and the journal still agrees with the
  file or reloads before the next use.
\<close>

theorem journal_append_is_atomic:
  assumes "journal_ok cd j es" "good_draft ident d" "\<And>e. codec_law cd e" "journal_append cd lk f ident d j = (r, j')"
  shows "case r of
           Inr e \<Rightarrow> journal_ok cd j' (es @ [e]) \<and> (\<exists>ep. e = next_event ident ep d (jn_session j) es \<and> epoch_of d (latest_epoch es) ep)
         | Inl _ \<Rightarrow> journal_ok cd j' es \<or> (\<exists>ep. journal_ok cd j' (es @ [next_event ident ep d (jn_session j) es]) \<and> epoch_of d (latest_epoch es) ep)"
  using assms by (rule append_ok)

text \<open>
  C8: Processes that append to one session file under its lock never disturb each other: after any
  interleaving of appends, reads and restarts, with any faults and partial writes, a process that can read
  the file finds events numbered 1, 2, 3, ... without gap or repetition, and every event whose append was
  acknowledged to some process is among them, in the order of the acknowledgements.
\<close>

theorem shared_log_keeps_acknowledged_events:
  assumes "reach (log_initial cd session) (writer_step cd) s" "\<not> read_fails f" "repair_fault f = None"
  shows "\<exists>es. fst (read_events cd FreeLock True f (view_of s p)) = Inr es \<and> numbered es \<and> subseq (ls_acks s) es"
proof -
  from assms(1) have "log_inv cd session s"
    by (rule wl.inv_reach)
  then obtain es where es: "stored cd (view_of s p) es" "subseq (ls_acks s) es"
    by (auto simp: log_inv_def)
  obtain r j' where r: "read_events_locked cd True True f (view_of s p) = (r, j')"
    by fastforce
  have "r = Inr es"
    using read_events_locked_stored(10)[OF es(1) r assms(2,3)] .
  with r es show ?thesis
    by (auto simp: read_events_def read_events_with_recovery_def stored_def)
qed

section \<open>Renumbering\<close>

text \<open>A file of intact events whose numbering may be broken, possibly with a partial last line.\<close>

definition stored_unnumbered :: "codec \<Rightarrow> journal \<Rightarrow> session_event list \<Rightarrow> bool" where
  "stored_unnumbered cd j es \<longleftrightarrow>
     list_all (loggable cd (jn_session j)) es \<and> (\<exists>t. 10 \<notin> set t \<and> file_bytes j = lines_of cd es @ t)"

lemma length_renumber [simp]: "length (renumber_from n es) = length es"
  by (induction es arbitrary: n) simp_all

lemma numbered_renumber [simp]: "numbered_from n (renumber_from n es)"
  by (induction es arbitrary: n) simp_all

lemma renumber_only_seq: "map (\<lambda>e. e\<lparr>se_seq := 0\<rparr>) (renumber_from n es) = map (\<lambda>e. e\<lparr>se_seq := 0\<rparr>) es"
  by (induction es arbitrary: n) simp_all

lemma renumber_good:
  "list_all (good_event session) es \<Longrightarrow> n \<ge> 1 \<Longrightarrow> list_all (good_event session) (renumber_from n es)"
  by (induction es arbitrary: n) (auto simp: good_event_def)

lemma needs_rewrite_iff: "needs_rewrite n es \<longleftrightarrow> \<not> numbered_from n es"
  by (induction es arbitrary: n) simp_all

lemma renumber_numbered: "numbered_from n es \<Longrightarrow> renumber_from n es = es"
  by (induction es arbitrary: n) simp_all

lemma those_map: "those (map f xs) = Some ys \<longleftrightarrow> list_all2 (\<lambda>x y. f x = Some y) xs ys"
  by (induction xs arbitrary: ys) (auto simp: list_all2_Cons1 split: option.splits)

lemma lines_of_those: "those (map (event_line cd) es) = Some ls \<Longrightarrow> concat ls = lines_of cd es \<and> list_all (\<lambda>e. event_line cd e \<noteq> None) es"
  unfolding those_map by (induction es arbitrary: ls) (auto simp: lines_of_def list_all2_Cons1)

lemma read_unnumbered:
  assumes st: "stored_unnumbered cd j es" and read: "read_events_locked cd True False f j = (Inr fs, j')"
  shows "fs = es" "file_bytes j' = lines_of cd es" "jn_session j' = jn_session j" "\<not> jn_tail_recovery j'"
proof -
  have all: "list_all (loggable cd (jn_session j)) es" and cp: "complete_part (file_bytes j) = lines_of cd es"
    using st last_lines_of(1) complete_part_tail unfolding stored_unnumbered_def by metis+
  have ends: "file_bytes j = lines_of cd es" if "file_bytes j = [] \<or> last (file_bytes j) = 10"
  proof -
    from st obtain t where t: "10 \<notin> set t" "file_bytes j = lines_of cd es @ t"
      by (auto simp: stored_unnumbered_def)
    with that show ?thesis by (cases t rule: rev_cases) auto
  qed
  obtain raw where raw: "read_event_bytes True f j = (Inr raw, j')"
    and parse: "parse_event_bytes (fst (snd cd)) (snd (snd cd)) (jn_session j) False raw = Inr fs"
    using read by (auto simp: read_events_locked_def split: prod.splits sum.splits)
  have "raw = lines_of cd es \<and> file_bytes j' = lines_of cd es \<and> jn_session j' = jn_session j \<and> \<not> jn_tail_recovery j'"
    using raw cp ends by (auto simp: read_event_bytes_def file_bytes_def Let_def split: option.splits if_splits)
  with parse parse_event_bytes_lines_of[OF all, of False]
  show "fs = es" "file_bytes j' = lines_of cd es" "jn_session j' = jn_session j" "\<not> jn_tail_recovery j'"
    by auto
qed

lemma repair_sequence_result:
  assumes st: "stored_unnumbered cd j es" and law: "\<And>e. codec_law cd e"
    and repair: "repair_sequence cd False f j = (Inr n, j')"
  shows "n = length es" "stored cd j' (renumber_from 1 es)" "file_bytes j' = lines_of cd (renumber_from 1 es)"
    "jn_session j' = jn_session j" "jn_loaded j'" "\<not> jn_tail_recovery j'"
    "jn_next_seq j' = (if es = [] then 1 else se_seq (last es) + 1)" "jn_epoch j' = latest_epoch es"
proof -
  obtain r j1 where r: "read_events_locked cd True False f j = (r, j1)" by fastforce
  with repair obtain fs where fs: "r = Inr fs"
    by (cases r) (auto simp: repair_sequence_def)
  note rd = read_unnumbered[OF st r[unfolded fs]]
  have good: "list_all (good_event (jn_session j)) (renumber_from 1 es)"
    using st by (intro renumber_good) (auto simp: stored_unnumbered_def loggable_def list_all_iff)
  have logg: "list_all (loggable cd (jn_session j)) (renumber_from 1 es)" if "list_all (\<lambda>e. event_line cd e \<noteq> None) (renumber_from 1 es)"
    using good that law by (auto simp: loggable_def list_all_iff)
  have res: "n = length es \<and> (\<exists>j2. j' = set_state_from_events es j2 \<and> file_bytes j2 = lines_of cd (renumber_from 1 es) \<and>
      jn_session j2 = jn_session j \<and> \<not> jn_tail_recovery j2 \<and> list_all (loggable cd (jn_session j)) (renumber_from 1 es))"
  proof (cases "needs_rewrite 1 es")
    case True
    with repair r fs rd(1) obtain ls where ls: "those (map (event_line cd) (renumber_from 1 es)) = Some ls"
        "n = length es" "j' = set_state_from_events es (j1\<lparr>jn_file := Some (concat ls)\<rparr>)"
      by (auto simp: repair_sequence_def split: if_splits option.splits)
    note l = lines_of_those[OF ls(1)]
    show ?thesis
      using ls l rd logg by (intro conjI exI[of _ "j1\<lparr>jn_file := Some (concat ls)\<rparr>"]) (simp_all add: file_bytes_def)
  next
    case False
    then have "renumber_from 1 es = es"
      by (simp add: needs_rewrite_iff renumber_numbered)
    with False repair r fs rd st show ?thesis
      by (intro conjI exI[of _ j1]) (auto simp: repair_sequence_def stored_unnumbered_def split: if_splits)
  qed
  then obtain j2 where j2: "j' = set_state_from_events es j2" "file_bytes j2 = lines_of cd (renumber_from 1 es)"
      "jn_session j2 = jn_session j" "\<not> jn_tail_recovery j2" "list_all (loggable cd (jn_session j)) (renumber_from 1 es)"
    by blast
  show "n = length es" using res by simp
  show "file_bytes j' = lines_of cd (renumber_from 1 es)" "jn_session j' = jn_session j" "\<not> jn_tail_recovery j'"
    "jn_epoch j' = latest_epoch es"
    using j2 by simp_all
  show "jn_loaded j'" "jn_next_seq j' = (if es = [] then 1 else se_seq (last es) + 1)"
    by (simp_all add: j2(1) set_state_from_events_def)
  show "stored cd j' (renumber_from 1 es)"
    using j2 unfolding stored_def by (metis append_Nil2 empty_iff empty_set numbered_renumber set_state_simps(1,2))
qed

text \<open>
  Renumbering a journal of intact events repairs it: the file then holds the same events in the same
  order, numbered from 1, differing from the old ones in the sequence number only, and a partial last line is gone.
\<close>

theorem repair_restores_numbering:
  assumes "stored_unnumbered cd j es" "\<And>e. codec_law cd e" "repair_sequence cd False f j = (Inr n, j')"
  shows "n = length es \<and> stored cd j' (renumber_from 1 es) \<and> file_bytes j' = lines_of cd (renumber_from 1 es) \<and>
         map (\<lambda>e. e\<lparr>se_seq := 0\<rparr>) (renumber_from 1 es) = map (\<lambda>e. e\<lparr>se_seq := 0\<rparr>) es"
  using repair_sequence_result[OF assms] renumber_only_seq by blast

lemma parse_lines_gap:
  assumes "list_all (loggable cd session) (es @ [e])" "numbered_from n es" "se_seq e \<noteq> int (n + length es)"
  shows "parse_lines (fst (snd cd)) repr session True n (map (\<lambda>e. the (fst cd (JObj (event_to_dict e)))) (es @ [e])) =
           Inl (SequenceGap (n + length es))"
  using assms
proof (induction es arbitrary: n)
  case Nil
  then obtain b where "fst cd (JObj (event_to_dict e)) = Some b" "fst (snd cd) b = Some (JObj (event_to_dict e))"
      "\<not> blank_bytes b"
    by (auto elim: loggableE)
  moreover have "good_event session e"
    using Nil.prems(1) by (simp add: loggable_def)
  ultimately show ?case
    using Nil.prems(3) by (simp add: event_roundtrip) (simp add: good_event_def)
next
  case (Cons a es)
  then obtain b where "fst cd (JObj (event_to_dict a)) = Some b" "fst (snd cd) b = Some (JObj (event_to_dict a))"
      "\<not> blank_bytes b"
    by (auto elim: loggableE)
  moreover have "good_event session a"
    using Cons.prems(1) by (simp add: loggable_def)
  ultimately show ?case
    using Cons by (simp add: event_roundtrip) (simp add: good_event_def)
qed

lemma read_gap:
  assumes "file_bytes j = lines_of cd (es @ [e])" "list_all (loggable cd (jn_session j)) (es @ [e])" "numbered es"
    and "se_seq e \<noteq> int (length es) + 1" "\<not> read_fails f"
  shows "fst (read_events cd lk True f j) = Inl (SequenceGap (length es + 1))"
proof -
  have ends: "file_bytes j \<noteq> []" "last (file_bytes j) = 10"
    using last_lines_of[OF assms(2)] assms(1) by auto
  then obtain raw where raw: "jn_file j = Some raw" "raw = file_bytes j"
    by (auto simp: file_bytes_def split: option.splits)
  then have bytes: "fst (read_event_bytes rp f j) = Inr (lines_of cd (es @ [e]))" for rp
    using ends assms(1,5) by (simp add: read_event_bytes_def)
  have "parse_event_bytes (fst (snd cd)) repr (jn_session j) True (lines_of cd (es @ [e])) = Inl (SequenceGap (1 + length es))" for repr
    unfolding parse_event_bytes_def byte_lines_lines_of[OF assms(2)]
    using assms(2-4) by (intro parse_lines_gap) auto
  then have "fst (read_events_locked cd rp True f j) = Inl (SequenceGap (length es + 1))" for rp
    using bytes[of rp] by (cases "read_event_bytes rp f j") (simp add: read_events_locked_def)
  moreover obtain rp where rp: "read_events_with_recovery cd lk True f j = read_events_locked cd rp True f j"
    by (metis read_events_with_recovery_def)
  obtain r j' where rj: "read_events_locked cd rp True f j = (r, j')"
    by fastforce
  ultimately have "r = Inl (SequenceGap (length es + 1))"
    by (metis fst_conv)
  with rp rj show ?thesis
    by (simp add: read_events_def)
qed

text \<open>
  Renumbering leaves the journal object with a stale counter: if the last event did not already have the
  number of its position, the next event that the same object appends while it owns the session (or without a
  lock) breaks the sequence again, and every later read of the journal fails at that line.
\<close>

theorem append_after_repair_breaks_journal:
  assumes "stored_unnumbered cd j es" "\<And>e. codec_law cd e" "repair_sequence cd False f j = (Inr n, j1)"
    and "es \<noteq> []" "se_seq (last es) \<noteq> int (length es)" "lk = OwnedLock \<or> lk = NoLock" "good_draft ident d"
    and "journal_append cd lk f' ident d j1 = (Inr e, j2)" "\<not> read_fails f''"
  shows "fst (read_events cd lk' True f'' j2) = Inl (SequenceGap (length es + 1))"
proof -
  note rep = repair_sequence_result[OF assms(1-3)]
  have good: "good_event (jn_session j) (last es)" "jn_session j \<noteq> []"
  proof -
    show "good_event (jn_session j) (last es)"
      using assms(1,4) by (simp add: stored_unnumbered_def list_all_iff loggable_def)
    then show "jn_session j \<noteq> []"
      by (auto simp: good_event_def)
  qed
  have com: "commit_event cd f' ident d j1 = (Inr e, j2)"
    using assms(6,8) rep(5,6) by (auto simp: journal_append_def append_locked_def ensure_loaded_def)
  then obtain epoch where ep: "epoch \<noteq> []" "e = make_event ident epoch d j1"
    by (auto simp: commit_event_def Let_def split: option.splits if_splits prod.splits sum.splits)
  have seq: "se_seq e = se_seq (last es) + 1"
    using rep(7) assms(4) ep(2) by (simp add: make_event_def)
  have ge: "good_event (jn_session j) e"
    using make_event_good[OF assms(7), of j1 epoch] good rep(4,7) assms(4) ep
    by (auto simp: good_event_def[of _ "last es"])
  obtain l where l: "event_line cd e = Some l" "file_bytes j2 = file_bytes j1 @ l" "jn_session j2 = jn_session j1"
    using com ep(2)
    by (auto simp: commit_event_def Let_def write_event_def file_bytes_def split: option.splits if_splits)
  have "list_all (loggable cd (jn_session j)) (renumber_from 1 es @ [e])"
    using rep(2,4) ge assms(2) l(1) by (simp add: stored_def loggable_def)
  moreover have "file_bytes j2 = lines_of cd (renumber_from 1 es @ [e])"
    using l rep(3) by (simp add: lines_of_def)
  ultimately show ?thesis
    using read_gap[of j2 cd "renumber_from 1 es" e f'' lk'] l(3) rep(4) seq assms(5,9) by simp
qed


section \<open>Sample journals\<close>

text \<open>A codec that knows finitely many texts, of one byte each.\<close>

definition table_codec :: "(json \<times> nat) list \<Rightarrow> codec" where
  "table_codec t =
     (\<lambda>v. map_option (\<lambda>k. [k]) (map_of t v),
      \<lambda>b. (case b of [k] \<Rightarrow> map_of (map prod.swap t) k | _ \<Rightarrow> None), \<lambda>_. [])"

lemma table_codec_law:
  assumes "distinct (map snd t)" "list_all (\<lambda>(v, k). k > 32) t"
  shows "codec_law (table_codec t) e"
proof -
  have "map_of (map prod.swap t) k = Some v" "k > 32" if "map_of t v = Some k" for k v
  proof -
    from that have "(v, k) \<in> set t" by (rule map_of_SomeD)
    then show "k > 32" using assms(2) by (auto simp: list_all_iff)
    have "distinct (map fst (map prod.swap t))" using assms(1) by (simp add: comp_def)
    then show "map_of (map prod.swap t) k = Some v"
      using \<open>(v, k) \<in> set t\<close> by (force intro: map_of_is_SomeI)
  qed
  note t = this
  show ?thesis
    unfolding codec_law_def table_codec_def blank_bytes_def by (auto simp: t(1) dest: t(2))
qed

definition sample_stamp :: agent_stamp where
  "sample_stamp = \<lparr>st_agent_id = lit ''r'', st_agent_name = lit ''main'', st_parent_agent = None,
                   st_parent_call = None, st_depth = 0\<rparr>"

definition sample_draft :: draft where
  "sample_draft = \<lparr>dr_type = lit ''goal.completed'', dr_actor = lit ''system'', dr_payload = [], dr_turn = None,
                   dr_epoch = Some (lit ''e1''), dr_artifacts = [], dr_agent = sample_stamp\<rparr>"

definition sample_event :: "int \<Rightarrow> session_event" where
  "sample_event n = make_event (lit ''i'', lit ''t'') (lit ''e1'') sample_draft
     ((fresh_journal (lit ''s'') sample_stamp)\<lparr>jn_next_seq := n\<rparr>)"

definition sample_codec :: codec where
  "sample_codec = table_codec [(JObj (event_to_dict (sample_event 1)), 65), (JObj (event_to_dict (sample_event 2)), 66),
                               (JObj (event_to_dict (sample_event 3)), 67)]"

definition no_faults :: faults where
  "no_faults = \<lparr>read_fails = False, repair_fault = None, write_fault = None\<rparr>"

lemma sample_law: "codec_law sample_codec e"
  unfolding sample_codec_def by (rule table_codec_law) simp_all

lemma sample_draft_good: "good_draft (lit ''i'', lit ''t'') sample_draft"
  by code_simp

definition sample_journal :: journal where
  "sample_journal = snd (journal_append sample_codec NoLock no_faults (lit ''i'', lit ''t'') sample_draft
                           (fresh_journal (lit ''s'') sample_stamp))"

lemma fresh_ok: "session \<noteq> [] \<Longrightarrow> journal_ok cd (fresh_journal session root) []"
  by (simp add: journal_ok_def stored_def cache_current_def fresh_journal_def file_bytes_def)

lemma sample_append:
  "journal_append sample_codec NoLock no_faults (lit ''i'', lit ''t'') sample_draft (fresh_journal (lit ''s'') sample_stamp) =
     (Inr (sample_event 1), sample_journal)"
  by code_simp

theorem journal_append_is_atomic_witness:
  "journal_ok sample_codec sample_journal [sample_event 1]"
  using journal_append_is_atomic[OF fresh_ok sample_draft_good sample_law sample_append] by simp


lemma sample_reach:
  "reach (log_initial sample_codec (lit ''s'')) (writer_step sample_codec)
     (after_view 0 sample_journal [sample_event 1] \<lparr>ls_file = None, ls_views = \<lambda>_. fresh_journal (lit ''s'') sample_stamp, ls_acks = []\<rparr>)"
proof -
  define s where "s = \<lparr>ls_file = None, ls_views = \<lambda>_::nat. fresh_journal (lit ''s'') sample_stamp, ls_acks = []\<rparr>"
  have "view_of s 0 = fresh_journal (lit ''s'') sample_stamp"
    by (simp add: view_of_def s_def fresh_journal_def)
  moreover have "journal_append sample_codec FreeLock no_faults (lit ''i'', lit ''t'') sample_draft
      (fresh_journal (lit ''s'') sample_stamp) = (Inr (sample_event 1), sample_journal)"
    by code_simp
  ultimately have "writer_step sample_codec s (after_view 0 sample_journal [sample_event 1] s)"
    using writer_step.writer_appends[OF sample_draft_good, of sample_codec no_faults s 0 "Inr (sample_event 1)" sample_journal]
    by simp
  moreover have "log_initial sample_codec (lit ''s'') s"
    by (simp add: log_initial_def sample_law s_def fresh_journal_def)
  ultimately show ?thesis
    unfolding s_def[symmetric] by (auto intro: reach.intros)
qed

theorem shared_log_keeps_acknowledged_events_witness:
  "\<exists>s es. ls_acks s = [sample_event 1] \<and>
          fst (read_events sample_codec FreeLock True no_faults (view_of s 1)) = Inr es \<and> numbered es \<and> subseq (ls_acks s) es"
proof -
  have "\<not> read_fails no_faults" "repair_fault no_faults = None"
    by (simp_all add: no_faults_def)
  note shared_log_keeps_acknowledged_events[OF sample_reach this, of 1]
  then show ?thesis
    by (metis after_view_simps(2) append_Nil log_system.select_convs(3))
qed

text \<open>A journal of one event that carries the number 2.\<close>

definition broken_journal :: journal where
  "broken_journal = (fresh_journal (lit ''s'') sample_stamp)\<lparr>jn_file := Some [66, 10]\<rparr>"

definition repaired_journal :: journal where
  "repaired_journal = snd (repair_sequence sample_codec False no_faults broken_journal)"

lemma broken_stored: "stored_unnumbered sample_codec broken_journal [sample_event 2]"
proof -
  have "good_event (jn_session broken_journal) (sample_event 2)" "event_line sample_codec (sample_event 2) \<noteq> None"
    "file_bytes broken_journal = lines_of sample_codec [sample_event 2]"
    by code_simp+
  then show ?thesis
    by (simp add: stored_unnumbered_def loggable_def sample_law)
qed

lemma broken_repaired: "repair_sequence sample_codec False no_faults broken_journal = (Inr 1, repaired_journal)"
  by code_simp

theorem repair_restores_numbering_witness:
  "stored sample_codec repaired_journal (renumber_from 1 [sample_event 2])"
  using repair_restores_numbering[OF broken_stored sample_law broken_repaired] by blast

theorem append_after_repair_breaks_journal_witness:
  "fst (read_events sample_codec NoLock True no_faults
     (snd (journal_append sample_codec NoLock no_faults (lit ''i'', lit ''t'') sample_draft repaired_journal))) =
   Inl (SequenceGap 2)"
proof -
  define j2 where "j2 = snd (journal_append sample_codec NoLock no_faults (lit ''i'', lit ''t'') sample_draft repaired_journal)"
  have "journal_append sample_codec NoLock no_faults (lit ''i'', lit ''t'') sample_draft repaired_journal =
          (Inr (sample_event 3), j2)"
    unfolding j2_def by code_simp
  moreover have "se_seq (last [sample_event 2]) \<noteq> int (length [sample_event 2])"
    by code_simp
  moreover have "\<not> read_fails no_faults"
    by (simp add: no_faults_def)
  ultimately show ?thesis
    using append_after_repair_breaks_journal[OF broken_stored sample_law broken_repaired _ _ disjI2[OF refl] sample_draft_good]
    unfolding j2_def[symmetric] by fastforce
qed

end
