(* ===== verification/Session_Artifacts.thy ===== *)
theory Session_Artifacts
  imports Session_Log
begin

text \<open>
  The artifact store of a session and the externalisation of large or opaque message fields: \<open>put_artifact\<close>,
  \<open>read_artifact\<close>, \<open>prepare_message\<close> and \<open>hydrate_message\<close> of \<open>kolega_code/cli/session_journal.py\<close>.

  Parameters: the SHA-256 digest in hexadecimal, base64 decoding (\<open>None\<close> for invalid text) and encoding, the
  text of floats and containers, the directory named in references, and the digests whose file cannot be
  written.
\<close>

section \<open>The store\<close>

record artifact_env =
  ar_sha :: "bytes \<Rightarrow> pystr"
  ar_b64decode :: "pystr \<Rightarrow> bytes option"
  ar_b64encode :: "bytes \<Rightarrow> pystr"
  ar_repr :: "json \<Rightarrow> pystr"
  ar_reference_dir :: pystr
  ar_write_fails :: "pystr \<Rightarrow> bool"

type_synonym store = "pystr \<Rightarrow> bytes option"

type_synonym 'a store_op = "(store, journal_error, 'a) op"

definition put_artifact ::
  "artifact_env \<Rightarrow> bytes \<Rightarrow> pystr \<Rightarrow> pystr \<Rightarrow> pystr \<Rightarrow> nat option \<Rightarrow> (pystr \<times> json) list store_op" where
  "put_artifact env data media_type purpose encoding chars st =
     (let digest = ar_sha env data
      in if ar_write_fails env digest then (Inl (RecorderError (lit ''Could not persist session artifact'')), st)
         else (Inr ([(lit ''sha256'', JStr digest), (lit ''bytes'', JInt (int (length data))),
                     (lit ''media_type'', JStr media_type), (lit ''purpose'', JStr purpose),
                     (lit ''encoding'', JStr encoding), (lit ''path'', JStr (ar_reference_dir env @ lit ''/'' @ digest))] @
                    (case chars of None \<Rightarrow> [] | Some n \<Rightarrow> [(lit ''chars'', JInt (int n))])),
               if st digest = None then st(digest \<mapsto> data) else st))"

definition hex_digit :: "nat \<Rightarrow> bool" where
  "hex_digit c = ((48 \<le> c \<and> c \<le> 57) \<or> (97 \<le> c \<and> c \<le> 102))"

definition read_artifact :: "artifact_env \<Rightarrow> store \<Rightarrow> (pystr \<times> json) list \<Rightarrow> journal_error + bytes" where
  "read_artifact env st ref =
     (let digest = str_or_empty (ar_repr env) (json_get ref (lit ''sha256''))
      in if length digest \<noteq> 64 \<or> \<not> list_all hex_digit digest then Inl (RecorderError (lit ''Invalid session artifact digest''))
         else (case st digest of
                 None \<Rightarrow> Inl (RecorderError (lit ''Missing session artifact''))
               | Some data \<Rightarrow>
                   if ar_sha env data \<noteq> digest then Inl (RecorderError (lit ''Session artifact failed integrity check''))
                   else Inr data))"

section \<open>Externalising fields\<close>

definition preview_chars :: nat where "preview_chars = 100000"

definition preview_marker :: "(pystr \<times> json) list \<Rightarrow> pystr \<Rightarrow> nat \<Rightarrow> pystr" where
  "preview_marker ref digest chars =
     [10, 10] @ lit ''[Middle of tool result omitted from model history. Full output: '' @
     (case json_get ref (lit ''path'') of JStr s \<Rightarrow> if s \<noteq> [] then s else lit ''the session artifact store''
                                        | _ \<Rightarrow> lit ''the session artifact store'') @
     lit '' (sha256 '' @ digest @ lit '', '' @ show_commas chars @ lit '' characters).]'' @ [10, 10]"

definition tool_result_preview :: "pystr \<Rightarrow> (pystr \<times> json) list \<Rightarrow> pystr \<Rightarrow> pystr" where
  "tool_result_preview content ref digest =
     (let marker = preview_marker ref digest (length content);
          available = preview_chars - length marker;
          head = available div 2;
          tail = available - head
      in take head content @ marker @ (if tail \<noteq> 0 then drop (length content - tail) content else []))"

text \<open>The opaque field of a block type, with its purpose and whether it is base64 text.\<close>

definition opaque_field :: "pystr \<Rightarrow> (string \<times> string \<times> bool) option" where
  "opaque_field block_type =
     (if block_type = lit ''thinking'' then Some (''signature'', ''provider_signature'', False)
      else if block_type = lit ''redacted_thinking'' then Some (''data'', ''redacted_reasoning'', False)
      else if block_type = lit ''responses_reasoning'' then Some (''encrypted_content'', ''encrypted_reasoning'', False)
      else if block_type = lit ''tool_call'' then Some (''thought_signature'', ''thought_signature'', True)
      else None)"

definition encoding_name :: "bool \<Rightarrow> pystr" where
  "encoding_name base64 = (if base64 then lit ''base64'' else lit ''utf-8'')"

text \<open>A field is emptied and its reference put under \<open>artifact_fields\<close>.\<close>

definition externalise ::
  "artifact_env \<Rightarrow> (pystr \<times> json) list \<Rightarrow> string \<Rightarrow> bytes option \<Rightarrow> pystr \<Rightarrow> pystr \<Rightarrow> bool \<Rightarrow> pystr \<Rightarrow>
     ((pystr \<times> json) list \<times> json list) store_op" where
  "externalise env raw field data media_type purpose base64 message =
     (case data of
        None \<Rightarrow> ofail (RecorderError message)
      | Some b \<Rightarrow>
          obind (put_artifact env b media_type purpose (encoding_name base64) None) (\<lambda>ref.
          oret (dict_set (lit ''artifact_fields'') (JObj [(lit field, JObj ref)]) (dict_set (lit field) (JStr []) raw),
                [JObj ref])))"

definition prepare_fields :: "artifact_env \<Rightarrow> (pystr \<times> json) list \<Rightarrow> ((pystr \<times> json) list \<times> json list) store_op" where
  "prepare_fields env raw =
     (case json_get raw (lit ''type'') of
        JStr t \<Rightarrow>
          if t = lit ''image_url'' then
            (if json_get raw (lit ''image_type'') = JStr (lit ''base64'') \<and> truthy (json_get raw (lit ''data''))
             then externalise env raw ''data''
                    (ar_b64decode env (py_str (ar_repr env) (json_get raw (lit ''data''))))
                    (let m = str_or_empty (ar_repr env) (json_get raw (lit ''media_type''))
                     in if m \<noteq> [] then m else lit ''application/octet-stream'')
                    (lit ''image'') True (lit ''Image block contains invalid base64 data'')
             else oret (raw, []))
          else (case opaque_field t of
                  None \<Rightarrow> oret (raw, [])
                | Some (field, purpose, base64) \<Rightarrow>
                    if \<not> truthy (json_get raw (lit field)) then oret (raw, [])
                    else (let text = py_str (ar_repr env) (json_get raw (lit field))
                          in externalise env raw field (if base64 then ar_b64decode env text else utf8_encode text)
                               (lit ''application/octet-stream'') (lit purpose) base64
                               (lit ''Invalid encoded provider field'')))
      | _ \<Rightarrow> oret (raw, []))"

definition prepare_content :: "artifact_env \<Rightarrow> (pystr \<times> json) list \<Rightarrow> pystr \<Rightarrow> ((pystr \<times> json) list \<times> json list) store_op" where
  "prepare_content env raw content =
     (if length content > preview_chars then
        (case utf8_encode content of
           None \<Rightarrow> ofail EncodeFailed
         | Some data \<Rightarrow>
             obind (put_artifact env data (lit ''text/plain; charset=utf-8'') (lit ''tool_result'') (lit ''utf-8'')
                      (Some (length content))) (\<lambda>ref.
             oret (dict_set (lit ''content_artifact'') (JObj ref)
                     (dict_set (lit ''content'') (JStr (tool_result_preview content ref (ar_sha env data))) raw),
                   [JObj ref])))
      else oret (raw, []))"

lemma dict_value_smaller: "map_of d k = Some v \<Longrightarrow> size v < size (JObj d)"
  by (induction d) (auto split: if_splits)

lemma json_get_list_smaller: "json_get d k = JList vs \<Longrightarrow> size_list size vs < size (JObj d)"
  using dict_value_smaller[of d k "JList vs"] by (auto simp: json_get_def split: option.splits)

function prepare_blocks :: "artifact_env \<Rightarrow> json list \<Rightarrow> (json list \<times> json list) store_op" where
  "prepare_blocks env [] = oret ([], [])"
| "prepare_blocks env (b # bs) =
     obind (case b of
              JObj raw \<Rightarrow>
                obind (if json_get raw (lit ''type'') = JStr (lit ''tool_result'') then
                         (case json_get raw (lit ''content'') of
                            JStr content \<Rightarrow> prepare_content env raw content
                          | JList inner \<Rightarrow>
                              obind (prepare_blocks env inner) (\<lambda>(inner', refs).
                              oret (dict_set (lit ''content'') (JList inner') raw, refs))
                          | _ \<Rightarrow> oret (raw, []))
                       else oret (raw, [])) (\<lambda>(raw, refs).
                obind (prepare_fields env raw) (\<lambda>(raw, refs'). oret (JObj raw, refs @ refs')))
            | _ \<Rightarrow> oret (b, [])) (\<lambda>(b', refs).
     obind (prepare_blocks env bs) (\<lambda>(bs', refs'). oret (b' # bs', refs @ refs')))"
  by pat_completeness auto
termination
  by (relation "measure (\<lambda>(env, bs). size_list size bs)") (auto dest: json_get_list_smaller)

definition ref_digest :: "artifact_env \<Rightarrow> json \<Rightarrow> pystr" where
  "ref_digest env ref = (case ref of JObj d \<Rightarrow> str_or_empty (ar_repr env) (json_get d (lit ''sha256'')) | _ \<Rightarrow> [])"

definition dedupe_refs :: "artifact_env \<Rightarrow> json list \<Rightarrow> json list" where
  "dedupe_refs env refs = dedup_by (ref_digest env) [] refs"

definition prepare_message :: "artifact_env \<Rightarrow> (pystr \<times> json) list \<Rightarrow> ((pystr \<times> json) list \<times> json list) store_op" where
  "prepare_message env message =
     (case json_get message (lit ''content'') of
        JList content \<Rightarrow>
          obind (prepare_blocks env content) (\<lambda>(content', refs).
          oret (dict_set (lit ''content'') (JList content') message, dedupe_refs env refs))
      | _ \<Rightarrow> oret (message, []))"

section \<open>Restoring fields\<close>

definition restore_field ::
  "artifact_env \<Rightarrow> store \<Rightarrow> pystr \<times> json \<Rightarrow> (pystr \<times> json) list \<Rightarrow> journal_error + (pystr \<times> json) list" where
  "restore_field env st field_ref raw =
     (case snd field_ref of
        JObj ref \<Rightarrow>
          rbind (read_artifact env st ref) (\<lambda>data.
          if json_get ref (lit ''encoding'') = JStr (lit ''base64'')
          then Inr (dict_set (fst field_ref) (JStr (ar_b64encode env data)) raw)
          else (case utf8_decode data of
                  None \<Rightarrow> Inl EncodeFailed
                | Some text \<Rightarrow> Inr (dict_set (fst field_ref) (JStr text) raw)))
      | _ \<Rightarrow> Inl (RecorderError (lit ''Invalid artifact reference'')))"

fun restore_fields ::
  "artifact_env \<Rightarrow> store \<Rightarrow> (pystr \<times> json) list \<Rightarrow> (pystr \<times> json) list \<Rightarrow> journal_error + (pystr \<times> json) list" where
  "restore_fields env st [] raw = Inr raw"
| "restore_fields env st (f # fs) raw = rbind (restore_field env st f raw) (restore_fields env st fs)"

text \<open>The nested blocks are those of the stored block: \<open>content\<close> is not one of the externalised fields.\<close>

function hydrate_blocks :: "artifact_env \<Rightarrow> store \<Rightarrow> json list \<Rightarrow> journal_error + json list" where
  "hydrate_blocks env st [] = Inr []"
| "hydrate_blocks env st (b # bs) =
     rbind (case b of
              JObj raw \<Rightarrow>
                rbind (restore_fields env st
                         (case json_get raw (lit ''artifact_fields'') of JObj fs \<Rightarrow> fs | _ \<Rightarrow> [])
                         (dict_remove (lit ''artifact_fields'') raw)) (\<lambda>restored.
                if json_get restored (lit ''type'') = JStr (lit ''tool_result'') \<and>
                   json_get restored (lit ''content'') = json_get raw (lit ''content'') then
                  (case json_get raw (lit ''content'') of
                     JList inner \<Rightarrow>
                       rbind (hydrate_blocks env st inner) (\<lambda>inner'. Inr (JObj (dict_set (lit ''content'') (JList inner') restored)))
                   | _ \<Rightarrow> Inr (JObj restored))
                else Inr (JObj restored))
            | _ \<Rightarrow> Inr b) (\<lambda>b'.
     rbind (hydrate_blocks env st bs) (\<lambda>bs'. Inr (b' # bs')))"
  by pat_completeness auto
termination
  by (relation "measure (\<lambda>(env, st, bs). size_list size bs)") (auto dest: json_get_list_smaller)

definition hydrate_message :: "artifact_env \<Rightarrow> store \<Rightarrow> (pystr \<times> json) list \<Rightarrow> journal_error + (pystr \<times> json) list" where
  "hydrate_message env st message =
     (case json_get message (lit ''content'') of
        JList content \<Rightarrow>
          rbind (hydrate_blocks env st content) (\<lambda>content'. Inr (dict_set (lit ''content'') (JList content') message))
      | _ \<Rightarrow> Inr message)"

end
