(* ===== verification/Session_Recorder.thy ===== *)
theory Session_Recorder
  imports Session_Artifacts
begin

text \<open>
  The semantic recorder of one agent over the shared session journal: \<open>SessionRecorder\<close>,
  \<open>collect_epoch_turns\<close> and their helpers in \<open>kolega_code/cli/session_journal.py\<close>. An operation is a function
  on the state of recorder, journal and artifact store; an error does not undo what was done before it.

  Messages and tool results are their dictionaries, so that conversion between the two is the identity.
  The environment gives, for each use, the lock state, the faults, a new identifier and the time; it also gives
  the canonical JSON text of tool definitions, the milliseconds since a time stamp (\<open>None\<close> when it cannot be
  read) and, through the artifact environment, SHA-256 and base64.
\<close>

section \<open>State\<close>

record pending_tool_results =
  pt_batch :: pystr
  pt_epoch :: pystr
  pt_turn :: pystr
  pt_results :: "json list"
  pt_committed :: bool

record pending_assistant =
  pa_message_id :: pystr
  pa_epoch :: pystr
  pa_turn :: pystr
  pa_message :: "(pystr \<times> json) list"
  pa_effort :: "pystr option"
  pa_committed :: bool

record pending_turn_terminal =
  px_epoch :: pystr
  px_turn :: pystr
  px_type :: pystr
  px_payload :: "(pystr \<times> json) list"

record recorder =
  rc_stamp :: agent_stamp
  rc_turn :: "pystr option"
  rc_system_fingerprint :: "pystr option"
  rc_tools_fingerprint :: "pystr option"
  rc_started :: "pystr option"
  rc_assistants :: int
  rc_batches :: int
  rc_pending_tools :: "pending_tool_results option"
  rc_pending_assistant :: "pending_assistant option"
  rc_pending_terminal :: "pending_turn_terminal option"
  rc_run_terminal :: bool

definition new_recorder :: "agent_stamp \<Rightarrow> recorder" where
  "new_recorder stamp =
     \<lparr>rc_stamp = stamp, rc_turn = None, rc_system_fingerprint = None, rc_tools_fingerprint = None, rc_started = None,
      rc_assistants = 0, rc_batches = 0, rc_pending_tools = None, rc_pending_assistant = None,
      rc_pending_terminal = None, rc_run_terminal = False\<rparr>"

definition scoped_child :: "pystr \<Rightarrow> pystr \<Rightarrow> pystr option \<Rightarrow> int \<Rightarrow> recorder \<Rightarrow> recorder" where
  "scoped_child agent_id agent_name parent_call depth r =
     new_recorder \<lparr>st_agent_id = agent_id, st_agent_name = agent_name,
                   st_parent_agent = Some (st_agent_id (rc_stamp r)), st_parent_call = parent_call, st_depth = depth\<rparr>"

record recorder_env =
  re_codec :: codec
  re_artifacts :: artifact_env
  re_lock :: "nat \<Rightarrow> lock_state"
  re_faults :: "nat \<Rightarrow> faults"
  re_id :: "nat \<Rightarrow> pystr"
  re_now :: "nat \<Rightarrow> pystr"
  re_canonical :: "json \<Rightarrow> pystr"
  re_elapsed :: "pystr \<Rightarrow> nat \<Rightarrow> int option"

record session_state =
  ss_journal :: journal
  ss_store :: store
  ss_tick :: nat
  ss_rec :: recorder

type_synonym 'a sop = "(session_state, journal_error, 'a) op"

definition rec_get :: "(recorder \<Rightarrow> 'a) \<Rightarrow> 'a sop" where
  "rec_get f s = (Inr (f (ss_rec s)), s)"

definition rec_set :: "(recorder \<Rightarrow> recorder) \<Rightarrow> unit sop" where
  "rec_set f s = (Inr (), s\<lparr>ss_rec := f (ss_rec s)\<rparr>)"

definition require :: "bool \<Rightarrow> string \<Rightarrow> unit sop" where
  "require b message = (if b then oret () else ofail (RecorderError (lit message)))"

definition fresh_id :: "recorder_env \<Rightarrow> pystr sop" where
  "fresh_id env s = (Inr (re_id env (ss_tick s)), s\<lparr>ss_tick := Suc (ss_tick s)\<rparr>)"

definition with_journal ::
  "recorder_env \<Rightarrow> (lock_state \<Rightarrow> faults \<Rightarrow> identity \<Rightarrow> journal \<Rightarrow> (journal_error + 'a) \<times> journal) \<Rightarrow> 'a sop" where
  "with_journal env g s =
     (let n = ss_tick s;
          result = g (re_lock env n) (re_faults env n) (re_id env n, re_now env n) (ss_journal s)
      in (fst result, s\<lparr>ss_journal := snd result, ss_tick := Suc n\<rparr>))"

definition with_store :: "'a store_op \<Rightarrow> 'a sop" where
  "with_store g s = (let result = g (ss_store s) in (fst result, s\<lparr>ss_store := snd result\<rparr>))"

definition current_epoch :: "recorder_env \<Rightarrow> pystr sop" where
  "current_epoch env = with_journal env (\<lambda>lk f _. epoch_id (re_codec env) lk f)"

definition all_events :: "recorder_env \<Rightarrow> session_event list sop" where
  "all_events env = with_journal env (\<lambda>lk f _. read_events (re_codec env) lk True f)"

definition rec_append ::
  "recorder_env \<Rightarrow> pystr \<Rightarrow> string \<Rightarrow> (pystr \<times> json) list \<Rightarrow> pystr option \<Rightarrow> pystr option \<Rightarrow> json list \<Rightarrow> session_event sop" where
  "rec_append env event_type actor payload turn epoch artifacts =
     obind (rec_get rc_stamp) (\<lambda>stamp.
     with_journal env (\<lambda>lk f ident. journal_append (re_codec env) lk f ident
       \<lparr>dr_type = event_type, dr_actor = lit actor, dr_payload = payload, dr_turn = turn, dr_epoch = epoch,
        dr_artifacts = artifacts, dr_agent = stamp\<rparr>))"

section \<open>Turns of an epoch\<close>

definition root_event :: "session_event \<Rightarrow> bool" where
  "root_event e = (case se_depth e of None \<Rightarrow> True | Some d \<Rightarrow> d = 0)"

definition message_blocks :: "json \<Rightarrow> (pystr \<times> json) list list" where
  "message_blocks message =
     (case message of
        JObj m \<Rightarrow> (case json_get m (lit ''content'') of
                     JList bs \<Rightarrow> List.map_filter (\<lambda>b. case b of JObj d \<Rightarrow> Some d | _ \<Rightarrow> None) bs
                   | _ \<Rightarrow> [])
      | _ \<Rightarrow> [])"

definition turn_user_text :: "(json \<Rightarrow> pystr) \<Rightarrow> json \<Rightarrow> pystr" where
  "turn_user_text repr message =
     (case message of
        JObj m \<Rightarrow>
          (case json_get m (lit ''content'') of
             JStr s \<Rightarrow> s
           | _ \<Rightarrow> join_on 10 (filter (\<lambda>p. p \<noteq> [])
                    (map (\<lambda>b. str_or_empty repr (json_get b (lit ''text'')))
                      (filter (\<lambda>b. json_get b (lit ''type'') = JStr (lit ''text'')) (message_blocks message)))))
      | _ \<Rightarrow> [])"

record turn_summary =
  ts_turn :: pystr
  ts_boundary :: int
  ts_started :: pystr
  ts_status :: pystr
  ts_text :: pystr

definition terminal_types :: "pystr list" where
  "terminal_types = map lit [''turn.completed'', ''turn.failed'', ''turn.cancelled'']"

text \<open>The search from the end for the turn that an event closes.\<close>

fun close_first :: "pystr option \<Rightarrow> pystr \<Rightarrow> turn_summary list \<Rightarrow> turn_summary list" where
  "close_first turn status [] = []"
| "close_first turn status (t # ts) =
     (if Some (ts_turn t) = turn then t\<lparr>ts_status := status\<rparr> # ts else t # close_first turn status ts)"

definition fold_turn :: "(json \<Rightarrow> pystr) \<Rightarrow> pystr \<Rightarrow> session_event \<Rightarrow> turn_summary list \<Rightarrow> turn_summary list" where
  "fold_turn repr epoch e turns =
     (if se_epoch e \<noteq> epoch \<or> \<not> root_event e then turns
      else if se_type e = lit ''turn.started'' then
        turns @ [\<lparr>ts_turn = (case se_turn e of None \<Rightarrow> [] | Some t \<Rightarrow> t), ts_boundary = se_seq e, ts_started = se_timestamp e,
                  ts_status = lit ''open'', ts_text = turn_user_text repr (json_get (se_payload e) (lit ''message''))\<rparr>]
      else if se_type e \<in> set terminal_types then rev (close_first (se_turn e) (drop 5 (se_type e)) (rev turns))
      else if se_type e = lit ''context.rewound'' then
        (case int_instance (json_get (se_payload e) (lit ''boundary_seq'')) of
           None \<Rightarrow> turns
         | Some boundary \<Rightarrow> filter (\<lambda>t. ts_boundary t < boundary) turns)
      else turns)"

definition collect_epoch_turns :: "(json \<Rightarrow> pystr) \<Rightarrow> session_event list \<Rightarrow> pystr \<Rightarrow> turn_summary list" where
  "collect_epoch_turns repr es epoch = fold (fold_turn repr epoch) es []"

section \<open>Turns and messages\<close>

definition require_root :: "string \<Rightarrow> unit sop" where
  "require_root message = obind (rec_get rc_stamp) (\<lambda>stamp. require (st_depth stamp = 0) message)"

definition require_settled_context :: "unit sop" where
  "require_settled_context =
     obind (rec_get id) (\<lambda>r.
     obind (require (rc_pending_tools r = None) ''Unsettled tool results must be retried before adding session context'') (\<lambda>_.
     obind (require (rc_pending_assistant r = None) ''Unsettled assistant message must be retried before adding session context'') (\<lambda>_.
     require (rc_pending_terminal r = None) ''Unsettled turn terminal must be retried before adding session context'')))"

definition require_turn :: "pystr sop" where
  "require_turn =
     obind (rec_get rc_turn) (\<lambda>t. case t of None \<Rightarrow> ofail (RecorderError (lit ''Session event requires an active turn''))
                                          | Some turn \<Rightarrow> oret turn)"

definition open_turn :: "recorder_env \<Rightarrow> string \<Rightarrow> (pystr \<times> json) list \<Rightarrow> json list \<Rightarrow> pystr sop" where
  "open_turn env actor payload artifacts =
     obind (fresh_id env) (\<lambda>turn.
     obind (rec_append env (lit ''turn.started'') actor payload (Some turn) None artifacts) (\<lambda>event.
     obind (rec_set (\<lambda>r. r\<lparr>rc_turn := Some turn, rc_started := Some (se_timestamp event), rc_assistants := 0,
                           rc_batches := 0\<rparr>)) (\<lambda>_.
     oret turn)))"

definition require_no_turn :: "string \<Rightarrow> unit sop" where
  "require_no_turn message = obind (rec_get rc_turn) (\<lambda>t. require (t = None) message)"

definition start_turn :: "recorder_env \<Rightarrow> (pystr \<times> json) list \<Rightarrow> pystr sop" where
  "start_turn env message =
     obind require_settled_context (\<lambda>_.
     obind (require_no_turn ''Cannot start a session turn while another turn is open'') (\<lambda>_.
     obind (with_store (prepare_message (re_artifacts env) message)) (\<lambda>(msg, artifacts).
     open_turn env ''user'' [(lit ''message'', JObj msg)] artifacts)))"

definition start_continuation_turn :: "recorder_env \<Rightarrow> pystr sop" where
  "start_continuation_turn env =
     obind require_settled_context (\<lambda>_.
     obind (require_no_turn ''Cannot start a session turn while another turn is open'') (\<lambda>_.
     open_turn env ''system'' [(lit ''continuation'', JBool True)] []))"

definition read_pending_turn :: "recorder_env \<Rightarrow> pystr \<Rightarrow> pystr \<Rightarrow> session_event list option sop" where
  "read_pending_turn env epoch turn =
     obind (all_events env) (\<lambda>events.
     obind (current_epoch env) (\<lambda>current.
     obind (require (epoch = current) ''Cannot retry pending messages into a different context epoch'') (\<lambda>_.
     obind (rec_get id) (\<lambda>r.
     if st_depth (rc_stamp r) = 0 \<and>
        \<not> list_ex (\<lambda>t. ts_turn t = turn) (collect_epoch_turns (ar_repr (re_artifacts env)) events epoch)
     then oret None
     else obind (require (rc_turn r = None \<or> rc_turn r = Some turn) ''Cannot retry pending messages during another turn'') (\<lambda>_.
          oret (Some (filter (\<lambda>e. se_epoch e = epoch \<and> se_turn e = Some turn) events)))))))"

definition is_pending_event :: "recorder \<Rightarrow> pystr \<Rightarrow> string \<Rightarrow> pystr \<Rightarrow> session_event \<Rightarrow> bool" where
  "is_pending_event r event_type id_key payload_id e =
     (se_type e = event_type \<and> se_agent_id e = Some (st_agent_id (rc_stamp r)) \<and>
      json_get (se_payload e) (lit id_key) = JStr payload_id)"

definition find_pending_event ::
  "recorder \<Rightarrow> session_event list \<Rightarrow> pystr \<Rightarrow> string \<Rightarrow> pystr \<Rightarrow> session_event option" where
  "find_pending_event r events event_type id_key payload_id = find (is_pending_event r event_type id_key payload_id) events"

text \<open>The payload of an assistant event: the LLM call is moved out of the usage metadata.\<close>

definition assistant_payload :: "pending_assistant \<Rightarrow> (pystr \<times> json) list \<Rightarrow> (pystr \<times> json) list" where
  "assistant_payload p msg =
     (let (msg, llm_call) =
            (case json_get msg (lit ''usage_metadata'') of
               JObj md \<Rightarrow>
                 (let md' = dict_remove (lit ''llm_call'') md
                  in (if md' = [] then dict_remove (lit ''usage_metadata'') msg
                      else dict_set (lit ''usage_metadata'') (JObj md') msg, json_get md (lit ''llm_call'')))
             | _ \<Rightarrow> (msg, JNull));
          payload =
            [(lit ''message'', JObj msg), (lit ''message_id'', JStr (pa_message_id p)),
             (lit ''origin_type'', JStr (lit ''llm'')), (lit ''llm_call_id'', JNull), (lit ''provider'', JNull),
             (lit ''model'', JNull), (lit ''reasoning_effort'', opt_str (pa_effort p)), (lit ''llm_call_count'', JInt 1)]
      in case llm_call of
           JObj call \<Rightarrow>
             fold (\<lambda>k. dict_set (lit k) (json_get call (lit k))) [''llm_call_id'', ''run_id'', ''provider'', ''model''] payload
         | _ \<Rightarrow> payload)"

definition append_pending_assistant :: "recorder_env \<Rightarrow> pending_assistant \<Rightarrow> session_event sop" where
  "append_pending_assistant env p =
     obind (with_store (prepare_message (re_artifacts env) (pa_message p))) (\<lambda>(msg, artifacts).
     rec_append env (lit ''assistant.message'') ''assistant'' (assistant_payload p msg) (Some (pa_turn p))
       (Some (pa_epoch p)) artifacts)"

text \<open>After the commit the message is replayed from the event.\<close>

definition replay :: "recorder_env \<Rightarrow> session_event \<Rightarrow> (pystr \<times> json) list sop" where
  "replay env event s =
     (case json_get (se_payload event) (lit ''message'') of
        JObj m \<Rightarrow> (hydrate_message (re_artifacts env) (ss_store s) m, s)
      | _ \<Rightarrow> (Inl (RecorderError (lit ''message'')), s))"

definition settle_assistant ::
  "recorder_env \<Rightarrow> bool \<Rightarrow> pending_assistant \<Rightarrow> session_event \<Rightarrow> (pystr \<times> json) list option sop" where
  "settle_assistant env defer_projection p event =
     obind (rec_set (\<lambda>r. r\<lparr>rc_assistants := (if \<not> pa_committed p \<and> rc_turn r = Some (pa_turn p)
                                             then rc_assistants r + 1 else rc_assistants r),
                           rc_pending_assistant := Some (p\<lparr>pa_committed := True\<rparr>)\<rparr>)) (\<lambda>_.
     obind (replay env event) (\<lambda>replayed.
     obind (rec_set (\<lambda>r. if defer_projection then r else r\<lparr>rc_pending_assistant := None\<rparr>)) (\<lambda>_.
     oret (Some replayed))))"

definition commit_pending_assistant ::
  "recorder_env \<Rightarrow> bool \<Rightarrow> bool \<Rightarrow> pending_assistant \<Rightarrow> (pystr \<times> json) list option sop" where
  "commit_pending_assistant env retry defer_projection p =
     (if retry then
        obind (read_pending_turn env (pa_epoch p) (pa_turn p)) (\<lambda>found.
        case found of
          None \<Rightarrow> obind (rec_set (\<lambda>r. r\<lparr>rc_pending_assistant := None\<rparr>)) (\<lambda>_. oret None)
        | Some events \<Rightarrow>
            obind (rec_get id) (\<lambda>r.
            case find_pending_event r events (lit ''assistant.message'') ''message_id'' (pa_message_id p) of
              Some event \<Rightarrow> settle_assistant env defer_projection p event
            | None \<Rightarrow> obind (append_pending_assistant env p) (settle_assistant env defer_projection p)))
      else obind (append_pending_assistant env p) (settle_assistant env defer_projection p))"

definition record_assistant ::
  "recorder_env \<Rightarrow> (pystr \<times> json) list \<Rightarrow> pystr option \<Rightarrow> bool \<Rightarrow> unit sop" where
  "record_assistant env message effort defer_projection =
     obind require_settled_context (\<lambda>_.
     obind require_turn (\<lambda>turn.
     obind (fresh_id env) (\<lambda>mid.
     obind (current_epoch env) (\<lambda>epoch.
     let p = \<lparr>pa_message_id = mid, pa_epoch = epoch, pa_turn = turn, pa_message = message, pa_effort = effort,
              pa_committed = False\<rparr>
     in obind (rec_set (\<lambda>r. r\<lparr>rc_pending_assistant := Some p\<rparr>)) (\<lambda>_.
        obind (commit_pending_assistant env False defer_projection p) (\<lambda>_. oret ()))))))"

definition retry_pending_assistant :: "recorder_env \<Rightarrow> bool \<Rightarrow> (pystr \<times> json) list option sop" where
  "retry_pending_assistant env defer_projection =
     obind (rec_get rc_pending_assistant) (\<lambda>pending.
     case pending of None \<Rightarrow> oret None | Some p \<Rightarrow> commit_pending_assistant env True defer_projection p)"

definition acknowledge_assistant :: "unit sop" where
  "acknowledge_assistant =
     obind (rec_get rc_pending_assistant) (\<lambda>pending.
     obind (require (case pending of None \<Rightarrow> False | Some p \<Rightarrow> pa_committed p)
              ''Cannot acknowledge an assistant message before its commit'') (\<lambda>_.
     rec_set (\<lambda>r. r\<lparr>rc_pending_assistant := None\<rparr>)))"

definition record_synthetic_assistant :: "recorder_env \<Rightarrow> pystr \<Rightarrow> pystr \<Rightarrow> unit sop" where
  "record_synthetic_assistant env txt notice_code =
     obind require_settled_context (\<lambda>_.
     obind (rec_get rc_turn) (\<lambda>turn.
     obind (rec_append env (lit ''assistant.message'') ''assistant''
              [(lit ''message'', JObj [(lit ''role'', JStr (lit ''assistant'')),
                  (lit ''content'', JList [JObj [(lit ''type'', JStr (lit ''text'')), (lit ''text'', JStr txt)]]),
                  (lit ''stop_reason'', JStr (lit ''end_turn''))]),
               (lit ''origin_type'', JStr (lit ''synthetic'')), (lit ''llm_call_id'', JNull),
               (lit ''llm_call_count'', JInt 0), (lit ''notice_code'', JStr notice_code)]
              turn None []) (\<lambda>_.
     rec_set (\<lambda>r. if turn \<noteq> None then r\<lparr>rc_assistants := rc_assistants r + 1\<rparr> else r))))"

definition fingerprint :: "recorder_env \<Rightarrow> pystr \<Rightarrow> pystr sop" where
  "fingerprint env txt =
     (case utf8_encode txt of None \<Rightarrow> ofail EncodeFailed | Some b \<Rightarrow> oret (ar_sha (re_artifacts env) b))"

definition record_system_context :: "recorder_env \<Rightarrow> pystr \<Rightarrow> bool sop" where
  "record_system_context env txt =
     obind (fingerprint env txt) (\<lambda>fp.
     obind require_settled_context (\<lambda>_.
     obind (rec_get id) (\<lambda>r.
     if rc_system_fingerprint r = Some fp then oret False
     else obind (with_store (prepare_message (re_artifacts env)
                   [(lit ''role'', JStr (lit ''system'')),
                    (lit ''content'', JList [JObj [(lit ''type'', JStr (lit ''text'')), (lit ''text'', JStr txt)]])])) (\<lambda>(msg, artifacts).
          obind (rec_append env (lit ''context.system'') ''system'' [(lit ''message'', JObj msg), (lit ''sha256'', JStr fp)]
                   (rc_turn r) None artifacts) (\<lambda>_.
          obind (rec_set (\<lambda>r. r\<lparr>rc_system_fingerprint := Some fp\<rparr>)) (\<lambda>_. oret True))))))"

definition record_tool_definitions :: "recorder_env \<Rightarrow> json list \<Rightarrow> bool sop" where
  "record_tool_definitions env tools =
     obind (fingerprint env (re_canonical env (JList tools))) (\<lambda>fp.
     obind require_settled_context (\<lambda>_.
     obind (rec_get id) (\<lambda>r.
     if tools = [] then oret False
     else if rc_tools_fingerprint r = Some fp then oret False
     else obind (rec_append env (lit ''context.tools'') ''system'' [(lit ''tools'', JList tools), (lit ''sha256'', JStr fp)]
                   (rc_turn r) None []) (\<lambda>_.
          obind (rec_set (\<lambda>r. r\<lparr>rc_tools_fingerprint := Some fp\<rparr>)) (\<lambda>_. oret True)))))"

section \<open>Tool results\<close>

definition results_message :: "json list \<Rightarrow> (pystr \<times> json) list" where
  "results_message results =
     [(lit ''role'', JStr (lit ''user'')), (lit ''content'', JList results), (lit ''stop_reason'', JNull),
      (lit ''usage_metadata'', JObj [])]"

definition append_pending_results :: "recorder_env \<Rightarrow> pending_tool_results \<Rightarrow> session_event sop" where
  "append_pending_results env p =
     obind (with_store (prepare_message (re_artifacts env) (results_message (pt_results p)))) (\<lambda>(msg, artifacts).
     rec_append env (lit ''tool.results'') ''tool'' [(lit ''message'', JObj msg), (lit ''batch_id'', JStr (pt_batch p))]
       (Some (pt_turn p)) (Some (pt_epoch p)) artifacts)"

text \<open>The replayed message must consist of tool results only.\<close>

definition replayed_results :: "(pystr \<times> json) list \<Rightarrow> json list option" where
  "replayed_results m =
     (case json_get m (lit ''content'') of
        JList bs \<Rightarrow>
          if list_all (\<lambda>b. case b of JObj d \<Rightarrow> json_get d (lit ''type'') = JStr (lit ''tool_result'') | _ \<Rightarrow> False) bs
          then Some bs else None
      | _ \<Rightarrow> None)"

definition settle_results ::
  "recorder_env \<Rightarrow> bool \<Rightarrow> pending_tool_results \<Rightarrow> session_event \<Rightarrow> json list option sop" where
  "settle_results env defer_projection p event =
     obind (rec_set (\<lambda>r. r\<lparr>rc_batches := (if \<not> pt_committed p \<and> rc_turn r = Some (pt_turn p)
                                          then rc_batches r + 1 else rc_batches r),
                           rc_pending_tools := Some (p\<lparr>pt_committed := True\<rparr>)\<rparr>)) (\<lambda>_.
     obind (replay env event) (\<lambda>m.
     case replayed_results m of
       None \<Rightarrow> ofail (RecorderError (lit ''Prepared tool result event did not replay as tool results''))
     | Some results \<Rightarrow>
         obind (rec_set (\<lambda>r. if defer_projection then r else r\<lparr>rc_pending_tools := None\<rparr>)) (\<lambda>_.
         oret (Some results))))"

definition commit_pending_tool_results ::
  "recorder_env \<Rightarrow> bool \<Rightarrow> bool \<Rightarrow> pending_tool_results \<Rightarrow> json list option sop" where
  "commit_pending_tool_results env retry defer_projection p =
     (if retry then
        obind (read_pending_turn env (pt_epoch p) (pt_turn p)) (\<lambda>found.
        case found of
          None \<Rightarrow> obind (rec_set (\<lambda>r. r\<lparr>rc_pending_tools := None\<rparr>)) (\<lambda>_. oret None)
        | Some events \<Rightarrow>
            obind (rec_get id) (\<lambda>r.
            case find_pending_event r events (lit ''tool.results'') ''batch_id'' (pt_batch p) of
              Some event \<Rightarrow> settle_results env defer_projection p event
            | None \<Rightarrow> obind (append_pending_results env p) (settle_results env defer_projection p)))
      else obind (append_pending_results env p) (settle_results env defer_projection p))"

definition retain_results :: "recorder_env \<Rightarrow> pystr \<Rightarrow> json list \<Rightarrow> pending_tool_results sop" where
  "retain_results env turn results =
     obind (fresh_id env) (\<lambda>batch.
     obind (current_epoch env) (\<lambda>epoch.
     let p = \<lparr>pt_batch = batch, pt_epoch = epoch, pt_turn = turn, pt_results = results, pt_committed = False\<rparr>
     in obind (rec_set (\<lambda>r. r\<lparr>rc_pending_tools := Some p\<rparr>)) (\<lambda>_. oret p)))"

definition record_tool_results :: "recorder_env \<Rightarrow> json list \<Rightarrow> bool \<Rightarrow> json list option sop" where
  "record_tool_results env results defer_projection =
     obind require_settled_context (\<lambda>_.
     obind require_turn (\<lambda>turn.
     obind (retain_results env turn results) (commit_pending_tool_results env False defer_projection)))"

definition retry_pending_tool_results :: "recorder_env \<Rightarrow> bool \<Rightarrow> json list option sop" where
  "retry_pending_tool_results env defer_projection =
     obind (rec_get rc_pending_tools) (\<lambda>pending.
     case pending of None \<Rightarrow> oret None | Some p \<Rightarrow> commit_pending_tool_results env True defer_projection p)"

definition acknowledge_tool_results :: "unit sop" where
  "acknowledge_tool_results =
     obind (rec_get rc_pending_tools) (\<lambda>pending.
     obind (require (case pending of None \<Rightarrow> False | Some p \<Rightarrow> pt_committed p)
              ''Cannot acknowledge tool results before their commit'') (\<lambda>_.
     rec_set (\<lambda>r. r\<lparr>rc_pending_tools := None\<rparr>)))"

section \<open>Other records\<close>

definition record_context_message :: "recorder_env \<Rightarrow> (pystr \<times> json) list \<Rightarrow> string \<Rightarrow> unit sop" where
  "record_context_message env message actor =
     obind require_settled_context (\<lambda>_.
     obind (with_store (prepare_message (re_artifacts env) message)) (\<lambda>(msg, artifacts).
     obind (rec_get rc_turn) (\<lambda>turn.
     obind (rec_append env (lit ''context.message'') actor [(lit ''message'', JObj msg)] turn None artifacts) (\<lambda>_. oret ()))))"

definition record_workspace_switched :: "recorder_env \<Rightarrow> (pystr \<times> json) list \<Rightarrow> unit sop" where
  "record_workspace_switched env roots =
     obind require_settled_context (\<lambda>_.
     obind (rec_get rc_turn) (\<lambda>turn.
     obind (rec_append env (lit ''session.workspace_switched'') ''system''
              (map (\<lambda>k. (lit k, json_get roots (lit k)))
                 [''old_root'', ''new_root'', ''old_label'', ''new_label'', ''old_branch'', ''new_branch'']) turn None []) (\<lambda>_.
     oret ())))"

definition record_compaction :: "recorder_env \<Rightarrow> (pystr \<times> json) list \<Rightarrow> (pystr \<times> json) list \<Rightarrow> unit sop" where
  "record_compaction env compaction info =
     obind require_settled_context (\<lambda>_.
     obind (rec_get rc_turn) (\<lambda>turn.
     obind (rec_append env (lit ''context.compacted'') ''system''
              (fold (\<lambda>(k, v). dict_set k v) info [(lit ''compaction'', JObj compaction)]) turn None []) (\<lambda>_.
     oret ())))"

text \<open>Skill, goal and loop records and the records of a subagent, which are appended as they are.\<close>

definition record_plain :: "recorder_env \<Rightarrow> pystr \<Rightarrow> (pystr \<times> json) list \<Rightarrow> pystr option \<Rightarrow> unit sop" where
  "record_plain env event_type payload turn =
     obind (rec_append env event_type ''system'' payload turn None []) (\<lambda>_. oret ())"

definition record_skill_activated :: "recorder_env \<Rightarrow> pystr \<Rightarrow> pystr \<Rightarrow> bool \<Rightarrow> unit sop" where
  "record_skill_activated env name source already_active =
     obind (rec_get rc_turn) (record_plain env (lit ''skill.activated'')
       [(lit ''name'', JStr name), (lit ''source'', JStr source), (lit ''already_active'', JBool already_active)])"

definition record_goal_or_loop :: "recorder_env \<Rightarrow> string \<Rightarrow> (pystr \<times> json) list \<Rightarrow> unit sop" where
  "record_goal_or_loop env event_type payload = record_plain env (lit event_type) payload None"

definition record_agent_started :: "recorder_env \<Rightarrow> (pystr \<times> json) list \<Rightarrow> pystr option \<Rightarrow> unit sop" where
  "record_agent_started env payload turn = record_plain env (lit ''agent.started'') payload turn"

definition record_agent_terminal :: "recorder_env \<Rightarrow> string \<Rightarrow> (pystr \<times> json) list \<Rightarrow> unit sop" where
  "record_agent_terminal env status payload =
     obind (require (status \<in> {''completed'', ''failed''}) ''Unknown terminal agent status'') (\<lambda>_.
     record_plain env (lit ''agent.'' @ lit status) payload None)"

definition record_run_terminal :: "recorder_env \<Rightarrow> string \<Rightarrow> (pystr \<times> json) list \<Rightarrow> unit sop" where
  "record_run_terminal env status payload =
     obind (require (status \<in> {''completed'', ''failed'', ''cancelled''}) ''Unknown terminal run status'') (\<lambda>_.
     obind (require_root ''A run terminal record is only valid for the root agent recorder'') (\<lambda>_.
     obind (rec_get rc_run_terminal) (\<lambda>recorded.
     if recorded then oret ()
     else obind (record_plain env (lit ''run.'' @ lit status) payload None) (\<lambda>_.
          rec_set (\<lambda>r. r\<lparr>rc_run_terminal := True\<rparr>)))))"

definition recorder_start_epoch :: "recorder_env \<Rightarrow> pystr \<Rightarrow> pystr sop" where
  "recorder_start_epoch env reason =
     obind (require_root ''A context epoch reset is only valid for the root agent recorder'') (\<lambda>_.
     obind require_settled_context (\<lambda>_.
     obind (require_no_turn ''Cannot reset context while a session turn is open'') (\<lambda>_.
     obind (rec_set (\<lambda>r. r\<lparr>rc_system_fingerprint := None, rc_tools_fingerprint := None\<rparr>)) (\<lambda>_.
     obind (fresh_id env) (\<lambda>epoch.
     with_journal env (\<lambda>lk f ident. start_epoch (re_codec env) lk f ident epoch reason))))))"

section \<open>Closing a turn\<close>

definition retry_pending_turn_terminal :: "recorder_env \<Rightarrow> unit sop" where
  "retry_pending_turn_terminal env =
     obind (rec_get id) (\<lambda>r.
     case rc_pending_terminal r of
       None \<Rightarrow> oret ()
     | Some p \<Rightarrow>
         obind (read_pending_turn env (px_epoch p) (px_turn p)) (\<lambda>found.
         obind (case found of
                  Some events \<Rightarrow>
                    if list_ex (\<lambda>e. se_type e \<in> set terminal_types \<and> se_agent_id e = Some (st_agent_id (rc_stamp r))) events
                    then oret ()
                    else obind (rec_append env (px_type p) ''system'' (px_payload p) (Some (px_turn p)) (Some (px_epoch p)) [])
                           (\<lambda>_. oret ())
                | None \<Rightarrow> oret ()) (\<lambda>_.
         rec_set (\<lambda>r. (if rc_turn r = Some (px_turn p) then r\<lparr>rc_turn := None, rc_started := None\<rparr> else r)
                        \<lparr>rc_pending_terminal := None\<rparr>))))"

definition terminal_payload :: "recorder_env \<Rightarrow> recorder \<Rightarrow> nat \<Rightarrow> pystr option \<Rightarrow> pystr option \<Rightarrow> (pystr \<times> json) list" where
  "terminal_payload env r tick err reason =
     [(lit ''assistant_messages'', JInt (rc_assistants r)), (lit ''tool_result_batches'', JInt (rc_batches r))] @
     (case rc_started r of
        None \<Rightarrow> []
      | Some started \<Rightarrow>
          (lit ''started_at'', JStr started) #
          (case re_elapsed env started tick of None \<Rightarrow> [] | Some ms \<Rightarrow> [(lit ''duration_ms'', JInt (max 0 ms))])) @
     (case err of Some e \<Rightarrow> if e \<noteq> [] then [(lit ''error'', JStr (take 2000 e))] else [] | None \<Rightarrow> []) @
     (case reason of Some x \<Rightarrow> if x \<noteq> [] then [(lit ''reason'', JStr x)] else [] | None \<Rightarrow> [])"

definition get_tick :: "nat sop" where
  "get_tick s = (Inr (ss_tick s), s)"

definition finish_turn :: "recorder_env \<Rightarrow> string \<Rightarrow> pystr option \<Rightarrow> pystr option \<Rightarrow> unit sop" where
  "finish_turn env status err reason =
     obind (require (status \<in> {''completed'', ''failed'', ''cancelled''}) ''Unknown terminal turn status'') (\<lambda>_.
     obind (rec_get id) (\<lambda>r.
     if rc_pending_terminal r \<noteq> None then retry_pending_turn_terminal env
     else obind require_turn (\<lambda>turn.
          obind get_tick (\<lambda>tick.
          obind (current_epoch env) (\<lambda>epoch.
          obind (rec_set (\<lambda>r. r\<lparr>rc_pending_terminal :=
                    Some \<lparr>px_epoch = epoch, px_turn = turn, px_type = lit ''turn.'' @ lit status,
                          px_payload = terminal_payload env r tick err reason\<rparr>\<rparr>)) (\<lambda>_.
          retry_pending_turn_terminal env))))))"

section \<open>Rewinding\<close>

definition list_rewindable_turns :: "recorder_env \<Rightarrow> turn_summary list sop" where
  "list_rewindable_turns env =
     obind (all_events env) (\<lambda>events.
     obind (current_epoch env) (\<lambda>epoch. oret (collect_epoch_turns (ar_repr (re_artifacts env)) events epoch)))"

record rewind_outcome =
  ro_target :: pystr
  ro_boundary :: int
  ro_turns :: "pystr list"
  ro_text :: pystr

text \<open>Retained messages of a removed turn are dropped.\<close>

definition drop_rewound :: "pystr list \<Rightarrow> recorder \<Rightarrow> recorder" where
  "drop_rewound rewound r =
     r\<lparr>rc_pending_tools := (case rc_pending_tools r of
           Some p \<Rightarrow> if pt_turn p \<in> set rewound then None else Some p | None \<Rightarrow> None),
       rc_pending_assistant := (case rc_pending_assistant r of
           Some p \<Rightarrow> if pa_turn p \<in> set rewound then None else Some p | None \<Rightarrow> None)\<rparr>"

definition record_rewind :: "recorder_env \<Rightarrow> pystr \<Rightarrow> rewind_outcome sop" where
  "record_rewind env target_turn =
     obind (require_root ''A context rewind is only valid for the root agent recorder'') (\<lambda>_.
     obind (rec_get id) (\<lambda>r.
     obind (require (rc_pending_terminal r = None) ''Unsettled turn terminal must be retried before rewinding session context'') (\<lambda>_.
     obind (require (rc_turn r = None) ''Cannot rewind while a session turn is open'') (\<lambda>_.
     obind (list_rewindable_turns env) (\<lambda>turns.
     case find (\<lambda>t. ts_turn t = target_turn) turns of
       None \<Rightarrow> ofail (RecorderError (lit ''Turn is not rewindable in the current context epoch''))
     | Some target \<Rightarrow>
         let rewound = map ts_turn (filter (\<lambda>t. ts_boundary t \<ge> ts_boundary target) turns)
         in obind (rec_append env (lit ''context.rewound'') ''user''
                     [(lit ''target_turn_id'', JStr (ts_turn target)), (lit ''boundary_seq'', JInt (ts_boundary target)),
                      (lit ''rewound_turn_ids'', JList (map JStr rewound))] None None []) (\<lambda>_.
            obind (rec_set (drop_rewound rewound)) (\<lambda>_.
            oret \<lparr>ro_target = ts_turn target, ro_boundary = ts_boundary target, ro_turns = rewound,
                  ro_text = ts_text target\<rparr>)))))))"

section \<open>Recovery\<close>

definition answers :: "(pystr \<times> json) list \<Rightarrow> (pystr \<times> json) list \<Rightarrow> bool" where
  "answers result call =
     (if truthy (json_get result (lit ''execution_id'')) \<and> truthy (json_get call (lit ''execution_id''))
      then json_get result (lit ''execution_id'') = json_get call (lit ''execution_id'')
      else json_get result (lit ''tool_use_id'') = json_get call (lit ''id''))"

definition interrupted_result :: "(json \<Rightarrow> pystr) \<Rightarrow> (pystr \<times> json) list \<Rightarrow> json" where
  "interrupted_result repr call =
     JObj ([(lit ''type'', JStr (lit ''tool_result'')), (lit ''tool_use_id'', JStr (py_str repr (json_get call (lit ''id'')))),
            (lit ''content'', JStr (lit ''Tool execution was interrupted before a durable result was recorded. The tool was not re-run.'')),
            (lit ''name'', JStr (let n = str_or_empty repr (json_get call (lit ''name'')) in if n \<noteq> [] then n else lit ''unknown_tool'')),
            (lit ''is_error'', JBool True),
            (lit ''input_kind'', (case dict_get call (lit ''input_kind'') of None \<Rightarrow> JStr (lit ''json'') | Some v \<Rightarrow> v))] @
           (if truthy (json_get call (lit ''execution_id'')) then [(lit ''execution_id'', json_get call (lit ''execution_id''))] else []))"

definition last_assistant_message :: "session_event list \<Rightarrow> json option" where
  "last_assistant_message events =
     (case filter (\<lambda>e. se_type e = lit ''assistant.message'' \<and> is_object (json_get (se_payload e) (lit ''message''))) events of
        [] \<Rightarrow> None
      | es \<Rightarrow> Some (json_get (se_payload (last es)) (lit ''message'')))"

definition result_blocks :: "session_event list \<Rightarrow> (pystr \<times> json) list list" where
  "result_blocks events =
     filter (\<lambda>b. json_get b (lit ''type'') = JStr (lit ''tool_result'') \<and> truthy (json_get b (lit ''tool_use_id'')))
       (concat (map (\<lambda>e. message_blocks (json_get (se_payload e) (lit ''message'')))
                  (filter (\<lambda>e. se_type e = lit ''tool.results'') events)))"

definition unanswered_calls :: "session_event list \<Rightarrow> (pystr \<times> json) list list" where
  "unanswered_calls events =
     (case last_assistant_message events of
        None \<Rightarrow> []
      | Some m \<Rightarrow>
          filter (\<lambda>b. json_get b (lit ''type'') = JStr (lit ''tool_call'') \<and> truthy (json_get b (lit ''id'')) \<and>
                      \<not> list_ex (\<lambda>res. answers res b) (result_blocks events)) (message_blocks m))"

definition turn_events :: "pystr \<Rightarrow> turn_summary \<Rightarrow> session_event list \<Rightarrow> session_event list" where
  "turn_events epoch t events =
     filter (\<lambda>e. se_epoch e = epoch \<and> root_event e \<and> se_turn e = Some (ts_turn t) \<and> se_seq e \<ge> ts_boundary t) events"

definition latest_root_turn ::
  "recorder_env \<Rightarrow> session_event list \<Rightarrow> (turn_summary \<times> json option \<times> json list) option sop" where
  "latest_root_turn env events =
     obind (current_epoch env) (\<lambda>epoch.
     let turns = collect_epoch_turns (ar_repr (re_artifacts env)) events epoch
     in if turns = [] then oret None
        else let t = last turns; es = turn_events epoch t events
             in oret (Some (t, last_assistant_message es,
                            map (interrupted_result (ar_repr (re_artifacts env))) (unanswered_calls es))))"

definition repair_interrupted_tool_results :: "recorder_env \<Rightarrow> bool \<Rightarrow> json list option sop" where
  "repair_interrupted_tool_results env defer_projection =
     obind (require_root ''Interrupted tool-result repair is only valid for the root agent recorder'') (\<lambda>_.
     obind (rec_get id) (\<lambda>r.
     obind (require (rc_pending_assistant r = None) ''Unsettled assistant message must be projected before repairing tool results'') (\<lambda>_.
     if rc_pending_tools r \<noteq> None then retry_pending_tool_results env defer_projection
     else obind (all_events env) (\<lambda>events.
          obind (latest_root_turn env events) (\<lambda>latest.
          case latest of
            None \<Rightarrow> oret None
          | Some (t, _, missing) \<Rightarrow>
              if missing = [] then oret None
              else obind (retain_results env (ts_turn t) missing) (\<lambda>_. retry_pending_tool_results env defer_projection))))))"

definition recover_interrupted_turn :: "recorder_env \<Rightarrow> bool sop" where
  "recover_interrupted_turn env =
     obind (rec_get rc_stamp) (\<lambda>stamp.
     if st_depth stamp \<noteq> 0 then oret False
     else obind (all_events env) (\<lambda>events.
          obind (latest_root_turn env events) (\<lambda>latest.
          case latest of
            None \<Rightarrow> oret False
          | Some (t, last_assistant, missing) \<Rightarrow>
              if ts_status t \<noteq> lit ''open'' \<and> missing = [] then oret False
              else obind (rec_set (\<lambda>r. if ts_status t = lit ''open'' then r\<lparr>rc_turn := Some (ts_turn t)\<rparr> else r)) (\<lambda>_.
                   obind (repair_interrupted_tool_results env False) (\<lambda>_.
                   obind (if ts_status t = lit ''open'' then
                            (case last_assistant of
                               Some m \<Rightarrow>
                                 if list_ex (\<lambda>b. json_get b (lit ''type'') = JStr (lit ''tool_call'')) (message_blocks m)
                                 then finish_turn env ''failed''
                                        (Some (lit ''Process exited before the turn reached a durable terminal marker'')) None
                                 else finish_turn env ''completed'' None None
                             | None \<Rightarrow>
                                 finish_turn env ''failed''
                                   (Some (lit ''Process exited before the turn reached a durable terminal marker'')) None)
                          else oret ()) (\<lambda>_. oret True))))))"

end
