(* ===== verification/Recorder_Laws.thy ===== *)
theory Recorder_Laws
  imports Session_Recorder
begin

text \<open>
  Laws of the session recorder: rewinding, and retries of a retained response. The laws of the journal below it
  enter through \<open>read_events_ok\<close>, \<open>epoch_id_ok\<close> and \<open>append_ok\<close>.
\<close>

section \<open>The journal under a recorder\<close>

lemma ensure_loaded_ok:
  assumes ok: "journal_ok cd j es" and load: "ensure_loaded cd lk f j = (r, j')"
  shows "journal_ok cd j' es" "r = Inr u \<Longrightarrow> jn_epoch j' = latest_epoch es"
proof -
  have "journal_ok cd j' es \<and> (r = Inr u \<longrightarrow> jn_epoch j' = latest_epoch es)"
  proof (cases "jn_loaded j \<and> \<not> jn_tail_recovery j")
    case True
    with load ok show ?thesis
      by (auto simp: ensure_loaded_def journal_ok_def cache_current_def)
  next
    case False
    obtain r1 j1 where r1: "read_events cd lk True f j = (r1, j1)" by fastforce
    note rd = read_events_ok[OF ok r1]
    have "j' = j1 \<and> (\<forall>e. r1 = Inl e \<longrightarrow> r = Inl e)"
      using load False r1
      by (auto simp: ensure_loaded_def read_events_def split: prod.splits sum.splits)
    moreover have "jn_epoch j1 = latest_epoch es" if "r1 = Inr fs" for fs
      using r1 that rd(2)[OF that] by (auto simp: read_events_def split: prod.splits sum.splits)
    ultimately show ?thesis
      using rd(1) by (cases r1) auto
  qed
  then show "journal_ok cd j' es" "r = Inr u \<Longrightarrow> jn_epoch j' = latest_epoch es" by blast+
qed

lemma epoch_id_ok:
  assumes "journal_ok cd j es" "epoch_id cd lk f j = (r, j')"
  shows "journal_ok cd j' es" "r = Inr ep \<Longrightarrow> latest_epoch es = Some ep"
proof -
  obtain r1 j1 where l: "ensure_loaded cd lk f j = (r1, j1)" by fastforce
  note ld = ensure_loaded_ok[OF assms(1) l]
  show "journal_ok cd j' es" "r = Inr ep \<Longrightarrow> latest_epoch es = Some ep"
    using assms(2) l ld by (auto simp: epoch_id_def split: sum.splits option.splits)
qed

text \<open>The recorder's state with the events that its journal holds.\<close>

definition session_ok :: "recorder_env \<Rightarrow> session_state \<Rightarrow> session_event list \<Rightarrow> bool" where
  "session_ok env s es \<longleftrightarrow> journal_ok (re_codec env) (ss_journal s) es"

definition env_ok :: "recorder_env \<Rightarrow> bool" where
  "env_ok env \<longleftrightarrow> (\<forall>e. codec_law (re_codec env) e) \<and> (\<forall>n. re_id env n \<noteq> [] \<and> re_now env n \<noteq> [])"

definition stamp_ok :: "agent_stamp \<Rightarrow> bool" where
  "stamp_ok st \<longleftrightarrow> st_agent_id st \<noteq> [] \<and> st_agent_name st \<noteq> [] \<and> st_parent_agent st \<noteq> Some [] \<and>
     st_parent_call st \<noteq> Some [] \<and> st_depth st \<ge> 0"

lemma rec_ops [simp]:
  "rec_get f s = (Inr (f (ss_rec s)), s)" "rec_set g s = (Inr (), s\<lparr>ss_rec := g (ss_rec s)\<rparr>)"
  "require True m = oret ()" "require False m = ofail (RecorderError (lit m))"
  by (simp_all add: rec_get_def rec_set_def require_def)

lemma require_Inr: "require b m s = (Inr u, s') \<longleftrightarrow> b \<and> s' = s"
  by (cases b) auto

lemma session_ok_rec [simp]: "session_ok env (s\<lparr>ss_rec := r\<rparr>) es = session_ok env s es"
  by (simp add: session_ok_def)

lemma session_ok_store [simp]: "session_ok env (s\<lparr>ss_store := st\<rparr>) es = session_ok env s es"
  by (simp add: session_ok_def)

lemma all_events_ok:
  assumes "session_ok env s es" "all_events env s = (r, s')"
  shows "session_ok env s' es" "ss_rec s' = ss_rec s" "ss_store s' = ss_store s" "r = Inr fs \<Longrightarrow> fs = es"
proof -
  obtain r1 j1 where r1: "read_events (re_codec env) (re_lock env (ss_tick s)) True (re_faults env (ss_tick s)) (ss_journal s) = (r1, j1)"
    by fastforce
  have res: "r = r1" "s' = s\<lparr>ss_journal := j1, ss_tick := Suc (ss_tick s)\<rparr>"
    using assms(2) r1 by (simp_all add: all_events_def with_journal_def Let_def)
  note rd = read_events_ok[OF assms(1)[unfolded session_ok_def] r1]
  show "session_ok env s' es" "ss_rec s' = ss_rec s" "ss_store s' = ss_store s" "r = Inr fs \<Longrightarrow> fs = es"
    using rd(1,2) res by (simp_all add: session_ok_def)
qed

lemma current_epoch_ok:
  assumes "session_ok env s es" "current_epoch env s = (r, s')"
  shows "session_ok env s' es" "ss_rec s' = ss_rec s" "ss_store s' = ss_store s" "r = Inr ep \<Longrightarrow> latest_epoch es = Some ep"
proof -
  obtain r1 j1 where r1: "epoch_id (re_codec env) (re_lock env (ss_tick s)) (re_faults env (ss_tick s)) (ss_journal s) = (r1, j1)"
    by fastforce
  have res: "r = r1" "s' = s\<lparr>ss_journal := j1, ss_tick := Suc (ss_tick s)\<rparr>"
    using assms(2) r1 by (simp_all add: current_epoch_def with_journal_def Let_def)
  note rd = epoch_id_ok[OF assms(1)[unfolded session_ok_def] r1]
  show "session_ok env s' es" "ss_rec s' = ss_rec s" "ss_store s' = ss_store s" "r = Inr ep \<Longrightarrow> latest_epoch es = Some ep"
    using rd res by (simp_all add: session_ok_def)
qed

text \<open>The event that an append of the recorder adds.\<close>

definition appended ::
  "session_state \<Rightarrow> session_event list \<Rightarrow> pystr \<Rightarrow> (pystr \<times> json) list \<Rightarrow> pystr option \<Rightarrow> pystr option \<Rightarrow> session_event \<Rightarrow> bool" where
  "appended s es event_type payload turn epoch e \<longleftrightarrow>
     se_type e = event_type \<and> (case epoch of Some x \<Rightarrow> x \<noteq> [] \<longrightarrow> se_epoch e = x | None \<Rightarrow> latest_epoch es = Some (se_epoch e)) \<and>
     se_payload e = payload \<and> se_turn e = turn \<and> se_agent_id e = Some (st_agent_id (rc_stamp (ss_rec s))) \<and>
     se_depth e = Some (st_depth (rc_stamp (ss_rec s)))"

lemma rec_append_ok:
  assumes ok: "session_ok env s es" and env: "env_ok env" and stamp: "stamp_ok (rc_stamp (ss_rec s))"
    and draft: "event_type \<noteq> []" "actor \<noteq> ''''" "list_all is_object artifacts"
    and app: "rec_append env event_type actor payload turn epoch artifacts s = (r, s')"
  shows "ss_rec s' = ss_rec s" "ss_store s' = ss_store s"
    "r = Inr e \<Longrightarrow> session_ok env s' (es @ [e]) \<and> appended s es event_type payload turn epoch e"
    "r = Inl x \<Longrightarrow> session_ok env s' es \<or>
       (\<exists>e. session_ok env s' (es @ [e]) \<and> appended s es event_type payload turn epoch e)"
proof -
  define n where "n = ss_tick s"
  define d where "d = \<lparr>dr_type = event_type, dr_actor = lit actor, dr_payload = payload, dr_turn = turn, dr_epoch = epoch,
        dr_artifacts = artifacts, dr_agent = rc_stamp (ss_rec s)\<rparr>"
  obtain r1 j1 where r1: "journal_append (re_codec env) (re_lock env n) (re_faults env n) (re_id env n, re_now env n) d (ss_journal s) = (r1, j1)"
    by fastforce
  have res: "r = r1" "s' = s\<lparr>ss_journal := j1, ss_tick := Suc n\<rparr>"
    using app r1 by (simp_all add: rec_append_def obind_def with_journal_def Let_def n_def d_def)
  have good: "good_draft (re_id env n, re_now env n) d"
    using env stamp draft by (simp add: good_draft_def d_def env_ok_def stamp_ok_def)
  have nxt: "appended s es event_type payload turn epoch (next_event i ep d sess es)" if "epoch_of d (latest_epoch es) ep" for i ep sess
    using that by (auto simp: appended_def next_event_def make_event_def d_def epoch_of_def split: option.splits)
  have law: "\<And>e. codec_law (re_codec env) e"
    using env by (simp add: env_ok_def)
  note ap = append_ok[OF ok[unfolded session_ok_def] good law r1]
  show "ss_rec s' = ss_rec s" "ss_store s' = ss_store s" using res by simp_all
  show "session_ok env s' (es @ [e]) \<and> appended s es event_type payload turn epoch e" if "r = Inr e"
    using ap that res nxt by (auto simp: session_ok_def)
  show "session_ok env s' es \<or>
       (\<exists>e. session_ok env s' (es @ [e]) \<and> appended s es event_type payload turn epoch e)" if "r = Inl x"
    using ap that res nxt by (auto simp: session_ok_def)
qed


section \<open>Rewinding\<close>

definition increasing :: "turn_summary list \<Rightarrow> bool" where
  "increasing ts \<longleftrightarrow> sorted_wrt (\<lambda>a b. ts_boundary a < ts_boundary b) ts"

lemma close_first_boundaries: "map ts_boundary (close_first t st ts) = map ts_boundary ts"
  by (induction ts) simp_all

lemma increasing_map: "increasing ts \<longleftrightarrow> sorted_wrt (<) (map ts_boundary ts)"
  by (simp add: increasing_def sorted_wrt_map)

lemma fold_turn_increasing:
  assumes "increasing ts" "\<forall>t\<in>set ts. ts_boundary t < se_seq e"
  shows "increasing (fold_turn repr epoch e ts)" "\<forall>t\<in>set (fold_turn repr epoch e ts). ts_boundary t \<le> se_seq e"
proof -
  have close: "map ts_boundary (rev (close_first t st (rev ts))) = map ts_boundary ts" for t st
    by (simp only: rev_map[symmetric] close_first_boundaries rev_rev_ident)
  have "\<forall>t\<in>set (rev (close_first x st (rev ts))). ts_boundary t < se_seq e" for x st
  proof -
    have "ts_boundary ` set (rev (close_first x st (rev ts))) = ts_boundary ` set ts"
      using arg_cong[OF close, of set x st] by simp
    with assms(2) show ?thesis by (metis (no_types, lifting) imageE imageI)
  qed
  note closed_bound = this
  have "increasing (rev (close_first x st (rev ts)))" for x st
    using assms(1) close by (simp add: increasing_map)
  moreover have "increasing (ts @ [t])" if "ts_boundary t = se_seq e" for t
    using assms that by (simp add: increasing_def sorted_wrt_append)
  moreover have "increasing (filter P ts)" for P
    using assms(1) by (simp add: increasing_def sorted_wrt_filter)
  ultimately show "increasing (fold_turn repr epoch e ts)"
    using assms(1) by (simp add: fold_turn_def split: option.split)
  show "\<forall>t\<in>set (fold_turn repr epoch e ts). ts_boundary t \<le> se_seq e"
    using assms(2) closed_bound[of "se_turn e" "drop 5 (se_type e)"]
    by (auto simp: fold_turn_def less_imp_le split: option.split)
qed

lemma collect_turns_increasing:
  assumes "numbered es"
  shows "increasing (collect_epoch_turns repr es epoch)"
    "\<forall>t\<in>set (collect_epoch_turns repr es epoch). ts_boundary t \<le> int (length es)"
proof -
  have "increasing (collect_epoch_turns repr es epoch) \<and>
        (\<forall>t\<in>set (collect_epoch_turns repr es epoch). ts_boundary t \<le> int (length es))"
    using assms
  proof (induction es rule: rev_induct)
    case Nil
    show ?case by (simp add: collect_epoch_turns_def increasing_def)
  next
    case (snoc e es)
    then have "increasing (collect_epoch_turns repr es epoch)"
      "\<forall>t\<in>set (collect_epoch_turns repr es epoch). ts_boundary t < se_seq e" "se_seq e = int (length es) + 1"
      by auto
    from fold_turn_increasing[OF this(1,2), of repr epoch] this(3) show ?case
      by (simp add: collect_epoch_turns_def add.commute)
  qed
  then show "increasing (collect_epoch_turns repr es epoch)"
    "\<forall>t\<in>set (collect_epoch_turns repr es epoch). ts_boundary t \<le> int (length es)" by blast+
qed

lemma rewound_suffix:
  assumes "increasing ts" "find (\<lambda>t. ts_turn t = target) ts = Some t"
  obtains pre post where "ts = pre @ t # post" "ts_turn t = target" "target \<notin> ts_turn ` set pre"
    "filter (\<lambda>x. ts_boundary x < ts_boundary t) ts = pre" "filter (\<lambda>x. ts_boundary x \<ge> ts_boundary t) ts = t # post"
proof -
  obtain i where i: "i < length ts" "ts_turn (ts ! i) = target" "ts ! i = t" "\<forall>k<i. ts_turn (ts ! k) \<noteq> target"
    using assms(2) by (auto simp: find_Some_iff)
  define pre post where "pre = take i ts" and "post = drop (Suc i) ts"
  have ts: "ts = pre @ t # post"
    using id_take_nth_drop[OF i(1)] i(3) by (simp add: pre_def post_def)
  have "\<forall>x\<in>set pre. ts_boundary x < ts_boundary t" "\<forall>x\<in>set post. ts_boundary t < ts_boundary x"
    using assms(1) by (auto simp: ts increasing_def sorted_wrt_append)
  then have "filter (\<lambda>x. ts_boundary x < ts_boundary t) pre = pre" "filter (\<lambda>x. ts_boundary x < ts_boundary t) post = []"
    "filter (\<lambda>x. ts_boundary x \<ge> ts_boundary t) pre = []" "filter (\<lambda>x. ts_boundary x \<ge> ts_boundary t) post = post"
    by (auto simp: filter_empty_conv filter_id_conv)
  then have "filter (\<lambda>x. ts_boundary x < ts_boundary t) ts = pre" "filter (\<lambda>x. ts_boundary x \<ge> ts_boundary t) ts = t # post"
    by (simp_all add: ts)
  moreover have "target \<notin> ts_turn ` set pre"
    using i(1,4) by (fastforce simp: pre_def in_set_conv_nth)
  ultimately show thesis
    using that[OF ts] i(2,3) by blast
qed

lemma list_rewindable_ok:
  assumes "session_ok env s es" "list_rewindable_turns env s = (Inr turns, s')"
  shows "session_ok env s' es" "ss_rec s' = ss_rec s"
    "\<exists>epoch. latest_epoch es = Some epoch \<and> turns = collect_epoch_turns (ar_repr (re_artifacts env)) es epoch"
proof -
  obtain evs s1 epoch s2 where e: "all_events env s = (Inr evs, s1)" "current_epoch env s1 = (Inr epoch, s2)"
      "s' = s2" "turns = collect_epoch_turns (ar_repr (re_artifacts env)) evs epoch"
    using assms(2) unfolding list_rewindable_turns_def by (auto elim!: obind_InrE)
  note a = all_events_ok[OF assms(1) e(1)]
  note c = current_epoch_ok[OF a(1) e(2)]
  show "session_ok env s' es" "ss_rec s' = ss_rec s"
    "\<exists>epoch. latest_epoch es = Some epoch \<and> turns = collect_epoch_turns (ar_repr (re_artifacts env)) es epoch"
    using a c e by auto
qed

lemma fold_rewound:
  assumes "se_type e = lit ''context.rewound''" "root_event e" "se_epoch e = epoch"
    and "json_get (se_payload e) (lit ''boundary_seq'') = JInt b"
  shows "fold_turn repr epoch e ts = filter (\<lambda>t. ts_boundary t < b) ts"
  using assms by (simp add: fold_turn_def terminal_types_def)

lemma collect_snoc: "collect_epoch_turns repr (es @ [e]) epoch = fold_turn repr epoch e (collect_epoch_turns repr es epoch)"
  by (simp add: collect_epoch_turns_def)

text \<open>
  C30: A rewind removes exactly the target turn and every later turn of the current epoch: when it succeeds,
  one event has been added to the journal, the turns that remain rewindable are those before the first turn
  with the target's identifier, and the outcome names the removed turns.
\<close>

theorem rewind_removes_target_and_later_turns:
  assumes ok: "session_ok env s es" "env_ok env" "stamp_ok (rc_stamp (ss_rec s))"
    and rewind: "record_rewind env target s = (Inr out, s')"
  shows "\<exists>e epoch pre t post.
           session_ok env s' (es @ [e]) \<and> latest_epoch es = Some epoch \<and>
           collect_epoch_turns (ar_repr (re_artifacts env)) es epoch = pre @ t # post \<and>
           ts_turn t = target \<and> target \<notin> ts_turn ` set pre \<and>
           collect_epoch_turns (ar_repr (re_artifacts env)) (es @ [e]) epoch = pre \<and>
           ro_turns out = map ts_turn (t # post)"
proof -
  obtain turns s1 t e s2 where st: "st_depth (rc_stamp (ss_rec s)) = 0"
      and turns: "list_rewindable_turns env s = (Inr turns, s1)"
      and t: "find (\<lambda>t. ts_turn t = target) turns = Some t"
      and app: "rec_append env (lit ''context.rewound'') ''user''
                     [(lit ''target_turn_id'', JStr (ts_turn t)), (lit ''boundary_seq'', JInt (ts_boundary t)),
                      (lit ''rewound_turn_ids'', JList (map JStr (map ts_turn (filter (\<lambda>x. ts_boundary x \<ge> ts_boundary t) turns))))]
                     None None [] s1 = (Inr e, s2)"
      and out: "ro_turns out = map ts_turn (filter (\<lambda>x. ts_boundary x \<ge> ts_boundary t) turns)"
      and s': "s' = s2\<lparr>ss_rec := drop_rewound (ro_turns out) (ss_rec s2)\<rparr>"
    using rewind unfolding record_rewind_def require_root_def Let_def
    by (auto elim!: obind_InrE simp: require_Inr simp del: map_map split: option.splits)
  note l = list_rewindable_ok[OF ok(1) turns]
  then obtain epoch where epoch: "latest_epoch es = Some epoch" "turns = collect_epoch_turns (ar_repr (re_artifacts env)) es epoch"
    by blast
  have num: "numbered es"
    using ok(1) by (simp add: session_ok_def journal_ok_def stored_def)
  obtain pre post where p: "turns = pre @ t # post" "ts_turn t = target" "target \<notin> ts_turn ` set pre"
      "filter (\<lambda>x. ts_boundary x < ts_boundary t) turns = pre" "filter (\<lambda>x. ts_boundary x \<ge> ts_boundary t) turns = t # post"
    using rewound_suffix[OF collect_turns_increasing(1)[OF num] t[unfolded epoch(2)]] epoch(2) by metis
  have stamp: "stamp_ok (rc_stamp (ss_rec s1))"
    using ok(3) l(2) by simp
  note a = rec_append_ok(3)[OF l(1) ok(2) stamp _ _ _ app refl]
  have e: "session_ok env s2 (es @ [e])" "se_type e = lit ''context.rewound''" "se_epoch e = epoch" "root_event e"
    "json_get (se_payload e) (lit ''boundary_seq'') = JInt (ts_boundary t)"
    using a epoch(1) st l(2) by (simp_all add: appended_def root_event_def json_get_def)
  have "collect_epoch_turns (ar_repr (re_artifacts env)) (es @ [e]) epoch = pre"
    using fold_rewound[OF e(2,4,3,5)] p(4) epoch(2) by (simp add: collect_snoc)
  with e(1) s' epoch p out show ?thesis
    by (intro exI[of _ e] exI[of _ epoch] exI[of _ pre] exI[of _ t] exI[of _ post]) simp
qed


section \<open>Committing a retained message once\<close>

lemma externalise_refs: "externalise env raw f data m p b msg st = (Inr (raw', refs), st') \<Longrightarrow> list_all is_object refs"
  by (auto simp: externalise_def is_object_def elim!: obind_InrE split: option.splits)

lemma prepare_fields_refs: "prepare_fields env raw st = (Inr (raw', refs), st') \<Longrightarrow> list_all is_object refs"
  by (auto simp: prepare_fields_def Let_def dest: externalise_refs split: json.splits if_splits option.splits)

lemma prepare_content_refs: "prepare_content env raw c st = (Inr (raw', refs), st') \<Longrightarrow> list_all is_object refs"
  by (auto simp: prepare_content_def is_object_def elim!: obind_InrE split: if_splits option.splits)

lemma prepare_blocks_refs: "prepare_blocks env bs st = (Inr (bs', refs), st') \<Longrightarrow> list_all is_object refs"
proof (induction env bs arbitrary: bs' refs st st' rule: prepare_blocks.induct)
  case (1 env)
  then show ?case by simp
next
  case (2 env b bs)
  from "2.prems" obtain b1 refs1 st1 bs2 refs2 where
      one: "(case b of
              JObj raw \<Rightarrow>
                obind (if json_get raw (lit ''type'') = JStr (lit ''tool_result'') then
                         (case json_get raw (lit ''content'') of
                            JStr content \<Rightarrow> prepare_content env raw content
                          | JList inner \<Rightarrow>
                              obind (prepare_blocks env inner) (\<lambda>(inner', refs).
                              oret (dict_set (lit ''content'') (JList inner') raw, refs))
                          | _ \<Rightarrow> oret (raw, []))
                       else oret (raw, [])) (\<lambda>(raw, refs).
                obind (prepare_fields env raw) (\<lambda>(raw, refs'). oret (JObj raw, refs @ refs')))
            | _ \<Rightarrow> oret (b, [])) st = (Inr (b1, refs1), st1)"
      and two: "prepare_blocks env bs st1 = (Inr (bs2, refs2), st')" "refs = refs1 @ refs2"
    by (auto elim!: obind_InrE)
  have "list_all is_object refs2"
    using "2.IH"(2) two(1) by blast
  moreover have "list_all is_object refs1"
  proof (cases b)
    case (JObj raw)
    with one obtain raw1 r1 st2 raw2 r2 where
        c: "(if json_get raw (lit ''type'') = JStr (lit ''tool_result'') then
               (case json_get raw (lit ''content'') of
                  JStr content \<Rightarrow> prepare_content env raw content
                | JList inner \<Rightarrow>
                    obind (prepare_blocks env inner) (\<lambda>(inner', refs).
                    oret (dict_set (lit ''content'') (JList inner') raw, refs))
                | _ \<Rightarrow> oret (raw, []))
             else oret (raw, [])) st = (Inr (raw1, r1), st2)"
        and f: "prepare_fields env raw1 st2 = (Inr (raw2, r2), st1)" "refs1 = r1 @ r2"
      by (auto elim!: obind_InrE)
    have "list_all is_object r1"
      using c "2.IH"(1)[OF JObj] prepare_content_refs
      by (fastforce elim!: obind_InrE split: if_splits json.splits)
    with f prepare_fields_refs show ?thesis by simp
  qed (use one in auto)
  ultimately show ?case
    using two(2) by simp
qed

lemma dedup_by_all: "list_all P xs \<Longrightarrow> list_all P (dedup_by f seen xs)"
  using set_dedup_by[of f seen xs] by (auto simp: list_all_iff)

lemma prepare_message_refs:
  "prepare_message env m st = (Inr (m', refs), st') \<Longrightarrow> list_all is_object refs"
  by (auto simp: prepare_message_def dedupe_refs_def elim!: obind_InrE dest!: prepare_blocks_refs
      intro: dedup_by_all split: json.splits)

lemma with_store_ok:
  assumes "with_store g s = (r, s')"
  shows "ss_journal s' = ss_journal s" "ss_rec s' = ss_rec s" "ss_tick s' = ss_tick s" "session_ok env s es \<Longrightarrow> session_ok env s' es"
  using assms by (auto simp: with_store_def Let_def session_ok_def)

lemma read_pending_turn_ok:
  assumes ok: "session_ok env s es" and read: "read_pending_turn env epoch turn s = (r, s')"
  shows "session_ok env s' es" "ss_rec s' = ss_rec s"
    "r = Inr (Some evs) \<Longrightarrow> evs = filter (\<lambda>e. se_epoch e = epoch \<and> se_turn e = Some turn) es"
proof -
  obtain r1 s1 where e: "all_events env s = (r1, s1)" by fastforce
  note a = all_events_ok[OF ok e]
  have "session_ok env s' es \<and> ss_rec s' = ss_rec s \<and>
        (r = Inr (Some evs) \<longrightarrow> evs = filter (\<lambda>e. se_epoch e = epoch \<and> se_turn e = Some turn) es)"
  proof (cases r1)
    case (Inl x)
    with read e a show ?thesis
      by (auto simp: read_pending_turn_def obind_Inl)
  next
    case (Inr fs)
    then have fs: "fs = es" using a(4) by blast
    obtain r2 s2 where c: "current_epoch env s1 = (r2, s2)" by fastforce
    note ce = current_epoch_ok[OF a(1) c]
    have rest: "read_pending_turn env epoch turn s =
        obind (current_epoch env) (\<lambda>current.
        obind (require (epoch = current) ''Cannot retry pending messages into a different context epoch'') (\<lambda>_.
        obind (rec_get id) (\<lambda>r.
        if st_depth (rc_stamp r) = 0 \<and>
           \<not> list_ex (\<lambda>t. ts_turn t = turn) (collect_epoch_turns (ar_repr (re_artifacts env)) es epoch)
        then oret None
        else obind (require (rc_turn r = None \<or> rc_turn r = Some turn) ''Cannot retry pending messages during another turn'') (\<lambda>_.
             oret (Some (filter (\<lambda>e. se_epoch e = epoch \<and> se_turn e = Some turn) es)))))) s1"
      unfolding read_pending_turn_def using e Inr fs by (simp add: obind_Inr)
    show ?thesis
      using read ce a(2) unfolding rest
      by (cases r2) (auto simp: obind_def c require_def split: if_splits)
  qed
  then show "session_ok env s' es" "ss_rec s' = ss_rec s"
    "r = Inr (Some evs) \<Longrightarrow> evs = filter (\<lambda>e. se_epoch e = epoch \<and> se_turn e = Some turn) es" by blast+
qed

text \<open>Events of the journal that carry the identifier of a retained message, and where they may be.\<close>

definition committed_as :: "recorder \<Rightarrow> string \<Rightarrow> string \<Rightarrow> pystr \<Rightarrow> session_event list \<Rightarrow> session_event list" where
  "committed_as r event_type id_key pid es = filter (is_pending_event r (lit event_type) id_key pid) es"

definition at_most_once :: "recorder \<Rightarrow> string \<Rightarrow> string \<Rightarrow> pystr \<Rightarrow> pystr \<Rightarrow> pystr \<Rightarrow> session_event list \<Rightarrow> bool" where
  "at_most_once r event_type id_key pid epoch turn es \<longleftrightarrow>
     length (committed_as r event_type id_key pid es) \<le> 1 \<and>
     list_all (\<lambda>e. se_epoch e = epoch \<and> se_turn e = Some turn) (committed_as r event_type id_key pid es)"

lemma find_pending:
  assumes "at_most_once r ty key pid epoch turn es"
  shows "find_pending_event r (filter (\<lambda>e. se_epoch e = epoch \<and> se_turn e = Some turn) es) (lit ty) key pid = None
           \<Longrightarrow> committed_as r ty key pid es = []"
    "find_pending_event r (filter (\<lambda>e. se_epoch e = epoch \<and> se_turn e = Some turn) es) (lit ty) key pid = Some e
           \<Longrightarrow> length (committed_as r ty key pid es) = 1"
proof -
  have here: "is_pending_event r (lit ty) key pid e \<Longrightarrow> e \<in> set es \<Longrightarrow> se_epoch e = epoch \<and> se_turn e = Some turn" for e
    using assms by (auto simp: at_most_once_def committed_as_def list_all_iff)
  show "committed_as r ty key pid es = []" if "find_pending_event r (filter (\<lambda>e. se_epoch e = epoch \<and> se_turn e = Some turn) es) (lit ty) key pid = None"
    using that here by (auto simp: find_pending_event_def find_None_iff committed_as_def filter_empty_conv)
  assume "find_pending_event r (filter (\<lambda>e. se_epoch e = epoch \<and> se_turn e = Some turn) es) (lit ty) key pid = Some e"
  then have "e \<in> set (committed_as r ty key pid es)"
    using nth_mem by (fastforce simp: find_pending_event_def find_Some_iff committed_as_def)
  with assms show "length (committed_as r ty key pid es) = 1"
    by (cases "committed_as r ty key pid es") (auto simp: at_most_once_def)
qed

text \<open>The journal after an attempt: unchanged, or extended by the one event that was missing.\<close>

definition attempt :: "recorder \<Rightarrow> string \<Rightarrow> string \<Rightarrow> pystr \<Rightarrow> pystr \<Rightarrow> pystr \<Rightarrow> session_event list \<Rightarrow> session_event list \<Rightarrow> bool" where
  "attempt r ty key pid epoch turn es es' \<longleftrightarrow>
     es' = es \<or> (committed_as r ty key pid es = [] \<and>
                  (\<exists>e. es' = es @ [e] \<and> is_pending_event r (lit ty) key pid e \<and> se_epoch e = epoch \<and> se_turn e = Some turn))"

lemma attempt_once:
  "at_most_once r ty key pid epoch turn es \<Longrightarrow> attempt r ty key pid epoch turn es es' \<Longrightarrow>
     at_most_once r ty key pid epoch turn es'"
  by (auto simp: attempt_def at_most_once_def committed_as_def)

lemma settle_assistant_ok:
  assumes "settle_assistant env d p e s = (r, s')"
  shows "ss_journal s' = ss_journal s" "rc_stamp (ss_rec s') = rc_stamp (ss_rec s)"
    "rc_pending_assistant (ss_rec s') = None \<or> rc_pending_assistant (ss_rec s') = Some (p\<lparr>pa_committed := True\<rparr>)"
proof -
  define t where "t = s\<lparr>ss_rec := (ss_rec s)\<lparr>rc_assistants := (if \<not> pa_committed p \<and> rc_turn (ss_rec s) = Some (pa_turn p)
      then rc_assistants (ss_rec s) + 1 else rc_assistants (ss_rec s)), rc_pending_assistant := Some (p\<lparr>pa_committed := True\<rparr>)\<rparr>\<rparr>"
  have "snd (replay env e t) = t"
    by (simp add: replay_def split: json.split)
  then obtain rr where rep: "replay env e t = (rr, t)"
    by (metis prod.collapse)
  have "settle_assistant env d p e s =
      obind (replay env e) (\<lambda>replayed.
      obind (rec_set (\<lambda>r. if d then r else r\<lparr>rc_pending_assistant := None\<rparr>)) (\<lambda>_. oret (Some replayed))) t"
    unfolding settle_assistant_def t_def by (subst obind_Inr[OF rec_ops(2)]) (rule refl)
  with assms have se: "(r, s') = obind (replay env e) (\<lambda>replayed.
      obind (rec_set (\<lambda>r. if d then r else r\<lparr>rc_pending_assistant := None\<rparr>)) (\<lambda>_. oret (Some replayed))) t"
    by simp
  have "s' = t \<or> s' = t\<lparr>ss_rec := (if d then ss_rec t else (ss_rec t)\<lparr>rc_pending_assistant := None\<rparr>)\<rparr>"
  proof (cases rr)
    case (Inl x)
    with se rep show ?thesis by (simp add: obind_def)
  next
    case (Inr m)
    with se rep show ?thesis by (simp add: obind_def)
  qed
  then show "ss_journal s' = ss_journal s" "rc_stamp (ss_rec s') = rc_stamp (ss_rec s)"
    "rc_pending_assistant (ss_rec s') = None \<or> rc_pending_assistant (ss_rec s') = Some (p\<lparr>pa_committed := True\<rparr>)"
    by (auto simp: t_def)
qed

lemma assistant_payload_id: "json_get (assistant_payload p m) (lit ''message_id'') = JStr (pa_message_id p)"
  by (auto simp: assistant_payload_def Let_def split: json.split prod.split) (simp_all add: json_get_def)

lemma append_pending_assistant_ok:
  assumes ok: "session_ok env s es" "env_ok env" "stamp_ok (rc_stamp (ss_rec s))" "pa_epoch p \<noteq> []"
    and none: "committed_as (ss_rec s) ''assistant.message'' ''message_id'' (pa_message_id p) es = []"
    and app: "append_pending_assistant env p s = (r, s')"
  shows "ss_rec s' = ss_rec s"
    "\<exists>es'. session_ok env s' es' \<and>
       attempt (ss_rec s) ''assistant.message'' ''message_id'' (pa_message_id p) (pa_epoch p) (pa_turn p) es es' \<and>
       (\<forall>e. r = Inr e \<longrightarrow> es' = es @ [e] \<and> is_pending_event (ss_rec s) (lit ''assistant.message'') ''message_id'' (pa_message_id p) e)"
proof -
  obtain r1 s1 where st: "with_store (prepare_message (re_artifacts env) (pa_message p)) s = (r1, s1)" by fastforce
  note w = with_store_ok[OF st]
  have "ss_rec s' = ss_rec s \<and> (\<exists>es'. session_ok env s' es' \<and>
       attempt (ss_rec s) ''assistant.message'' ''message_id'' (pa_message_id p) (pa_epoch p) (pa_turn p) es es' \<and>
       (\<forall>e. r = Inr e \<longrightarrow> es' = es @ [e] \<and> is_pending_event (ss_rec s) (lit ''assistant.message'') ''message_id'' (pa_message_id p) e))"
  proof (cases r1)
    case (Inl x)
    with app st w ok(1) show ?thesis
      by (auto simp: append_pending_assistant_def obind_Inl attempt_def)
  next
    case (Inr ma)
    obtain m arts where ma: "ma = (m, arts)" by fastforce
    have refs: "list_all is_object arts"
      using st Inr ma prepare_message_refs
      by (auto simp: with_store_def Let_def) (metis prod.collapse)
    have ap: "rec_append env (lit ''assistant.message'') ''assistant'' (assistant_payload p m) (Some (pa_turn p))
        (Some (pa_epoch p)) arts s1 = (r, s')"
      using app st Inr ma by (simp add: append_pending_assistant_def obind_Inr)
    have s1: "session_ok env s1 es" "stamp_ok (rc_stamp (ss_rec s1))"
      using w ok by simp_all
    note a = rec_append_ok[OF s1(1) ok(2) s1(2) _ _ refs ap, simplified]
    have isp: "is_pending_event (ss_rec s) (lit ''assistant.message'') ''message_id'' (pa_message_id p) e \<and>
        se_epoch e = pa_epoch p \<and> se_turn e = Some (pa_turn p)"
      if "appended s1 es (lit ''assistant.message'') (assistant_payload p m) (Some (pa_turn p)) (Some (pa_epoch p)) e" for e
      using that ok(4) w(2) by (simp add: appended_def is_pending_event_def assistant_payload_id)
    show ?thesis
    proof (cases r)
      case (Inr e)
      with a(1,3) w(2) isp none show ?thesis
        by (auto simp: attempt_def)
    next
      case (Inl x)
      with a(1,4) w(2) isp none show ?thesis
        by (fastforce simp: attempt_def)
    qed
  qed
  then show "ss_rec s' = ss_rec s"
    "\<exists>es'. session_ok env s' es' \<and>
       attempt (ss_rec s) ''assistant.message'' ''message_id'' (pa_message_id p) (pa_epoch p) (pa_turn p) es es' \<and>
       (\<forall>e. r = Inr e \<longrightarrow> es' = es @ [e] \<and> is_pending_event (ss_rec s) (lit ''assistant.message'') ''message_id'' (pa_message_id p) e)"
    by blast+
qed


abbreviation response_once :: "recorder \<Rightarrow> pending_assistant \<Rightarrow> session_event list \<Rightarrow> bool" where
  "response_once r p \<equiv> at_most_once r ''assistant.message'' ''message_id'' (pa_message_id p) (pa_epoch p) (pa_turn p)"

abbreviation response_events :: "recorder \<Rightarrow> pending_assistant \<Rightarrow> session_event list \<Rightarrow> session_event list" where
  "response_events r p \<equiv> committed_as r ''assistant.message'' ''message_id'' (pa_message_id p)"

lemma is_pending_event_cong: "rc_stamp r = rc_stamp r' \<Longrightarrow> is_pending_event r = is_pending_event r'"
  by (intro ext) (simp add: is_pending_event_def)

lemma retry_assistant_once:
  assumes ok: "session_ok env s es" "env_ok env" "stamp_ok (rc_stamp (ss_rec s))" "pa_epoch p \<noteq> []"
    and once: "response_once (ss_rec s) p es"
    and commit: "commit_pending_assistant env True d p s = (r, s')"
  shows "\<exists>es'. session_ok env s' es' \<and>
           attempt (ss_rec s) ''assistant.message'' ''message_id'' (pa_message_id p) (pa_epoch p) (pa_turn p) es es' \<and>
           (\<forall>m. r = Inr (Some m) \<longrightarrow> length (response_events (ss_rec s) p es') = 1)"
    "rc_stamp (ss_rec s') = rc_stamp (ss_rec s)"
    "rc_pending_assistant (ss_rec s') = None \<or>
     rc_pending_assistant (ss_rec s') = rc_pending_assistant (ss_rec s) \<or>
     rc_pending_assistant (ss_rec s') = Some (p\<lparr>pa_committed := True\<rparr>)"
proof -
  let ?goal = "(\<exists>es'. session_ok env s' es' \<and>
           attempt (ss_rec s) ''assistant.message'' ''message_id'' (pa_message_id p) (pa_epoch p) (pa_turn p) es es' \<and>
           (\<forall>m. r = Inr (Some m) \<longrightarrow> length (response_events (ss_rec s) p es') = 1)) \<and>
    rc_stamp (ss_rec s') = rc_stamp (ss_rec s) \<and>
    (rc_pending_assistant (ss_rec s') = None \<or>
     rc_pending_assistant (ss_rec s') = rc_pending_assistant (ss_rec s) \<or>
     rc_pending_assistant (ss_rec s') = Some (p\<lparr>pa_committed := True\<rparr>))"
  obtain r1 s1 where rd: "read_pending_turn env (pa_epoch p) (pa_turn p) s = (r1, s1)" by fastforce
  note rp = read_pending_turn_ok[OF ok(1) rd]
  have ?goal
  proof (cases r1)
    case (Inl x)
    with commit rd rp show ?goal
      by (auto simp: commit_pending_assistant_def obind_Inl attempt_def)
  next
    case r1: (Inr found)
    show ?goal
    proof (cases found)
      case None
      with commit rd r1 rp show ?goal
        by (auto simp: commit_pending_assistant_def obind_def attempt_def)
    next
      case (Some evs)
      with r1 rp(3) have evs: "evs = filter (\<lambda>e. se_epoch e = pa_epoch p \<and> se_turn e = Some (pa_turn p)) es" by blast
      define fe where "fe = find_pending_event (ss_rec s) evs (lit ''assistant.message'') ''message_id'' (pa_message_id p)"
      have cm: "commit_pending_assistant env True d p s =
          (case fe of Some event \<Rightarrow> settle_assistant env d p event
           | None \<Rightarrow> obind (append_pending_assistant env p) (settle_assistant env d p)) s1"
        unfolding commit_pending_assistant_def if_True
        by (subst obind_def) (simp add: rd r1 Some rp(2) obind_Inr[OF rec_ops(1)] fe_def)
      show ?goal
      proof (cases fe)
        case (Some e)
        note st = settle_assistant_ok[of env d p e s1 r s']
        have "length (response_events (ss_rec s) p es) = 1"
          using find_pending(2)[OF once] Some by (simp add: fe_def evs)
        with commit[unfolded cm] Some st rp show ?goal
          by (auto simp: attempt_def session_ok_def)
      next
        case None
        have none: "response_events (ss_rec s1) p es = []"
          using find_pending(1)[OF once] None rp(2) by (simp add: fe_def evs)
        obtain r2 s2 where ap: "append_pending_assistant env p s1 = (r2, s2)" by fastforce
        have "stamp_ok (rc_stamp (ss_rec s1))" using ok(3) rp(2) by simp
        note a = append_pending_assistant_ok[OF rp(1) ok(2) this ok(4) none ap]
        then obtain es' where es': "session_ok env s2 es'"
            "attempt (ss_rec s) ''assistant.message'' ''message_id'' (pa_message_id p) (pa_epoch p) (pa_turn p) es es'"
            "\<forall>e. r2 = Inr e \<longrightarrow> es' = es @ [e] \<and> is_pending_event (ss_rec s) (lit ''assistant.message'') ''message_id'' (pa_message_id p) e"
          using rp(2) by auto
        show ?goal
        proof (cases r2)
          case (Inl x)
          with commit[unfolded cm] None ap have "r = Inl x" "s' = s2"
            by (auto simp: obind_Inl)
          with es' a(1) rp(2) show ?goal by auto
        next
          case (Inr e)
          with commit[unfolded cm] None ap have se: "settle_assistant env d p e s2 = (r, s')"
            by (simp add: obind_Inr)
          note st = settle_assistant_ok[OF se]
          have "length (response_events (ss_rec s) p es') = 1"
            using es'(3) Inr none rp(2) by (simp add: committed_as_def)
          with es'(1,2) st a(1) rp(2) show ?goal
            by (auto simp: session_ok_def)
        qed
      qed
    qed
  qed
  then show "\<exists>es'. session_ok env s' es' \<and>
           attempt (ss_rec s) ''assistant.message'' ''message_id'' (pa_message_id p) (pa_epoch p) (pa_turn p) es es' \<and>
           (\<forall>m. r = Inr (Some m) \<longrightarrow> length (response_events (ss_rec s) p es') = 1)"
    "rc_stamp (ss_rec s') = rc_stamp (ss_rec s)"
    "rc_pending_assistant (ss_rec s') = None \<or>
     rc_pending_assistant (ss_rec s') = rc_pending_assistant (ss_rec s) \<or>
     rc_pending_assistant (ss_rec s') = Some (p\<lparr>pa_committed := True\<rparr>)"
    by blast+
qed


text \<open>Any number of further attempts, each with its own faults.\<close>

fun retries :: "recorder_env \<Rightarrow> bool \<Rightarrow> nat \<Rightarrow> session_state \<Rightarrow> session_state" where
  "retries env d 0 s = s"
| "retries env d (Suc n) s = snd (retry_pending_assistant env d (retries env d n s))"

lemma retry_none: "rc_pending_assistant (ss_rec s) = None \<Longrightarrow> retry_pending_assistant env d s = (Inr None, s)"
  by (simp add: retry_pending_assistant_def obind_def)

lemma retry_some:
  "rc_pending_assistant (ss_rec s) = Some p \<Longrightarrow> retry_pending_assistant env d s = commit_pending_assistant env True d p s"
  by (simp add: retry_pending_assistant_def obind_def)

definition same_message :: "pending_assistant \<Rightarrow> pending_assistant \<Rightarrow> bool" where
  "same_message p q \<longleftrightarrow> pa_message_id p = pa_message_id q \<and> pa_epoch p = pa_epoch q \<and> pa_turn p = pa_turn q"

lemma attempt_cong:
  assumes "rc_stamp r = rc_stamp r'"
  shows "attempt r = attempt r'" "at_most_once r = at_most_once r'" "committed_as r = committed_as r'"
  by (intro ext, simp add: attempt_def at_most_once_def committed_as_def is_pending_event_cong[OF assms])+

lemma retries_once:
  assumes "session_ok env s es" "env_ok env" "stamp_ok (rc_stamp (ss_rec s))" "rc_pending_assistant (ss_rec s) = Some p"
    "pa_epoch p \<noteq> []" "response_once (ss_rec s) p es"
  shows "\<exists>es'. session_ok env (retries env d n s) es' \<and> response_once (ss_rec s) p es' \<and>
           rc_stamp (ss_rec (retries env d n s)) = rc_stamp (ss_rec s) \<and>
           (\<forall>q. rc_pending_assistant (ss_rec (retries env d n s)) = Some q \<longrightarrow> same_message p q)"
proof (induction n)
  case 0
  with assms show ?case by (auto simp: same_message_def)
next
  case (Suc n)
  then obtain es' where ih: "session_ok env (retries env d n s) es'" "response_once (ss_rec s) p es'"
      "rc_stamp (ss_rec (retries env d n s)) = rc_stamp (ss_rec s)"
      "\<And>q. rc_pending_assistant (ss_rec (retries env d n s)) = Some q \<Longrightarrow> same_message p q"
    by blast
  show ?case
  proof (cases "rc_pending_assistant (ss_rec (retries env d n s))")
    case None
    with ih show ?thesis by (auto simp: retry_none)
  next
    case (Some q)
    obtain r s' where c: "commit_pending_assistant env True d q (retries env d n s) = (r, s')" by fastforce
    have q: "same_message p q" using ih(4) Some by blast
    have once: "response_once (ss_rec (retries env d n s)) q es'"
      using ih(2,3) q attempt_cong(2)[OF ih(3)] by (simp add: same_message_def)
    have "pa_epoch q \<noteq> []" "stamp_ok (rc_stamp (ss_rec (retries env d n s)))"
      using q assms(3,5) ih(3) by (auto simp: same_message_def)
    note re = retry_assistant_once[OF ih(1) assms(2) this(2,1) once c]
    then obtain es'' where es'': "session_ok env s' es''" "response_once (ss_rec (retries env d n s)) q es''"
      using attempt_once[OF once] by blast
    then have "response_once (ss_rec s) p es''"
      using q attempt_cong(2)[OF ih(3)] by (simp add: same_message_def)
    moreover have "same_message p q'" if "rc_pending_assistant (ss_rec s') = Some q'" for q'
      using re(3) that Some q by (auto simp: same_message_def)
    ultimately show ?thesis
      using es''(1) re(2) ih(3) c by (auto simp: retry_some[OF Some])
  qed
qed

text \<open>
  C9: A model response is recorded at most once however often its write fails ambiguously: if the journal
  holds at most one event with the identifier of the retained response, then after any number of retries, each
  with any faults, it still does, and a retry that reports success leaves exactly one.
\<close>

theorem retried_response_is_recorded_once:
  assumes "session_ok env s es" "env_ok env" "stamp_ok (rc_stamp (ss_rec s))" "rc_pending_assistant (ss_rec s) = Some p"
    and "pa_epoch p \<noteq> []" "response_once (ss_rec s) p es"
    and "retry_pending_assistant env d (retries env d n s) = (r, s')"
  shows "\<exists>es'. session_ok env s' es' \<and> length (response_events (ss_rec s) p es') \<le> 1 \<and>
           (\<forall>m. r = Inr (Some m) \<longrightarrow> length (response_events (ss_rec s) p es') = 1)"
proof -
  obtain es1 where es1: "session_ok env (retries env d n s) es1" "response_once (ss_rec s) p es1"
      "rc_stamp (ss_rec (retries env d n s)) = rc_stamp (ss_rec s)"
      "\<And>q. rc_pending_assistant (ss_rec (retries env d n s)) = Some q \<Longrightarrow> same_message p q"
    using retries_once[OF assms(1-6), of d n] by blast
  show ?thesis
  proof (cases "rc_pending_assistant (ss_rec (retries env d n s))")
    case None
    with assms(7) es1 show ?thesis by (auto simp: retry_none at_most_once_def)
  next
    case (Some q)
    then have q: "same_message p q" using es1(4) by blast
    have c: "commit_pending_assistant env True d q (retries env d n s) = (r, s')"
      using assms(7) by (simp add: retry_some[OF Some])
    have once: "response_once (ss_rec (retries env d n s)) q es1"
      using es1(2) q attempt_cong(2)[OF es1(3)] by (simp add: same_message_def)
    have "pa_epoch q \<noteq> []" "stamp_ok (rc_stamp (ss_rec (retries env d n s)))"
      using q assms(3,5) es1(3) by (auto simp: same_message_def)
    note re = retry_assistant_once(1)[OF es1(1) assms(2) this(2,1) once c]
    have ev: "response_events (ss_rec (retries env d n s)) q = response_events (ss_rec s) p"
      using q attempt_cong(3)[OF es1(3)] by (simp add: same_message_def)
    from re obtain es2 where es2: "session_ok env s' es2" "response_once (ss_rec (retries env d n s)) q es2"
        "\<forall>m. r = Inr (Some m) \<longrightarrow> length (response_events (ss_rec (retries env d n s)) q es2) = 1"
      using attempt_once[OF once] by blast
    then show ?thesis
      by (auto simp: at_most_once_def ev)
  qed
qed


section \<open>A sample session\<close>

definition session_sample_event :: "int \<Rightarrow> string \<Rightarrow> pystr option \<Rightarrow> (pystr \<times> json) list \<Rightarrow> session_event" where
  "session_sample_event n etype turn payload =
     make_event (lit ''i'', lit ''t'') (lit ''e1'')
       \<lparr>dr_type = lit etype, dr_actor = lit (if etype = ''context.rewound'' then ''user'' else if etype = ''assistant.message'' then ''assistant'' else ''system''),
        dr_payload = payload, dr_turn = turn, dr_epoch = None, dr_artifacts = [], dr_agent = sample_stamp\<rparr>
       ((fresh_journal (lit ''s'') sample_stamp)\<lparr>jn_next_seq := n\<rparr>)"

definition sample_response :: pending_assistant where
  "sample_response = \<lparr>pa_message_id = lit ''m'', pa_epoch = lit ''e1'', pa_turn = lit ''u'',
     pa_message = [(lit ''role'', JStr (lit ''assistant'')), (lit ''content'', JStr (lit ''hi''))], pa_effort = None, pa_committed = False\<rparr>"

definition session_sample :: "session_event list" where
  "session_sample = [session_sample_event 1 ''context.epoch_started'' None [],
                     session_sample_event 2 ''turn.started'' (Some (lit ''u'')) []]"

definition session_codec :: codec where
  "session_codec = table_codec
     [(JObj (event_to_dict (session_sample ! 0)), 65), (JObj (event_to_dict (session_sample ! 1)), 66),
      (JObj (event_to_dict (session_sample_event 3 ''context.rewound'' None
         [(lit ''target_turn_id'', JStr (lit ''u'')), (lit ''boundary_seq'', JInt 2),
          (lit ''rewound_turn_ids'', JList [JStr (lit ''u'')])])), 67),
      (JObj (event_to_dict (session_sample_event 3 ''assistant.message'' (Some (lit ''u''))
         (assistant_payload sample_response (pa_message sample_response)))), 68)]"

definition sample_env :: recorder_env where
  "sample_env =
     \<lparr>re_codec = session_codec,
      re_artifacts = \<lparr>ar_sha = \<lambda>_. [], ar_b64decode = \<lambda>_. None, ar_b64encode = \<lambda>_. [], ar_repr = \<lambda>_. [],
                      ar_reference_dir = [], ar_write_fails = \<lambda>_. False\<rparr>,
      re_lock = \<lambda>_. NoLock, re_faults = \<lambda>_. no_faults, re_id = \<lambda>_. lit ''i'', re_now = \<lambda>_. lit ''t'',
      re_canonical = \<lambda>_. [], re_elapsed = \<lambda>_ _. None\<rparr>"

definition sample_session :: session_state where
  "sample_session =
     \<lparr>ss_journal = (fresh_journal (lit ''s'') sample_stamp)\<lparr>jn_file := Some [65, 10, 66, 10]\<rparr>, ss_store = \<lambda>_. None,
      ss_tick = 0, ss_rec = new_recorder sample_stamp\<rparr>"

lemma session_law: "codec_law session_codec e"
  unfolding session_codec_def by (rule table_codec_law) simp_all

lemma sample_env_ok: "env_ok sample_env"
  by (simp add: env_ok_def sample_env_def session_law)

lemma sample_session_ok: "session_ok sample_env sample_session session_sample"
proof -
  have "list_all (good_event (lit ''s'')) session_sample" "list_all (\<lambda>e. event_line session_codec e \<noteq> None) session_sample"
    "numbered session_sample" "file_bytes (ss_journal sample_session) = lines_of session_codec session_sample"
    by code_simp+
  moreover have "re_codec sample_env = session_codec" "jn_session (ss_journal sample_session) = lit ''s''"
    "\<not> jn_loaded (ss_journal sample_session)"
    by (simp_all add: sample_env_def sample_session_def fresh_journal_def)
  ultimately show ?thesis
    by (auto simp: session_ok_def journal_ok_def stored_def cache_current_def loggable_def session_law list_all_iff)
qed

lemma sample_stamp_ok: "stamp_ok (rc_stamp (ss_rec sample_session))"
  by code_simp

theorem rewind_removes_target_and_later_turns_witness:
  "\<exists>out s' es. record_rewind sample_env (lit ''u'') sample_session = (Inr out, s') \<and> session_ok sample_env s' es \<and>
     ro_turns out = [lit ''u''] \<and> collect_epoch_turns (ar_repr (re_artifacts sample_env)) es (lit ''e1'') = []"
proof -
  define res where "res = record_rewind sample_env (lit ''u'') sample_session"
  have "ro_turns (projr (fst res)) = [lit ''u'']" "\<not> isl (fst res)" "latest_epoch session_sample = Some (lit ''e1'')"
    "map ts_turn (collect_epoch_turns (ar_repr (re_artifacts sample_env)) session_sample (lit ''e1'')) = [lit ''u'']"
    unfolding res_def by code_simp+
  note facts = this
  obtain out s' where res: "record_rewind sample_env (lit ''u'') sample_session = (Inr out, s')"
    using facts(2) unfolding res_def by (metis prod.collapse sum.collapse(2))
  then have out: "ro_turns out = [lit ''u'']"
    using facts(1) by (simp add: res_def)
  from rewind_removes_target_and_later_turns[OF sample_session_ok sample_env_ok sample_stamp_ok res]
  obtain e epoch pre t post where r: "session_ok sample_env s' (session_sample @ [e])"
      "latest_epoch session_sample = Some epoch"
      "collect_epoch_turns (ar_repr (re_artifacts sample_env)) session_sample epoch = pre @ t # post"
      "collect_epoch_turns (ar_repr (re_artifacts sample_env)) (session_sample @ [e]) epoch = pre"
    by blast
  have "epoch = lit ''e1''" using r(2) facts(3) by simp
  moreover from this have "pre = []"
    using facts(4) r(3) by (cases pre) auto
  ultimately show ?thesis
    using res r(1,4) out by blast
qed

definition retained_session :: session_state where
  "retained_session = sample_session\<lparr>ss_rec := (new_recorder sample_stamp)\<lparr>rc_pending_assistant := Some sample_response\<rparr>\<rparr>"

theorem retried_response_is_recorded_once_witness:
  "\<exists>s' es m. retry_pending_assistant sample_env False (retries sample_env False 0 retained_session) = (Inr (Some m), s') \<and>
     session_ok sample_env s' es \<and> length (response_events (ss_rec retained_session) sample_response es) = 1"
proof -
  define res where "res = retry_pending_assistant sample_env False (retries sample_env False 0 retained_session)"
  have "\<not> isl (fst res)" "projr (fst res) \<noteq> None"
    unfolding res_def by code_simp+
  then obtain m s' where res: "retry_pending_assistant sample_env False (retries sample_env False 0 retained_session) = (Inr (Some m), s')"
    by (cases res; cases "fst res") (auto simp: res_def)
  have "session_ok sample_env retained_session session_sample"
    using sample_session_ok by (simp add: retained_session_def)
  moreover have "stamp_ok (rc_stamp (ss_rec retained_session))" "rc_pending_assistant (ss_rec retained_session) = Some sample_response"
    "pa_epoch sample_response \<noteq> []" "response_once (ss_rec retained_session) sample_response session_sample"
    by code_simp+
  ultimately show ?thesis
    using retried_response_is_recorded_once[OF _ sample_env_ok _ _ _ _ res] res by blast
qed

end
