(* ===== verification/Background_Journal.thy ===== *)
theory Background_Journal
  imports Recorder_Laws
begin

text \<open>
  The records of background jobs in the session journal: \<open>archived_background_completion_ids\<close> and the
  background operations of \<open>SessionRecorder\<close> in \<open>kolega_code/cli/session_journal.py\<close>, and a small logic of
  recorder operations that leave the recorder as it is. A missing key or a value of the wrong kind in a journal
  event is an error with the name of the Python exception.
\<close>

section \<open>Dynamic values\<close>

definition key_error :: "string \<Rightarrow> journal_error" where
  "key_error k = RecorderError (lit ''KeyError: '' @ lit k)"

text \<open>\<open>d[k]\<close>, \<open>d.get(k, default)\<close> and \<open>d.update(u)\<close>.\<close>

definition dict_item :: "(pystr \<times> json) list \<Rightarrow> string \<Rightarrow> journal_error + json" where
  "dict_item d k = (case map_of d (lit k) of None \<Rightarrow> Inl (key_error k) | Some v \<Rightarrow> Inr v)"

definition dict_default :: "(pystr \<times> json) list \<Rightarrow> string \<Rightarrow> json \<Rightarrow> json" where
  "dict_default d k v = (case map_of d (lit k) of None \<Rightarrow> v | Some w \<Rightarrow> w)"

definition dict_update :: "('k \<times> 'v) list \<Rightarrow> ('k \<times> 'v) list \<Rightarrow> ('k \<times> 'v) list" where
  "dict_update u d = fold (\<lambda>k. dict_set k (the (map_of u k))) (map fst u) d"

text \<open>\<open>a == b\<close>: numbers and booleans by value, dictionaries without regard to order.\<close>

definition num_value :: "json \<Rightarrow> (int \<times> nat) option" where
  "num_value v = (case v of JBool b \<Rightarrow> Some (of_bool b, 0) | JInt i \<Rightarrow> Some (i, 0) | JFloat m e \<Rightarrow> Some (m, e) | _ \<Rightarrow> None)"

definition same_number :: "json \<Rightarrow> json \<Rightarrow> bool" where
  "same_number v w =
     (case (num_value v, num_value w) of
        (Some (m, e), Some (m', e')) \<Rightarrow> m * 2 ^ e' = m' * 2 ^ e
      | _ \<Rightarrow> False)"

primrec py_eq :: "json \<Rightarrow> json \<Rightarrow> bool" where
  "py_eq JNull w = (w = JNull)"
| "py_eq (JBool b) w = same_number (JBool b) w"
| "py_eq (JInt i) w = same_number (JInt i) w"
| "py_eq (JFloat m e) w = same_number (JFloat m e) w"
| "py_eq (JStr s) w = (w = JStr s)"
| "py_eq (JList vs) w =
     (case w of JList ws \<Rightarrow> length vs = length ws \<and> list_all (\<lambda>(p, v). p v) (zip (map py_eq vs) ws) | _ \<Rightarrow> False)"
| "py_eq (JObj d) w =
     (case w of
        JObj d' \<Rightarrow> length d = length d' \<and>
                   list_all (\<lambda>(k, p). case map_of d' k of None \<Rightarrow> False | Some v \<Rightarrow> p v) (map (map_prod id py_eq) d)
      | _ \<Rightarrow> False)"

text \<open>\<open>v in s\<close> for a set of strings.\<close>

definition in_strings :: "json \<Rightarrow> pystr set \<Rightarrow> journal_error + bool" where
  "in_strings v s =
     (case v of
        JStr x \<Rightarrow> Inr (x \<in> s)
      | JList _ \<Rightarrow> Inl (RecorderError (lit ''TypeError: unhashable type''))
      | JObj _ \<Rightarrow> Inl (RecorderError (lit ''TypeError: unhashable type''))
      | _ \<Rightarrow> Inr False)"

definition as_dict :: "json \<Rightarrow> journal_error + (pystr \<times> json) list" where
  "as_dict v = (case v of JObj d \<Rightarrow> Inr d | _ \<Rightarrow> Inl (RecorderError (lit ''AttributeError: get'')))"

definition lift_result :: "journal_error + 'a \<Rightarrow> 'a sop" where
  "lift_result r s = (r, s)"

section \<open>Archived completions\<close>

record archive_scan =
  as_archived :: "pystr set"
  as_submitted :: "pystr set"
  as_inserted :: "pystr set"
  as_workspace :: pystr

definition empty_scan :: archive_scan where
  "empty_scan = \<lparr>as_archived = {}, as_submitted = {}, as_inserted = {}, as_workspace = []\<rparr>"

definition scan_event :: "(json \<Rightarrow> pystr) \<Rightarrow> session_event \<Rightarrow> archive_scan \<Rightarrow> journal_error + archive_scan" where
  "scan_event repr e st =
     (let payload = se_payload e
      in if \<not> root_event e then Inr st
         else if se_type e = lit ''context.epoch_started'' then Inr empty_scan
         else if se_type e = lit ''background.job.submitted'' then
           rbind (dict_item payload ''completion_id'') (\<lambda>c.
           rbind (as_dict (dict_default payload ''metadata'' (JObj []))) (\<lambda>metadata.
           let cid = py_str repr c;
               path = py_str repr (dict_default metadata ''project_path'' (JStr []))
           in Inr (st\<lparr>as_submitted := insert cid (as_submitted st),
                     as_archived := (if as_workspace st \<noteq> [] \<and> path \<noteq> [] \<and> path \<noteq> as_workspace st
                                     then insert cid (as_archived st) else as_archived st)\<rparr>)))
         else if se_type e = lit ''context.message'' \<and> truthy (json_get payload (lit ''completion_id'')) then
           (let cid = py_str repr (json_get payload (lit ''completion_id''))
            in Inr (st\<lparr>as_inserted := insert cid (as_inserted st),
                      as_archived := (if truthy (json_get payload (lit ''archived''))
                                      then insert cid (as_archived st) else as_archived st)\<rparr>))
         else if se_type e = lit ''context.message_archived'' then
           rbind (dict_item payload ''completion_id'') (\<lambda>c.
           Inr (st\<lparr>as_archived := insert (py_str repr c) (as_archived st)\<rparr>))
         else if se_type e = lit ''session.workspace_switched'' then
           Inr (st\<lparr>as_workspace := py_str repr (dict_default payload ''new_root'' (JStr [])),
                  as_archived := as_archived st \<union> (as_submitted st - as_inserted st)\<rparr>)
         else Inr st)"

fun scan_events :: "(json \<Rightarrow> pystr) \<Rightarrow> session_event list \<Rightarrow> archive_scan \<Rightarrow> journal_error + archive_scan" where
  "scan_events repr [] st = Inr st"
| "scan_events repr (e # es) st = rbind (scan_event repr e st) (scan_events repr es)"

definition archived_background_completion_ids :: "(json \<Rightarrow> pystr) \<Rightarrow> session_event list \<Rightarrow> journal_error + pystr set" where
  "archived_background_completion_ids repr es = rbind (scan_events repr es empty_scan) (\<lambda>st. Inr (as_archived st))"

section \<open>Reading jobs back\<close>

type_synonym job_rows = "(pystr \<times> (pystr \<times> json) list) list"

definition job_event :: "pystr \<Rightarrow> session_event \<Rightarrow> bool" where
  "job_event epoch e \<longleftrightarrow> se_epoch e = epoch \<and> root_event e"

text \<open>One event of the epoch: the rows by identifier, and the completions that were inserted.\<close>

definition collect_job ::
  "(json \<Rightarrow> pystr) \<Rightarrow> session_event \<Rightarrow> job_rows \<times> pystr set \<Rightarrow> journal_error + job_rows \<times> pystr set" where
  "collect_job repr e = (\<lambda>(jobs, delivered).
     let payload = se_payload e
     in if se_type e \<in> {lit ''background.job.submitted'', lit ''background.job.terminal''} then
          rbind (dict_item payload ''job_id'') (\<lambda>i.
          let job_id = py_str repr i
          in Inr (dict_set job_id (dict_update payload (case map_of jobs job_id of None \<Rightarrow> [] | Some d \<Rightarrow> d)) jobs, delivered))
        else if se_type e = lit ''context.message'' \<and> truthy (json_get payload (lit ''completion_id'')) then
          Inr (jobs, insert (py_str repr (json_get payload (lit ''completion_id''))) delivered)
        else Inr (jobs, delivered))"

fun collect_jobs ::
  "(json \<Rightarrow> pystr) \<Rightarrow> session_event list \<Rightarrow> job_rows \<times> pystr set \<Rightarrow> journal_error + job_rows \<times> pystr set" where
  "collect_jobs repr [] st = Inr st"
| "collect_jobs repr (e # es) st = rbind (collect_job repr e st) (collect_jobs repr es)"

definition finish_row ::
  "artifact_env \<Rightarrow> store \<Rightarrow> pystr set \<Rightarrow> pystr set \<Rightarrow> (pystr \<times> json) list \<Rightarrow> journal_error + (pystr \<times> json) list" where
  "finish_row env st delivered archived job =
     rbind (case json_get job (lit ''result_artifact'') of
              JNull \<Rightarrow> Inr job
            | ref \<Rightarrow>
                rbind (as_dict ref) (\<lambda>ref.
                rbind (read_artifact env st ref) (\<lambda>data.
                case utf8_decode data of
                  None \<Rightarrow> Inl EncodeFailed
                | Some text \<Rightarrow> Inr (dict_set (lit ''result'') (JStr text) job)))) (\<lambda>job.
     rbind (dict_item job ''completion_id'') (\<lambda>c.
     rbind (in_strings c delivered) (\<lambda>d.
     rbind (in_strings c archived) (\<lambda>a.
     Inr (dict_set (lit ''archived'') (JBool a) (dict_set (lit ''delivered'') (JBool d) job))))))"

definition rows_of_events ::
  "artifact_env \<Rightarrow> store \<Rightarrow> pystr \<Rightarrow> session_event list \<Rightarrow> journal_error + (pystr \<times> json) list list" where
  "rows_of_events env st epoch events =
     rbind (archived_background_completion_ids (ar_repr env) (filter (\<lambda>e. se_epoch e = epoch) events)) (\<lambda>archived.
     rbind (collect_jobs (ar_repr env) (filter (job_event epoch) events) ([], {})) (\<lambda>(jobs, delivered).
     traverse (\<lambda>(_, job). finish_row env st delivered archived job) jobs))"

definition read_background_jobs :: "recorder_env \<Rightarrow> pystr \<Rightarrow> (pystr \<times> json) list list sop" where
  "read_background_jobs env epoch =
     obind (require_root ''Background jobs is only valid for the root agent recorder'') (\<lambda>_.
     obind (all_events env) (\<lambda>events s.
     (rows_of_events (re_artifacts env) (ss_store s) epoch events, s)))"

fun archived_messages ::
  "artifact_env \<Rightarrow> store \<Rightarrow> pystr set \<Rightarrow> session_event list \<Rightarrow> (int \<times> json) list \<Rightarrow> journal_error + (int \<times> json) list" where
  "archived_messages env st archived [] acc = Inr acc"
| "archived_messages env st archived (e # es) acc =
     (if se_type e = lit ''context.message'' then
        rbind (in_strings (json_get (se_payload e) (lit ''completion_id'')) archived) (\<lambda>found.
        if found then
          rbind (dict_item (se_payload e) ''message'') (\<lambda>m.
          rbind (as_dict m) (\<lambda>m.
          rbind (hydrate_message env st m) (\<lambda>m.
          archived_messages env st archived es (acc @ [(se_seq e, JObj m)]))))
        else archived_messages env st archived es acc)
      else if se_type e = lit ''context.rewound'' then
        rbind (dict_item (se_payload e) ''boundary_seq'') (\<lambda>b.
        case num_value b of
          None \<Rightarrow> if acc = [] then archived_messages env st archived es []
                  else Inl (RecorderError (lit ''TypeError: unorderable types''))
        | Some (m, x) \<Rightarrow> archived_messages env st archived es (filter (\<lambda>(seq, _). seq * 2 ^ x < m) acc))
      else archived_messages env st archived es acc)"

definition read_archived_background_messages :: "recorder_env \<Rightarrow> json list sop" where
  "read_archived_background_messages env =
     obind (require_root ''Archived background reports is only valid for the root agent recorder'') (\<lambda>_.
     obind (all_events env) (\<lambda>events.
     obind (current_epoch env) (\<lambda>epoch s.
     (let events = filter (job_event epoch) events
      in rbind (archived_background_completion_ids (ar_repr (re_artifacts env)) events) (\<lambda>archived.
         rbind (archived_messages (re_artifacts env) (ss_store s) archived events []) (\<lambda>ms. Inr (map snd ms))), s))))"

section \<open>Recording jobs\<close>

definition job_key :: "(pystr \<times> json) list \<Rightarrow> string \<Rightarrow> json sop" where
  "job_key job k = lift_result (dict_item job k)"

definition record_background_job_submitted :: "recorder_env \<Rightarrow> pystr \<Rightarrow> (pystr \<times> json) list \<Rightarrow> unit sop" where
  "record_background_job_submitted env epoch job =
     obind (require_root ''Background jobs is only valid for the root agent recorder'') (\<lambda>_.
     obind (current_epoch env) (\<lambda>current.
     obind (require (current = epoch) ''Cannot admit a background job into an inactive epoch'') (\<lambda>_.
     obind (all_events env) (\<lambda>events.
     obind (if list_ex (\<lambda>e. job_event epoch e \<and> se_type e = lit ''background.job.submitted'') events
            then job_key job ''job_id'' else oret JNull) (\<lambda>job_id.
     case find (\<lambda>e. job_event epoch e \<and> se_type e = lit ''background.job.submitted'' \<and>
                    py_eq (json_get (se_payload e) (lit ''job_id'')) job_id) events of
       Some e \<Rightarrow> require (py_eq (JObj (se_payload e)) (JObj job)) ''Conflicting background job''
     | None \<Rightarrow>
         obind (rec_get rc_turn) (\<lambda>turn.
         obind (rec_append env (lit ''background.job.submitted'') ''system'' job turn (Some epoch) []) (\<lambda>_. oret ())))))))"

definition terminal_statuses :: "pystr list" where
  "terminal_statuses = map lit [''completed'', ''failed'', ''cancelled'', ''interrupted'']"

definition is_terminal :: "json \<Rightarrow> bool" where
  "is_terminal v = (case v of JStr s \<Rightarrow> s \<in> set terminal_statuses | _ \<Rightarrow> False)"

text \<open>The row of the journal that already settles the job, if there is one.\<close>

definition settled_row :: "json \<Rightarrow> (pystr \<times> json) list \<Rightarrow> journal_error + bool" where
  "settled_row job_id row =
     rbind (dict_item row ''job_id'') (\<lambda>i.
     if py_eq i job_id then rbind (dict_item row ''status'') (\<lambda>st. Inr (st \<noteq> JStr (lit ''queued''))) else Inr False)"

fun find_settled :: "json \<Rightarrow> (pystr \<times> json) list list \<Rightarrow> journal_error + (pystr \<times> json) list option" where
  "find_settled job_id [] = Inr None"
| "find_settled job_id (row # rows) =
     rbind (settled_row job_id row) (\<lambda>b. if b then Inr (Some row) else find_settled job_id rows)"

definition terminal_payload_of ::
  "recorder_env \<Rightarrow> (pystr \<times> json) list \<Rightarrow> ((pystr \<times> json) list \<times> json list) sop" where
  "terminal_payload_of env job =
     (let payload = dict_remove (lit ''text'') (dict_remove (lit ''delivered'') job);
          text = py_str (ar_repr (re_artifacts env)) (dict_default payload ''result'' (JStr []))
      in if length text > preview_chars then
           (case utf8_encode text of
              None \<Rightarrow> ofail EncodeFailed
            | Some data \<Rightarrow>
                obind (with_store (put_artifact (re_artifacts env) data (lit ''text/plain; charset=utf-8'')
                         (lit ''background_result'') (lit ''utf-8'') (Some (length text)))) (\<lambda>ref.
                oret (dict_remove (lit ''result'') (dict_set (lit ''result_artifact'') (JObj ref) payload), [JObj ref])))
         else oret (payload, []))"

definition record_background_job_terminal :: "recorder_env \<Rightarrow> pystr \<Rightarrow> (pystr \<times> json) list \<Rightarrow> unit sop" where
  "record_background_job_terminal env epoch job =
     obind (require_root ''Background jobs is only valid for the root agent recorder'') (\<lambda>_.
     obind (require (is_terminal (json_get job (lit ''status''))) ''Unknown background terminal status'') (\<lambda>_.
     obind (read_background_jobs env epoch) (\<lambda>rows.
     obind (if rows = [] then oret None
            else obind (job_key job ''job_id'') (\<lambda>job_id. lift_result (find_settled job_id rows))) (\<lambda>settled.
     case settled of
       Some row \<Rightarrow>
         require (py_eq (json_get row (lit ''status'')) (json_get job (lit ''status'')) \<and>
                  py_eq (json_get row (lit ''result'')) (json_get job (lit ''result''))) ''Conflicting background outcome''
     | None \<Rightarrow>
         obind (terminal_payload_of env job) (\<lambda>(payload, artifacts).
         obind (rec_append env (lit ''background.job.terminal'') ''system'' payload None (Some epoch) artifacts) (\<lambda>_.
         oret ()))))))"

definition is_completion :: "pystr \<Rightarrow> json \<Rightarrow> session_event \<Rightarrow> bool" where
  "is_completion epoch cid e \<longleftrightarrow>
     job_event epoch e \<and> se_type e = lit ''context.message'' \<and> py_eq (json_get (se_payload e) (lit ''completion_id'')) cid"

definition completion_payload ::
  "json \<Rightarrow> (pystr \<times> json) list \<Rightarrow> (pystr \<times> json) list \<Rightarrow> journal_error + (pystr \<times> json) list" where
  "completion_payload cid completion stored_message =
     rbind (dict_item completion ''job_id'') (\<lambda>job_id.
     rbind (dict_item completion ''agent_type'') (\<lambda>agent_type.
     rbind (dict_item completion ''status'') (\<lambda>status.
     Inr [(lit ''message'', JObj stored_message), (lit ''completion_id'', cid), (lit ''job_id'', job_id),
          (lit ''agent_type'', agent_type), (lit ''task'', dict_default completion ''task'' (JStr [])),
          (lit ''status'', status), (lit ''archived'', JBool (truthy (json_get completion (lit ''archived'')))),
          (lit ''metadata'', dict_default completion ''metadata'' (JObj [])),
          (lit ''origin'', JObj [(lit ''kind'', JStr (lit ''subagent_completion''))])])))"

text \<open>What a repeated insertion still does: archive a report that was inserted as conversation.\<close>

definition archive_existing ::
  "recorder_env \<Rightarrow> pystr \<Rightarrow> json \<Rightarrow> (pystr \<times> json) list \<Rightarrow> session_event \<Rightarrow> unit sop" where
  "archive_existing env epoch cid completion e =
     (if truthy (json_get completion (lit ''archived'')) \<and> \<not> truthy (json_get (se_payload e) (lit ''archived'')) then
        obind (all_events env) (\<lambda>events.
        obind (lift_result (rbind (archived_background_completion_ids (ar_repr (re_artifacts env)) events) (in_strings cid))) (\<lambda>found.
        if found then oret ()
        else obind (rec_append env (lit ''context.message_archived'') ''system'' [(lit ''completion_id'', cid)] None
                      (Some epoch) []) (\<lambda>_. oret ())))
      else oret ())"

definition record_background_completion ::
  "recorder_env \<Rightarrow> pystr \<Rightarrow> (pystr \<times> json) list \<Rightarrow> (pystr \<times> json) list \<Rightarrow> bool sop" where
  "record_background_completion env epoch completion message =
     obind (require_root ''Background completions is only valid for the root agent recorder'') (\<lambda>_.
     obind require_settled_context (\<lambda>_.
     obind (current_epoch env) (\<lambda>current.
     obind (require (current = epoch) ''Cannot deliver a background completion into an inactive epoch'') (\<lambda>_.
     obind (job_key completion ''completion_id'') (\<lambda>cid.
     obind (all_events env) (\<lambda>events.
     case find (is_completion epoch cid) events of
       Some e \<Rightarrow> obind (archive_existing env epoch cid completion e) (\<lambda>_. oret False)
     | None \<Rightarrow>
         obind (with_store (prepare_message (re_artifacts env) message)) (\<lambda>(stored_message, artifacts).
         obind (lift_result (completion_payload cid completion stored_message)) (\<lambda>payload.
         obind (rec_get rc_turn) (\<lambda>turn.
         obind (rec_append env (lit ''context.message'') ''system'' payload turn (Some epoch) artifacts) (\<lambda>_.
         oret True))))))))))"

section \<open>Dictionaries\<close>

lemma map_of_dict_update: "map_of (dict_update u d) k = (case map_of u k of Some v \<Rightarrow> Some v | None \<Rightarrow> map_of d k)"
proof -
  have "map_of (fold (\<lambda>k. dict_set k (f k)) ks d) k = (if k \<in> set ks then Some (f k) else map_of d k)" for f ks
    by (induction ks arbitrary: d) auto
  moreover have "k \<in> set (map fst u) \<longleftrightarrow> map_of u k \<noteq> None"
    by (simp add: map_of_eq_None_iff)
  ultimately show ?thesis
    by (cases "map_of u k") (simp_all add: dict_update_def)
qed

section \<open>A logic of recorder operations\<close>

text \<open>
  \<open>logs env r P m Q R\<close>: on a session whose journal holds events satisfying \<open>P\<close> and whose recorder is \<open>r\<close>, the
  operation \<open>m\<close> keeps the recorder and every event, and ends with a value and events satisfying \<open>Q\<close> or with an
  error and events satisfying \<open>R\<close>, whatever the faults.
\<close>

definition logs ::
  "recorder_env \<Rightarrow> recorder \<Rightarrow> (session_event list \<Rightarrow> bool) \<Rightarrow> 'a sop \<Rightarrow> ('a \<Rightarrow> session_event list \<Rightarrow> bool) \<Rightarrow>
     (session_event list \<Rightarrow> bool) \<Rightarrow> bool" where
  "logs env r P m Q R \<longleftrightarrow>
     (\<forall>s es x s'. session_ok env s es \<longrightarrow> ss_rec s = r \<longrightarrow> P es \<longrightarrow> m s = (x, s') \<longrightarrow>
        ss_rec s' = r \<and> (\<exists>es'. session_ok env s' (es @ es') \<and> (case x of Inr a \<Rightarrow> Q a (es @ es') | Inl _ \<Rightarrow> R (es @ es'))))"

lemma logsI:
  assumes "\<And>s es x s'. session_ok env s es \<Longrightarrow> ss_rec s = r \<Longrightarrow> P es \<Longrightarrow> m s = (x, s') \<Longrightarrow>
      ss_rec s' = r \<and> (\<exists>es'. session_ok env s' (es @ es') \<and> (case x of Inr a \<Rightarrow> Q a (es @ es') | Inl _ \<Rightarrow> R (es @ es')))"
  shows "logs env r P m Q R"
  unfolding logs_def by (intro allI impI) (rule assms)

lemma logsE:
  assumes "logs env r P m Q R" "session_ok env s es" "ss_rec s = r" "P es" "m s = (x, s')"
  obtains es' where "ss_rec s' = r" "session_ok env s' (es @ es')" "case x of Inr a \<Rightarrow> Q a (es @ es') | Inl _ \<Rightarrow> R (es @ es')"
proof -
  have "ss_rec s' = r \<and> (\<exists>es'. session_ok env s' (es @ es') \<and> (case x of Inr a \<Rightarrow> Q a (es @ es') | Inl _ \<Rightarrow> R (es @ es')))"
    using assms(1)[unfolded logs_def, rule_format, OF assms(2-5)] .
  then show thesis using that by blast
qed

lemma logs_conseq:
  assumes "logs env r P m Q R" "\<And>es. P' es \<Longrightarrow> P es" "\<And>a es. Q a es \<Longrightarrow> Q' a es" "\<And>es. R es \<Longrightarrow> R' es"
  shows "logs env r P' m Q' R'"
proof (rule logsI)
  fix s es x s'
  assume a: "session_ok env s es" "ss_rec s = r" "P' es" "m s = (x, s')"
  obtain es' where "ss_rec s' = r" "session_ok env s' (es @ es')" "case x of Inr a \<Rightarrow> Q a (es @ es') | Inl _ \<Rightarrow> R (es @ es')"
    using logsE[OF assms(1) a(1,2) assms(2)[OF a(3)] a(4)] .
  with assms(3,4) show "ss_rec s' = r \<and> (\<exists>es'. session_ok env s' (es @ es') \<and> (case x of Inr a \<Rightarrow> Q' a (es @ es') | Inl _ \<Rightarrow> R' (es @ es')))"
    by (cases x) auto
qed

lemma logs_bind:
  assumes m: "logs env r P m Q R" and f: "\<And>a. logs env r (Q a) (f a) Q' R"
  shows "logs env r P (obind m f) Q' R"
proof (rule logsI)
  fix s es x s'
  assume a: "session_ok env s es" "ss_rec s = r" "P es" "obind m f s = (x, s')"
  obtain y s1 where y: "m s = (y, s1)" by fastforce
  obtain es1 where e1: "ss_rec s1 = r" "session_ok env s1 (es @ es1)" "case y of Inr a \<Rightarrow> Q a (es @ es1) | Inl _ \<Rightarrow> R (es @ es1)"
    using logsE[OF m a(1-3) y] .
  show "ss_rec s' = r \<and> (\<exists>es'. session_ok env s' (es @ es') \<and> (case x of Inr a \<Rightarrow> Q' a (es @ es') | Inl _ \<Rightarrow> R (es @ es')))"
  proof (cases y)
    case (Inl e)
    with a(4) y e1 show ?thesis by (auto simp: obind_Inl)
  next
    case (Inr b)
    with a(4) y have fb: "f b s1 = (x, s')" by (simp add: obind_Inr)
    have q: "Q b (es @ es1)" using e1(3) Inr by simp
    obtain es2 where "ss_rec s' = r" "session_ok env s' ((es @ es1) @ es2)"
        "case x of Inr a \<Rightarrow> Q' a ((es @ es1) @ es2) | Inl _ \<Rightarrow> R ((es @ es1) @ es2)"
      using logsE[OF f e1(2,1) q fb] .
    then show ?thesis by (metis append.assoc)
  qed
qed

lemma logs_steady:
  assumes "\<And>s x s'. ss_rec s = r \<Longrightarrow> m s = (x, s') \<Longrightarrow>
      ss_journal s' = ss_journal s \<and> ss_rec s' = ss_rec s \<and>
      (\<forall>es. P es \<longrightarrow> (case x of Inr a \<Rightarrow> Q a es | Inl _ \<Rightarrow> R es))"
  shows "logs env r P m Q R"
proof (rule logsI)
  fix s es x s'
  assume a: "session_ok env s es" "ss_rec s = r" "P es" "m s = (x, s')"
  with assms[OF a(2,4)] show "ss_rec s' = r \<and> (\<exists>es'. session_ok env s' (es @ es') \<and> (case x of Inr a \<Rightarrow> Q a (es @ es') | Inl _ \<Rightarrow> R (es @ es')))"
    by (intro conjI exI[of _ "[]"]) (auto simp: session_ok_def)
qed

lemma logs_ret: "(\<And>es. P es \<Longrightarrow> Q a es) \<Longrightarrow> logs env r P (oret a) Q R"
  by (rule logs_steady) auto

lemma logs_fail: "(\<And>es. P es \<Longrightarrow> R es) \<Longrightarrow> logs env r P (ofail e) Q R"
  by (rule logs_steady) auto

lemma logs_require: "logs env r P (require b m) (\<lambda>_ es. b \<and> P es) P"
  by (rule logs_steady) (auto simp: require_def split: if_splits)

lemma logs_get: "logs env r P (rec_get f) (\<lambda>a es. a = f r \<and> P es) R"
  by (rule logs_steady) auto

lemma logs_lift: "logs env r P (lift_result x) (\<lambda>a es. x = Inr a \<and> P es) P"
  by (rule logs_steady) (auto simp: lift_result_def split: sum.split)

lemma logs_store: "logs env r P (with_store g) (\<lambda>a es. (\<exists>st st'. g st = (Inr a, st')) \<and> P es) P"
  by (rule logs_steady) (auto simp: with_store_def Let_def split: sum.split, metis prod.collapse)

lemma logs_all_events: "logs env r P (all_events env) (\<lambda>fs es. fs = es \<and> P es) P"
proof (rule logsI)
  fix s es x s'
  assume a: "session_ok env s es" "ss_rec s = r" "P es" "all_events env s = (x, s')"
  note e = all_events_ok[OF a(1,4)]
  show "ss_rec s' = r \<and> (\<exists>es'. session_ok env s' (es @ es') \<and> (case x of Inr fs \<Rightarrow> fs = es @ es' \<and> P (es @ es') | Inl _ \<Rightarrow> P (es @ es')))"
    using e a(2,3) by (intro conjI exI[of _ "[]"]) (auto split: sum.split)
qed

lemma logs_epoch: "logs env r P (current_epoch env) (\<lambda>ep es. latest_epoch es = Some ep \<and> P es) P"
proof (rule logsI)
  fix s es x s'
  assume a: "session_ok env s es" "ss_rec s = r" "P es" "current_epoch env s = (x, s')"
  note e = current_epoch_ok[OF a(1,4)]
  show "ss_rec s' = r \<and> (\<exists>es'. session_ok env s' (es @ es') \<and> (case x of Inr ep \<Rightarrow> latest_epoch (es @ es') = Some ep \<and> P (es @ es') | Inl _ \<Rightarrow> P (es @ es')))"
    using e a(2,3) by (intro conjI exI[of _ "[]"]) (auto split: sum.split)
qed

text \<open>The event appended by a recorder for a named epoch.\<close>

definition written :: "recorder \<Rightarrow> string \<Rightarrow> (pystr \<times> json) list \<Rightarrow> pystr \<Rightarrow> session_event \<Rightarrow> bool" where
  "written r event_type payload epoch e \<longleftrightarrow>
     se_type e = lit event_type \<and> se_payload e = payload \<and> se_epoch e = epoch \<and> se_depth e = Some (st_depth (rc_stamp r))"

lemma logs_append:
  assumes "env_ok env" "stamp_ok (rc_stamp r)" "ty \<noteq> ''''" "actor \<noteq> ''''" "list_all is_object arts" "epoch \<noteq> []"
  shows "logs env r P (rec_append env (lit ty) actor payload turn (Some epoch) arts)
     (\<lambda>_ es. \<exists>es0 e. es = es0 @ [e] \<and> P es0 \<and> written r ty payload epoch e)
     (\<lambda>es. P es \<or> (\<exists>es0 e. es = es0 @ [e] \<and> P es0 \<and> written r ty payload epoch e))"
proof (rule logsI)
  fix s es x s'
  assume a: "session_ok env s es" "ss_rec s = r" "P es" "rec_append env (lit ty) actor payload turn (Some epoch) arts s = (x, s')"
  have "stamp_ok (rc_stamp (ss_rec s))" "lit ty \<noteq> []" using assms a(2) by simp_all
  note ap = rec_append_ok[OF a(1) assms(1) this assms(4,5) a(4)]
  have w: "written r ty payload epoch e" if "appended s es (lit ty) payload turn (Some epoch) e" for e
    using that a(2) assms(6) by (simp add: appended_def written_def)
  show "ss_rec s' = r \<and> (\<exists>es'. session_ok env s' (es @ es') \<and>
      (case x of Inr _ \<Rightarrow> \<exists>es0 e. es @ es' = es0 @ [e] \<and> P es0 \<and> written r ty payload epoch e
       | Inl _ \<Rightarrow> P (es @ es') \<or> (\<exists>es0 e. es @ es' = es0 @ [e] \<and> P es0 \<and> written r ty payload epoch e)))"
  proof (cases x)
    case (Inr e)
    with ap(1,3) a(2,3) w show ?thesis by (intro conjI exI[of _ "[e]"]) auto
  next
    case (Inl y)
    then consider "session_ok env s' es"
      | e where "session_ok env s' (es @ [e])" "appended s es (lit ty) payload turn (Some epoch) e"
      using ap(4) by blast
    then show ?thesis
    proof cases
      case 1
      with Inl ap(1) a(2,3) show ?thesis by (intro conjI exI[of _ "[]"]) auto
    next
      case (2 e)
      with Inl ap(1) a(2,3) w show ?thesis by (intro conjI exI[of _ "[e]"]) auto
    qed
  qed
qed

lemma logs_pre: "logs env r P m Q R \<Longrightarrow> (\<And>es. P' es \<Longrightarrow> P es) \<Longrightarrow> logs env r P' m Q R"
  by (erule logs_conseq) auto

lemma logs_pure: "(b \<Longrightarrow> logs env r P m Q R) \<Longrightarrow> logs env r (\<lambda>es. b \<and> P es) m Q R"
  unfolding logs_def by blast

lemma logs_root: "logs env r P (require_root m) (\<lambda>_ es. st_depth (rc_stamp r) = 0 \<and> P es) P"
  by (rule logs_steady) (auto simp: require_root_def obind_def require_def split: if_splits)

lemma logs_settled: "logs env r P require_settled_context (\<lambda>_. P) P"
  by (rule logs_steady) (auto simp: require_settled_context_def obind_def require_def split: if_splits)

section \<open>What the journal holds of background jobs\<close>

definition job_types :: "pystr set" where
  "job_types = {lit ''background.job.submitted'', lit ''background.job.terminal''}"

definition completion_key :: "session_event \<Rightarrow> json" where
  "completion_key e = json_get (se_payload e) (lit ''completion_id'')"

text \<open>A completion is inserted at most once in an epoch, and its identifier is a string wherever it is recorded.\<close>

definition one_insertion :: "session_event list \<Rightarrow> bool" where
  "one_insertion es \<longleftrightarrow> (\<forall>epoch c. length (filter (is_completion epoch (JStr c)) es) \<le> 1)"

definition named_event :: "session_event \<Rightarrow> bool" where
  "named_event e \<longleftrightarrow> (root_event e \<longrightarrow>
     se_type e \<in> job_types \<or> se_type e = lit ''context.message'' \<and> truthy (completion_key e) \<longrightarrow> (\<exists>c. completion_key e = JStr c))"

definition bg_log :: "session_event list \<Rightarrow> bool" where
  "bg_log es \<longleftrightarrow> one_insertion es \<and> list_all named_event es"

lemma py_eq_JStr [simp]: "py_eq v (JStr c) \<longleftrightarrow> v = JStr c"
  by (cases v) (auto simp: same_number_def num_value_def)

lemma is_completion_str:
  "is_completion epoch (JStr c) e \<longleftrightarrow> job_event epoch e \<and> se_type e = lit ''context.message'' \<and> completion_key e = JStr c"
  by (simp add: is_completion_def completion_key_def)

lemma one_insertion_snoc:
  "one_insertion es \<Longrightarrow> (\<And>epoch c. is_completion epoch (JStr c) e \<Longrightarrow> filter (is_completion epoch (JStr c)) es = []) \<Longrightarrow>
     one_insertion (es @ [e])"
  by (auto simp: one_insertion_def)

lemma bg_log_other:
  assumes "bg_log es" "se_type e \<noteq> lit ''context.message''" "se_type e \<in> job_types \<Longrightarrow> \<exists>c. completion_key e = JStr c"
  shows "bg_log (es @ [e])"
  using assms by (auto simp: bg_log_def named_event_def is_completion_str intro!: one_insertion_snoc)

lemma bg_log_free:
  assumes "bg_log es" "se_type e \<notin> job_types" "se_type e = lit ''context.message'' \<longrightarrow> completion_key e = JNull"
  shows "bg_log (es @ [e])"
  using assms by (auto simp: bg_log_def named_event_def is_completion_str intro!: one_insertion_snoc)

lemma bg_log_completion:
  assumes "bg_log es" "written r ''context.message'' payload epoch e" "json_get payload (lit ''completion_id'') = JStr c"
    and "find (is_completion epoch (JStr c)) es = None"
  shows "bg_log (es @ [e])"
proof -
  have k: "completion_key e = JStr c" "se_epoch e = epoch"
    using assms(2,3) by (simp_all add: written_def completion_key_def)
  have "filter (is_completion ep (JStr d)) es = []" if "is_completion ep (JStr d) e" for ep d
  proof -
    have "ep = epoch" "d = c" using that k by (simp_all add: is_completion_str job_event_def)
    then show ?thesis using assms(4) by (auto simp: find_None_iff filter_empty_conv)
  qed
  then show ?thesis using assms(1) k by (auto simp: bg_log_def named_event_def intro!: one_insertion_snoc)
qed

lemma logs_keep:
  assumes "env_ok env" "stamp_ok (rc_stamp r)" "ty \<noteq> ''''" "actor \<noteq> ''''" "list_all is_object arts" "epoch \<noteq> []"
    and "ty \<noteq> ''context.message''" "lit ty \<in> job_types \<Longrightarrow> \<exists>c. json_get payload (lit ''completion_id'') = JStr c"
  shows "logs env r bg_log (rec_append env (lit ty) actor payload turn (Some epoch) arts) (\<lambda>_. bg_log) bg_log"
proof -
  have "bg_log (es0 @ [e])" if "bg_log es0" "written r ty payload epoch e" for es0 e
    using that assms(7,8) by (intro bg_log_other) (auto simp: written_def completion_key_def)
  then show ?thesis
    by (intro logs_conseq[OF logs_append[OF assms(1-6), of bg_log payload turn]]) auto
qed

lemma logs_seq:
  assumes "logs env r P m Q0 P" "\<And>es. P es \<Longrightarrow> R es" "\<And>a. logs env r (Q0 a) (f a) Q R"
  shows "logs env r P (obind m f) Q R"
proof -
  have "logs env r P m Q0 R"
    using assms(1) by (rule logs_conseq) (auto intro: assms(2))
  then show ?thesis using assms(3) by (rule logs_bind)
qed

text \<open>The rules in the form in which they are applied to an operation, one call after the other.\<close>

lemma logs_steps:
  "\<lbrakk>\<And>es. P es \<Longrightarrow> R es; st_depth (rc_stamp r) = 0 \<Longrightarrow> logs env r P (f ()) Q R\<rbrakk> \<Longrightarrow> logs env r P (obind (require_root t) f) Q R"
  "\<lbrakk>\<And>es. P es \<Longrightarrow> R es; b \<Longrightarrow> logs env r P (f ()) Q R\<rbrakk> \<Longrightarrow> logs env r P (obind (require b t) f) Q R"
  "\<lbrakk>\<And>es. P es \<Longrightarrow> R es; logs env r P (f ()) Q R\<rbrakk> \<Longrightarrow> logs env r P (obind require_settled_context f) Q R"
  "logs env r P (k (g r)) Q' R' \<Longrightarrow> logs env r P (obind (rec_get g) k) Q' R'"
  "\<lbrakk>\<And>es. P es \<Longrightarrow> R es; \<And>a. x = Inr a \<Longrightarrow> logs env r P (h a) Q'' R\<rbrakk> \<Longrightarrow> logs env r P (obind (lift_result x) h) Q'' R"
  "\<lbrakk>\<And>es. P es \<Longrightarrow> R es; \<And>a st st'. w st = (Inr a, st') \<Longrightarrow> logs env r P (n a) Q3 R\<rbrakk> \<Longrightarrow> logs env r P (obind (with_store w) n) Q3 R"
  "\<lbrakk>\<And>es. P es \<Longrightarrow> R es; \<And>es. P es \<Longrightarrow> logs env r (\<lambda>es'. es' = es) (q es) Q4 R\<rbrakk> \<Longrightarrow> logs env r P (obind (all_events env) q) Q4 R"
  "\<lbrakk>\<And>es. P es \<Longrightarrow> R es; \<And>ep. logs env r P (v ep) Q5 R\<rbrakk> \<Longrightarrow> logs env r P (obind (current_epoch env) v) Q5 R"
proof -
  assume "\<And>es. P es \<Longrightarrow> R es" "st_depth (rc_stamp r) = 0 \<Longrightarrow> logs env r P (f ()) Q R"
  then show "logs env r P (obind (require_root t) f) Q R"
    by (intro logs_seq[OF logs_root]) (auto intro: logs_pure)
next
  assume "\<And>es. P es \<Longrightarrow> R es" "b \<Longrightarrow> logs env r P (f ()) Q R"
  then show "logs env r P (obind (require b t) f) Q R"
    by (intro logs_seq[OF logs_require]) (auto intro: logs_pure)
next
  assume "\<And>es. P es \<Longrightarrow> R es" "logs env r P (f ()) Q R"
  then show "logs env r P (obind require_settled_context f) Q R"
    by (intro logs_seq[OF logs_settled]) auto
next
  assume "logs env r P (k (g r)) Q' R'"
  then show "logs env r P (obind (rec_get g) k) Q' R'"
    by (intro logs_bind[OF logs_get[of env r P g]]) (auto intro: logs_pure)
next
  assume "\<And>es. P es \<Longrightarrow> R es" "\<And>a. x = Inr a \<Longrightarrow> logs env r P (h a) Q'' R"
  then show "logs env r P (obind (lift_result x) h) Q'' R"
    by (intro logs_seq[OF logs_lift]) (auto intro: logs_pure)
next
  assume "\<And>es. P es \<Longrightarrow> R es" "\<And>a st st'. w st = (Inr a, st') \<Longrightarrow> logs env r P (n a) Q3 R"
  then show "logs env r P (obind (with_store w) n) Q3 R"
    by (intro logs_seq[OF logs_store]) (auto intro: logs_pure)
next
  assume a: "\<And>es. P es \<Longrightarrow> R es" "\<And>es. P es \<Longrightarrow> logs env r (\<lambda>es'. es' = es) (q es) Q4 R"
  have "logs env r (\<lambda>es. fs = es \<and> P es) (q fs) Q4 R" for fs
    using a(2)[of fs] by (cases "P fs") (auto elim: logs_pre intro: logsI)
  with a(1) show "logs env r P (obind (all_events env) q) Q4 R"
    by (intro logs_seq[OF logs_all_events]) auto
next
  assume "\<And>es. P es \<Longrightarrow> R es" "\<And>ep. logs env r P (v ep) Q5 R"
  then show "logs env r P (obind (current_epoch env) v) Q5 R"
    by (intro logs_seq[OF logs_epoch]) (auto intro: logs_pre)
qed

lemma logs_read_jobs:
  "logs env r P (read_background_jobs env epoch)
     (\<lambda>rows es. (\<exists>st. rows_of_events (re_artifacts env) st epoch es = Inr rows) \<and> P es) P"
  unfolding read_background_jobs_def
  by (intro logs_steps) (auto split: sum.split intro!: logs_steady)


lemma logs_lift_end: "logs env r P (lift_result x) (\<lambda>_. P) P"
  using logs_lift by (rule logs_conseq) simp_all

lemma logs_last: "logs env r P m Q R \<Longrightarrow> logs env r P (obind m (\<lambda>_. oret a)) (\<lambda>_ es. \<exists>b. Q b es) R"
  by (erule logs_bind) (auto intro: logs_ret)

lemma logs_require_end: "(\<And>es. P es \<Longrightarrow> Q () es) \<Longrightarrow> (\<And>es. P es \<Longrightarrow> R es) \<Longrightarrow> logs env r P (require b t) Q R"
  by (rule logs_steady) (auto simp: require_def split: if_splits)

lemma logs_keep_end:
  assumes "logs env r bg_log m (\<lambda>_. bg_log) bg_log"
  shows "logs env r bg_log (obind m (\<lambda>_. oret a)) (\<lambda>_. bg_log) bg_log"
  using logs_last[OF assms, of a] by simp

lemma logs_submitted:
  assumes "env_ok env" "stamp_ok (rc_stamp r)" "epoch \<noteq> []" "json_get job (lit ''completion_id'') = JStr c"
  shows "logs env r bg_log (record_background_job_submitted env epoch job) (\<lambda>_. bg_log) bg_log"
proof -
  have app: "logs env r bg_log (obind (rec_append env (lit ''background.job.submitted'') ''system'' job turn (Some epoch) [])
      (\<lambda>_. oret ())) (\<lambda>_. bg_log) bg_log" for turn
    using assms by (intro logs_keep_end logs_keep) auto
  have sub: "logs env r (\<lambda>es'. es' = es) m (\<lambda>_. bg_log) bg_log" if "bg_log es" "logs env r bg_log m (\<lambda>_. bg_log) bg_log" for es and m :: "unit sop"
    using that(2) by (rule logs_pre) (simp add: that(1))
  show ?thesis
    unfolding record_background_job_submitted_def job_key_def
    apply (intro logs_steps; (simp; fail)?)
    apply (rule sub, assumption)
    apply (rule logs_bind[where Q="\<lambda>_. bg_log"])
     apply (auto intro: logs_ret logs_lift_end)[1]
    apply (auto split: option.split intro!: logs_require_end logs_steps(4) app)
    done
qed

lemma terminal_payload_logs:
  assumes "json_get job (lit ''completion_id'') = JStr c"
  shows "logs env r P (terminal_payload_of env job)
     (\<lambda>(payload, arts) es. (json_get payload (lit ''completion_id'') = JStr c \<and> list_all is_object arts) \<and> P es) P"
proof -
  have get: "json_get (dict_remove k d) k' = (if k' = k then JNull else json_get d k')" for k k' d
    by (simp add: json_get_def map_of_dict_remove)
  show ?thesis
    unfolding terminal_payload_of_def Let_def
    by (auto simp: get assms is_object_def split: option.split intro!: logs_ret logs_fail logs_steps(6))
qed

lemma logs_terminal:
  assumes "env_ok env" "stamp_ok (rc_stamp r)" "epoch \<noteq> []" "json_get job (lit ''completion_id'') = JStr c"
  shows "logs env r bg_log (record_background_job_terminal env epoch job) (\<lambda>_. bg_log) bg_log"
proof -
  have app: "logs env r (\<lambda>es. (json_get payload (lit ''completion_id'') = JStr c \<and> list_all is_object arts) \<and> bg_log es)
      (obind (rec_append env (lit ''background.job.terminal'') ''system'' payload None (Some epoch) arts) (\<lambda>_. oret ()))
      (\<lambda>_. bg_log) bg_log" for payload arts
    using assms by (intro logs_pure logs_keep_end logs_keep) auto
  have body: "logs env r bg_log (obind (terminal_payload_of env job) (\<lambda>(payload, artifacts).
         obind (rec_append env (lit ''background.job.terminal'') ''system'' payload None (Some epoch) artifacts) (\<lambda>_.
         oret ()))) (\<lambda>_. bg_log) bg_log"
    by (rule logs_bind[OF terminal_payload_logs[OF assms(4)]]) (use app in \<open>simp add: case_prod_beta\<close>)
  have read: "logs env r bg_log (read_background_jobs env epoch) (\<lambda>_. bg_log) bg_log"
    using logs_read_jobs by (rule logs_conseq) simp_all
  show ?thesis
    unfolding record_background_job_terminal_def job_key_def
    apply (intro logs_steps; (simp; fail)?)
    apply (rule logs_bind[OF read])
    apply (rule logs_bind[where Q="\<lambda>_. bg_log"])
     apply (auto intro!: logs_ret logs_lift_end logs_steps(5))[1]
    apply (auto split: option.split intro!: logs_require_end body)
    done
qed


lemma completion_payload_key: "completion_payload cid d msg = Inr payload \<Longrightarrow> json_get payload (lit ''completion_id'') = cid"
  by (auto simp: completion_payload_def rbind_eq_Inr) (simp add: json_get_def)

lemma logs_completion:
  assumes "env_ok env" "stamp_ok (rc_stamp r)" "epoch \<noteq> []" "json_get completion (lit ''completion_id'') = JStr c"
  shows "logs env r bg_log (record_background_completion env epoch completion message)
     (\<lambda>_ es. bg_log es \<and> list_ex (is_completion epoch (JStr c)) es) bg_log"
proof -
  let ?done = "\<lambda>es. bg_log es \<and> list_ex (is_completion epoch (JStr c)) es"
  have item: "dict_item completion ''completion_id'' = Inr a \<Longrightarrow> a = JStr c" for a
    using assms(4) by (simp add: dict_item_def json_get_def split: option.splits)
  have archive: "logs env r (\<lambda>es'. es' = es) (obind (archive_existing env epoch (JStr c) completion e) (\<lambda>_. oret False)) (\<lambda>_. ?done) bg_log"
    if "bg_log es" "find (is_completion epoch (JStr c)) es = Some e" for es e
  proof -
    have ex: "list_ex (is_completion epoch (JStr c)) es"
      using that(2) by (auto simp: find_Some_iff list_ex_iff)
    have done_snoc: "?done (es0 @ [e'])" if "?done es0" "written r ''context.message_archived'' payload epoch e'" for es0 e' payload
      using that by (auto intro!: bg_log_other simp: written_def job_types_def)
    have "logs env r ?done (rec_append env (lit ''context.message_archived'') ''system'' [(lit ''completion_id'', JStr c)] None (Some epoch) [])
        (\<lambda>_. ?done) bg_log"
      using done_snoc assms by (intro logs_conseq[OF logs_append[where P="?done"]]) auto
    then have app: "logs env r ?done (obind (rec_append env (lit ''context.message_archived'') ''system'' [(lit ''completion_id'', JStr c)] None (Some epoch) [])
        (\<lambda>_. oret ())) (\<lambda>_. ?done) bg_log"
      by (rule logs_bind) (rule logs_ret)
    have "logs env r ?done (archive_existing env epoch (JStr c) completion e) (\<lambda>_. ?done) bg_log"
      unfolding archive_existing_def
      apply (simp, intro conjI impI logs_ret; simp?)
      apply (rule logs_steps(7); simp?)
      apply (rule logs_steps(5); simp?)
      apply (intro conjI impI logs_ret logs_pre[OF app]; simp)
      done
    then have "logs env r ?done (obind (archive_existing env epoch (JStr c) completion e) (\<lambda>_. oret False)) (\<lambda>_. ?done) bg_log"
      by (rule logs_bind) (rule logs_ret)
    then show ?thesis by (rule logs_pre) (simp add: that(1) ex)
  qed
  have insert: "logs env r (\<lambda>es'. es' = es) (rec_append env (lit ''context.message'') ''system'' payload turn (Some epoch) arts)
      (\<lambda>_. ?done) bg_log"
    if "bg_log es" "find (is_completion epoch (JStr c)) es = None" "list_all is_object arts"
      "json_get payload (lit ''completion_id'') = JStr c" "st_depth (rc_stamp r) = 0" for es payload turn arts
  proof -
    have "?done (es @ [e])" if w: "written r ''context.message'' payload epoch e" for e
    proof -
      have "is_completion epoch (JStr c) e"
        using w \<open>st_depth (rc_stamp r) = 0\<close> \<open>json_get payload _ = _\<close>
        by (simp add: written_def is_completion_def job_event_def root_event_def)
      then show ?thesis
        using bg_log_completion[OF \<open>bg_log es\<close> w \<open>json_get payload _ = _\<close> \<open>find _ es = None\<close>] by simp
    qed
    then show ?thesis
      using assms that by (intro logs_conseq[OF logs_append[where P="\<lambda>es'. es' = es"]]) auto
  qed
  show ?thesis
    unfolding record_background_completion_def job_key_def
    apply (intro logs_steps(1,2,3,5,8); (simp; fail)?)
    apply (drule item, simp)
    apply (rule logs_steps(7); simp?)
    apply (rename_tac es)
    apply (case_tac "find (is_completion epoch (JStr c)) es"; simp add: archive)
    apply (rule logs_steps(6); simp?)
    apply (rename_tac x st st')
    apply (case_tac x; simp)
    apply (rule logs_steps(5); simp?)
    apply (rule logs_steps(4))
    apply (rule logs_bind[OF insert]; simp add: prepare_message_refs completion_payload_key logs_ret)
    done
qed


section \<open>Rows read back\<close>

definition row_key :: "(json \<Rightarrow> pystr) \<Rightarrow> (pystr \<times> json) list \<Rightarrow> pystr" where
  "row_key repr row = py_str repr (json_get row (lit ''job_id''))"

definition job_keys :: "(json \<Rightarrow> pystr) \<Rightarrow> pystr \<Rightarrow> session_event list \<Rightarrow> pystr set" where
  "job_keys repr epoch es = row_key repr ` se_payload ` {e \<in> set es. job_event epoch e \<and> se_type e \<in> job_types}"

definition row_good :: "pystr \<Rightarrow> session_event list \<Rightarrow> (pystr \<times> json) list \<Rightarrow> bool" where
  "row_good epoch es row \<longleftrightarrow> (\<exists>c. json_get row (lit ''completion_id'') = JStr c \<and>
     (truthy (json_get row (lit ''delivered'')) \<longrightarrow> list_ex (is_completion epoch (JStr c)) es))"

lemma job_keys_append: "job_keys repr epoch (es @ es') = job_keys repr epoch es \<union> job_keys repr epoch es'"
  by (auto simp: job_keys_def)

lemma row_good_append: "row_good epoch es row \<Longrightarrow> row_good epoch (es @ es') row"
  by (auto simp: row_good_def)

definition collected :: "(json \<Rightarrow> pystr) \<Rightarrow> session_event list \<Rightarrow> job_rows \<times> pystr set \<Rightarrow> bool" where
  "collected repr fs = (\<lambda>(jobs, delivered).
     (\<forall>(k, d) \<in> set jobs. k = row_key repr d \<and> (\<exists>c. json_get d (lit ''completion_id'') = JStr c)) \<and>
     fst ` set jobs = row_key repr ` se_payload ` {e \<in> set fs. se_type e \<in> job_types} \<and>
     (\<forall>c \<in> delivered. \<exists>e \<in> set fs. se_type e = lit ''context.message'' \<and> completion_key e = JStr c))"

lemma collect_job_ok:
  assumes "collected repr fs acc" "collect_job repr e acc = Inr acc'" "named_event e" "root_event e"
  shows "collected repr (fs @ [e]) acc'"
proof -
  obtain jobs delivered where acc: "acc = (jobs, delivered)" by fastforce
  consider (job) i where "se_type e \<in> job_types" "dict_item (se_payload e) ''job_id'' = Inr i"
      "acc' = (dict_set (py_str repr i) (dict_update (se_payload e) (case map_of jobs (py_str repr i) of None \<Rightarrow> [] | Some d \<Rightarrow> d)) jobs, delivered)"
    | (report) "se_type e = lit ''context.message''" "truthy (completion_key e)" "acc' = (jobs, insert (py_str repr (completion_key e)) delivered)"
    | (neither) "se_type e \<notin> job_types" "acc' = acc"
    using assms(2) by (auto simp: collect_job_def acc Let_def job_types_def completion_key_def rbind_eq_Inr split: if_splits)
  then show ?thesis
  proof cases
    case job
    then obtain c where c: "completion_key e = JStr c" using assms(3,4) by (auto simp: named_event_def)
    have i: "py_str repr i = row_key repr (se_payload e)" "map_of (se_payload e) (lit ''job_id'') = Some i"
      using job(2) by (simp_all add: dict_item_def row_key_def json_get_def split: option.splits)
    have cid: "map_of (se_payload e) (lit ''completion_id'') = Some (JStr c)"
      using c by (simp add: completion_key_def json_get_def split: option.splits)
    let ?d = "dict_update (se_payload e) (case map_of jobs (py_str repr i) of None \<Rightarrow> [] | Some d \<Rightarrow> d)"
    have d: "row_key repr ?d = row_key repr (se_payload e)" "json_get ?d (lit ''completion_id'') = JStr c"
      using i cid by (simp_all add: row_key_def json_get_def map_of_dict_update)
    have "fst ` set (fst acc') = insert (row_key repr (se_payload e)) (fst ` set jobs)"
      using job(3) i(1) by (simp add: dict_set_entries(2))
    moreover have "set (fst acc') \<subseteq> insert (row_key repr (se_payload e), ?d) (set jobs)"
      using job(3) i(1) dict_set_entries(1)[of "row_key repr (se_payload e)" ?d jobs] by simp
    moreover have "{x \<in> set (fs @ [e]). se_type x \<in> job_types} = insert e {x \<in> set fs. se_type x \<in> job_types}"
      using job(1) by auto
    moreover have "snd acc' = delivered" using job(3) by simp
    ultimately show ?thesis
      using assms(1) d unfolding collected_def acc by (cases acc') auto
  next
    case report
    then obtain c where "completion_key e = JStr c" using assms(3,4) by (auto simp: named_event_def)
    with report assms(1) show ?thesis by (auto simp: collected_def acc job_types_def)
  next
    case neither
    with assms(1) show ?thesis by (auto simp: collected_def acc)
  qed
qed

lemma collect_jobs_ok:
  "collected repr fs acc \<Longrightarrow> collect_jobs repr gs acc = Inr acc' \<Longrightarrow> \<forall>e \<in> set gs. named_event e \<and> root_event e \<Longrightarrow>
     collected repr (fs @ gs) acc'"
proof (induction repr gs acc arbitrary: fs rule: collect_jobs.induct)
  case (2 repr e gs acc)
  then obtain acc1 where a: "collect_job repr e acc = Inr acc1" "collect_jobs repr gs acc1 = Inr acc'"
    by (auto simp: rbind_eq_Inr)
  have "collected repr (fs @ [e]) acc1"
    using collect_job_ok[OF 2(2) a(1)] 2(4) by simp
  from 2(1)[OF this a(2)] 2(4) show ?case by simp
qed simp

lemma finish_row_ok:
  assumes "finish_row env st delivered archived job = Inr row" "json_get job (lit ''completion_id'') = JStr c"
  shows "row_key repr row = row_key repr job" "json_get row (lit ''completion_id'') = JStr c"
    "truthy (json_get row (lit ''delivered'')) \<longleftrightarrow> c \<in> delivered"
proof -
  from assms(1) obtain job' where job': "(case json_get job (lit ''result_artifact'') of
              JNull \<Rightarrow> Inr job
            | ref \<Rightarrow>
                rbind (as_dict ref) (\<lambda>ref.
                rbind (read_artifact env st ref) (\<lambda>data.
                case utf8_decode data of
                  None \<Rightarrow> Inl EncodeFailed
                | Some text \<Rightarrow> Inr (dict_set (lit ''result'') (JStr text) job)))) = Inr job'"
    and rest: "rbind (dict_item job' ''completion_id'') (\<lambda>c.
       rbind (in_strings c delivered) (\<lambda>d.
       rbind (in_strings c archived) (\<lambda>a.
       Inr (dict_set (lit ''archived'') (JBool a) (dict_set (lit ''delivered'') (JBool d) job'))))) = Inr row"
    unfolding finish_row_def by (rule rbindE)
  have j: "job' = job \<or> (\<exists>t. job' = dict_set (lit ''result'') t job)"
    using job' by (auto simp: rbind_eq_Inr split: json.splits option.splits)
  have c: "json_get job' (lit ''completion_id'') = JStr c" using j assms(2) by auto
  then have "dict_item job' ''completion_id'' = Inr (JStr c)"
    by (simp add: dict_item_def json_get_def split: option.splits)
  then have "row = dict_set (lit ''archived'') (JBool (c \<in> archived)) (dict_set (lit ''delivered'') (JBool (c \<in> delivered)) job')"
    using rest by (simp add: in_strings_def)
  with c j show "row_key repr row = row_key repr job" "json_get row (lit ''completion_id'') = JStr c"
    "truthy (json_get row (lit ''delivered'')) \<longleftrightarrow> c \<in> delivered"
    by (auto simp: row_key_def)
qed

lemma rows_facts:
  assumes "rows_of_events env st epoch es = Inr rows" "bg_log es"
  shows "row_key (ar_repr env) ` set rows = job_keys (ar_repr env) epoch es" "list_all (row_good epoch es) rows"
proof -
  let ?fs = "filter (job_event epoch) es"
  obtain archived jobs delivered where c: "collect_jobs (ar_repr env) ?fs ([], {}) = Inr (jobs, delivered)"
      "traverse (\<lambda>(_, job). finish_row env st delivered archived job) jobs = Inr rows"
    using assms(1) by (auto simp: rows_of_events_def rbind_eq_Inr)
  have "collected (ar_repr env) ([] @ ?fs) (jobs, delivered)"
    using assms(2) c(1) by (intro collect_jobs_ok) (auto simp: collected_def bg_log_def list_all_iff job_event_def)
  then have ok: "collected (ar_repr env) ?fs (jobs, delivered)" by simp
  have all2: "list_all2 (\<lambda>kd row. finish_row env st delivered archived (snd kd) = Inr row) jobs rows"
    using c(2) by (simp add: traverse_Inr_iff split_def)
  have key: "map fst jobs = map (row_key (ar_repr env)) rows"
  proof -
    have "\<forall>kd \<in> set jobs. fst kd = row_key (ar_repr env) (snd kd) \<and> (\<exists>c. json_get (snd kd) (lit ''completion_id'') = JStr c)"
      using ok by (auto simp: collected_def)
    with all2 show ?thesis
      by (induction rule: list_all2_induct) (auto intro: finish_row_ok(1)[symmetric])
  qed
  have "row_key (ar_repr env) ` set rows = fst ` set jobs"
    using arg_cong[OF key, of set] by simp
  then show "row_key (ar_repr env) ` set rows = job_keys (ar_repr env) epoch es"
    using ok by (simp add: collected_def job_keys_def conj_assoc)
  have "row_good epoch es row" if r: "row \<in> set rows" for row
  proof -
    obtain i where i: "i < length rows" "rows ! i = row" using r by (auto simp: in_set_conv_nth)
    obtain k d where ki: "jobs ! i = (k, d)" by fastforce
    have kd: "(k, d) \<in> set jobs" "finish_row env st delivered archived d = Inr row"
      using all2 i ki nth_mem[of i jobs] by (auto simp: list_all2_conv_all_nth)
    obtain c where cd: "json_get d (lit ''completion_id'') = JStr c"
      using ok kd(1) by (fastforce simp: collected_def)
    note f = finish_row_ok[OF kd(2) cd]
    have "list_ex (is_completion epoch (JStr c)) es" if "c \<in> delivered"
      using ok that by (fastforce simp: collected_def list_ex_iff is_completion_str)
    with f show ?thesis by (auto simp: row_good_def)
  qed
  then show "list_all (row_good epoch es) rows" by (simp add: list_all_iff)
qed

end
