(* ===== verification/Background_Laws.thy ===== *)
theory Background_Laws
  imports Background_Jobs
begin

text \<open>
  Invariants of the background jobs under every interleaving, storage failure and restart, and the properties
  that rest on them: what the mailbox holds (\<open>mail_ok\<close>), what the journal holds (\<open>log_ok\<close>), and the limits.
\<close>

section \<open>No report is lost\<close>

definition cid_of :: "bg_job \<Rightarrow> json" where
  "cid_of j = json_get (bj_data j) (lit ''completion_id'')"

abbreviation delivered :: "bg_job \<Rightarrow> bool" where
  "delivered \<equiv> job_flag ''delivered''"

definition live_count :: "manager \<Rightarrow> pystr \<Rightarrow> nat" where
  "live_count m i = length (filter (\<lambda>(k, _). k = i) (mg_live m))"

abbreviation failed_ids :: "manager \<Rightarrow> pystr set" where
  "failed_ids m \<equiv> fst ` set (mg_errors m)"

text \<open>
  Where a job stands: a job with a task that has not finished has no outcome yet; a finished one has failed to
  be persisted, or waits in the mailbox, or was delivered and, unless archived, is once in the live history.
\<close>

definition standing :: "bool \<Rightarrow> bool \<Rightarrow> bool \<Rightarrow> nat \<Rightarrow> bg_job \<Rightarrow> bool" where
  "standing failed pending recovered live j \<longleftrightarrow> (\<exists>c. cid_of j = JStr c) \<and>
     (if bj_task j = NoTask then \<not> failed \<and> (recovered \<longrightarrow> bj_persisted j \<and> (pending \<or> delivered j))
      else if active_task (bj_task j) then \<not> bj_persisted j \<and> \<not> delivered j \<and> \<not> pending \<and> \<not> failed \<and> live = 0
      else if \<not> bj_persisted j then failed \<and> \<not> pending \<and> \<not> delivered j \<and> live = 0
      else \<not> failed \<and>
           (if pending then \<not> delivered j \<and> live = 0 else delivered j \<and> live = of_bool (\<not> job_flag ''archived'' j)))"

lemma standing_task:
  "bj_task j = NoTask \<Longrightarrow> standing f p rec l j \<longleftrightarrow>
     (\<exists>c. cid_of j = JStr c) \<and> \<not> f \<and> (rec \<longrightarrow> bj_persisted j \<and> (p \<or> delivered j))"
  "active_task (bj_task j) \<Longrightarrow> standing f p rec l j \<longleftrightarrow>
     (\<exists>c. cid_of j = JStr c) \<and> \<not> bj_persisted j \<and> \<not> delivered j \<and> \<not> p \<and> \<not> f \<and> l = 0"
  "bj_task j = Done \<Longrightarrow> standing f p rec l j \<longleftrightarrow>
     (\<exists>c. cid_of j = JStr c) \<and>
     (if bj_persisted j then \<not> f \<and> (if p then \<not> delivered j \<and> l = 0 else delivered j \<and> l = of_bool (\<not> job_flag ''archived'' j))
      else f \<and> \<not> p \<and> \<not> delivered j \<and> l = 0)"
  by (auto simp: standing_def active_task_def)

lemma standing_failed:
  "standing True p rec l j \<Longrightarrow> bj_task j = Done \<and> (\<exists>c. cid_of j = JStr c) \<and> \<not> bj_persisted j \<and> \<not> p \<and> \<not> delivered j \<and> l = 0"
  by (auto simp: standing_def active_task_def split: if_splits)

lemma standing_pending:
  "standing f True rec l j \<Longrightarrow> (\<exists>c. cid_of j = JStr c) \<and> \<not> f \<and>
     (bj_task j = NoTask \<and> (rec \<longrightarrow> bj_persisted j) \<or> bj_task j = Done \<and> bj_persisted j \<and> \<not> delivered j \<and> l = 0)"
  by (auto simp: standing_def active_task_def split: if_splits)

definition job_ok :: "manager \<Rightarrow> pystr \<Rightarrow> bg_job \<Rightarrow> bool" where
  "job_ok m i j \<longleftrightarrow> standing (i \<in> failed_ids m) (i \<in> set (mg_pending m)) (mg_recovered m) (live_count m i) j"

lemma job_ok_cong:
  assumes "i \<in> failed_ids m' \<longleftrightarrow> i \<in> failed_ids m" "i \<in> set (mg_pending m') \<longleftrightarrow> i \<in> set (mg_pending m)"
    and "mg_recovered m' = mg_recovered m" "live_count m' i = live_count m i"
  shows "job_ok m' i j = job_ok m i j"
  by (simp only: job_ok_def assms)

definition jobs_ok :: "manager \<Rightarrow> bool" where
  "jobs_ok m \<longleftrightarrow> (\<forall>i j. map_of (mg_jobs m) i = Some j \<longrightarrow> job_ok m i j)"

definition keys_ok :: "manager \<Rightarrow> bool" where
  "keys_ok m \<longleftrightarrow> distinct (mg_pending m) \<and> set (mg_pending m) \<subseteq> dom (map_of (mg_jobs m)) \<and>
     failed_ids m \<subseteq> dom (map_of (mg_jobs m)) \<and> fst ` set (mg_live m) \<subseteq> dom (map_of (mg_jobs m)) \<and> mg_epoch m \<noteq> []"

text \<open>Recovery: every known job is among the rows to come, is the one being settled, or has a settled outcome.\<close>

definition settled_or_in :: "manager \<Rightarrow> pystr set \<Rightarrow> bool" where
  "settled_or_in m ks \<longleftrightarrow> (\<forall>i j. map_of (mg_jobs m) i = Some j \<longrightarrow>
     bj_task j = NoTask \<and> (i \<in> ks \<or> bj_persisted j \<and> (i \<in> set (mg_pending m) \<or> delivered j)))"

definition data_ok :: "(pystr \<times> json) list \<Rightarrow> bool" where
  "data_ok d \<longleftrightarrow> (\<exists>c. json_get d (lit ''completion_id'') = JStr c) \<and> \<not> truthy (json_get d (lit ''delivered''))"

abbreviation bg_repr :: "bg_env \<Rightarrow> json \<Rightarrow> pystr" where
  "bg_repr env \<equiv> ar_repr (re_artifacts (be_rec env))"

definition task_done :: "manager \<Rightarrow> pystr \<Rightarrow> bool" where
  "task_done m i \<longleftrightarrow> (\<exists>j. map_of (mg_jobs m) i = Some j \<and> bj_task j = Done)"

definition owner_ok :: "bg_env \<Rightarrow> manager \<Rightarrow> bool" where
  "owner_ok env m \<longleftrightarrow>
     (case mg_owner m of
        Idle \<Rightarrow> True
      | RecoverRead \<Rightarrow> \<not> mg_recovered m \<and> mg_session m \<noteq> None
      | RecoverRows rows \<Rightarrow> \<not> mg_recovered m \<and> (mg_session m = None \<longrightarrow> rows = []) \<and> settled_or_in m (row_key (bg_repr env) ` set rows)
      | RecoverWrite i rows \<Rightarrow> \<not> mg_recovered m \<and> i \<in> dom (map_of (mg_jobs m)) \<and>
          settled_or_in m (insert i (row_key (bg_repr env) ` set rows))
      | RecoverWritten i r rows \<Rightarrow> \<not> mg_recovered m \<and> i \<in> dom (map_of (mg_jobs m)) \<and>
          settled_or_in m (insert i (row_key (bg_repr env) ` set rows))
      | AdmitWrite i data \<Rightarrow> mg_recovered m \<and> map_of (mg_jobs m) i = None \<and> data_ok data
      | AdmitWritten i data r \<Rightarrow> mg_recovered m \<and> map_of (mg_jobs m) i = None \<and> data_ok data
      | Retrying k ids \<Rightarrow> mg_recovered m \<and> list_all (task_done m) ids
      | RetryWrite k i ids \<Rightarrow> mg_recovered m \<and> i \<in> failed_ids m \<and> list_all (task_done m) ids
      | RetryWritten k i r ids \<Rightarrow> mg_recovered m \<and> i \<in> failed_ids m \<and> list_all (task_done m) ids
      | DeliverLoop a ids \<Rightarrow> mg_recovered m \<and> distinct ids \<and> set ids \<subseteq> set (mg_pending m)
      | DeliverWrite a i t ids \<Rightarrow> mg_recovered m \<and> distinct (i # ids) \<and> set (i # ids) \<subseteq> set (mg_pending m)
      | DeliverWritten a i t r ids \<Rightarrow> mg_recovered m \<and> distinct (i # ids) \<and> set (i # ids) \<subseteq> set (mg_pending m)
      | _ \<Rightarrow> mg_recovered m)"

definition unrecovered_ok :: "manager \<Rightarrow> bool" where
  "unrecovered_ok m \<longleftrightarrow> (\<not> mg_recovered m \<longrightarrow>
     (\<forall>i j. map_of (mg_jobs m) i = Some j \<longrightarrow> bj_task j = NoTask) \<and> mg_errors m = [] \<and> mg_live m = [] \<and>
     (mg_session m = None \<longrightarrow> mg_jobs m = []))"

definition mail_ok :: "bg_env \<Rightarrow> manager \<Rightarrow> bool" where
  "mail_ok env m \<longleftrightarrow> keys_ok m \<and> jobs_ok m \<and> owner_ok env m \<and> unrecovered_ok m"

definition rows_left :: "owner \<Rightarrow> (pystr \<times> json) list list" where
  "rows_left w = (case w of RecoverRows rows \<Rightarrow> rows | RecoverWrite _ rows \<Rightarrow> rows | RecoverWritten _ _ rows \<Rightarrow> rows | _ \<Rightarrow> [])"

definition inserted_id :: "owner \<Rightarrow> pystr option" where
  "inserted_id w = (case w of DeliverWritten a i t None ids \<Rightarrow> Some i | _ \<Rightarrow> None)"

definition log_facts :: "bg_env \<Rightarrow> manager \<Rightarrow> session_event list \<Rightarrow> bool" where
  "log_facts env m es \<longleftrightarrow>
     (\<forall>i j. map_of (mg_jobs m) i = Some j \<longrightarrow> delivered j \<or> inserted_id (mg_owner m) = Some i \<longrightarrow>
        list_ex (is_completion (mg_epoch m) (cid_of j)) es) \<and>
     (\<not> mg_recovered m \<longrightarrow> dom (map_of (mg_jobs m)) \<subseteq> job_keys (bg_repr env) (mg_epoch m) es) \<and>
     row_key (bg_repr env) ` set (rows_left (mg_owner m)) \<subseteq> job_keys (bg_repr env) (mg_epoch m) es \<and>
     list_all (row_good (mg_epoch m) es) (rows_left (mg_owner m))"

definition log_at :: "bg_env \<Rightarrow> manager \<Rightarrow> session_event list \<Rightarrow> bool" where
  "log_at env m es \<longleftrightarrow> (\<exists>s. mg_session m = Some s \<and> session_ok (be_rec env) s es \<and> stamp_ok (rc_stamp (ss_rec s))) \<and>
     bg_log es \<and> log_facts env m es"

lemma map_of_upd_job [simp]:
  "map_of (mg_jobs (upd_job i f m)) k = (if k = i then map_option f (map_of (mg_jobs m) i) else map_of (mg_jobs m) k)"
  by (auto simp: upd_job_def split: option.split)

lemma log_facts_append: "log_facts env m es \<Longrightarrow> log_facts env m (es @ es')"
  by (auto simp: log_facts_def job_keys_append list_all_iff intro: row_good_append)

lemma log_facts_session [simp]: "log_facts env (m\<lparr>mg_session := session\<rparr>) es = log_facts env m es"
  by (simp add: log_facts_def)

text \<open>A call on the recorder extends the journal and keeps what is known of it.\<close>


lemma use_recorder_log:
  assumes "log_at env m es" "use_recorder g d m = (x, m')"
    and "\<And>r. stamp_ok (rc_stamp r) \<Longrightarrow> logs (be_rec env) r bg_log g Q bg_log" "\<And>a es. Q a es \<Longrightarrow> bg_log es"
  shows "\<exists>es'. log_at env m' (es @ es') \<and> (\<forall>a. x = Inr a \<longrightarrow> Q a (es @ es'))"
proof -
  obtain s where s: "mg_session m = Some s" "session_ok (be_rec env) s es" "stamp_ok (rc_stamp (ss_rec s))" "bg_log es" "log_facts env m es"
    using assms(1) by (auto simp: log_at_def)
  obtain y s' where y: "g s = (y, s')" by fastforce
  then have m': "x = y" "m' = m\<lparr>mg_session := Some s'\<rparr>" using assms(2) s(1) by (simp_all add: use_recorder_def)
  obtain es' where e: "ss_rec s' = ss_rec s" "session_ok (be_rec env) s' (es @ es')"
      "case y of Inr a \<Rightarrow> Q a (es @ es') | Inl _ \<Rightarrow> bg_log (es @ es')"
    using logsE[OF assms(3)[OF s(3)] s(2) refl s(4) y] .
  have "bg_log (es @ es')" using e(3) assms(4) by (cases y) auto
  then have "log_at env m' (es @ es')"
    using e s(3) log_facts_append[OF s(5), of es'] by (simp add: log_at_def m'(2))
  moreover have "\<forall>a. x = Inr a \<longrightarrow> Q a (es @ es')" using e(3) m'(1) by auto
  ultimately show ?thesis by blast
qed

definition session_change :: "manager \<Rightarrow> manager \<Rightarrow> bool" where
  "session_change m m' \<longleftrightarrow> (\<exists>session. m' = m\<lparr>mg_session := session\<rparr> \<and> (session = None \<longleftrightarrow> mg_session m = None))"

lemma session_change_use: "use_recorder g d m = (r, m') \<Longrightarrow> session_change m m'"
  by (auto simp: session_change_def use_recorder_def split: option.splits prod.splits intro: exI[of _ None])

lemma session_change_write: "write_outcome env i m = (r, m') \<Longrightarrow> session_change m m'"
  by (auto simp: write_outcome_def session_change_def intro: exI[of _ "mg_session m"] split: option.splits if_splits
      dest!: session_change_use[unfolded session_change_def])

lemma session_change_check: "check_epoch env m = (b, m') \<Longrightarrow> session_change m m'"
  by (auto simp: check_epoch_def split: prod.splits sum.splits dest: session_change_use)

lemma mail_session:
  assumes "session_change m m'" "mail_ok env m"
  shows "mail_ok env m'"
proof -
  obtain session where m': "m' = m\<lparr>mg_session := session\<rparr>" "session = None \<longleftrightarrow> mg_session m = None"
    using assms(1) by (auto simp: session_change_def)
  have "job_ok m' i j = job_ok m i j" for i j
    by (rule job_ok_cong) (simp_all add: m' live_count_def)
  then show ?thesis
    using assms(2) m'(2)
    by (simp add: mail_ok_def keys_ok_def jobs_ok_def owner_ok_def task_done_def[abs_def] settled_or_in_def unrecovered_ok_def m'(1) split: owner.splits)
qed

lemma flag_simps [simp]:
  "cid_of (set_task t j) = cid_of j" "cid_of (set_outcome st res j) = cid_of j" "cid_of (request_cancel_job j) = cid_of j"
  "cid_of (j\<lparr>bj_persisted := b\<rparr>) = cid_of j"
  "job_flag k (set_task t j) = job_flag k j" "job_flag k (request_cancel_job j) = job_flag k j"
  "job_flag k (j\<lparr>bj_persisted := b\<rparr>) = job_flag k j"
  "k \<noteq> ''status'' \<Longrightarrow> k \<noteq> ''result'' \<Longrightarrow> job_flag k (set_outcome st res j) = job_flag k j"
  by (simp_all add: cid_of_def job_flag_def set_outcome_def set_data_def)

lemma set_data_simps [simp]:
  "cid_of (set_data [(''status'', v)] j) = cid_of j" "cid_of (set_data [(''archived'', v)] j) = cid_of j"
  "cid_of (set_data [(''delivered'', v), (''text'', w)] j) = cid_of j"
  "k \<noteq> ''status'' \<Longrightarrow> job_flag k (set_data [(''status'', v)] j) = job_flag k j"
  "job_flag k (set_data [(''archived'', v)] j) = (if k = ''archived'' then truthy v else job_flag k j)"
  "delivered (set_data [(''delivered'', v), (''text'', w)] j) = truthy v"
  "job_flag ''archived'' (set_data [(''delivered'', v), (''text'', w)] j) = job_flag ''archived'' j"
  by (auto simp: cid_of_def job_flag_def set_data_def)

text \<open>A step of one task changes nothing of the other jobs.\<close>

lemma jobs_ok_upd:
  assumes "jobs_ok m" "\<And>j. map_of (mg_jobs m) i = Some j \<Longrightarrow> job_ok m' i (f j)"
    and "\<And>k j. k \<noteq> i \<Longrightarrow> job_ok m k j \<Longrightarrow> job_ok m' k j" "mg_jobs m' = mg_jobs (upd_job i f m)"
  shows "jobs_ok m'"
  using assms by (auto simp: jobs_ok_def split: if_splits)

lemma dom_upd_job [simp]: "dom (map_of (mg_jobs (upd_job i f m))) = dom (map_of (mg_jobs m))"
  by (auto split: if_splits)

text \<open>What an owner relies on is not touched by other coroutines.\<close>

lemma owner_ok_frame:
  assumes "owner_ok env m" "mg_owner m' = mg_owner m" "mg_recovered m" "mg_recovered m'"
    and "dom (map_of (mg_jobs m')) = dom (map_of (mg_jobs m))"
    and "set (mg_pending m) \<subseteq> set (mg_pending m')" "failed_ids m \<subseteq> failed_ids m'"
    and "\<And>i. task_done m i \<Longrightarrow> task_done m' i"
  shows "owner_ok env m'"
proof -
  have "map_of (mg_jobs m) i = None \<longleftrightarrow> map_of (mg_jobs m') i = None" for i
    using assms(5) by (metis domIff)
  moreover have "list_all (task_done m) ids \<Longrightarrow> list_all (task_done m') ids" for ids
    using assms(8) by (simp add: list_all_iff)
  ultimately show ?thesis using assms(1-7)
    by (auto simp: owner_ok_def split: owner.splits)
qed

lemma task_done_upd [simp]:
  "task_done (upd_job i f m) k \<longleftrightarrow> (if k = i then (\<exists>j. map_of (mg_jobs m) i = Some j \<and> bj_task (f j) = Done) else task_done m k)"
  by (auto simp: task_done_def)

lemma mail_task:
  assumes "mail_ok env m" "map_of (mg_jobs m) i = Some j" "bj_task j \<noteq> NoTask"
    and "\<And>j. cid_of (f j) = cid_of j" "\<And>j. delivered (f j) = delivered j" "\<And>j. bj_persisted (f j) = bj_persisted j"
    and "active_task (bj_task j)" "active_task (bj_task (f j))"
  shows "mail_ok env (upd_job i f m)"
proof -
  have "mg_recovered m" using assms(1-3) by (auto simp: mail_ok_def unrecovered_ok_def)
  moreover have "jobs_ok (upd_job i f m)"
  proof (rule jobs_ok_upd[where m=m and i=i and f=f])
    show "jobs_ok m" using assms(1) by (simp add: mail_ok_def)
    have "job_ok m i j" using assms(1,2) by (simp add: mail_ok_def jobs_ok_def)
    then show "job_ok (upd_job i f m) i (f j')" if "map_of (mg_jobs m) i = Some j'" for j'
      using that assms(2-8) by (simp add: job_ok_def standing_def live_count_def) (auto simp: active_task_def)
    show "job_ok m k j' \<Longrightarrow> job_ok (upd_job i f m) k j'" for k j'
      by (subst job_ok_cong[where m=m]) (simp_all add: live_count_def)
  qed simp
  moreover have "owner_ok env (upd_job i f m)"
    by (rule owner_ok_frame[where m=m]) (use assms \<open>mg_recovered m\<close> in \<open>auto simp: mail_ok_def task_done_def\<close>)
  ultimately show ?thesis using assms(1)
    by (simp add: mail_ok_def keys_ok_def unrecovered_ok_def)
qed


lemma mail_change:
  assumes mail: "mail_ok env m" and jobs: "mg_jobs m' = dict_set i j' (mg_jobs m)"
    and frame: "mg_epoch m' = mg_epoch m" "mg_recovered m' = mg_recovered m" "mg_session m' = mg_session m"
    and others: "\<And>k. k \<noteq> i \<Longrightarrow> (k \<in> failed_ids m' \<longleftrightarrow> k \<in> failed_ids m) \<and> (k \<in> set (mg_pending m') \<longleftrightarrow> k \<in> set (mg_pending m)) \<and>
        live_count m' k = live_count m k"
    and pend: "distinct (mg_pending m')" and live: "fst ` set (mg_live m') \<subseteq> insert i (fst ` set (mg_live m))"
    and job: "job_ok m' i j'" and own: "owner_ok env m'"
    and new: "\<not> mg_recovered m \<Longrightarrow> bj_task j' = NoTask \<and> mg_errors m' = [] \<and> mg_live m' = [] \<and> mg_session m \<noteq> None"
  shows "mail_ok env m'"
proof -
  have dom: "dom (map_of (mg_jobs m')) = insert i (dom (map_of (mg_jobs m)))" by (auto simp: jobs)
  have "failed_ids m' \<subseteq> insert i (failed_ids m)" "set (mg_pending m') \<subseteq> insert i (set (mg_pending m))"
    using others by blast+
  moreover have "set (mg_pending m) \<subseteq> dom (map_of (mg_jobs m))" "failed_ids m \<subseteq> dom (map_of (mg_jobs m))"
      "fst ` set (mg_live m) \<subseteq> dom (map_of (mg_jobs m))" "mg_epoch m \<noteq> []"
    using mail by (simp_all add: mail_ok_def keys_ok_def)
  moreover have "A \<subseteq> insert i B \<Longrightarrow> B \<subseteq> D \<Longrightarrow> A \<subseteq> insert i D" for A B D :: "pystr set" by blast
  ultimately have keys: "keys_ok m'"
    using pend live frame(1) unfolding keys_ok_def dom by simp
  have "job_ok m' k j = job_ok m k j" if "k \<noteq> i" for k j
    using others[OF that] frame(2) by (intro job_ok_cong) auto
  then have "jobs_ok m'"
    using mail job by (auto simp: jobs_ok_def mail_ok_def jobs)
  moreover have "unrecovered_ok m'"
    using mail new frame by (auto simp: unrecovered_ok_def mail_ok_def jobs)
  ultimately show ?thesis using keys own by (simp add: mail_ok_def)
qed

lemma mail_change_job:
  assumes "mail_ok env m" "mg_jobs m' = dict_set i j' (mg_jobs m)"
    and "mg_epoch m' = mg_epoch m" "mg_recovered m' = mg_recovered m" "mg_session m' = mg_session m" "mg_live m' = mg_live m"
    and "\<And>k. k \<noteq> i \<Longrightarrow> k \<in> failed_ids m' \<longleftrightarrow> k \<in> failed_ids m" "\<And>k. k \<noteq> i \<Longrightarrow> k \<in> set (mg_pending m') \<longleftrightarrow> k \<in> set (mg_pending m)"
    and "distinct (mg_pending m')" "job_ok m' i j'" "owner_ok env m'"
    and "\<not> mg_recovered m \<Longrightarrow> bj_task j' = NoTask \<and> mg_errors m' = [] \<and> mg_session m \<noteq> None"
  shows "mail_ok env m'"
proof (rule mail_change[OF assms(1-5)])
  show "fst ` set (mg_live m') \<subseteq> insert i (fst ` set (mg_live m))" using assms(6) by auto
  show "bj_task j' = NoTask \<and> mg_errors m' = [] \<and> mg_live m' = [] \<and> mg_session m \<noteq> None" if "\<not> mg_recovered m"
    using that assms(1,6,12) by (simp add: mail_ok_def unrecovered_ok_def)
qed (use assms(6-11) in \<open>simp_all add: live_count_def\<close>)

lemma upd_job_Some: "map_of (mg_jobs m) i = Some j \<Longrightarrow> mg_jobs (upd_job i f m) = dict_set i (f j) (mg_jobs m)"
  by (simp add: upd_job_def)

lemma mail_jobD:
  assumes "mail_ok env m" "map_of (mg_jobs m) i = Some j"
  shows "standing (i \<in> failed_ids m) (i \<in> set (mg_pending m)) (mg_recovered m) (live_count m i) j"
    "bj_task j \<noteq> NoTask \<Longrightarrow> mg_recovered m"
  using assms by (auto simp: mail_ok_def jobs_ok_def job_ok_def unrecovered_ok_def)

lemma mail_task_failed:
  assumes mail: "mail_ok env m" and j: "map_of (mg_jobs m) i = Some j" "active_task (bj_task j)"
  shows "mail_ok env ((upd_job i (set_task Done) m)\<lparr>mg_errors := dict_set i e (mg_errors m)\<rparr>)" (is "mail_ok env ?m")
proof -
  note st = mail_jobD[OF mail j(1)]
  have rec: "mg_recovered m" using st(2) j(2) by (auto simp: active_task_def)
  have errs: "failed_ids ?m = insert i (failed_ids m)" by (simp add: dict_set_entries(2))
  have "job_ok ?m i (set_task Done j)"
    using st(1) j(2) by (simp add: job_ok_def standing_task dict_set_entries(2) live_count_def)
  moreover have "owner_ok env ?m"
    by (rule owner_ok_frame[where m=m]) (use mail rec errs j(1) in \<open>auto simp: mail_ok_def task_done_def\<close>)
  moreover have "distinct (mg_pending m)" using mail by (simp add: mail_ok_def keys_ok_def)
  moreover have "mg_jobs ?m = dict_set i (set_task Done j) (mg_jobs m)" by (simp add: upd_job_Some[OF j(1)])
  ultimately show ?thesis
    using rec errs by (intro mail_change_job[OF mail]) simp_all
qed

lemma finish_persist_simps [simp]:
  "mg_errors (finish_persist i m) = mg_errors m" "mg_recovered (finish_persist i m) = mg_recovered m"
  "mg_owner (finish_persist i m) = mg_owner m" "mg_live (finish_persist i m) = mg_live m"
  "mg_epoch (finish_persist i m) = mg_epoch m" "mg_session (finish_persist i m) = mg_session m"
  "set (mg_pending (finish_persist i m)) = insert i (set (mg_pending m))"
  "map_of (mg_jobs (finish_persist i m)) k =
     (if k = i then map_option (\<lambda>j. j\<lparr>bj_persisted := True\<rparr>) (map_of (mg_jobs m) i) else map_of (mg_jobs m) k)"
  by (simp_all add: finish_persist_def)

lemma distinct_finish_persist: "distinct (mg_pending m) \<Longrightarrow> distinct (mg_pending (finish_persist i m))"
  by (simp add: finish_persist_def add_pending_def)

lemma jobs_finish_persist: "map_of (mg_jobs m) i = Some j \<Longrightarrow> mg_jobs (finish_persist i m) = dict_set i (j\<lparr>bj_persisted := True\<rparr>) (mg_jobs m)"
  by (simp add: finish_persist_def upd_job_Some)

lemma dict_set_twice: "dict_set i a (dict_set i b d) = dict_set i a d"
  by (induction d) auto

lemma mail_task_persisted:
  assumes mail: "mail_ok env m" and j: "map_of (mg_jobs m) i = Some j" "active_task (bj_task j)"
  shows "mail_ok env (upd_job i (set_task Done) (finish_persist i m))" (is "mail_ok env ?m")
proof -
  note st = mail_jobD[OF mail j(1)]
  let ?j = "set_task Done (j\<lparr>bj_persisted := True\<rparr>)"
  have rec: "mg_recovered m" using st(2) j(2) by (auto simp: active_task_def)
  have "job_ok ?m i ?j"
    using st(1) j(2) by (simp add: job_ok_def standing_task live_count_def)
  moreover have "owner_ok env ?m"
    by (rule owner_ok_frame[where m=m]) (use mail rec j(1) in \<open>auto simp: mail_ok_def dom_def task_done_def\<close>)
  moreover have "distinct (mg_pending ?m)" using mail by (simp add: mail_ok_def keys_ok_def distinct_finish_persist)
  moreover have "mg_jobs ?m = dict_set i ?j (mg_jobs m)"
    by (simp add: upd_job_def j(1) jobs_finish_persist[OF j(1)] dict_set_twice)
  ultimately show ?thesis
    using rec by (intro mail_change_job[OF mail]) simp_all
qed

lemma mail_retry_persisted:
  assumes mail: "mail_ok env m" and own: "mg_owner m = RetryWritten k i None ids"
  shows "mail_ok env (retry_resume k i None ids m)" (is "mail_ok env ?m")
proof -
  have i: "i \<in> failed_ids m" "mg_recovered m" using mail own by (simp_all add: mail_ok_def owner_ok_def)
  then obtain j where j: "map_of (mg_jobs m) i = Some j" using mail by (auto simp: mail_ok_def keys_ok_def)
  note st = mail_jobD(1)[OF mail j]
  let ?j = "j\<lparr>bj_persisted := True\<rparr>"
  have errs: "failed_ids ?m = failed_ids m - {i}" by (auto simp: retry_resume_def Let_def)
  have frame: "mg_jobs ?m = dict_set i ?j (mg_jobs m)" "mg_recovered ?m = mg_recovered m" "mg_live ?m = mg_live m"
    "mg_owner ?m = Retrying k ids" "mg_pending ?m = mg_pending (finish_persist i m)" "mg_epoch ?m = mg_epoch m" "mg_session ?m = mg_session m"
    by (simp_all add: retry_resume_def Let_def jobs_finish_persist[OF j])
  have "standing True (i \<in> set (mg_pending m)) (mg_recovered m) (live_count m i) j" using st i(1) by simp
  note f = standing_failed[OF this]
  have "i \<notin> failed_ids ?m" "i \<in> set (mg_pending ?m)" by (simp_all add: errs frame)
  with f have "job_ok ?m i ?j"
    by (simp add: job_ok_def standing_task(3) live_count_def frame)
  moreover have "list_all (task_done ?m) ids"
  proof -
    have "list_all (task_done m) ids" using mail own by (simp add: mail_ok_def owner_ok_def)
    then show ?thesis unfolding list_all_iff task_done_def frame using j by auto
  qed
  then have "owner_ok env ?m" using i by (simp add: owner_ok_def frame)
  moreover have "distinct (mg_pending ?m)" using mail by (simp add: mail_ok_def keys_ok_def distinct_finish_persist frame)
  ultimately show ?thesis
    using errs i by (intro mail_change_job[OF mail frame(1)]) (simp_all add: frame)
qed


lemma task_done_owner [simp]: "task_done (with_owner w m) = task_done m"
  by (simp add: task_done_def[abs_def])

lemma failed_done: "mail_ok env m \<Longrightarrow> list_all (task_done m) (map fst (mg_errors m))"
proof (simp only: list_all_iff, intro ballI)
  fix i
  assume mail: "mail_ok env m" and "i \<in> set (map fst (mg_errors m))"
  then have i: "i \<in> failed_ids m" by simp
  then obtain j where j: "map_of (mg_jobs m) i = Some j" using mail by (auto simp: mail_ok_def keys_ok_def)
  have "standing True (i \<in> set (mg_pending m)) (mg_recovered m) (live_count m i) j" using mail_jobD(1)[OF mail j] i by simp
  from standing_failed[OF this] j show "task_done m i" by (simp add: task_done_def)
qed

lemma mail_owner: "mail_ok env m \<Longrightarrow> owner_ok env (with_owner w m) \<Longrightarrow> mail_ok env (with_owner w m)"
proof -
  assume a: "mail_ok env m" "owner_ok env (with_owner w m)"
  have "job_ok (with_owner w m) i j = job_ok m i j" for i j
    by (rule job_ok_cong) (simp_all add: live_count_def)
  with a show ?thesis by (simp add: mail_ok_def keys_ok_def jobs_ok_def unrecovered_ok_def)
qed

lemma mail_idle: "mail_ok env m \<Longrightarrow> mail_ok env (with_owner Idle m)"
  by (rule mail_owner) (simp_all add: owner_ok_def)

lemma mail_frame:
  assumes "mail_ok env m" "owner_ok env m'" "mg_jobs m' = mg_jobs m" "mg_pending m' = mg_pending m" "mg_errors m' = mg_errors m"
    and "mg_recovered m' = mg_recovered m" "mg_live m' = mg_live m" "mg_epoch m' = mg_epoch m" "mg_session m' = mg_session m"
  shows "mail_ok env m'"
proof -
  have "job_ok m' i j = job_ok m i j" for i j
    by (rule job_ok_cong) (simp_all add: live_count_def assms)
  with assms show ?thesis by (simp add: mail_ok_def keys_ok_def jobs_ok_def unrecovered_ok_def)
qed

text \<open>Flags of a job that no law mentions.\<close>

lemma mail_same_standing:
  assumes mail: "mail_ok env m" and rec: "mg_recovered m"
    and f: "\<And>j. bj_task (f j) = bj_task j" "\<And>j. bj_persisted (f j) = bj_persisted j" "\<And>j. cid_of (f j) = cid_of j"
      "\<And>j. delivered (f j) = delivered j"
    and arch: "\<And>j. map_of (mg_jobs m) i = Some j \<Longrightarrow> job_flag ''archived'' (f j) = job_flag ''archived'' j \<or> i \<in> set (mg_pending m)"
  shows "mail_ok env (upd_job i f m)"
proof -
  have "jobs_ok (upd_job i f m)"
  proof (rule jobs_ok_upd[where m=m and i=i and f=f])
    show "jobs_ok m" using mail by (simp add: mail_ok_def)
    show "job_ok (upd_job i f m) i (f j)" if j: "map_of (mg_jobs m) i = Some j" for j
    proof -
      note st = mail_jobD(1)[OF mail j]
      show ?thesis
        using st f arch[OF j] by (auto simp: job_ok_def standing_def live_count_def split: if_splits)
    qed
    show "job_ok m k j \<Longrightarrow> job_ok (upd_job i f m) k j" for k j
      by (subst job_ok_cong[where m=m]) (simp_all add: live_count_def)
  qed simp
  moreover have "owner_ok env (upd_job i f m)"
    by (rule owner_ok_frame[where m=m]) (use mail rec f(1) in \<open>auto simp: mail_ok_def task_done_def\<close>)
  ultimately show ?thesis
    using mail rec by (simp add: mail_ok_def keys_ok_def unrecovered_ok_def)
qed

lemma mark_archived_frame [simp]:
  "mg_pending (mark_archived row m) = mg_pending m" "mg_recovered (mark_archived row m) = mg_recovered m"
  "mg_owner (mark_archived row m) = mg_owner m" "mg_epoch (mark_archived row m) = mg_epoch m" "mg_session (mark_archived row m) = mg_session m"
  by (auto simp: mark_archived_def split: json.split)

lemma mail_mark: "mail_ok env m \<Longrightarrow> mg_recovered m \<Longrightarrow> mail_ok env (mark_archived row m)"
  by (auto simp: mark_archived_def split: json.split intro!: mail_same_standing)

lemma mail_marks: "mail_ok env m \<Longrightarrow> mg_recovered m \<Longrightarrow> mail_ok env (fold mark_archived rows m)"
  by (induction rows arbitrary: m) (simp_all add: mail_mark)

lemma fold_mark_frame [simp]:
  "mg_pending (fold mark_archived rows m) = mg_pending m" "mg_recovered (fold mark_archived rows m) = mg_recovered m"
  "mg_owner (fold mark_archived rows m) = mg_owner m" "mg_epoch (fold mark_archived rows m) = mg_epoch m"
  "mg_session (fold mark_archived rows m) = mg_session m"
  by (induction rows arbitrary: m) simp_all

lemma mail_cancel_all:
  assumes "mail_ok env m" "mg_recovered m"
  shows "mail_ok env (with_owner CloseJoin (request_cancel_all m))"
proof -
  let ?m = "with_owner CloseJoin (request_cancel_all m)"
  have js: "map_of (mg_jobs ?m) i = map_option request_cancel_job (map_of (mg_jobs m) i)" for i
    by (simp add: request_cancel_all_def map_of_map)
  have fr: "mg_pending ?m = mg_pending m" "mg_errors ?m = mg_errors m" "mg_recovered ?m = mg_recovered m" "mg_live ?m = mg_live m"
    "mg_epoch ?m = mg_epoch m"
    by (simp_all add: request_cancel_all_def)
  have dom: "dom (map_of (mg_jobs ?m)) = dom (map_of (mg_jobs m))" unfolding dom_def js by simp
  have "job_ok ?m i (request_cancel_job j)" if "map_of (mg_jobs m) i = Some j" for i j
  proof -
    have "job_ok ?m i (request_cancel_job j) = job_ok m i (request_cancel_job j)"
      by (rule job_ok_cong) (simp_all only: live_count_def fr)
    then show ?thesis
      using mail_jobD(1)[OF assms(1) that] by (simp add: job_ok_def standing_def)
  qed
  then have "jobs_ok ?m" unfolding jobs_ok_def js by auto
  then show ?thesis using assms
    unfolding mail_ok_def keys_ok_def dom unfolding fr by (simp add: owner_ok_def unrecovered_ok_def request_cancel_all_def)
qed


lemma settled_insert:
  assumes "settled_or_in m (insert i ks)" "bj_task j = NoTask" "bj_persisted j" "i \<in> set (mg_pending m') \<or> delivered j"
    and "map_of (mg_jobs m') = (map_of (mg_jobs m))(i \<mapsto> j)" "set (mg_pending m) \<subseteq> set (mg_pending m')"
  shows "settled_or_in m' ks"
  unfolding settled_or_in_def
proof (intro allI impI)
  fix k j'
  assume k: "map_of (mg_jobs m') k = Some j'"
  show "bj_task j' = NoTask \<and> (k \<in> ks \<or> bj_persisted j' \<and> (k \<in> set (mg_pending m') \<or> delivered j'))"
  proof (cases "k = i")
    case True
    with k assms(2-5) show ?thesis by simp
  next
    case False
    with k assms(5) have "map_of (mg_jobs m) k = Some j'" by simp
    with assms(1) False have "bj_task j' = NoTask \<and> (k \<in> ks \<or> bj_persisted j' \<and> (k \<in> set (mg_pending m) \<or> delivered j'))"
      unfolding settled_or_in_def by blast
    with assms(6) show ?thesis by blast
  qed
qed

lemma settled_install:
  assumes "settled_or_in m (insert i ks)" "bj_task j = NoTask"
    and "map_of (mg_jobs m') = (map_of (mg_jobs m))(i \<mapsto> j)" "set (mg_pending m) \<subseteq> set (mg_pending m')"
  shows "settled_or_in m' (insert i ks)"
proof -
  have "settled_or_in (m\<lparr>mg_pending := mg_pending m'\<rparr>) (insert i ks)"
    using assms(1,4) unfolding settled_or_in_def by auto
  then show ?thesis
    using assms(2,3) by (auto simp: settled_or_in_def split: if_splits)
qed

lemma row_job_simps [simp]:
  "bj_task (row_job row) = NoTask" "bj_data (row_job row) = row" "bj_persisted (row_job row) = is_terminal (json_get row (lit ''status''))"
  "cid_of (row_job row) = json_get row (lit ''completion_id'')" "delivered (row_job row) = truthy (json_get row (lit ''delivered''))"
  by (simp_all add: row_job_def cid_of_def job_flag_def)

lemma recover_row_cases:
  obtains (bad) "recover_row row rows m = with_owner Idle m"
    | (terminal) i where "json_get row (lit ''job_id'') = JStr i" "is_terminal (json_get row (lit ''status''))"
        "recover_row row rows m = (let m = m\<lparr>mg_jobs := dict_set i (row_job row) (mg_jobs m), mg_owner := RecoverRows rows\<rparr>
             in if truthy (json_get row (lit ''delivered'')) then m else add_pending i m)"
    | (lost) i where "json_get row (lit ''job_id'') = JStr i"
        "recover_row row rows m = m\<lparr>mg_jobs := dict_set i (set_outcome ''interrupted'' (lit ''Background execution was interrupted by process exit.'')
                                    (row_job row)) (mg_jobs m), mg_owner := RecoverWrite i rows\<rparr>"
proof (cases "\<exists>i status. json_get row (lit ''job_id'') = JStr i \<and> map_of row (lit ''status'') = Some status")
  case True
  then obtain i status where "json_get row (lit ''job_id'') = JStr i" "map_of row (lit ''status'') = Some status" by blast
  moreover from this have "json_get row (lit ''status'') = status" by (simp add: json_get_def)
  ultimately show ?thesis
    using terminal[of i] lost[of i] by (cases "is_terminal status") (simp_all add: recover_row_def)
next
  case False
  then have "recover_row row rows m = with_owner Idle m"
    by (auto simp: recover_row_def split: json.split option.split)
  then show ?thesis by (rule bad)
qed

lemma mail_recover_row:
  assumes mail: "mail_ok env m" and own: "mg_owner m = RecoverRows (row # rows)"
    and cid: "\<exists>c. json_get row (lit ''completion_id'') = JStr c"
  shows "mail_ok env (recover_row row rows m)"
proof -
  have un: "\<not> mg_recovered m" "mg_session m \<noteq> None" "mg_errors m = []" "mg_live m = []"
    and old: "settled_or_in m (insert (row_key (bg_repr env) row) (row_key (bg_repr env) ` set rows))"
    using mail own by (auto simp: mail_ok_def owner_ok_def unrecovered_ok_def)
  have dist: "distinct (mg_pending m)" using mail by (simp add: mail_ok_def keys_ok_def)
  show ?thesis
  proof (cases rule: recover_row_cases[of row rows m])
    case bad
    then show ?thesis using mail mail_idle by simp
  next
    case (terminal i)
    let ?m = "recover_row row rows m"
    have fr: "mg_jobs ?m = dict_set i (row_job row) (mg_jobs m)" "mg_epoch ?m = mg_epoch m" "mg_recovered ?m = mg_recovered m"
      "mg_session ?m = mg_session m" "mg_live ?m = mg_live m" "mg_errors ?m = mg_errors m" "mg_owner ?m = RecoverRows rows"
      "set (mg_pending ?m) = (if truthy (json_get row (lit ''delivered'')) then set (mg_pending m) else insert i (set (mg_pending m)))"
      "distinct (mg_pending ?m)"
      using dist by (auto simp: terminal(3) Let_def add_pending_def)
    have key: "row_key (bg_repr env) row = i" using terminal(1) by (simp add: row_key_def)
    have "settled_or_in ?m (row_key (bg_repr env) ` set rows)"
      by (rule settled_insert[where m=m and i=i and j="row_job row"]) (use old key terminal(2) fr in \<open>auto split: if_splits\<close>)
    then have "owner_ok env ?m" using un by (auto simp: owner_ok_def fr)
    moreover have "job_ok ?m i (row_job row)"
      using cid un by (simp add: job_ok_def standing_task fr)
    ultimately show ?thesis
      using un fr by (intro mail_change_job[OF mail fr(1)]) simp_all
  next
    case (lost i)
    let ?m = "recover_row row rows m"
    let ?j = "set_outcome ''interrupted'' (lit ''Background execution was interrupted by process exit.'') (row_job row)"
    have fr: "mg_jobs ?m = dict_set i ?j (mg_jobs m)" "mg_epoch ?m = mg_epoch m" "mg_recovered ?m = mg_recovered m"
      "mg_session ?m = mg_session m" "mg_live ?m = mg_live m" "mg_errors ?m = mg_errors m" "mg_owner ?m = RecoverWrite i rows"
      "mg_pending ?m = mg_pending m"
      by (simp_all add: lost(2))
    have key: "row_key (bg_repr env) row = i" using lost(1) by (simp add: row_key_def)
    have "settled_or_in ?m (insert i (row_key (bg_repr env) ` set rows))"
      by (rule settled_install[where m=m and j="?j"]) (use old key fr in simp_all)
    then have "owner_ok env ?m" using un by (simp add: owner_ok_def fr)
    moreover have "job_ok ?m i ?j"
      using cid un by (simp add: job_ok_def standing_task fr)
    ultimately show ?thesis
      using un fr dist by (intro mail_change_job[OF mail fr(1)]) simp_all
  qed
qed

lemma mail_recover_resume:
  assumes mail: "mail_ok env m" and own: "mg_owner m = RecoverWritten i None rows"
  shows "mail_ok env (recover_resume i None rows m)" (is "mail_ok env ?m")
proof -
  have un: "\<not> mg_recovered m" "mg_errors m = []" "mg_session m = None \<longrightarrow> mg_jobs m = []" "distinct (mg_pending m)"
    and old: "settled_or_in m (insert i (row_key (bg_repr env) ` set rows))" and i: "i \<in> dom (map_of (mg_jobs m))"
    using mail own by (auto simp: mail_ok_def owner_ok_def unrecovered_ok_def keys_ok_def)
  obtain j where j: "map_of (mg_jobs m) i = Some j" using i by auto
  let ?j = "j\<lparr>bj_persisted := True\<rparr>"
  have task: "bj_task j = NoTask" using old j by (simp add: settled_or_in_def)
  have fr: "mg_jobs ?m = dict_set i ?j (mg_jobs m)" "mg_epoch ?m = mg_epoch m" "mg_recovered ?m = mg_recovered m"
    "mg_session ?m = mg_session m" "mg_live ?m = mg_live m" "mg_errors ?m = mg_errors m" "mg_owner ?m = RecoverRows rows"
    "set (mg_pending ?m) = insert i (set (mg_pending m))" "distinct (mg_pending ?m)"
    using un(4) by (simp_all add: recover_resume_def jobs_finish_persist[OF j] distinct_finish_persist)
  have sess: "mg_session m \<noteq> None" using un(3) j by auto
  have "settled_or_in ?m (row_key (bg_repr env) ` set rows)"
    by (rule settled_insert[where m=m and i=i and j="?j"]) (use old task fr in auto)
  then have "owner_ok env ?m" using un(1) sess by (auto simp: owner_ok_def fr)
  moreover have "job_ok ?m i ?j"
    using mail_jobD(1)[OF mail j] task un by (simp add: job_ok_def standing_task fr)
  ultimately show ?thesis
    using un sess fr task by (intro mail_change_job[OF mail fr(1)]) simp_all
qed

lemma mail_recover_done:
  assumes mail: "mail_ok env m" and own: "mg_owner m = RecoverRows []"
  shows "mail_ok env (recover_done m)" (is "mail_ok env ?m")
proof -
  have old: "settled_or_in m {}" and un: "\<not> mg_recovered m" using mail own by (simp_all add: mail_ok_def owner_ok_def)
  have "job_ok ?m i j" if j: "map_of (mg_jobs m) i = Some j" for i j
  proof -
    have t: "bj_task j = NoTask" "bj_persisted j \<and> (i \<in> set (mg_pending m) \<or> delivered j)"
      using old j by (auto simp: settled_or_in_def)
    then show ?thesis
      using mail_jobD(1)[OF mail j] by (simp add: job_ok_def standing_task(1) recover_done_def)
  qed
  then have "jobs_ok ?m" by (simp add: jobs_ok_def) (simp add: recover_done_def)
  then show ?thesis using mail
    by (simp add: mail_ok_def keys_ok_def owner_ok_def unrecovered_ok_def recover_done_def)
qed


lemma live_count_key: "keys_ok m \<Longrightarrow> map_of (mg_jobs m) i = None \<Longrightarrow> live_count m i = 0"
  by (fastforce simp: keys_ok_def live_count_def filter_empty_conv)

lemma mail_admit:
  assumes mail: "mail_ok env m" and own: "mg_owner m = AdmitWritten i data None"
  shows "mail_ok env (admit_resume i data None m)" (is "mail_ok env ?m")
proof -
  have i: "map_of (mg_jobs m) i = None" "data_ok data" "mg_recovered m" using mail own by (simp_all add: mail_ok_def owner_ok_def)
  have keys: "keys_ok m" using mail by (simp add: mail_ok_def)
  then have new: "i \<notin> set (mg_pending m)" "i \<notin> failed_ids m" "live_count m i = 0"
    using i(1) live_count_key[OF keys] by (auto simp: keys_ok_def dom_def)
  have fr: "mg_jobs ?m = dict_set i (new_job data) (mg_jobs m)" "mg_epoch ?m = mg_epoch m" "mg_recovered ?m = mg_recovered m"
    "mg_session ?m = mg_session m" "mg_live ?m = mg_live m" "mg_errors ?m = mg_errors m" "mg_owner ?m = Idle" "mg_pending ?m = mg_pending m"
    by (simp_all add: admit_resume_def)
  have "job_ok ?m i (new_job data)"
    using new i(2) by (simp add: job_ok_def standing_task(2) fr new_job_def data_ok_def cid_of_def job_flag_def live_count_def)
  moreover have "owner_ok env ?m" by (simp add: owner_ok_def fr)
  ultimately show ?thesis
    using i keys by (intro mail_change_job[OF mail fr(1)]) (simp_all add: fr keys_ok_def)
qed

lemma mail_project:
  assumes mail: "mail_ok env m" and own: "mg_owner m = DeliverWritten a i t None ids" and j: "map_of (mg_jobs m) i = Some j"
  shows "mail_ok env (with_owner (DeliverLoop a ids) (project_live i t m))" 
proof -
  define n where "n = with_owner (DeliverLoop a ids) (project_live i t m)"
  have ids: "mg_recovered m" "distinct (i # ids)" "set (i # ids) \<subseteq> set (mg_pending m)" using mail own by (simp_all add: mail_ok_def owner_ok_def)
  let ?j = "set_data [(''delivered'', JBool True), (''text'', JStr t)] j"
  have fr: "mg_jobs n = dict_set i ?j (mg_jobs m)" "mg_epoch n = mg_epoch m" "mg_recovered n = mg_recovered m"
    "mg_session n = mg_session m" "mg_errors n = mg_errors m" "mg_owner n = DeliverLoop a ids"
    "mg_pending n = filter (\<lambda>k. k \<noteq> i) (mg_pending m)"
    "mg_live n = mg_live m @ (if job_flag ''archived'' j then [] else [(i, t)])"
    by (simp_all add: n_def project_live_def j Let_def upd_job_def)
  have lc: "live_count n k = live_count m k + (if k = i \<and> \<not> job_flag ''archived'' j then 1 else 0)" for k
    unfolding live_count_def fr by simp
  have "i \<in> set (mg_pending m)" using ids by simp
  with mail_jobD(1)[OF mail j] have st: "standing (i \<in> failed_ids m) True (mg_recovered m) (live_count m i) j" by simp
  have "i \<notin> failed_ids n" "i \<notin> set (mg_pending n)" using standing_pending[OF st] by (simp_all add: fr)
  then have job: "job_ok n i ?j"
    using standing_pending[OF st] unfolding job_ok_def lc by (auto simp: standing_task(1,3) fr)
  have "distinct (mg_pending m)" using mail by (simp add: mail_ok_def keys_ok_def)
  moreover have "owner_ok env n" using ids by (auto simp: owner_ok_def fr)
  ultimately have "mail_ok env n"
    using ids(1) job by (intro mail_change[OF mail fr(1)]) (auto simp: fr lc)
  then show ?thesis by (simp add: n_def)
qed

lemma mail_empty: "epoch \<noteq> [] \<Longrightarrow> mail_ok env (new_manager session epoch)"
  by (simp add: mail_ok_def keys_ok_def jobs_ok_def owner_ok_def unrecovered_ok_def new_manager_def)

lemma data_ok_job_data: "data_ok (job_data m i cid ty task md)"
  by (simp add: data_ok_def job_data_def) (simp add: json_get_def)

lemma mail_submit:
  assumes mail: "mail_ok env m" and rec: "mg_owner m = Idle" "mg_recovered m"
  shows "mail_ok env (snd (submit env i cid ty task md m))"
proof -
  obtain b m1 where c: "check_epoch env m = (b, m1)" by fastforce
  have m1: "mail_ok env m1" "mg_recovered m1"
    using mail_session[OF session_change_check[OF c] mail] session_change_check[OF c] rec by (auto simp: session_change_def)
  have "mail_ok env (with_owner (AdmitWrite i (job_data m1 i cid ty task md)) m1)" if "map_of (mg_jobs m1) i = None"
    using m1 that by (intro mail_owner) (simp_all add: owner_ok_def data_ok_job_data)
  then show ?thesis using mail m1 c by (auto simp: submit_def Let_def)
qed

lemma image_sub: "A \<subseteq> B \<Longrightarrow> f ` B \<subseteq> C \<Longrightarrow> f ` A \<subseteq> C"
  by blast

lemma log_mono:
  assumes "log_at env m es" "mg_session m' = mg_session m" "mg_epoch m' = mg_epoch m"
    and "\<And>i j'. map_of (mg_jobs m') i = Some j' \<Longrightarrow> delivered j' \<or> inserted_id (mg_owner m') = Some i \<Longrightarrow>
        \<exists>j. map_of (mg_jobs m) i = Some j \<and> cid_of j' = cid_of j \<and> (delivered j \<or> inserted_id (mg_owner m) = Some i)"
    and "\<not> mg_recovered m' \<Longrightarrow> \<not> mg_recovered m \<and> dom (map_of (mg_jobs m')) \<subseteq> dom (map_of (mg_jobs m))"
    and "set (rows_left (mg_owner m')) \<subseteq> set (rows_left (mg_owner m))"
  shows "log_at env m' es"
proof -
  have f: "log_facts env m es" using assms(1) by (simp add: log_at_def)
  have "list_ex (is_completion (mg_epoch m') (cid_of j')) es"
    if "map_of (mg_jobs m') i = Some j'" "delivered j' \<or> inserted_id (mg_owner m') = Some i" for i j'
    using assms(4)[OF that] f assms(3) unfolding log_facts_def by force
  moreover have "row_key (bg_repr env) ` set (rows_left (mg_owner m')) \<subseteq> job_keys (bg_repr env) (mg_epoch m') es"
    "list_all (row_good (mg_epoch m') es) (rows_left (mg_owner m'))"
    using f assms(3) image_sub[OF assms(6)] subsetD[OF assms(6)] unfolding log_facts_def list_all_iff by metis+
  moreover have "dom (map_of (mg_jobs m')) \<subseteq> job_keys (bg_repr env) (mg_epoch m') es" if "\<not> mg_recovered m'"
    using f assms(3) assms(5)[OF that] order_trans unfolding log_facts_def by metis
  ultimately have "log_facts env m' es"
    unfolding log_facts_def by simp
  then show ?thesis using assms(1,2) by (simp add: log_at_def)
qed

lemma owner_parts [simp]:
  "rows_left Idle = []" "rows_left RecoverRead = []" "rows_left (RecoverRows rows) = rows" "rows_left (RecoverWrite i rows) = rows"
  "rows_left (RecoverWritten i r rows) = rows" "rows_left (AdmitWrite i d) = []" "rows_left (AdmitWritten i d r) = []"
  "rows_left (Retrying k ids) = []" "rows_left (RetryWrite k i ids) = []" "rows_left (RetryWritten k i r ids) = []"
  "rows_left (DeliverPrepare a) = []" "rows_left (DeliverRead a) = []" "rows_left (DeliverRows a rows) = []"
  "rows_left (DeliverLoop a ids) = []" "rows_left (DeliverWrite a i t ids) = []" "rows_left (DeliverWritten a i t r ids) = []"
  "rows_left CloseJoin = []"
  "inserted_id Idle = None" "inserted_id RecoverRead = None" "inserted_id (RecoverRows rows) = None" "inserted_id (RecoverWrite i rows) = None"
  "inserted_id (RecoverWritten i r rows) = None" "inserted_id (AdmitWrite i d) = None" "inserted_id (AdmitWritten i d r) = None"
  "inserted_id (Retrying k ids) = None" "inserted_id (RetryWrite k i ids) = None" "inserted_id (RetryWritten k i r ids) = None"
  "inserted_id (DeliverPrepare a) = None" "inserted_id (DeliverRead a) = None" "inserted_id (DeliverRows a rows) = None"
  "inserted_id (DeliverLoop a ids) = None" "inserted_id (DeliverWrite a i t ids) = None"
  "inserted_id (DeliverWritten a i t r ids) = (if r = None then Some i else None)" "inserted_id CloseJoin = None"
  by (simp_all add: rows_left_def inserted_id_def split: option.split)

text \<open>Changing the owner, or fields of a job that the journal does not hold.\<close>

lemma log_owner:
  "log_at env m es \<Longrightarrow> set (rows_left w) \<subseteq> set (rows_left (mg_owner m)) \<Longrightarrow>
     (\<And>i. inserted_id w = Some i \<Longrightarrow> inserted_id (mg_owner m) = Some i) \<Longrightarrow> log_at env (with_owner w m) es"
  by (erule log_mono) auto

lemma log_upd:
  "log_at env m es \<Longrightarrow> (\<And>j. cid_of (f j) = cid_of j) \<Longrightarrow> (\<And>j. delivered (f j) = delivered j) \<Longrightarrow> log_at env (upd_job i f m) es"
  by (erule log_mono) (auto split: if_splits)

lemma log_fields:
  "log_at env m es \<Longrightarrow> log_at env (m\<lparr>mg_errors := errs\<rparr>) es" "log_at env m es \<Longrightarrow> log_at env (m\<lparr>mg_closed := b\<rparr>) es"
  "log_at env m es \<Longrightarrow> log_at env (m\<lparr>mg_pending := ps\<rparr>) es" "log_at env m es \<Longrightarrow> log_at env (m\<lparr>mg_live := l\<rparr>) es"
  by (erule log_mono; auto)+

lemma log_add_pending: "log_at env m es \<Longrightarrow> log_at env (add_pending i m) es"
  by (simp add: add_pending_def log_fields)

lemma log_finish_persist: "log_at env m es \<Longrightarrow> log_at env (finish_persist i m) es"
  unfolding finish_persist_def by (intro log_add_pending log_upd) auto

lemma log_write_outcome:
  assumes "log_at env m es" "mail_ok env m" "env_ok (be_rec env)" "write_outcome env i m = (r, m')"
  shows "\<exists>es'. log_at env m' es'"
proof (cases "map_of (mg_jobs m) i")
  case None
  with assms show ?thesis by (auto simp: write_outcome_def)
next
  case (Some j)
  then obtain c where c: "cid_of j = JStr c" using assms(2) by (auto simp: mail_ok_def jobs_ok_def job_ok_def standing_def)
  have ep: "mg_epoch m \<noteq> []" using assms(2) by (simp add: mail_ok_def keys_ok_def)
  show ?thesis
  proof (cases "bj_persisted j")
    case True
    with Some assms show ?thesis by (auto simp: write_outcome_def)
  next
    case False
    with Some assms(4) have u: "use_recorder (record_background_job_terminal (be_rec env) (mg_epoch m) (bj_data j)) () m = (r, m')"
      by (simp add: write_outcome_def)
    from use_recorder_log[OF assms(1) u logs_terminal[OF assms(3) _ ep c[unfolded cid_of_def]]] show ?thesis by auto
  qed
qed

lemma log_check_epoch:
  assumes "log_at env m es" "check_epoch env m = (b, m')"
  shows "\<exists>es'. log_at env m' es'"
proof -
  obtain r where u: "use_recorder (current_epoch (be_rec env)) (mg_epoch m) m = (r, m')"
    using assms(2) by (auto simp: check_epoch_def split: prod.splits sum.splits)
  have "logs (be_rec env) r' bg_log (current_epoch (be_rec env)) (\<lambda>_. bg_log) bg_log" for r'
    using logs_epoch by (rule logs_conseq) simp_all
  from use_recorder_log[OF assms(1) u this] show ?thesis by auto
qed

definition log_ok :: "bg_env \<Rightarrow> manager \<Rightarrow> bool" where
  "log_ok env m \<longleftrightarrow> mg_session m = None \<or> (\<exists>es. log_at env m es)"

lemma log_okI: "(mg_session m \<noteq> None \<Longrightarrow> \<exists>es. log_at env m es) \<Longrightarrow> log_ok env m"
  unfolding log_ok_def by blast

lemma job_cid: "mail_ok env m \<Longrightarrow> map_of (mg_jobs m) i = Some j \<Longrightarrow> \<exists>c. json_get (bj_data j) (lit ''completion_id'') = JStr c"
  using mail_jobD(1)[of env m i j] by (simp add: standing_def cid_of_def)

lemma log_recover_read:
  assumes "log_at env m es" "mail_ok env m" "mg_owner m = RecoverRead"
  shows "\<exists>es'. log_at env (recover_read env m) es'" "mail_ok env (recover_read env m)"
proof -
  obtain r m' where u: "use_recorder (read_background_jobs (be_rec env) (mg_epoch m)) [] m = (r, m')" by fastforce
  note sc = session_change_use[OF u]
  note mail = mail_session[OF sc assms(2)]
  have own: "mg_owner m' = RecoverRead" "mg_epoch m' = mg_epoch m" "mg_jobs m' = mg_jobs m"
    using sc assms(3) by (auto simp: session_change_def)
  then have un: "\<not> mg_recovered m'" "mg_session m' \<noteq> None" using mail by (simp_all add: mail_ok_def owner_ok_def)
  from use_recorder_log[OF assms(1) u logs_read_jobs] obtain es' where es': "log_at env m' es'"
      "\<And>rows. r = Inr rows \<Longrightarrow> (\<exists>st. rows_of_events (re_artifacts (be_rec env)) st (mg_epoch m) es' = Inr rows) \<and> bg_log es'"
    by auto
  have "(\<exists>es'. log_at env (recover_read env m) es') \<and> mail_ok env (recover_read env m)"
  proof (cases r)
    case (Inl e)
    then have "recover_read env m = with_owner Idle m'" using u by (simp add: recover_read_def)
    then show ?thesis using mail_idle[OF mail] log_owner[OF es'(1), of Idle] by auto
  next
    case (Inr rows)
    then have rr: "recover_read env m = with_owner (RecoverRows rows) m'" using u by (simp add: recover_read_def)
    from es'(2)[OF Inr] obtain st where st: "rows_of_events (re_artifacts (be_rec env)) st (mg_epoch m) es' = Inr rows" "bg_log es'" by blast
    note rf = rows_facts[OF st]
    have lf: "log_facts env m' es'" using es'(1) by (simp add: log_at_def)
    then have "log_facts env (with_owner (RecoverRows rows) m') es'"
      using rf own un by (simp add: log_facts_def)
    then have "log_at env (with_owner (RecoverRows rows) m') es'" using es'(1) by (simp add: log_at_def)
    moreover have "dom (map_of (mg_jobs m')) \<subseteq> row_key (bg_repr env) ` set rows"
      using lf un(1) own(2) rf(1) by (simp add: log_facts_def)
    then have "settled_or_in m' (row_key (bg_repr env) ` set rows)"
      using mail un(1) by (auto simp: settled_or_in_def mail_ok_def unrecovered_ok_def dom_def)
    then have "owner_ok env (with_owner (RecoverRows rows) m')"
      using un by (simp add: owner_ok_def settled_or_in_def) auto
    ultimately show ?thesis unfolding rr using mail_owner[OF mail] by blast
  qed
  then show "\<exists>es'. log_at env (recover_read env m) es'" "mail_ok env (recover_read env m)" by blast+
qed

lemma log_install:
  assumes "log_at env m es" "mg_owner m = RecoverRows (row # rows)" "json_get row (lit ''job_id'') = JStr i"
    and "cid_of j = json_get row (lit ''completion_id'')" "delivered j = truthy (json_get row (lit ''delivered''))"
    and "set (rows_left w) \<subseteq> set rows" "inserted_id w = None"
  shows "log_at env (m\<lparr>mg_jobs := dict_set i j (mg_jobs m), mg_owner := w\<rparr>) es"
proof -
  have f: "log_facts env m es" using assms(1) by (simp add: log_at_def)
  have row: "row_good (mg_epoch m) es row" "i \<in> job_keys (bg_repr env) (mg_epoch m) es"
    using f assms(2,3) by (simp_all add: log_facts_def row_key_def)
  have "list_ex (is_completion (mg_epoch m) (cid_of j)) es" if "delivered j"
    using row(1) that assms(4,5) by (auto simp: row_good_def)
  moreover have "row_key (bg_repr env) ` set rows \<subseteq> job_keys (bg_repr env) (mg_epoch m) es" "list_all (row_good (mg_epoch m) es) rows"
    using f assms(2) by (simp_all add: log_facts_def)
  then have "row_key (bg_repr env) ` set (rows_left w) \<subseteq> job_keys (bg_repr env) (mg_epoch m) es" "list_all (row_good (mg_epoch m) es) (rows_left w)"
    using image_sub[OF assms(6)] subsetD[OF assms(6)] by (blast, simp add: list_all_iff)
  ultimately have "log_facts env (m\<lparr>mg_jobs := dict_set i j (mg_jobs m), mg_owner := w\<rparr>) es"
    using f row(2) assms(2,7) by (simp add: log_facts_def)
  then show ?thesis using assms(1) by (simp add: log_at_def)
qed

lemma log_recover_row:
  assumes "log_at env m es" "mg_owner m = RecoverRows (row # rows)"
  shows "log_at env (recover_row row rows m) es" "\<exists>c. json_get row (lit ''completion_id'') = JStr c"
proof -
  show "\<exists>c. json_get row (lit ''completion_id'') = JStr c"
    using assms by (auto simp: log_at_def log_facts_def row_good_def)
  show "log_at env (recover_row row rows m) es"
  proof (cases rule: recover_row_cases[of row rows m])
    case bad
    then show ?thesis using log_owner[OF assms(1), of Idle] by simp
  next
    case (terminal i)
    then show ?thesis
      using log_install[OF assms terminal(1), of "row_job row" "RecoverRows rows"] by (simp add: Let_def log_add_pending)
  next
    case (lost i)
    then show ?thesis
      using log_install[OF assms lost(1)] by simp
  qed
qed

lemma log_deliver_write:
  assumes "log_at env m es" "mail_ok env m" "env_ok (be_rec env)" "mg_owner m = DeliverWrite a i t ids"
  shows "\<exists>es'. log_at env (deliver_write env a i t ids m) es'" "mail_ok env (deliver_write env a i t ids m)"
proof -
  have ids: "mg_recovered m" "distinct (i # ids)" "set (i # ids) \<subseteq> set (mg_pending m)" using assms(2,4) by (simp_all add: mail_ok_def owner_ok_def)
  then obtain j where j: "map_of (mg_jobs m) i = Some j" using assms(2) by (auto simp: mail_ok_def keys_ok_def)
  then obtain c where c: "json_get (bj_data j) (lit ''completion_id'') = JStr c" using job_cid[OF assms(2)] by blast
  have ep: "mg_epoch m \<noteq> []" using assms(2) by (simp add: mail_ok_def keys_ok_def)
  obtain r m' where u: "use_recorder (record_background_completion (be_rec env) (mg_epoch m) (bj_data j) (user_message t)) True m = (r, m')"
    by fastforce
  note sc = session_change_use[OF u]
  have m': "mg_jobs m' = mg_jobs m" "mg_epoch m' = mg_epoch m" "mg_owner m' = mg_owner m" "mg_recovered m' = mg_recovered m" "mg_pending m' = mg_pending m"
    using sc by (auto simp: session_change_def)
  have dw: "deliver_write env a i t ids m = with_owner (DeliverWritten a i t (failure r) ids) m'"
    using u by (simp add: deliver_write_def j)
  from use_recorder_log[OF assms(1) u logs_completion[OF assms(3) _ ep c]] obtain es' where es': "log_at env m' es'"
      "\<And>b. r = Inr b \<Longrightarrow> list_ex (is_completion (mg_epoch m) (JStr c)) es'"
    by auto
  have "log_facts env (with_owner (DeliverWritten a i t (failure r) ids) m') es'"
  proof -
    have "log_facts env m' es'" using es'(1) by (simp add: log_at_def)
    then show ?thesis
      using es'(2) j c m' ids(1) by (auto simp: log_facts_def failure_def cid_of_def split: sum.splits)
  qed
  then show "\<exists>es'. log_at env (deliver_write env a i t ids m) es'" using es'(1) unfolding dw log_at_def by auto
  show "mail_ok env (deliver_write env a i t ids m)"
    unfolding dw using ids m' by (intro mail_owner mail_session[OF sc assms(2)]) (simp_all add: owner_ok_def)
qed

lemma session_change_None: "session_change m m' \<Longrightarrow> mg_session m' = None \<longleftrightarrow> mg_session m = None"
  by (auto simp: session_change_def)

lemma recorder_kept [simp]:
  "mg_session (snd (write_outcome env i m)) = None \<longleftrightarrow> mg_session m = None"
  "mg_session (snd (use_recorder g d m)) = None \<longleftrightarrow> mg_session m = None"
  "mg_session (snd (check_epoch env m)) = None \<longleftrightarrow> mg_session m = None"
  by (rule session_change_None, rule session_change_write session_change_use session_change_check, rule surjective_pairing)+

lemma step_keeps_recorder:
  assumes "bg_step env m m'"
  shows "mg_session m' = None \<longleftrightarrow> mg_session m = None"
  using assms
proof (cases rule: bg_step.cases)
  case (crash session epoch)
  then show ?thesis by (auto simp: new_manager_def split: option.splits)
next
  case (recover_row row rows)
  then show ?thesis
    by (cases rule: recover_row_cases[of row rows m]) (simp_all add: Let_def)
qed (simp_all add: start_task_def acquire_slot_def finish_run_def task_write_def task_resume_def begin_recover_def
      recover_read_def recover_write_def recover_resume_def recover_done_def submit_def admit_write_def admit_resume_def
      begin_deliver_def retry_next_def retry_write_def retry_resume_def retry_end_def deliver_prepared_def deliver_read_def
      deliver_mark_def deliver_next_def deliver_write_def deliver_resume_def project_live_def request_cancel_def close_flag_def
      begin_close_def request_cancel_all_def close_joined_def Let_def case_prod_beta
      split: run_outcome.split option.split sum.split)

lemma mail_step:
  assumes mail: "mail_ok env m" and log: "log_ok env m" and env: "env_ok (be_rec env)" and step: "bg_step env m m'"
  shows "mail_ok env m'"
  using step
proof (cases rule: bg_step.cases)
  case (start i j)
  then show ?thesis using mail_task[OF mail start(2)] by (simp add: start_task_def)
next
  case (slot i j)
  then show ?thesis using mail_task[OF mail slot(2)] by (simp add: acquire_slot_def)
next
  case (slot_cancelled i j)
  then show ?thesis using mail_task[OF mail slot_cancelled(2)] by (simp add: finish_run_def)
next
  case (run i j outcome)
  then show ?thesis using mail_task[OF mail run(2)] mail_task_failed[OF mail run(2)]
    by (cases outcome) (simp_all add: finish_run_def Let_def)
next
  case (task_write i j)
  obtain r m1 where w: "write_outcome env i m = (r, m1)" by fastforce
  note m1 = mail_session[OF session_change_write[OF w] mail]
  have "map_of (mg_jobs m1) i = Some j" using session_change_write[OF w] task_write by (auto simp: session_change_def)
  then show ?thesis using task_write w mail_task[OF m1] by (simp add: task_write_def)
next
  case (task_resume i j r)
  then show ?thesis using mail_task_failed[OF mail task_resume(2)] mail_task_persisted[OF mail task_resume(2)]
    by (cases r) (simp_all add: task_resume_def Let_def)
next
  case recover
  have "mg_session m = None \<Longrightarrow> mg_jobs m = []" using mail recover by (simp add: mail_ok_def unrecovered_ok_def)
  then show ?thesis using recover
    by (auto simp: begin_recover_def owner_ok_def settled_or_in_def intro!: mail_owner[OF mail])
next
  case recover_read
  have "mg_session m \<noteq> None" using mail recover_read by (simp add: mail_ok_def owner_ok_def)
  then show ?thesis using log log_recover_read(2)[OF _ mail] recover_read by (auto simp: log_ok_def)
next
  case (recover_row row rows)
  have "mg_session m \<noteq> None" using mail recover_row by (auto simp: mail_ok_def owner_ok_def)
  then show ?thesis using log log_recover_row(2) mail_recover_row[OF mail] recover_row by (auto simp: log_ok_def)
next
  case (recover_write i rows)
  obtain r m1 where w: "write_outcome env i m = (r, m1)" by fastforce
  note m1 = mail_session[OF session_change_write[OF w] mail]
  have "mg_owner m1 = RecoverWrite i rows" using session_change_write[OF w] recover_write by (auto simp: session_change_def)
  moreover have "owner_ok env m1" using m1 by (simp add: mail_ok_def)
  ultimately show ?thesis using recover_write w
    by (auto simp: recover_write_def owner_ok_def settled_or_in_def intro!: mail_owner[OF m1])
next
  case (recover_resume i r rows)
  then show ?thesis using mail_recover_resume[OF mail] mail_idle[OF mail] by (cases r) (simp_all add: recover_resume_def)
next
  case recover_done
  then show ?thesis using mail_recover_done[OF mail] by simp
next
  case (submit i cid ty task md)
  then show ?thesis using mail_submit[OF mail] by simp
next
  case (admit_write i data)
  obtain r m1 where w: "use_recorder (record_background_job_submitted (be_rec env) (mg_epoch m) data) () m = (r, m1)" by fastforce
  note m1 = mail_session[OF session_change_use[OF w] mail]
  have "mg_owner m1 = AdmitWrite i data" using session_change_use[OF w] admit_write by (auto simp: session_change_def)
  moreover have "owner_ok env m1" using m1 by (simp add: mail_ok_def)
  ultimately show ?thesis using admit_write w
    by (auto simp: admit_write_def owner_ok_def intro!: mail_owner[OF m1])
next
  case (admit_resume i data r)
  then show ?thesis using mail_admit[OF mail] mail_idle[OF mail] by (cases r) (simp_all add: admit_resume_def)
next
  case (deliver target_ok archive)
  obtain b m1 where w: "check_epoch env m = (b, m1)" by fastforce
  note m1 = mail_session[OF session_change_check[OF w] mail]
  have "mg_recovered m1" using session_change_check[OF w] deliver by (auto simp: session_change_def)
  then show ?thesis using deliver w m1 failed_done[OF m1] by (auto simp: begin_deliver_def owner_ok_def intro!: mail_owner[OF m1])
next
  case (retry_next k i ids)
  have rec: "mg_recovered m" using mail retry_next by (simp add: mail_ok_def owner_ok_def)
  have dn: "list_all (task_done m) (i # ids)" using mail retry_next by (simp add: mail_ok_def owner_ok_def)
  have failed: "i \<in> failed_ids m" if "map_of (mg_jobs m) i = Some j" "\<not> bj_persisted j" for j
    using mail_jobD(1)[OF mail that(1)] that dn by (simp add: task_done_def standing_task(3))
  show ?thesis
  proof (cases "map_of (mg_jobs m) i")
    case None
    then show ?thesis using retry_next rec dn by (auto simp: retry_next_def owner_ok_def intro!: mail_owner[OF mail])
  next
    case (Some j)
    show ?thesis using retry_next rec dn Some failed[OF Some]
      by (auto simp: retry_next_def owner_ok_def intro!: mail_owner[OF mail])
  qed
next
  case (retry_write k i ids)
  obtain r m1 where w: "write_outcome env i m = (r, m1)" by fastforce
  note m1 = mail_session[OF session_change_write[OF w] mail]
  have "mg_owner m1 = RetryWrite k i ids" using session_change_write[OF w] retry_write by (auto simp: session_change_def)
  moreover have "owner_ok env m1" using m1 by (simp add: mail_ok_def)
  ultimately show ?thesis using retry_write w
    by (simp add: retry_write_def owner_ok_def mail_owner[OF m1])
next
  case (retry_resume k i r ids)
  then show ?thesis using mail_retry_persisted[OF mail] mail_idle[OF mail] by (cases r) (simp_all add: retry_resume_def)
next
  case (retry_end k)
  have rec: "mg_recovered m" using mail retry_end by (simp add: mail_ok_def owner_ok_def)
  then show ?thesis using retry_end by (auto simp: retry_end_def owner_ok_def split: retry_for.split intro!: mail_owner[OF mail])
next
  case (prepared archive)
  have rec: "mg_recovered m" "distinct (mg_pending m)" using mail prepared by (simp_all add: mail_ok_def owner_ok_def keys_ok_def)
  then show ?thesis using prepared by (auto simp: deliver_prepared_def owner_ok_def intro!: mail_owner[OF mail])
next
  case (prepare_fails archive)
  then show ?thesis using mail_idle[OF mail] by simp
next
  case (deliver_read archive)
  obtain r m1 where w: "use_recorder (read_background_jobs (be_rec env) (mg_epoch m)) [] m = (r, m1)" by fastforce
  note m1 = mail_session[OF session_change_use[OF w] mail]
  have "mg_owner m1 = DeliverRead archive" using session_change_use[OF w] deliver_read by (auto simp: session_change_def)
  moreover have "owner_ok env m1" using m1 by (simp add: mail_ok_def)
  ultimately show ?thesis using deliver_read w
    by (auto simp: deliver_read_def owner_ok_def split: sum.split intro!: mail_owner[OF m1])
next
  case (deliver_mark archive rows)
  have rec: "mg_recovered m" "distinct (mg_pending m)" using mail deliver_mark by (simp_all add: mail_ok_def owner_ok_def keys_ok_def)
  then show ?thesis using deliver_mark mail_marks[OF mail rec(1)]
    by (auto simp: deliver_mark_def Let_def owner_ok_def intro!: mail_owner)
next
  case (deliver_next archive i ids)
  obtain b m1 where w: "check_epoch env m = (b, m1)" by fastforce
  note m1 = mail_session[OF session_change_check[OF w] mail]
  have own: "mg_owner m1 = DeliverLoop archive (i # ids)" using session_change_check[OF w] deliver_next by (auto simp: session_change_def)
  define m2 where "m2 = (if archive then upd_job i (set_data [(''archived'', JBool True)]) m1 else m1)"
  have m2: "mail_ok env m2" "mg_owner m2 = DeliverLoop archive (i # ids)"
  proof -
    have "mg_recovered m1" "i \<in> set (mg_pending m1)" using m1 own by (simp_all add: mail_ok_def owner_ok_def)
    then show "mail_ok env m2" using m1 by (simp add: m2_def mail_same_standing)
    show "mg_owner m2 = DeliverLoop archive (i # ids)" using own by (simp add: m2_def)
  qed
  have "m' = (if \<not> b then with_owner Idle m1 else
      case Option.bind (map_of (mg_jobs m2) i) (\<lambda>j. completion_text env (bj_data j)) of
        None \<Rightarrow> with_owner Idle m2 | Some t \<Rightarrow> with_owner (DeliverWrite archive i t ids) m2)"
    using deliver_next w unfolding m2_def by (simp add: deliver_next_def Let_def)
  moreover have "owner_ok env m2" using m2(1) by (simp add: mail_ok_def)
  ultimately show ?thesis using m2(2) mail_idle[OF m2(1)] mail_idle[OF m1]
    by (auto simp: owner_ok_def split: option.split intro!: mail_owner[OF m2(1)])
next
  case (deliver_write archive i t ids)
  show ?thesis
  proof (cases "mg_session m")
    case None
    have ids: "mg_recovered m" "distinct (i # ids)" "set (i # ids) \<subseteq> set (mg_pending m)"
      using mail deliver_write by (simp_all add: mail_ok_def owner_ok_def)
    then obtain j where "map_of (mg_jobs m) i = Some j" using mail by (auto simp: mail_ok_def keys_ok_def)
    with None deliver_write ids show ?thesis
      by (auto simp: deliver_write_def use_recorder_def owner_ok_def intro!: mail_owner[OF mail])
  next
    case (Some s)
    then show ?thesis using log log_deliver_write(2)[OF _ mail env] deliver_write by (auto simp: log_ok_def)
  qed
next
  case (deliver_resume archive i t r ids append_ok)
  obtain b m1 where w: "check_epoch env m = (b, m1)" by fastforce
  note m1 = mail_session[OF session_change_check[OF w] mail]
  have own: "mg_owner m1 = DeliverWritten archive i t r ids" using session_change_check[OF w] deliver_resume by (auto simp: session_change_def)
  then have "i \<in> set (mg_pending m1)" using m1 by (simp add: mail_ok_def owner_ok_def)
  then obtain j where j: "map_of (mg_jobs m1) i = Some j" using m1 by (auto simp: mail_ok_def keys_ok_def)
  show ?thesis
  proof (cases r)
    case None
    then show ?thesis
      using deliver_resume w j mail_idle[OF m1] mail_project[OF m1 _ j] own by (auto simp: deliver_resume_def)
  next
    case (Some e)
    then show ?thesis using deliver_resume mail_idle[OF mail] by (simp add: deliver_resume_def)
  qed
next
  case (deliver_end archive)
  then show ?thesis using mail_idle[OF mail] by simp
next
  case (cancel i)
  then show ?thesis using mail_same_standing[OF mail, of request_cancel_job] by (simp add: request_cancel_def)
next
  case close_flag
  moreover have "owner_ok env (close_flag m)"
    using mail by (simp add: mail_ok_def close_flag_def owner_ok_def settled_or_in_def task_done_def[abs_def] split: owner.splits)
  ultimately show ?thesis by (simp add: mail_frame[OF mail] close_flag_def)
next
  case close
  then show ?thesis using mail_cancel_all[OF mail] by (simp add: begin_close_def)
next
  case close_joined
  moreover have "owner_ok env m" using mail by (simp add: mail_ok_def)
  ultimately show ?thesis using failed_done[OF mail] by (auto simp: close_joined_def owner_ok_def intro!: mail_owner[OF mail])
next
  case (other s s')
  then have "session_change m m'" by (auto simp: session_change_def)
  then show ?thesis using mail_session mail by blast
next
  case (crash session epoch)
  then show ?thesis by (simp add: mail_empty)
qed


lemma bg_log_free_all: "bg_log es \<Longrightarrow> list_all background_free es' \<Longrightarrow> bg_log (es @ es')"
proof (induction es' rule: rev_induct)
  case (snoc e es')
  then have "bg_log (es @ es')" "background_free e" by simp_all
  then have "bg_log ((es @ es') @ [e])"
    by (intro bg_log_free) (simp_all add: background_free_def completion_key_def)
  then show ?case by simp
qed simp

lemma log_mark: "log_at env m es \<Longrightarrow> log_at env (mark_archived row m) es"
  by (auto simp: mark_archived_def split: json.split intro!: log_upd)

lemma log_marks: "log_at env m es \<Longrightarrow> log_at env (fold mark_archived rows m) es"
  by (induction rows arbitrary: m) (simp_all add: log_mark)

lemma log_step:
  assumes mail: "mail_ok env m" and log: "log_at env m es" and env: "env_ok (be_rec env)" and step: "bg_step env m m'"
  shows "\<exists>es'. log_at env m' es'"
proof -
  have wr: "\<exists>es'. log_at env (snd (write_outcome env i m)) es'" for i
    using log_write_outcome[OF log mail env surjective_pairing] .
  have check: "\<exists>es'. log_at env (snd (check_epoch env m)) es'"
    using log_check_epoch[OF log surjective_pairing] .
  have read: "\<exists>es'. log_at env (snd (use_recorder (read_background_jobs (be_rec env) ep) d m)) es'" for ep d
  proof -
    have "logs (be_rec env) r bg_log (read_background_jobs (be_rec env) ep) (\<lambda>_. bg_log) bg_log" for r
      using logs_read_jobs by (rule logs_conseq) simp_all
    from use_recorder_log[OF log surjective_pairing this] show ?thesis by auto
  qed
  show ?thesis
    using step
  proof (cases rule: bg_step.cases)
    case (start i j)
    then show ?thesis by (auto simp: start_task_def split: if_splits intro!: exI[of _ es] log_upd[OF log])
  next
    case (slot i j)
    then show ?thesis by (auto simp: acquire_slot_def intro!: exI[of _ es] log_upd[OF log])
  next
    case (slot_cancelled i j)
    then show ?thesis by (auto simp: finish_run_def intro!: exI[of _ es] log_upd[OF log])
  next
    case (run i j outcome)
    then show ?thesis
      by (cases outcome) (auto simp: finish_run_def Let_def intro!: exI[of _ es] log_upd[OF log] log_fields)
  next
    case (task_write i j)
    from wr obtain es' where "log_at env (snd (write_outcome env i m)) es'" by blast
    then show ?thesis using task_write by (auto simp: task_write_def case_prod_beta intro!: exI[of _ es'] log_upd)
  next
    case (task_resume i j r)
    then show ?thesis
      by (cases r) (auto simp: task_resume_def Let_def intro!: exI[of _ es] log_upd log_finish_persist log_fields log)
  next
    case recover
    then show ?thesis by (auto simp: begin_recover_def intro!: exI[of _ es] log_owner[OF log])
  next
    case recover_read
    then show ?thesis using log_recover_read(1)[OF log mail] by simp
  next
    case (recover_row row rows)
    then show ?thesis using log_recover_row(1)[OF log] by blast
  next
    case (recover_write i rows)
    from wr obtain es' where "log_at env (snd (write_outcome env i m)) es'" by blast
    moreover have "mg_owner (snd (write_outcome env i m)) = RecoverWrite i rows"
      using session_change_write[OF surjective_pairing[of "write_outcome env i m"]] recover_write by (auto simp: session_change_def)
    ultimately show ?thesis using recover_write by (auto simp: recover_write_def case_prod_beta intro!: exI[of _ es'] log_owner)
  next
    case (recover_resume i r rows)
    then show ?thesis
      by (cases r) (auto simp: recover_resume_def intro!: exI[of _ es] log_owner log_finish_persist log)
  next
    case recover_done
    then show ?thesis by (auto simp: recover_done_def intro!: exI[of _ es] log_mono[OF log])
  next
    case (submit i cid ty task md)
    from check obtain es' where "log_at env (snd (check_epoch env m)) es'" by blast
    then have "log_at env (snd (submit env i cid ty task md m)) (if mg_closed m then es else es')"
      using log by (auto simp: submit_def case_prod_beta Let_def intro!: log_owner)
    then show ?thesis using submit by blast
  next
    case (admit_write i data)
    then obtain c where c: "json_get data (lit ''completion_id'') = JStr c" "mg_epoch m \<noteq> []"
      using mail by (auto simp: mail_ok_def owner_ok_def data_ok_def keys_ok_def)
    from use_recorder_log[OF log surjective_pairing logs_submitted[OF env _ c(2,1)]] obtain es'
      where "log_at env (snd (use_recorder (record_background_job_submitted (be_rec env) (mg_epoch m) data) () m)) es'" by blast
    then show ?thesis using admit_write by (auto simp: admit_write_def case_prod_beta intro!: exI[of _ es'] log_owner)
  next
    case (admit_resume i data r)
    have "\<not> truthy (json_get data (lit ''delivered''))" "mg_recovered m"
      using mail admit_resume by (simp_all add: mail_ok_def owner_ok_def data_ok_def)
    then show ?thesis using admit_resume
      by (cases r) (auto simp: admit_resume_def new_job_def job_flag_def intro!: exI[of _ es] log_owner[OF log] log_mono[OF log] split: if_splits)
  next
    case (deliver target_ok archive)
    from check obtain es' where "log_at env (snd (check_epoch env m)) es'" by blast
    then show ?thesis using deliver by (auto simp: begin_deliver_def case_prod_beta intro!: exI[of _ es'] log_owner)
  next
    case (retry_next k i ids)
    then show ?thesis by (auto simp: retry_next_def split: option.split intro!: exI[of _ es] log_owner[OF log])
  next
    case (retry_write k i ids)
    from wr obtain es' where "log_at env (snd (write_outcome env i m)) es'" by blast
    then show ?thesis using retry_write by (auto simp: retry_write_def case_prod_beta intro!: exI[of _ es'] log_owner)
  next
    case (retry_resume k i r ids)
    then show ?thesis
      by (cases r) (auto simp: retry_resume_def Let_def intro!: exI[of _ es] log_owner[OF log] log_mono[OF log_finish_persist[OF log]])
  next
    case (retry_end k)
    then show ?thesis by (auto simp: retry_end_def split: retry_for.split intro!: exI[of _ es] log_owner[OF log])
  next
    case (prepared archive)
    then show ?thesis by (auto simp: deliver_prepared_def intro!: exI[of _ es] log_owner[OF log])
  next
    case (prepare_fails archive)
    then show ?thesis by (auto intro!: exI[of _ es] log_owner[OF log])
  next
    case (deliver_read archive)
    from read obtain es' where "log_at env (snd (use_recorder (read_background_jobs (be_rec env) (mg_epoch m)) [] m)) es'" by blast
    then show ?thesis using deliver_read
      by (auto simp: deliver_read_def case_prod_beta split: sum.split intro!: exI[of _ es'] log_owner)
  next
    case (deliver_mark archive rows)
    have "log_at env (fold mark_archived rows m) es" using log by (rule log_marks)
    then show ?thesis using deliver_mark by (auto simp: deliver_mark_def Let_def intro!: exI[of _ es] log_owner)
  next
    case (deliver_next archive i ids)
    from check obtain es' where es': "log_at env (snd (check_epoch env m)) es'" by blast
    then have "log_at env (upd_job i (set_data [(''archived'', JBool True)]) (snd (check_epoch env m))) es'"
      by (rule log_upd) simp_all
    with es' show ?thesis using deliver_next
      by (auto simp: deliver_next_def case_prod_beta Let_def split: option.split intro!: exI[of _ es'] log_owner)
  next
    case (deliver_write archive i t ids)
    then show ?thesis using log_deliver_write(1)[OF log mail env] by simp
  next
    case (deliver_resume archive i t r ids append_ok)
    from check obtain es' where es': "log_at env (snd (check_epoch env m)) es'" by blast
    show ?thesis
    proof (cases r)
      case None
      let ?m = "snd (check_epoch env m)"
      have own: "inserted_id (mg_owner ?m) = Some i"
        using session_change_check[OF surjective_pairing[of "check_epoch env m"]] deliver_resume None by (auto simp: session_change_def)
      have "log_at env (with_owner (DeliverLoop archive ids) (project_live i t ?m)) es'"
      proof (cases "map_of (mg_jobs ?m) i")
        case None
        then show ?thesis using es' by (auto simp: project_live_def intro!: log_owner)
      next
        case (Some j)
        then show ?thesis using own
          by (intro log_mono[OF es']) (auto simp: project_live_def Let_def split: if_splits)
      qed
      then show ?thesis using deliver_resume None es'
        by (auto simp: deliver_resume_def case_prod_beta intro!: exI[of _ es'] log_owner[OF es', of Idle])
    next
      case (Some e)
      then show ?thesis using deliver_resume by (auto simp: deliver_resume_def intro!: exI[of _ es] log_owner[OF log])
    qed
  next
    case (deliver_end archive)
    then show ?thesis by (auto intro!: exI[of _ es] log_owner[OF log])
  next
    case (cancel i)
    then show ?thesis by (auto simp: request_cancel_def intro!: exI[of _ es] log_upd[OF log])
  next
    case close_flag
    then show ?thesis by (auto simp: close_flag_def intro!: exI[of _ es] log_fields log)
  next
    case close
    then show ?thesis
      by (auto simp: begin_close_def request_cancel_all_def map_of_map intro!: exI[of _ es] log_mono[OF log])
  next
    case close_joined
    then show ?thesis by (auto simp: close_joined_def intro!: exI[of _ es] log_owner[OF log])
  next
    case (other s s')
    have s: "session_ok (be_rec env) s es" "stamp_ok (rc_stamp (ss_rec s))" "bg_log es" "log_facts env m es"
      using log other by (auto simp: log_at_def)
    then obtain es' where es': "session_ok (be_rec env) s' (es @ es')" "list_all background_free es'" "rc_stamp (ss_rec s') = rc_stamp (ss_rec s)"
      using other by (auto simp: other_activity_def)
    then have "log_at env m' (es @ es')"
      using s other log_facts_append[OF s(4)] bg_log_free_all[OF s(3) es'(2)] by (simp add: log_at_def)
    then show ?thesis by blast
  next
    case (crash session epoch)
    then have "\<exists>s. session = Some s \<and> session_ok (be_rec env) s es \<and> stamp_ok (rc_stamp (ss_rec s))" "bg_log es"
      using log by (auto simp: log_at_def reopened_def)
    then have "log_at env m' es"
      using crash by (auto simp: log_at_def new_manager_def log_facts_def)
    then show ?thesis by blast
  qed
qed


lemma start_ok:
  assumes "bg_start env m"
  shows "mail_ok env m" "log_ok env m" "within_limits env m"
proof -
  obtain session epoch where m: "m = new_manager session epoch" "epoch \<noteq> []"
      "\<And>s. session = Some s \<Longrightarrow> stamp_ok (rc_stamp (ss_rec s)) \<and> (\<exists>es. session_ok (be_rec env) s es \<and> list_all background_free es)"
    using assms by (auto simp: bg_start_def)
  show "mail_ok env m" using m mail_empty by simp
  show "within_limits env m"
    by (simp add: m(1) new_manager_def within_limits_def active_count_def running_count_def count_jobs_def)
  show "log_ok env m"
  proof (rule log_okI)
    assume "mg_session m \<noteq> None"
    then obtain s where s: "session = Some s" by (auto simp: m(1) new_manager_def)
    then obtain es where es: "session_ok (be_rec env) s es" "list_all background_free es" "stamp_ok (rc_stamp (ss_rec s))"
      using m(3) by blast
    have "bg_log []" by (simp add: bg_log_def one_insertion_def)
    from bg_log_free_all[OF this es(2)] have "log_at env m es"
      using es s by (simp add: m(1) log_at_def new_manager_def log_facts_def)
    then show "\<exists>es. log_at env m es" by blast
  qed
qed

text \<open>The invariants of the manager as instances of the interface of step systems.\<close>

interpretation limits: invariant_system "bg_start env" "bg_step env" "within_limits env" for env
  by unfold_locales (auto intro: start_ok(3) limits_step)

interpretation mailbox: invariant_system "bg_start env" "bg_step env"
  "\<lambda>m. env_ok (be_rec env) \<longrightarrow> mail_ok env m \<and> log_ok env m" for env
proof
  fix m
  assume "bg_start env m"
  then show "env_ok (be_rec env) \<longrightarrow> mail_ok env m \<and> log_ok env m" using start_ok by blast
next
  fix m m'
  assume inv: "env_ok (be_rec env) \<longrightarrow> mail_ok env m \<and> log_ok env m" and step: "bg_step env m m'"
  show "env_ok (be_rec env) \<longrightarrow> mail_ok env m' \<and> log_ok env m'"
  proof
    assume env: "env_ok (be_rec env)"
    with inv have m: "mail_ok env m" "log_ok env m" by simp_all
    have "\<exists>es. log_at env m' es" if "mg_session m' \<noteq> None"
      using that m log_step[OF m(1) _ env step] step_keeps_recorder[OF step] by (auto simp: log_ok_def)
    then show "mail_ok env m' \<and> log_ok env m'"
      using mail_step[OF m env step] log_okI by blast
  qed
qed

section \<open>Properties\<close>

text \<open>
  C27: The manager never has more unsettled jobs than its admission limit, nor more running jobs than its
  slots, whatever is submitted, cancelled, retried, closed or restarted.
\<close>

theorem background_limits_hold:
  assumes "reach (bg_start env) (bg_step env) m"
  shows "active_count m \<le> be_max_jobs env \<and> running_count m \<le> be_max_running env"
  using limits.inv_reach[OF assms] by (simp add: within_limits_def)

text \<open>
  C11: A completion is inserted into the journal at most once in each epoch, across failed and ambiguous writes,
  retries, repeated deliveries and restarts of the process.
\<close>

theorem completion_is_inserted_once:
  assumes "reach (bg_start env) (bg_step env) m" "env_ok (be_rec env)" "mg_session m = Some s"
  shows "\<exists>es. session_ok (be_rec env) s es \<and> (\<forall>epoch c. length (filter (is_completion epoch (JStr c)) es) \<le> 1)"
  using mailbox.inv_reach[OF assms(1)] assms(2,3) by (auto simp: log_ok_def log_at_def bg_log_def one_insertion_def)


section \<open>Executable schedules\<close>

text \<open>The next step of the lock's owner and of a job's task, and schedules of them, for runs on concrete inputs.\<close>

definition owner_next :: "bg_env \<Rightarrow> manager \<Rightarrow> manager option" where
  "owner_next env m =
     (case mg_owner m of
        RecoverRead \<Rightarrow> Some (recover_read env m)
      | RecoverRows [] \<Rightarrow> Some (recover_done m)
      | RecoverRows (row # rows) \<Rightarrow> Some (recover_row row rows m)
      | RecoverWrite i rows \<Rightarrow> Some (recover_write env i rows m)
      | RecoverWritten i r rows \<Rightarrow> Some (recover_resume i r rows m)
      | AdmitWrite i d \<Rightarrow> Some (admit_write env i d m)
      | AdmitWritten i d r \<Rightarrow> Some (admit_resume i d r m)
      | Retrying k [] \<Rightarrow> Some (retry_end k m)
      | Retrying k (i # ids) \<Rightarrow> Some (retry_next k i ids m)
      | RetryWrite k i ids \<Rightarrow> Some (retry_write env k i ids m)
      | RetryWritten k i r ids \<Rightarrow> Some (retry_resume k i r ids m)
      | DeliverPrepare a \<Rightarrow> Some (deliver_prepared a m)
      | DeliverRead a \<Rightarrow> Some (deliver_read env a m)
      | DeliverRows a rows \<Rightarrow> Some (deliver_mark a rows m)
      | DeliverLoop a [] \<Rightarrow> Some (with_owner Idle m)
      | DeliverLoop a (i # ids) \<Rightarrow> Some (deliver_next env a i ids m)
      | DeliverWrite a i t ids \<Rightarrow> Some (deliver_write env a i t ids m)
      | DeliverWritten a i t r ids \<Rightarrow> Some (deliver_resume env True a i t r ids m)
      | _ \<Rightarrow> None)"

definition task_next :: "bg_env \<Rightarrow> pystr \<Rightarrow> run_outcome \<Rightarrow> manager \<Rightarrow> manager option" where
  "task_next env i outcome m =
     (case map_of (mg_jobs m) i of
        None \<Rightarrow> None
      | Some j \<Rightarrow>
          (case bj_task j of
             New \<Rightarrow> Some (start_task i m)
           | Waiting \<Rightarrow> if bj_cancelling j then Some (finish_run i RaisesCancelled m)
                        else if running_count m < be_max_running env then Some (acquire_slot i m) else None
           | Running \<Rightarrow> Some (finish_run i outcome m)
           | Persisting \<Rightarrow> Some (task_write env i m)
           | Written r \<Rightarrow> Some (task_resume i r m)
           | _ \<Rightarrow> None))"

datatype bg_label = Recover | Owner | Submit pystr pystr | Deliver bool | Task pystr run_outcome

definition bg_next :: "bg_env \<Rightarrow> bg_label \<Rightarrow> manager \<Rightarrow> manager option" where
  "bg_next env l m =
     (case l of
        Recover \<Rightarrow> if mg_owner m = Idle \<and> \<not> mg_recovered m then Some (begin_recover m) else None
      | Owner \<Rightarrow> owner_next env m
      | Submit i cid \<Rightarrow> if mg_owner m = Idle \<and> mg_recovered m then Some (snd (submit env i cid (lit ''agent'') (lit ''task'') [] m)) else None
      | Deliver archive \<Rightarrow> if mg_owner m = Idle \<and> mg_recovered m then Some (begin_deliver env True archive m) else None
      | Task i outcome \<Rightarrow> task_next env i outcome m)"

fun bg_run :: "bg_env \<Rightarrow> bg_label list \<Rightarrow> manager \<Rightarrow> manager option" where
  "bg_run env [] m = Some m"
| "bg_run env (l # ls) m = (case bg_next env l m of None \<Rightarrow> None | Some m' \<Rightarrow> bg_run env ls m')"

lemma owner_next_step: "owner_next env m = Some m' \<Longrightarrow> bg_step env m m'"
  by (auto simp: owner_next_def intro: bg_step.intros split: owner.splits list.splits)

lemma task_next_step: "task_next env i outcome m = Some m' \<Longrightarrow> bg_step env m m'"
  by (auto simp: task_next_def intro: bg_step.intros split: option.splits task.splits if_splits)

lemma bg_next_step: "bg_next env l m = Some m' \<Longrightarrow> bg_step env m m'"
  by (auto simp: bg_next_def intro: bg_step.intros owner_next_step task_next_step split: bg_label.splits if_splits)

lemma bg_run_reach: "reach (bg_start env) (bg_step env) m \<Longrightarrow> bg_run env ls m = Some m' \<Longrightarrow> reach (bg_start env) (bg_step env) m'"
  by (induction env ls m rule: bg_run.induct) (auto dest!: bg_next_step intro: reach_step split: option.splits)

section \<open>A run without a recorder\<close>

definition bg_sample_env :: bg_env where
  "bg_sample_env = \<lparr>be_rec = sample_env, be_dumps_fails = \<lambda>_. False, be_dumps = \<lambda>_. [], be_max_running = 1, be_max_jobs = 1\<rparr>"

definition to_running :: "bg_label list" where
  "to_running = [Recover, Owner, Submit (lit ''j'') (lit ''c''), Owner, Owner, Task (lit ''j'') ReturnsOther, Task (lit ''j'') ReturnsOther]"

definition to_delivered :: "bg_label list" where
  "to_delivered = to_running @ replicate 3 (Task (lit ''j'') (Returns (lit ''ok''))) @ [Deliver False] @ replicate 6 Owner"

definition sample_run :: "bg_label list \<Rightarrow> manager" where
  "sample_run ls = the (bg_run bg_sample_env ls (new_manager None (lit ''e'')))"

lemma sample_run_reach:
  assumes "bg_run bg_sample_env ls (new_manager None (lit ''e'')) \<noteq> None"
  shows "reach (bg_start bg_sample_env) (bg_step bg_sample_env) (sample_run ls)"
proof -
  have "bg_start bg_sample_env (new_manager None (lit ''e''))"
    unfolding bg_start_def by (intro exI[of _ None] exI[of _ "lit ''e''"]) simp
  then have "reach (bg_start bg_sample_env) (bg_step bg_sample_env) (new_manager None (lit ''e''))" by (rule reach_initial)
  from bg_run_reach[OF this] assms show ?thesis by (auto simp: sample_run_def)
qed

lemma sample_runs:
  "bg_run bg_sample_env to_running (new_manager None (lit ''e'')) \<noteq> None"
  "bg_run bg_sample_env to_delivered (new_manager None (lit ''e'')) \<noteq> None"
  by code_simp+

theorem background_limits_hold_witness:
  "active_count (sample_run to_running) = 1 \<and> running_count (sample_run to_running) = 1 \<and>
   active_count (sample_run to_running) \<le> be_max_jobs bg_sample_env \<and> running_count (sample_run to_running) \<le> be_max_running bg_sample_env"
proof -
  have "active_count (sample_run to_running) = 1" "running_count (sample_run to_running) = 1" by code_simp+
  with background_limits_hold[OF sample_run_reach[OF sample_runs(1)]] show ?thesis by blast
qed

lemma sample_env_rec: "env_ok (be_rec bg_sample_env)"
  by (simp add: bg_sample_env_def sample_env_ok)


definition recorded_manager :: manager where
  "recorded_manager = new_manager (Some sample_session) (lit ''e1'')"

theorem completion_is_inserted_once_witness:
  "mg_session recorded_manager = Some sample_session \<and>
   (\<exists>es. session_ok (be_rec bg_sample_env) sample_session es \<and> (\<forall>epoch c. length (filter (is_completion epoch (JStr c)) es) \<le> 1))"
proof -
  have free: "list_all background_free session_sample" by code_simp
  have rec: "be_rec bg_sample_env = sample_env" by (simp add: bg_sample_env_def)
  have "bg_start bg_sample_env recorded_manager"
    unfolding bg_start_def recorded_manager_def rec
    using sample_session_ok sample_stamp_ok free
    by (intro exI[of _ "Some sample_session"] exI[of _ "lit ''e1''"]) auto
  then have "reach (bg_start bg_sample_env) (bg_step bg_sample_env) recorded_manager" by (rule reach_initial)
  from completion_is_inserted_once[OF this sample_env_rec, of sample_session] show ?thesis
    by (simp add: recorded_manager_def new_manager_def)
qed

end
