(* ===== verification/Json_Text.thy ===== *)
theory Json_Text
  imports Kolega_Prelude
begin

text \<open>
  JSON text as Python's \<open>json\<close> module writes and reads it: \<open>json.dumps\<close> with \<open>ensure_ascii=False\<close> and the separators
  \<open>","\<close> and \<open>":"\<close>, and \<open>json.loads\<close> of a text. The text of a float and its reading are parameters; Python's limit on
  the depth of recursion is not part of the model.
\<close>

section \<open>Printing\<close>

definition hex_char :: "nat \<Rightarrow> nat" where
  "hex_char n = (if n < 10 then 48 + n else 87 + n)"

definition escape_char :: "nat \<Rightarrow> pystr" where
  "escape_char c =
     (if c = 34 then [92, 34] else if c = 92 then [92, 92]
      else if c = 10 then [92, 110] else if c = 13 then [92, 114] else if c = 9 then [92, 116]
      else if c = 12 then [92, 102] else if c = 8 then [92, 98]
      else if c < 32 then [92, 117, 48, 48, hex_char (c div 16), hex_char (c mod 16)]
      else [c])"

definition escape :: "pystr \<Rightarrow> pystr" where
  "escape s = concat (map escape_char s)"

definition dump_str :: "pystr \<Rightarrow> pystr" where
  "dump_str s = 34 # escape s @ [34]"

fun dumps :: "(json \<Rightarrow> pystr) \<Rightarrow> json \<Rightarrow> pystr" where
  "dumps ftext JNull = lit ''null''"
| "dumps ftext (JBool b) = (if b then lit ''true'' else lit ''false'')"
| "dumps ftext (JInt i) = show_int i"
| "dumps ftext (JFloat m e) = ftext (JFloat m e)"
| "dumps ftext (JStr s) = dump_str s"
| "dumps ftext (JList xs) = 91 # join_on 44 (map (dumps ftext) xs) @ [93]"
| "dumps ftext (JObj d) = 123 # join_on 44 (map (\<lambda>(k, v). dump_str k @ 58 # dumps ftext v) d) @ [125]"

section \<open>Reading\<close>

definition skip_ws :: "pystr \<Rightarrow> pystr" where
  "skip_ws s = dropWhile (\<lambda>c. c = 32 \<or> c = 9 \<or> c = 10 \<or> c = 13) s"

definition hex_value :: "nat \<Rightarrow> nat option" where
  "hex_value c =
     (if 48 \<le> c \<and> c \<le> 57 then Some (c - 48) else if 97 \<le> c \<and> c \<le> 102 then Some (c - 87)
      else if 65 \<le> c \<and> c \<le> 70 then Some (c - 55) else None)"

text \<open>Four hexadecimal digits at the front.\<close>

definition hex4 :: "pystr \<Rightarrow> nat option" where
  "hex4 s =
     (case map hex_value (take 4 s) of
        [Some a, Some b, Some c, Some d] \<Rightarrow> Some (((a * 16 + b) * 16 + c) * 16 + d)
      | _ \<Rightarrow> None)"

text \<open>The code point of an escape \<open>\uXXXX\<close> and how many characters follow the \<open>u\<close>; two surrogates are joined.\<close>

definition unicode_escape :: "pystr \<Rightarrow> (nat \<times> nat) option" where
  "unicode_escape s =
     (case hex4 s of
        None \<Rightarrow> None
      | Some u \<Rightarrow>
          if 55296 \<le> u \<and> u \<le> 56319 \<and> take 2 (drop 4 s) = [92, 117]
          then (case hex4 (drop 6 s) of
                  None \<Rightarrow> None
                | Some l \<Rightarrow>
                    if 56320 \<le> l \<and> l \<le> 57343 then Some (65536 + (u - 55296) * 1024 + (l - 56320), 10)
                    else Some (u, 4))
          else Some (u, 4))"

definition simple_escape :: "nat \<Rightarrow> nat option" where
  "simple_escape c =
     (if c = 34 \<or> c = 92 \<or> c = 47 then Some c else if c = 98 then Some 8 else if c = 102 then Some 12
      else if c = 110 then Some 10 else if c = 114 then Some 13 else if c = 116 then Some 9 else None)"

text \<open>A string after its opening quote, with the text after the closing one. Control characters are rejected.\<close>

fun scan_string :: "pystr \<Rightarrow> (pystr \<times> pystr) option" where
  "scan_string [] = None"
| "scan_string (c # cs) =
     (if c = 34 then Some ([], cs)
      else if c < 32 then None
      else if c \<noteq> 92 then map_option (\<lambda>(s, r). (c # s, r)) (scan_string cs)
      else (case cs of
              [] \<Rightarrow> None
            | e # r \<Rightarrow>
                if e = 117
                then (case unicode_escape r of
                        None \<Rightarrow> None
                      | Some (u, n) \<Rightarrow> map_option (\<lambda>(s, r'). (u # s, r')) (scan_string (drop n r)))
                else (case simple_escape e of
                        None \<Rightarrow> None
                      | Some u \<Rightarrow> map_option (\<lambda>(s, r'). (u # s, r')) (scan_string r))))"

text \<open>A number: an integer, or with a fraction or an exponent a float, whose value is the parameter's.\<close>

abbreviation digit :: "nat \<Rightarrow> bool" where
  "digit c \<equiv> 48 \<le> c \<and> c \<le> 57"

definition scan_int :: "pystr \<Rightarrow> (pystr \<times> pystr) option" where
  "scan_int s =
     (case s of
        [] \<Rightarrow> None
      | c # cs \<Rightarrow>
          if c = 48 then Some ([48], cs)
          else if digit c then Some (takeWhile digit s, dropWhile digit s) else None)"

definition scan_frac :: "pystr \<Rightarrow> pystr \<times> pystr" where
  "scan_frac s =
     (if startswith s [46] \<and> takeWhile digit (tl s) \<noteq> []
      then (46 # takeWhile digit (tl s), dropWhile digit (tl s)) else ([], s))"

definition scan_exp :: "pystr \<Rightarrow> pystr \<times> pystr" where
  "scan_exp s =
     (case s of
        e # cs \<Rightarrow>
          (let (sign, t) = (case cs of c # cs' \<Rightarrow> if c = 43 \<or> c = 45 then ([c], cs') else ([], cs) | [] \<Rightarrow> ([], []))
           in if (e = 69 \<or> e = 101) \<and> takeWhile digit t \<noteq> []
              then (e # sign @ takeWhile digit t, dropWhile digit t) else ([], s))
      | [] \<Rightarrow> ([], []))"

definition scan_number :: "(pystr \<Rightarrow> json) \<Rightarrow> pystr \<Rightarrow> (json \<times> pystr) option" where
  "scan_number fread s =
     (let (sign, t) = (if startswith s [45] then ([45], tl s) else ([], s))
      in case scan_int t of
           None \<Rightarrow> None
         | Some (digits, t) \<Rightarrow>
             (let (frac, t) = scan_frac t; (ex, t) = scan_exp t
              in Some (if frac = [] \<and> ex = []
                       then JInt ((if sign = [] then 1 else - 1) * int (digits_value (map (\<lambda>c. c - 48) digits)))
                       else fread (sign @ digits @ frac @ ex), t)))"

text \<open>A constant of the language, a number otherwise.\<close>

definition scan_atom :: "(pystr \<Rightarrow> json) \<Rightarrow> pystr \<Rightarrow> (json \<times> pystr) option" where
  "scan_atom fread s =
     (if startswith s (lit ''null'') then Some (JNull, drop 4 s)
      else if startswith s (lit ''true'') then Some (JBool True, drop 4 s)
      else if startswith s (lit ''false'') then Some (JBool False, drop 5 s)
      else (case scan_number fread s of
              Some r \<Rightarrow> Some r
            | None \<Rightarrow>
                if startswith s (lit ''NaN'') then Some (fread (lit ''NaN''), drop 3 s)
                else if startswith s (lit ''Infinity'') then Some (fread (lit ''Infinity''), drop 8 s)
                else if startswith s (lit ''-Infinity'') then Some (fread (lit ''-Infinity''), drop 9 s)
                else None))"

text \<open>
  A value, the elements of an array after its bracket (or after a comma), and the members of an object from the quote of
  a key. The first argument bounds the depth of the calls; the length of the text is enough, since every call
  reads at least one character.
\<close>

fun scan_value :: "nat \<Rightarrow> (pystr \<Rightarrow> json) \<Rightarrow> pystr \<Rightarrow> (json \<times> pystr) option"
  and scan_elems :: "nat \<Rightarrow> (pystr \<Rightarrow> json) \<Rightarrow> pystr \<Rightarrow> (json list \<times> pystr) option"
  and scan_members :: "nat \<Rightarrow> (pystr \<Rightarrow> json) \<Rightarrow> pystr \<Rightarrow> ((pystr \<times> json) list \<times> pystr) option" where
  "scan_value 0 fread s = None"
| "scan_value (Suc n) fread s =
     (if startswith s [34] then map_option (\<lambda>(t, r). (JStr t, r)) (scan_string (tl s))
      else if startswith s [91]
      then (let t = skip_ws (tl s)
            in if startswith t [93] then Some (JList [], tl t)
               else map_option (\<lambda>(xs, r). (JList xs, r)) (scan_elems n fread t))
      else if startswith s [123]
      then (let t = skip_ws (tl s)
            in if startswith t [125] then Some (JObj [], tl t)
               else map_option (\<lambda>(ps, r). (JObj (fold (\<lambda>(k, v). dict_set k v) ps []), r)) (scan_members n fread t))
      else scan_atom fread s)"
| "scan_elems 0 fread s = None"
| "scan_elems (Suc n) fread s =
     (case scan_value n fread s of
        None \<Rightarrow> None
      | Some (v, r) \<Rightarrow>
          (let t = skip_ws r
           in if startswith t [93] then Some ([v], tl t)
              else if startswith t [44]
              then map_option (\<lambda>(vs, r). (v # vs, r)) (scan_elems n fread (skip_ws (tl t)))
              else None))"
| "scan_members 0 fread s = None"
| "scan_members (Suc n) fread s =
     (if \<not> startswith s [34] then None
      else case scan_string (tl s) of
             None \<Rightarrow> None
           | Some (k, r) \<Rightarrow>
               if \<not> startswith (skip_ws r) [58] then None
               else (case scan_value n fread (skip_ws (tl (skip_ws r))) of
                       None \<Rightarrow> None
                     | Some (v, r) \<Rightarrow>
                         (let t = skip_ws r
                          in if startswith t [125] then Some ([(k, v)], tl t)
                             else if startswith t [44]
                             then map_option (\<lambda>(ps, r). ((k, v) # ps, r)) (scan_members n fread (skip_ws (tl t)))
                             else None)))"

definition loads :: "(pystr \<Rightarrow> json) \<Rightarrow> pystr \<Rightarrow> json option" where
  "loads fread s =
     (if startswith s [65279] then None
      else case scan_value (Suc (2 * length s)) fread (skip_ws s) of
             None \<Rightarrow> None
           | Some (v, r) \<Rightarrow> if skip_ws r = [] then Some v else None)"

section \<open>Reading back what was printed\<close>

lemma scan_string_esc [simp]:
  "scan_string (92 # e # r) =
     (if e = 117
      then (case unicode_escape r of
              None \<Rightarrow> None
            | Some (u, n) \<Rightarrow> map_option (\<lambda>(s, r'). (u # s, r')) (scan_string (drop n r)))
      else (case simple_escape e of
              None \<Rightarrow> None
            | Some u \<Rightarrow> map_option (\<lambda>(s, r'). (u # s, r')) (scan_string r)))"
  by simp

lemma hex_value_char: "n < 16 \<Longrightarrow> hex_value (hex_char n) = Some n"
  by (auto simp: hex_value_def hex_char_def)

lemma unicode_escape_control:
  assumes "c < 32"
  shows "unicode_escape (48 # 48 # hex_char (c div 16) # hex_char (c mod 16) # r) = Some (c, 4)"
proof -
  have "c div 16 < 16" using assms by simp
  then have "hex4 (48 # 48 # hex_char (c div 16) # hex_char (c mod 16) # r) = Some (16 * (c div 16) + c mod 16)"
    by (simp add: hex4_def hex_value_char) (simp add: hex_value_def)
  then show ?thesis using assms by (simp add: unicode_escape_def)
qed

declare scan_string.simps(2) [simp del]

lemma scan_string_char [simp]:
  "scan_string (34 # r) = Some ([], r)"
  "\<not> c < 32 \<Longrightarrow> c \<noteq> 34 \<Longrightarrow> c \<noteq> 92 \<Longrightarrow> scan_string (c # r) = map_option (\<lambda>(s, r). (c # s, r)) (scan_string r)"
  by (simp_all add: scan_string.simps)

lemma scan_escape_char:
  "scan_string (escape_char c @ t) = map_option (\<lambda>(s, r). (c # s, r)) (scan_string t)"
proof (cases "c < 32")
  case True
  then show ?thesis by (simp add: escape_char_def simple_escape_def unicode_escape_control)
next
  case False
  then show ?thesis by (simp add: escape_char_def simple_escape_def)
qed

lemma scan_string_escape [simp]: "scan_string (escape s @ 34 # r) = Some (s, r)"
  by (induction s) (simp_all add: escape_def scan_escape_char)

text \<open>What may follow a value inside a document.\<close>

definition stop :: "pystr \<Rightarrow> bool" where
  "stop r \<longleftrightarrow> r = [] \<or> hd r \<in> {9, 10, 13, 32, 44, 93, 125}"

lemma show_nat_hd: "0 < n \<Longrightarrow> hd (show_nat n) \<noteq> 48"
proof (induction n rule: show_nat.induct)
  case (1 n)
  then show ?case by (subst show_nat.simps) simp
qed

lemma scan_int_show_nat:
  assumes "stop r"
  shows "scan_int (show_nat n @ r) = Some (show_nat n, r)"
proof -
  have r: "takeWhile digit r = []" "dropWhile digit r = r"
    using assms by (cases r; auto simp: stop_def)+
  have all: "list_all digit (show_nat n)"
    using show_nat_digits[of n] by (auto simp: list_all_iff)
  obtain c cs where c: "show_nat n = c # cs" "digit c" using show_nat_Cons[of n] by blast
  show ?thesis
  proof (cases "n = 0")
    case True
    then show ?thesis by (simp add: scan_int_def show_nat.simps)
  next
    case False
    then have "c \<noteq> 48" using show_nat_hd[of n] c by simp
    moreover have "takeWhile digit (show_nat n @ r) = show_nat n" "dropWhile digit (show_nat n @ r) = r"
      using all r by (simp_all only: takeWhile_append_all dropWhile_append_all append_Nil2)
    ultimately show ?thesis using c by (simp add: scan_int_def)
  qed
qed

lemma scan_number_show_int:
  assumes "stop r"
  shows "scan_number fread (show_int i @ r) = Some (JInt i, r)"
proof -
  have e: "scan_frac r = ([], r)" "scan_exp r = ([], r)"
    using assms by (cases r; auto simp: stop_def scan_frac_def scan_exp_def split: prod.splits)+
  have neg: "\<not> startswith (show_nat n @ r) [45]" for n
    using show_nat_Cons[of n] by auto
  show ?thesis
  proof (cases "i < 0")
    case True
    then show ?thesis
      by (simp add: show_int_def scan_number_def scan_int_show_nat assms e digits_value_show_nat)
  next
    case False
    then show ?thesis
      by (simp add: show_int_def scan_number_def scan_int_show_nat assms e digits_value_show_nat neg)
  qed
qed

lemma scan_atom_show_int:
  assumes "stop r"
  shows "scan_atom fread (show_int i @ r) = Some (JInt i, r)"
proof -
  have "\<exists>c cs. show_int i = c # cs \<and> (c = 45 \<or> digit c)"
    using show_nat_Cons[of "nat i"] by (auto simp: show_int_def)
  then have "\<not> startswith (show_int i @ r) (lit ''null'')" "\<not> startswith (show_int i @ r) (lit ''true'')"
    "\<not> startswith (show_int i @ r) (lit ''false'')"
    by (auto simp: lit_def)
  then show ?thesis by (simp add: scan_atom_def scan_number_show_int assms)
qed

text \<open>Values that are read back: without floats, and with the keys of a dictionary.\<close>

fun plain :: "json \<Rightarrow> bool" where
  "plain (JFloat m e) = False"
| "plain (JList xs) = list_all plain xs"
| "plain (JObj d) = (distinct (map fst d) \<and> list_all (\<lambda>(k, v). plain v) d)"
| "plain v = True"

lemma dumps_front:
  assumes "plain v"
  obtains c cs where "dumps ftext v = c # cs" "c \<notin> {9, 10, 13, 32, 93}" "c \<noteq> 65279"
proof (cases v)
  case (JInt i)
  show ?thesis
    by (cases "i < 0") (use that show_nat_Cons[of "nat i"] JInt in \<open>auto simp: show_int_def\<close>)
next
  case (JBool b)
  then show ?thesis using that by (cases b) (auto simp: lit_def)
qed (use assms that in \<open>auto simp: lit_def dump_str_def\<close>)

lemma dumps_front_simps:
  assumes "plain v"
  shows "skip_ws (dumps ftext v @ r) = dumps ftext v @ r" "\<not> startswith (dumps ftext v @ r) [93]"
    "1 \<le> length (dumps ftext v)"
proof -
  obtain c cs where "dumps ftext v = c # cs" "c \<notin> {9, 10, 13, 32, 93}" using dumps_front[OF assms] by blast
  then show "skip_ws (dumps ftext v @ r) = dumps ftext v @ r" "\<not> startswith (dumps ftext v @ r) [93]"
    "1 \<le> length (dumps ftext v)"
    by (simp_all add: skip_ws_def)
qed

abbreviation reads_back :: "(json \<Rightarrow> pystr) \<Rightarrow> (pystr \<Rightarrow> json) \<Rightarrow> json \<Rightarrow> bool" where
  "reads_back ftext fread v \<equiv>
     \<forall>n r. stop r \<longrightarrow> length (dumps ftext v) \<le> n \<longrightarrow> scan_value n fread (dumps ftext v @ r) = Some (v, r)"

lemma stop_simps [simp]: "stop (10 # r)" "stop (44 # r)" "stop (93 # r)" "stop (125 # r)" "stop []"
  by (simp_all add: stop_def)

lemma skip_ws_punct [simp]: "skip_ws (34 # r) = 34 # r" "skip_ws (44 # r) = 44 # r" "skip_ws (93 # r) = 93 # r" "skip_ws (125 # r) = 125 # r"
    "skip_ws (58 # r) = 58 # r" "skip_ws [] = []"
  by (simp_all add: skip_ws_def)

lemma scan_elems_dumps:
  "xs \<noteq> [] \<Longrightarrow> list_all (\<lambda>x. plain x \<and> reads_back ftext fread x) xs \<Longrightarrow>
     length (join_on 44 (map (dumps ftext) xs)) < n \<Longrightarrow>
     scan_elems n fread (join_on 44 (map (dumps ftext) xs) @ 93 # r) = Some (xs, r)"
proof (induction xs arbitrary: n)
  case (Cons x xs)
  obtain m where n: "n = Suc m" using Cons.prems(3) by (cases n) auto
  have x: "plain x" "reads_back ftext fread x" using Cons.prems(2) by simp_all
  show ?case
  proof (cases "xs = []")
    case True
    then show ?thesis using Cons.prems(3) x by (simp add: n)
  next
    case False
    let ?t = "join_on 44 (map (dumps ftext) xs) @ 93 # r"
    obtain y ys where xs: "xs = y # ys" using False by (cases xs) auto
    have "plain y" using Cons.prems(2) xs by simp
    then have ws: "skip_ws ?t = ?t"
      using dumps_front_simps(1)[of y] by (cases ys) (simp_all add: xs)
    have len: "length (dumps ftext x) + Suc (length (join_on 44 (map (dumps ftext) xs))) \<le> m"
      using Cons.prems(3) False by (simp add: n join_on_Cons)
    then have "scan_value m fread (dumps ftext x @ 44 # ?t) = Some (x, 44 # ?t)"
      using x(2) by simp
    moreover have "scan_elems m fread ?t = Some (xs, r)"
      using Cons.IH[of m] Cons.prems(2) False len dumps_front_simps(3)[OF x(1), of ftext] by simp
    ultimately show ?thesis using False ws by (simp add: n join_on_Cons)
  qed
qed simp

fun member_text :: "(json \<Rightarrow> pystr) \<Rightarrow> pystr \<times> json \<Rightarrow> pystr" where
  "member_text ftext (k, v) = dump_str k @ 58 # dumps ftext v"

lemma scan_members_dumps:
  "d \<noteq> [] \<Longrightarrow> list_all (\<lambda>(k, x). plain x \<and> reads_back ftext fread x) d \<Longrightarrow>
     length (join_on 44 (map (member_text ftext) d)) < n \<Longrightarrow>
     scan_members n fread (join_on 44 (map (member_text ftext) d) @ 125 # r) = Some (d, r)"
proof (induction d arbitrary: n)
  case (Cons p d)
  obtain m where n: "n = Suc m" using Cons.prems(3) by (cases n) auto
  obtain k x where p: "p = (k, x)" by (cases p)
  have x: "plain x" "reads_back ftext fread x" using Cons.prems(2) by (simp_all add: p)
  note front = dumps_front_simps(1)[OF x(1), of ftext]
  show ?case
  proof (cases "d = []")
    case True
    then show ?thesis using Cons.prems(3) x front by (simp add: n p dump_str_def)
  next
    case False
    let ?t = "join_on 44 (map (member_text ftext) d) @ 125 # r"
    obtain y ys where d: "d = y # ys" using False by (cases d) auto
    then have ws: "skip_ws ?t = ?t"
      by (cases ys; cases y) (simp_all add: d dump_str_def)
    have len: "length (dumps ftext x) + Suc (length (join_on 44 (map (member_text ftext) d))) \<le> m"
      using Cons.prems(3) False by (simp add: n p join_on_Cons)
    then have "scan_value m fread (dumps ftext x @ 44 # ?t) = Some (x, 44 # ?t)"
      using x(2) by simp
    moreover have "scan_members m fread ?t = Some (d, r)"
      using Cons.IH[of m] Cons.prems(2) False len by simp
    ultimately show ?thesis using False ws front
      by (simp add: n p dump_str_def join_on_Cons)
  qed
qed simp

lemma fold_dict_set_fresh:
  "distinct (map fst (d @ ps)) \<Longrightarrow> fold (\<lambda>(k, v). dict_set k v) ps d = d @ ps"
proof (induction ps arbitrary: d)
  case (Cons p ps)
  obtain k v where p: "p = (k, v)" by (cases p)
  have "dict_set k v d = d @ [(k, v)]" if "k \<notin> fst ` set d" for d :: "('a \<times> 'b) list"
    using that by (induction d) auto
  then show ?case using Cons.IH[of "d @ [(k, v)]"] Cons.prems by (simp add: p)
qed simp

lemma scan_value_dumps: "plain v \<Longrightarrow> reads_back ftext fread v"
proof (induction v)
  case (JBool b)
  show ?case
    by (intro allI impI, case_tac n, cases b) (simp_all add: lit_def dump_str_def scan_atom_def numeral_eq_Suc)
next
  case JNull
  show ?case
    by (intro allI impI, case_tac n) (simp_all add: lit_def dump_str_def scan_atom_def)
next
  case (JInt i)
  have "\<exists>c cs. show_int i = c # cs \<and> (c = 45 \<or> digit c)"
    using show_nat_Cons[of "nat i"] by (auto simp: show_int_def)
  then have "\<not> startswith (show_int i @ r) [34]" "\<not> startswith (show_int i @ r) [91]" "\<not> startswith (show_int i @ r) [123]"
    "show_int i \<noteq> []" for r
    by auto
  then show ?case
    by (intro allI impI, case_tac n) (simp_all add: scan_atom_show_int)
next
  case (JStr s)
  show ?case
    by (intro allI impI, case_tac n) (simp_all add: dump_str_def)
next
  case (JList xs)
  have IH: "list_all (\<lambda>x. plain x \<and> reads_back ftext fread x) xs"
    using JList by (simp add: list_all_iff)
  show ?case
  proof (intro allI impI)
    fix n r assume "stop r" and len: "length (dumps ftext (JList xs)) \<le> n"
    then obtain m where n: "n = Suc m" by (cases n) auto
    show "scan_value n fread (dumps ftext (JList xs) @ r) = Some (JList xs, r)"
    proof (cases xs)
      case Nil
      then show ?thesis by (simp add: n)
    next
      case (Cons y ys)
      then have "plain y" using IH by simp
      then have "skip_ws (join_on 44 (map (dumps ftext) xs) @ 93 # r) = join_on 44 (map (dumps ftext) xs) @ 93 # r"
        "\<not> startswith (join_on 44 (map (dumps ftext) xs) @ 93 # r) [93]"
        using dumps_front_simps[of y ftext] by (cases ys; simp add: Cons)+
      then show ?thesis
        using scan_elems_dumps[OF _ IH, of m r] Cons len by (simp add: n del: join_on.simps)
    qed
  qed
next
  case (JObj d)
  have IH: "list_all (\<lambda>(k, x). plain x \<and> reads_back ftext fread x) d"
    using JObj by (fastforce simp: list_all_iff)
  have members: "map (\<lambda>(k, v). dump_str k @ 58 # dumps ftext v) d = map (member_text ftext) d"
    by auto
  show ?case
  proof (intro allI impI)
    fix n r assume "stop r" and len: "length (dumps ftext (JObj d)) \<le> n"
    then obtain m where n: "n = Suc m" by (cases n) auto
    show "scan_value n fread (dumps ftext (JObj d) @ r) = Some (JObj d, r)"
    proof (cases d)
      case Nil
      then show ?thesis by (simp add: n)
    next
      case (Cons y ys)
      let ?t = "join_on 44 (map (member_text ftext) d) @ 125 # r"
      have t: "\<exists>cs. ?t = 34 # cs" by (cases ys; cases y) (simp_all add: Cons dump_str_def)
      have "scan_members m fread ?t = Some (d, r)"
        using scan_members_dumps[OF _ IH, of m r] Cons len unfolding dumps.simps members by (simp add: n del: join_on.simps)
      moreover have "fold (\<lambda>(k, v). dict_set k v) d [] = d"
        using fold_dict_set_fresh[of "[]" d] JObj.prems by simp
      ultimately show ?thesis
        using t by (auto simp add: n members)
    qed
  qed
qed simp

lemma loads_dumps_ws:
  assumes v: "plain v" and r: "r = [] \<or> r = [10]"
  shows "loads fread (dumps ftext v @ r) = Some v"
proof -
  have "scan_value (Suc (2 * length (dumps ftext v @ r))) fread (dumps ftext v @ r) = Some (v, r)"
    using r by (intro scan_value_dumps[OF v, rule_format]) (auto simp: stop_def)
  moreover have "\<not> startswith (dumps ftext v @ r) [65279]" "skip_ws (dumps ftext v @ r) = dumps ftext v @ r"
    using dumps_front_simps(1)[OF v, of ftext r] dumps_front[OF v, of ftext] by (fastforce, simp)
  moreover have "skip_ws r = []" using r by (auto simp: skip_ws_def)
  ultimately show ?thesis by (simp add: loads_def)
qed

lemma loads_dumps: "plain v \<Longrightarrow> loads fread (dumps ftext v) = Some v"
  using loads_dumps_ws[of v "[]" fread ftext] by simp

text \<open>The printed text of scalar values can be encoded.\<close>

lemma scalar_ascii: "c < 55296 \<Longrightarrow> is_scalar c"
  by (simp add: is_scalar_def)

lemma scalar_escape: "list_all is_scalar s \<Longrightarrow> list_all is_scalar (escape s)"
  by (induction s) (auto simp: escape_def escape_char_def hex_char_def is_scalar_def)

lemma scalar_lit [simp]: "list_all is_scalar (lit s)"
proof -
  have "is_scalar (of_char c)" for c :: char
    using nat_of_char_less_256[of c] unfolding is_scalar_def by linarith
  then show ?thesis by (simp add: lit_def list_all_iff)
qed

lemma scalar_dump_str [simp]: "list_all is_scalar s \<Longrightarrow> list_all is_scalar (dump_str s)"
  by (simp add: dump_str_def scalar_escape is_scalar_def)

fun scalar_json :: "json \<Rightarrow> bool" where
  "scalar_json (JStr s) = list_all is_scalar s"
| "scalar_json (JList xs) = list_all scalar_json xs"
| "scalar_json (JObj d) = list_all (\<lambda>(k, v). list_all is_scalar k \<and> scalar_json v) d"
| "scalar_json (JFloat m e) = False"
| "scalar_json v = True"

lemma scalar_join_on: "is_scalar c \<Longrightarrow> list_all (list_all is_scalar) ps \<Longrightarrow> list_all is_scalar (join_on c ps)"
  by (induction c ps rule: join_on.induct) auto

lemma scalar_show_int: "list_all is_scalar (show_int i)"
proof -
  have "list_all is_scalar (show_nat n)" for n
    using show_nat_digits[of n] by (fastforce simp: list_all_iff is_scalar_def)
  then show ?thesis by (simp add: show_int_def is_scalar_def)
qed

lemma scalar_dumps: "scalar_json v \<Longrightarrow> list_all is_scalar (dumps ftext v)"
proof (induction v)
  case (JList xs)
  then have "list_all (list_all is_scalar) (map (dumps ftext) xs)"
    by (simp add: list_all_iff[of _ xs] list_all_iff[of "list_all is_scalar"])
  then show ?case by (simp add: scalar_join_on scalar_ascii)
next
  case (JObj d)
  have "list_all (list_all is_scalar) (map (\<lambda>(k, v). dump_str k @ 58 # dumps ftext v) d)"
    using JObj by (fastforce simp: list_all_iff[of _ d] list_all_iff[of "list_all is_scalar"] is_scalar_def)
  then show ?case by (simp add: scalar_join_on scalar_ascii)
qed (simp_all add: scalar_show_int)

end
