(* ===== verification/Peer_Transport.thy ===== *)
theory Peer_Transport
  imports Peer_Inbox
begin

text \<open>
  Messages between processes, second half of \<open>kolega_code/session/inbox.py\<close>: socket file names, envelopes, the server of a
  session, the client and the discovery of peers.

  Parameters: the decimal digits of Unicode (\<open>dec\<close>), the text of floats and of values in messages, what the operating system
  answers (signals, unlinking, binding, connecting), and the other end of a connection as a function on a world.
\<close>

section \<open>Socket names\<close>

definition b64_alphabet :: pystr where
  "b64_alphabet = lit ''ABCDEFGHIJKLMNOPQRSTUVWXYZabcdefghijklmnopqrstuvwxyz0123456789-_''"

definition b64_char :: "nat \<Rightarrow> nat" where
  "b64_char n = b64_alphabet ! n"

text \<open>\<open>base64.urlsafe_b64encode\<close>.\<close>

fun b64_encode :: "nat list \<Rightarrow> pystr" where
  "b64_encode (a # b # c # r) =
     b64_char (a div 4) # b64_char (a mod 4 * 16 + b div 16) # b64_char (b mod 16 * 4 + c div 64) # b64_char (c mod 64) # b64_encode r"
| "b64_encode [a, b] = [b64_char (a div 4), b64_char (a mod 4 * 16 + b div 16), b64_char (b mod 16 * 4), 61]"
| "b64_encode [a] = [b64_char (a div 4), b64_char (a mod 4 * 16), 61, 61]"
| "b64_encode [] = []"

definition b64_value :: "nat \<Rightarrow> nat option" where
  "b64_value c = find (\<lambda>i. b64_alphabet ! i = c) [0..<64]"

text \<open>\<open>base64.urlsafe_b64decode\<close> of groups of four characters of the alphabet, the last one padded.\<close>

fun b64_decode :: "pystr \<Rightarrow> nat list option" where
  "b64_decode [] = Some []"
| "b64_decode (p # q # r # s # t) =
     (case (b64_value p, b64_value q, b64_value r, b64_value s) of
        (Some a, Some b, Some c, Some d) \<Rightarrow>
          map_option (\<lambda>bs. (a * 4 + b div 16) # (b mod 16 * 16 + c div 4) # (c mod 4 * 64 + d) # bs) (b64_decode t)
      | (Some a, Some b, Some c, None) \<Rightarrow> if s = 61 \<and> t = [] then Some [a * 4 + b div 16, b mod 16 * 16 + c div 4] else None
      | (Some a, Some b, None, None) \<Rightarrow> if r = 61 \<and> s = 61 \<and> t = [] then Some [a * 4 + b div 16] else None
      | _ \<Rightarrow> None)"
| "b64_decode _ = None"

text \<open>\<open>bytes.fromhex\<close>, which skips ASCII white space between bytes, and \<open>bytes.hex\<close>.\<close>

fun fromhex :: "pystr \<Rightarrow> nat list option" where
  "fromhex [] = Some []"
| "fromhex (c # cs) =
     (if c = 32 \<or> (9 \<le> c \<and> c \<le> 13) then fromhex cs
      else (case cs of
              [] \<Rightarrow> None
            | d # r \<Rightarrow>
                (case (hex_value c, hex_value d) of
                   (Some a, Some b) \<Rightarrow> map_option (\<lambda>bs. (a * 16 + b) # bs) (fromhex r)
                 | _ \<Rightarrow> None)))"

definition to_hex :: "nat list \<Rightarrow> pystr" where
  "to_hex bs = concat (map (\<lambda>b. [hex_char (b div 16), hex_char (b mod 16)]) bs)"

definition encode_socket_sid :: "pystr \<Rightarrow> peer_exc + pystr" where
  "encode_socket_sid session_id =
     (case fromhex session_id of
        None \<Rightarrow> Inl (OtherError (lit ''non-hexadecimal number found in fromhex() arg''))
      | Some bs \<Rightarrow> Inr (rstrip_by (\<lambda>c. c = 61) (b64_encode bs)))"

definition legacy_sid :: "pystr \<Rightarrow> bool" where
  "legacy_sid raw = (length raw = 32 \<and> list_all (\<lambda>c. digit c \<or> (97 \<le> c \<and> c \<le> 102)) raw)"

definition decode_socket_sid :: "pystr \<Rightarrow> pystr option" where
  "decode_socket_sid raw =
     (if legacy_sid raw then Some raw else map_option to_hex (b64_decode (raw @ [61, 61])))"

definition socket_name :: "pystr \<Rightarrow> nat \<Rightarrow> peer_exc + pystr" where
  "socket_name session_id pid =
     rbind (encode_socket_sid session_id) (\<lambda>sid. Inr (sid @ [46] @ show_nat pid @ lit ''.sock''))"

text \<open>\<open>_SOCKET_ID_RE\<close>, and \<open>_SOCKET_NAME_RE\<close>, whose \<open>$\<close> also matches before a final line feed.\<close>

definition socket_id :: "pystr \<Rightarrow> bool" where
  "socket_id raw = (length raw = 22 \<and> list_all (\<lambda>c. c \<in> set b64_alphabet) raw \<or> legacy_sid raw)"

definition parse_socket_name :: "(nat \<Rightarrow> nat option) \<Rightarrow> pystr \<Rightarrow> (pystr \<times> nat) option" where
  "parse_socket_name dec name =
     (let sid = takeWhile (\<lambda>c. c \<noteq> 46) name;
          r = tl (dropWhile (\<lambda>c. c \<noteq> 46) name);
          digits = takeWhile (\<lambda>c. dec c \<noteq> None) r;
          t = dropWhile (\<lambda>c. dec c \<noteq> None) r
      in if \<not> socket_id sid \<or> 46 \<notin> set name \<or> digits = [] \<or> (t \<noteq> lit ''.sock'' \<and> t \<noteq> lit ''.sock'' @ [10]) then None
         else (case decode_socket_sid sid of
                 None \<Rightarrow> None
               | Some session_id \<Rightarrow> Some (session_id, digits_value (map (\<lambda>c. the (dec c)) digits))))"

section \<open>The messaging directory\<close>

datatype kill_result = Signalled | ProcessLookupError | PermissionError | OSError

definition is_pid_alive :: "(nat \<Rightarrow> kill_result) \<Rightarrow> nat \<Rightarrow> bool" where
  "is_pid_alive kill pid =
     (if pid \<le> 0 then False
      else (case kill pid of ProcessLookupError \<Rightarrow> False | PermissionError \<Rightarrow> True | OSError \<Rightarrow> False | Signalled \<Rightarrow> True))"

text \<open>
  What the host answers: signals, names whose file cannot be removed, whether a directory can be listed, the length of the path of
  the directory with its separator, whether a socket can be bound.
\<close>

record host =
  ho_dec :: "nat \<Rightarrow> nat option"
  ho_kill :: "nat \<Rightarrow> kill_result"
  ho_unlink_fails :: "pystr \<Rightarrow> bool"
  ho_listable :: bool
  ho_dir :: pystr
  ho_bind_error :: "pystr \<Rightarrow> peer_exc option"

text \<open>The entries of the directory, in the order of \<open>iterdir\<close>.\<close>

type_synonym directory = "pystr list"

definition sweep_entry :: "host \<Rightarrow> pystr \<Rightarrow> pystr list \<times> directory \<Rightarrow> pystr list \<times> directory" where
  "sweep_entry ho entry st =
     (case st of (removed, dir) \<Rightarrow>
        case parse_socket_name (ho_dec ho) entry of
          None \<Rightarrow> (removed, dir)
        | Some (_, pid) \<Rightarrow>
            if \<not> is_pid_alive (ho_kill ho) pid \<and> \<not> ho_unlink_fails ho entry
            then (removed @ [entry], filter (\<lambda>e. e \<noteq> entry) dir) else (removed, dir))"

definition sweep_stale_sockets :: "host \<Rightarrow> directory \<Rightarrow> pystr list \<times> directory" where
  "sweep_stale_sockets ho dir =
     (if \<not> ho_listable ho then ([], dir) else fold (sweep_entry ho) dir ([], dir))"

section \<open>Envelopes\<close>

definition messaging_protocol_version :: int where
  "messaging_protocol_version = 1"

definition envelope_max_bytes :: nat where
  "envelope_max_bytes = 64 * 1024"

record wire_env =
  we_ftext :: "json \<Rightarrow> pystr"
  we_fread :: "pystr \<Rightarrow> json"
  we_repr :: "json \<Rightarrow> pystr"
  we_json_error :: "nat list \<Rightarrow> pystr"

definition envelope_limit_error :: peer_exc where
  "envelope_limit_error = PeerMessageError (lit ''Envelope exceeds the '' @ show_nat envelope_max_bytes @ lit ''-byte wire limit.'')"

definition unicode_encode_error :: peer_exc where
  "unicode_encode_error = OtherError (lit ''UnicodeEncodeError'')"

definition encode_envelope :: "wire_env \<Rightarrow> (pystr \<times> json) list \<Rightarrow> peer_exc + nat list" where
  "encode_envelope we payload =
     (case utf8_encode (dumps (we_ftext we) (JObj payload)) of
        None \<Rightarrow> Inl unicode_encode_error
      | Some data \<Rightarrow> if length data > envelope_max_bytes then Inl envelope_limit_error else Inr (data @ [10]))"

definition json_of_bytes :: "wire_env \<Rightarrow> nat list \<Rightarrow> json option" where
  "json_of_bytes we raw = (case utf8_decode raw of None \<Rightarrow> None | Some s \<Rightarrow> loads (we_fread we) s)"

datatype wire = WireObject "(pystr \<times> json) list" | WireText pystr | WireBytes "nat list"

definition decode_wire :: "wire_env \<Rightarrow> wire \<Rightarrow> peer_exc + json" where
  "decode_wire we line =
     (case line of
        WireObject d \<Rightarrow> Inr (JObj d)
      | _ \<Rightarrow>
          rbind (case line of
                   WireText s \<Rightarrow> (case utf8_encode s of None \<Rightarrow> Inl unicode_encode_error | Some b \<Rightarrow> Inr b)
                 | WireBytes b \<Rightarrow> Inr b | WireObject d \<Rightarrow> Inr [])
            (\<lambda>raw. if length raw > envelope_max_bytes then Inl envelope_limit_error
                   else if blank_bytes raw then Inl (PeerMessageError (lit ''Empty envelope.''))
                   else (case json_of_bytes we raw of
                           None \<Rightarrow> Inl (PeerMessageError (lit ''Envelope is not valid JSON: '' @ we_json_error we raw))
                         | Some v \<Rightarrow> Inr v)))"

definition valid_kinds :: "json list" where
  "valid_kinds = [JStr (lit ''message''), JStr (lit ''status'')]"

text \<open>\<open>str(v or d)\<close>.\<close>

definition str_or :: "(json \<Rightarrow> pystr) \<Rightarrow> json \<Rightarrow> pystr \<Rightarrow> pystr" where
  "str_or repr v d = (if truthy v then py_str repr v else d)"

definition message_fields :: "wire_env \<Rightarrow> (pystr \<times> json) list \<Rightarrow> peer_exc + (pystr \<times> json) list" where
  "message_fields we payload =
     (case json_get payload (lit ''sender_id'') of
        JStr sender_id \<Rightarrow>
          if strip sender_id = [] then Inl (PeerMessageError (lit ''Envelope is missing a valid '' @ [39] @ lit ''sender_id'' @ [39] @ lit ''.''))
          else (case json_get payload (lit ''text'') of
                  JStr text \<Rightarrow>
                    rbind (validate_peer_text text) (\<lambda>_.
                    Inr [(lit ''v'', json_get payload (lit ''v'')), (lit ''kind'', JStr (lit ''message'')),
                         (lit ''sender_id'', JStr (strip sender_id)),
                         (lit ''sender_title'', JStr (str_or (we_repr we) (json_get payload (lit ''sender_title'')) sender_id)),
                         (lit ''sender_project'', JStr (str_or (we_repr we) (json_get payload (lit ''sender_project'')) [])),
                         (lit ''text'', JStr text),
                         (lit ''reply_to'', case json_get payload (lit ''reply_to'') of
                            JStr r \<Rightarrow> if r = [] then JNull else JStr r | _ \<Rightarrow> JNull)])
                | _ \<Rightarrow> Inl (PeerMessageError (lit ''Envelope is missing message '' @ [39] @ lit ''text'' @ [39] @ lit ''.'')))
      | _ \<Rightarrow> Inl (PeerMessageError (lit ''Envelope is missing a valid '' @ [39] @ lit ''sender_id'' @ [39] @ lit ''.'')))"

definition parse_envelope :: "wire_env \<Rightarrow> wire \<Rightarrow> peer_exc + (pystr \<times> json) list" where
  "parse_envelope we line =
     rbind (decode_wire we line) (\<lambda>v.
     case v of
       JObj payload \<Rightarrow>
         (let version = json_get payload (lit ''v''); kind = json_get payload (lit ''kind'')
          in if \<not> json_eq_int version messaging_protocol_version
             then Inl (PeerMessageError (lit ''Unsupported protocol version: '' @ we_repr we version @ lit ''.''))
             else if kind \<notin> set valid_kinds
             then Inl (PeerMessageError (lit ''Unsupported envelope kind: '' @ we_repr we kind @ lit ''.''))
             else if kind = JStr (lit ''status'') then Inr [(lit ''v'', version), (lit ''kind'', JStr (lit ''status''))]
             else message_fields we payload)
     | _ \<Rightarrow> Inl (PeerMessageError (lit ''Envelope must be a JSON object.'')))"

section \<open>The client\<close>

text \<open>
  The other end of a connection: connecting may fail with a text, an exchange of lines may fail with a text or gives the
  line read, empty at the end of the stream.
\<close>

record 'w transport =
  tr_connect :: "pystr \<Rightarrow> 'w \<Rightarrow> pystr option"
  tr_exchange :: "pystr \<Rightarrow> nat list \<Rightarrow> 'w \<Rightarrow> (pystr + nat list) \<times> 'w"

definition peer_error_at :: "string \<Rightarrow> pystr \<Rightarrow> string \<Rightarrow> pystr \<Rightarrow> peer_exc" where
  "peer_error_at before path after detail = PeerMessageError (lit before @ path @ lit after @ detail)"

definition read_response :: "wire_env \<Rightarrow> pystr \<Rightarrow> nat list \<Rightarrow> peer_exc + (pystr \<times> json) list" where
  "read_response we path line =
     (if line = [] then Inl (peer_error_at ''Peer at '' path '' closed the connection without answering.'' [])
      else (case json_of_bytes we line of
              None \<Rightarrow> Inl (peer_error_at ''Peer at '' path '' sent a malformed response: '' (we_json_error we line))
            | Some (JObj response) \<Rightarrow>
                (case json_get response (lit ''ok'') of
                   JBool _ \<Rightarrow> Inr response
                 | _ \<Rightarrow> Inl (peer_error_at ''Peer at '' path '' sent an unrecognized response.'' []))
            | Some _ \<Rightarrow> Inl (peer_error_at ''Peer at '' path '' sent an unrecognized response.'' [])))"

definition send_over_socket ::
  "wire_env \<Rightarrow> 'w transport \<Rightarrow> pystr \<Rightarrow> (pystr \<times> json) list \<Rightarrow> ('w, peer_exc, (pystr \<times> json) list) op" where
  "send_over_socket we tr path payload w =
     (case tr_connect tr path w of
        Some exc \<Rightarrow> (Inl (peer_error_at ''Could not reach peer socket '' path '': '' exc), w)
      | None \<Rightarrow>
          (case encode_envelope we payload of
             Inl e \<Rightarrow> (Inl e, w)
           | Inr data \<Rightarrow>
               (case tr_exchange tr path data w of
                  (Inl exc, w) \<Rightarrow> (Inl (peer_error_at ''Peer at '' path '' did not answer: '' exc), w)
                | (Inr line, w) \<Rightarrow> (read_response we path line, w))))"

definition status_request :: "(pystr \<times> json) list" where
  "status_request = [(lit ''v'', JInt messaging_protocol_version), (lit ''kind'', JStr (lit ''status''))]"

definition socket_endpoint_is_live :: "wire_env \<Rightarrow> 'w transport \<Rightarrow> pystr \<Rightarrow> 'w \<Rightarrow> bool \<times> 'w" where
  "socket_endpoint_is_live we tr path w =
     (case send_over_socket we tr path status_request w of
        (Inl _, w) \<Rightarrow> (False, w)
      | (Inr response, w) \<Rightarrow> (json_get response (lit ''ok'') = JBool True, w))"

definition message_envelope :: "peer_message \<Rightarrow> pystr \<Rightarrow> (pystr \<times> json) list" where
  "message_envelope m sender_project =
     [(lit ''v'', JInt messaging_protocol_version), (lit ''kind'', JStr (lit ''message'')),
      (lit ''sender_id'', JStr (pm_sender m)), (lit ''sender_title'', JStr (pm_title m)),
      (lit ''sender_project'', JStr sender_project), (lit ''text'', JStr (pm_text m)),
      (lit ''reply_to'', opt_str (pm_reply_to m))]"

definition deliver_to_discovered_peer ::
  "wire_env \<Rightarrow> 'w transport \<Rightarrow> agent_summary \<Rightarrow> peer_message \<Rightarrow> pystr \<Rightarrow> ('w, peer_exc, pystr \<times> pystr) op" where
  "deliver_to_discovered_peer we tr summary m sender_project =
     (case as_socket summary of
        None \<Rightarrow> ofail (PeerMessageError (lit ''Session '' @ [39] @ as_title summary @ [39] @ lit '' is only reachable in-process.''))
      | Some path \<Rightarrow>
          obind (send_over_socket we tr path (message_envelope m sender_project)) (\<lambda>response.
          if \<not> truthy (json_get response (lit ''ok''))
          then ofail (PeerMessageError (lit ''Peer '' @ [39] @ as_title summary @ [39] @ lit '' rejected the message: '' @
                 str_or (we_repr we) (json_get response (lit ''error'')) (lit ''delivery failed'')))
          else oret (str_or (we_repr we) (json_get response (lit ''message_id'')) [],
                     str_or (we_repr we) (json_get response (lit ''outcome'')) (outcome_value ACCEPTED))))"

section \<open>The server of a session\<close>

datatype read_result = ReadLine "nat list" | ReadTimeout | ReadFailed pystr

definition failure_response :: "pystr \<Rightarrow> (pystr \<times> json) list" where
  "failure_response text = [(lit ''ok'', JBool False), (lit ''error'', JStr text)]"

text \<open>The fields of a normalised message envelope; its values are strings.\<close>

definition str_field :: "(pystr \<times> json) list \<Rightarrow> string \<Rightarrow> pystr" where
  "str_field d k = (case json_get d (lit k) of JStr s \<Rightarrow> s | _ \<Rightarrow> [])"

definition envelope_message :: "pystr \<Rightarrow> pystr \<Rightarrow> (pystr \<times> json) list \<Rightarrow> peer_message" where
  "envelope_message uuid now d =
     create_message uuid now (str_field d ''sender_id'') (str_field d ''sender_title'') (str_field d ''text'')
       (case json_get d (lit ''reply_to'') of JStr r \<Rightarrow> Some r | _ \<Rightarrow> None)"

fun exc_text :: "peer_exc \<Rightarrow> pystr" where
  "exc_text (PeerMessageError s) = s"
| "exc_text (OtherError s) = s"

definition handle_request ::
  "wire_env \<Rightarrow> ('w \<Rightarrow> pystr) \<Rightarrow> (peer_message \<Rightarrow> ('w, peer_exc, pystr) op) \<Rightarrow> pystr \<Rightarrow> pystr \<Rightarrow> read_result \<Rightarrow> 'w \<Rightarrow>
     (pystr \<times> json) list \<times> 'w" where
  "handle_request we status hook uuid now request w =
     (case request of
        ReadTimeout \<Rightarrow> (failure_response (lit ''Timed out reading the request.''), w)
      | ReadFailed exc \<Rightarrow> (failure_response (lit ''Delivery failed: '' @ exc), w)
      | ReadLine line \<Rightarrow>
          (case parse_envelope we (WireBytes line) of
             Inl (PeerMessageError text) \<Rightarrow> (failure_response text, w)
           | Inl (OtherError text) \<Rightarrow> (failure_response (lit ''Delivery failed: '' @ text), w)
           | Inr envelope \<Rightarrow>
               if json_get envelope (lit ''kind'') = JStr (lit ''status'')
               then ([(lit ''ok'', JBool True), (lit ''status'', JStr (status w))], w)
               else (let m = envelope_message uuid now envelope
                     in case hook m w of
                          (Inl exc, w) \<Rightarrow> (failure_response (lit ''Delivery failed: '' @ exc_text exc), w)
                        | (Inr outcome, w) \<Rightarrow>
                            ([(lit ''ok'', JBool True), (lit ''message_id'', JStr (pm_id m)), (lit ''outcome'', JStr outcome)], w))))"

text \<open>The line that leaves the connection, empty when the response cannot be encoded.\<close>

definition handle_connection ::
  "wire_env \<Rightarrow> ('w \<Rightarrow> pystr) \<Rightarrow> (peer_message \<Rightarrow> ('w, peer_exc, pystr) op) \<Rightarrow> pystr \<Rightarrow> pystr \<Rightarrow> read_result \<Rightarrow> 'w \<Rightarrow>
     nat list \<times> 'w" where
  "handle_connection we status hook uuid now request w =
     (case handle_request we status hook uuid now request w of
        (response, w) \<Rightarrow> (case encode_envelope we response of Inl _ \<Rightarrow> [] | Inr line \<Rightarrow> line, w))"

definition af_unix_path_limit :: nat where
  "af_unix_path_limit = 104"

text \<open>
  \<open>start\<close> over the directory's entries and the world behind the sockets: the entries after binding, with the socket's path.
\<close>

definition start_server ::
  "host \<Rightarrow> wire_env \<Rightarrow> 'w transport \<Rightarrow> pystr \<Rightarrow> directory \<times> 'w \<Rightarrow> (peer_exc + pystr) \<times> directory \<times> 'w" where
  "start_server ho we tr name st =
     (case st of (dir, w) \<Rightarrow>
      let path = ho_dir ho @ name
      in if length path \<ge> af_unix_path_limit
         then (Inl (PeerMessageError (lit ''Socket path exceeds the '' @ show_nat af_unix_path_limit @ lit ''-byte AF_UNIX limit: '' @ path @
                lit ''. Set KOLEGA_CODE_STATE_DIR to a shorter path.'')), dir, w)
         else (let (owned, w') =
                     (if name \<in> set dir
                      then (case parse_socket_name (ho_dec ho) name of
                              Some (_, pid) \<Rightarrow>
                                if is_pid_alive (ho_kill ho) pid
                                then (case socket_endpoint_is_live we tr path w of (live, w) \<Rightarrow> (if live then Some pid else None, w))
                                else (None, w)
                            | None \<Rightarrow> (None, w))
                      else (None, w))
               in case owned of
                    Some pid \<Rightarrow>
                      (Inl (PeerMessageError (lit ''Another live process (pid '' @ show_nat pid @ lit '') already owns socket '' @ name @
                         lit ''; refusing to bind.'')), dir, w')
                  | None \<Rightarrow>
                      (let dir = (if name \<in> set dir \<and> \<not> ho_unlink_fails ho name then filter (\<lambda>e. e \<noteq> name) dir else dir)
                       in case ho_bind_error ho name of
                            Some e \<Rightarrow> (Inl e, dir, w')
                          | None \<Rightarrow> (Inr path, if name \<in> set dir then dir else dir @ [name], w'))))"

definition stop_server :: "host \<Rightarrow> pystr \<Rightarrow> directory \<Rightarrow> directory" where
  "stop_server ho name dir = (if ho_unlink_fails ho name then dir else filter (\<lambda>e. e \<noteq> name) dir)"

text \<open>The name of the server's socket, then binding; a failure is reported, at most 200 characters of it, and gives no server.\<close>

definition bind_session_socket ::
  "host \<Rightarrow> wire_env \<Rightarrow> 'w transport \<Rightarrow> pystr \<Rightarrow> nat \<Rightarrow> directory \<times> 'w \<Rightarrow> (pystr option \<times> pystr list) \<times> directory \<times> 'w" where
  "bind_session_socket ho we tr session_id pid st =
     (case socket_name session_id pid of
        Inl e \<Rightarrow> ((None, [take 200 (exc_text e)]), st)
      | Inr name \<Rightarrow>
          (case start_server ho we tr name st of
             (Inl e, st) \<Rightarrow> ((None, [take 200 (exc_text e)]), st)
           | (Inr path, st) \<Rightarrow> ((Some path, []), st)))"

section \<open>Discovery\<close>

definition probe_status :: "wire_env \<Rightarrow> 'w transport \<Rightarrow> pystr \<Rightarrow> 'w \<Rightarrow> pystr \<times> 'w" where
  "probe_status we tr path w =
     (case send_over_socket we tr path status_request w of
        (Inl _, w) \<Rightarrow> (lit ''unreachable'', w)
      | (Inr response, w) \<Rightarrow>
          (case json_get response (lit ''status'') of
             JStr s \<Rightarrow> if truthy (json_get response (lit ''ok'')) then s else lit ''unreachable''
           | _ \<Rightarrow> lit ''unreachable'', w))"

definition probe ::
  "host \<Rightarrow> wire_env \<Rightarrow> 'w transport \<Rightarrow> (pystr \<Rightarrow> pystr option) option \<Rightarrow> pystr \<times> pystr \<Rightarrow> 'w \<Rightarrow> agent_summary \<times> 'w" where
  "probe ho we tr title_lookup target w =
     (case target of (entry, session_id) \<Rightarrow>
      let title = (case title_lookup of None \<Rightarrow> None | Some f \<Rightarrow> f session_id);
          path = ho_dir ho @ entry
      in case probe_status we tr path w of
           (status, w) \<Rightarrow>
             (\<lparr>as_session = session_id,
               as_title = (case title of Some (c # cs) \<Rightarrow> c # cs | _ \<Rightarrow> take 8 session_id),
               as_project = [], as_status = status, as_source = lit ''socket'', as_socket = Some path\<rparr>, w))"

fun probe_all ::
  "host \<Rightarrow> wire_env \<Rightarrow> 'w transport \<Rightarrow> (pystr \<Rightarrow> pystr option) option \<Rightarrow> (pystr \<times> pystr) list \<Rightarrow> 'w \<Rightarrow> agent_summary list \<times> 'w" where
  "probe_all ho we tr lookup [] w = ([], w)"
| "probe_all ho we tr lookup (t # ts) w =
     (case probe ho we tr lookup t w of (s, w) \<Rightarrow>
      case probe_all ho we tr lookup ts w of (ss, w) \<Rightarrow> (s # ss, w))"

definition set_summary :: "agent_summary \<Rightarrow> (pystr \<times> agent_summary) list \<Rightarrow> (pystr \<times> agent_summary) list" where
  "set_summary s peers = dict_set (as_session s) s peers"

definition probe_targets ::
  "host \<Rightarrow> pystr option \<Rightarrow> (pystr \<times> agent_summary) list \<Rightarrow> directory \<Rightarrow> (pystr \<times> pystr) list" where
  "probe_targets ho exclude peers dir =
     concat (map (\<lambda>entry. case parse_socket_name (ho_dec ho) entry of
                    Some (sid, _) \<Rightarrow> if visible_to exclude sid \<and> map_of peers sid = None then [(entry, sid)] else []
                  | None \<Rightarrow> [])
               (if ho_listable ho then sort dir else []))"

definition discover_peers ::
  "(pystr \<Rightarrow> pystr) \<Rightarrow> host \<Rightarrow> wire_env \<Rightarrow> 'w transport \<Rightarrow> 'v registry \<Rightarrow> pystr option \<Rightarrow> (pystr \<Rightarrow> pystr option) option \<Rightarrow>
     directory \<times> 'w \<Rightarrow> agent_summary list \<times> directory \<times> 'w" where
  "discover_peers casefold ho we tr registry exclude title_lookup st =
     (case st of (dir, w) \<Rightarrow>
      let dir = snd (sweep_stale_sockets ho dir);
          peers = fold set_summary (list_agents casefold registry exclude) []
      in case probe_all ho we tr title_lookup (probe_targets ho exclude peers dir) w of
           (summaries, w) \<Rightarrow>
             (sort_key (summary_key casefold) (map snd (fold set_summary summaries peers)), dir, w))"

end
