(* ===== verification/Peer_Laws.thy ===== *)
theory Peer_Laws
  imports Peer_Transport
begin

text \<open>
  Laws of the transport between processes: socket names and envelopes are read back, a delivery over a served socket is a
  local delivery, sweeping and binding touch only what they may, discovery reports each peer once; and the
  two limits of the wire that valid messages meet.
\<close>

section \<open>Names of sockets are read back\<close>

lemma distinct_lit: "distinct (lit s) \<longleftrightarrow> distinct s"
  by (simp add: lit_def distinct_map inj_on_def)

lemma b64_alphabet_size: "distinct b64_alphabet" "length b64_alphabet = 64"
  by (simp_all add: b64_alphabet_def distinct_lit)

lemma b64_value_char: "n < 64 \<Longrightarrow> b64_value (b64_char n) = Some n"
  unfolding b64_value_def b64_char_def find_Some_iff
  by (rule exI[of _ n]) (simp add: nth_eq_iff_index_eq[OF b64_alphabet_size(1)] b64_alphabet_size(2))

lemma b64_value_pad [simp]: "b64_value 61 = None"
  by code_simp

lemma b64_char_in: "n < 64 \<Longrightarrow> b64_char n \<in> set b64_alphabet"
  by (simp add: b64_char_def b64_alphabet_size(2))

lemma b64_alphabet_props: "61 \<notin> set b64_alphabet" "46 \<notin> set b64_alphabet"
  by code_simp+

lemma b64_decode_encode: "list_all (\<lambda>b. b < 256) bs \<Longrightarrow> b64_decode (b64_encode bs) = Some bs"
proof (induction bs rule: b64_encode.induct)
  case (1 a b c r)
  then have lt: "a div 4 < 64" "a mod 4 * 16 + b div 16 < 64" "b mod 16 * 4 + c div 64 < 64" "c mod 64 < 64" by auto
  have "c div 64 < 4" "b div 16 < 16" using 1 by auto
  then show ?case using 1 lt by (simp add: b64_value_char)
next
  case (2 a b)
  then have lt: "a div 4 < 64" "a mod 4 * 16 + b div 16 < 64" "b mod 16 * 4 < 64" "b div 16 < 16" by auto
  then show ?case by (simp add: b64_value_char)
next
  case (3 a)
  then have lt: "a div 4 < 64" "a mod 4 * 16 < 64" by auto
  then show ?case by (simp add: b64_value_char)
qed simp

text \<open>Sixteen bytes are encoded as 22 characters of the alphabet and two of padding.\<close>

lemma b64_encode_shape:
  "list_all (\<lambda>b. b < 256) bs \<Longrightarrow> length bs mod 3 = 1 \<Longrightarrow>
     \<exists>s. b64_encode bs = s @ [61, 61] \<and> list_all (\<lambda>c. c \<in> set b64_alphabet) s \<and> length s = length bs div 3 * 4 + 2"
proof (induction bs rule: b64_encode.induct)
  case (1 a b c r)
  then obtain s where s: "b64_encode r = s @ [61, 61]" "list_all (\<lambda>c. c \<in> set b64_alphabet) s" "length s = length r div 3 * 4 + 2"
    by (auto simp: mod_Suc split: if_splits)
  have lt: "a div 4 < 64" "a mod 4 * 16 + b div 16 < 64" "b mod 16 * 4 + c div 64 < 64" "c mod 64 < 64" using 1(2) by auto
  have "(3 + n) div 3 = Suc (n div 3)" for n :: nat by simp
  then show ?case
    using s b64_char_in[OF lt(1)] b64_char_in[OF lt(2)] b64_char_in[OF lt(3)] b64_char_in[OF lt(4)]
    by (intro exI[of _ "b64_char (a div 4) # b64_char (a mod 4 * 16 + b div 16) # b64_char (b mod 16 * 4 + c div 64) # b64_char (c mod 64) # s"])
      simp
next
  case (3 a)
  then have "a div 4 < 64" "a mod 4 * 16 < 64" by auto
  then show ?case using b64_char_in by simp
qed simp_all

lemma rstrip_padding: "61 \<notin> set s \<Longrightarrow> rstrip_by (\<lambda>c. c = 61) (s @ [61, 61]) = s"
proof -
  assume "61 \<notin> set s"
  then have "dropWhile (\<lambda>c. c = 61) (rev s) = rev s"
    by (cases "rev s") (auto simp: dropWhile_eq_self_iff)
  then show ?thesis by (simp add: rstrip_by_def)
qed

text \<open>Lower-case hexadecimal text stands for its bytes.\<close>

abbreviation hex_lower :: "nat \<Rightarrow> bool" where
  "hex_lower c \<equiv> digit c \<or> (97 \<le> c \<and> c \<le> 102)"

lemma hex_lower_value: "hex_lower c \<Longrightarrow> \<exists>n<16. hex_value c = Some n \<and> hex_char n = c \<and> 48 \<le> c"
  by (auto simp: hex_value_def hex_char_def)

lemma fromhex_to_hex:
  "list_all hex_lower s \<Longrightarrow> length s = 2 * n \<Longrightarrow>
     \<exists>bs. fromhex s = Some bs \<and> to_hex bs = s \<and> list_all (\<lambda>b. b < 256) bs \<and> length bs = n"
proof (induction n arbitrary: s)
  case 0
  then show ?case by (simp add: to_hex_def)
next
  case (Suc n)
  obtain c d r where s: "s = c # d # r" using Suc.prems(2) by (cases s; cases "tl s") auto
  obtain a where a: "a < 16" "hex_value c = Some a" "hex_char a = c" "48 \<le> c"
    using hex_lower_value[of c] Suc.prems(1) s by auto
  obtain b where b: "b < 16" "hex_value d = Some b" "hex_char b = d"
    using hex_lower_value[of d] Suc.prems(1) s by auto
  obtain bs where bs: "fromhex r = Some bs" "to_hex bs = r" "list_all (\<lambda>b. b < 256) bs" "length bs = n"
    using Suc s by auto
  moreover have "fromhex (c # d # r) = Some ((a * 16 + b) # bs)" using a b bs(1) by simp
  ultimately show ?case using a b by (simp add: s to_hex_def)
qed

lemma decode_encode_socket_sid:
  assumes "legacy_sid sid"
  obtains raw where "encode_socket_sid sid = Inr raw" "socket_id raw" "46 \<notin> set raw" "decode_socket_sid raw = Some sid"
proof -
  obtain bs where bs: "fromhex sid = Some bs" "to_hex bs = sid" "list_all (\<lambda>b. b < 256) bs" "length bs = 16"
    using fromhex_to_hex[of sid 16] assms by (auto simp: legacy_sid_def)
  obtain s where s: "b64_encode bs = s @ [61, 61]" "list_all (\<lambda>c. c \<in> set b64_alphabet) s" "length s = 22"
    using b64_encode_shape[OF bs(3)] bs(4) by auto
  have "61 \<notin> set s" "46 \<notin> set s" using s(2) b64_alphabet_props by (auto simp: list_all_iff)
  then have raw: "encode_socket_sid sid = Inr s"
    by (simp add: encode_socket_sid_def bs(1) s(1) rstrip_padding)
  moreover have "b64_decode (s @ [61, 61]) = Some bs" using b64_decode_encode[OF bs(3)] s(1) by simp
  then have "decode_socket_sid s = Some sid" using s(3) by (simp add: decode_socket_sid_def legacy_sid_def bs(2))
  ultimately show ?thesis using that[of s] s \<open>46 \<notin> set s\<close> by (simp add: socket_id_def)
qed

lemma parse_own_socket_name:
  assumes "legacy_sid sid" "ascii_digits dec"
  shows "\<exists>name. socket_name sid pid = Inr name \<and> parse_socket_name dec name = Some (sid, pid)"
proof -
  obtain raw where raw: "encode_socket_sid sid = Inr raw" "socket_id raw" "46 \<notin> set raw" "decode_socket_sid raw = Some sid"
    using decode_encode_socket_sid[OF assms(1)] .
  let ?t = "show_nat pid @ lit ''.sock''"
  have dec: "dec c = Some (c - 48)" if "c \<in> set (show_nat pid)" for c
    using assms(2) show_nat_digits[of pid] that by (force simp: ascii_digits_def)
  have dot: "dec 46 = None" using assms(2) by (simp add: ascii_digits_def)
  have name: "takeWhile (\<lambda>c. c \<noteq> 46) (raw @ 46 # ?t) = raw" "dropWhile (\<lambda>c. c \<noteq> 46) (raw @ 46 # ?t) = 46 # ?t"
    using raw(3) by (auto simp: takeWhile_append dropWhile_append)
  have digits: "takeWhile (\<lambda>c. dec c \<noteq> None) ?t = show_nat pid" "dropWhile (\<lambda>c. dec c \<noteq> None) ?t = lit ''.sock''"
    using dec dot by (auto simp: takeWhile_append dropWhile_append lit_def)
  have "map (\<lambda>c. the (dec c)) (show_nat pid) = map (\<lambda>c. c - 48) (show_nat pid)" using dec by simp
  then have val: "digits_value (map (\<lambda>c. the (dec c)) (show_nat pid)) = pid" by (simp only: digits_value_show_nat)
  have "parse_socket_name dec (raw @ 46 # ?t) = Some (sid, pid)"
    unfolding parse_socket_name_def name list.sel(3) digits Let_def using raw val by simp
  then show ?thesis using raw(1) by (simp add: socket_name_def)
qed

text \<open>
  The name under which a session binds its socket is read back to the session and the process, for every
  session identifier of 32 lower-case hexadecimal digits and every process number.
\<close>

theorem socket_name_roundtrip:
  assumes "legacy_sid sid" "ascii_digits dec"
  shows "\<exists>name. socket_name sid pid = Inr name \<and> parse_socket_name dec name = Some (sid, pid)"
  using assms by (rule parse_own_socket_name)

theorem socket_name_roundtrip_witness:
  "legacy_sid (lit ''0123456789abcdef0123456789abcdef'') \<and> ascii_digits ascii_dec \<and>
   (\<exists>name. socket_name (lit ''0123456789abcdef0123456789abcdef'') 4711 = Inr name \<and>
      parse_socket_name ascii_dec name = Some (lit ''0123456789abcdef0123456789abcdef'', 4711))"
proof -
  have "legacy_sid (lit ''0123456789abcdef0123456789abcdef'')" by code_simp
  moreover have "ascii_digits ascii_dec" by (simp add: ascii_digits_def ascii_dec_def)
  ultimately show ?thesis using socket_name_roundtrip by blast
qed

section \<open>Sweeping\<close>

definition stale :: "host \<Rightarrow> pystr \<Rightarrow> bool" where
  "stale ho entry \<longleftrightarrow>
     (\<exists>sid pid. parse_socket_name (ho_dec ho) entry = Some (sid, pid) \<and> \<not> is_pid_alive (ho_kill ho) pid)"

definition sweepable :: "host \<Rightarrow> pystr \<Rightarrow> bool" where
  "sweepable ho entry \<longleftrightarrow> ho_listable ho \<and> stale ho entry \<and> \<not> ho_unlink_fails ho entry"

lemma sweep_entry_eq:
  "ho_listable ho \<Longrightarrow> sweep_entry ho entry (removed, dir) =
     (if sweepable ho entry then (removed @ [entry], filter (\<lambda>e. e \<noteq> entry) dir) else (removed, dir))"
  by (auto simp: sweep_entry_def sweepable_def stale_def split: option.splits prod.splits)

lemma sweep_fold:
  assumes "ho_listable ho"
  shows "fold (sweep_entry ho) es (removed, dir) =
     (removed @ filter (sweepable ho) es, filter (\<lambda>e. \<not> (e \<in> set es \<and> sweepable ho e)) dir)"
proof (induction es arbitrary: removed dir)
  case (Cons e es)
  have "filter (\<lambda>x. \<not> (x \<in> set es \<and> sweepable ho x)) (filter (\<lambda>x. x \<noteq> e) dir) =
      filter (\<lambda>x. \<not> (x \<in> set (e # es) \<and> sweepable ho x)) dir" if "sweepable ho e"
    using that unfolding filter_filter by (intro filter_cong) auto
  moreover have "filter (\<lambda>x. \<not> (x \<in> set es \<and> sweepable ho x)) dir =
      filter (\<lambda>x. \<not> (x \<in> set (e # es) \<and> sweepable ho x)) dir" if "\<not> sweepable ho e"
    using that by (intro filter_cong) auto
  ultimately show ?case
    by (cases "sweepable ho e") (simp_all only: fold_simps sweep_entry_eq[OF assms] Cons.IH filter.simps if_True if_False append_assoc append_Cons append_Nil not_False_eq_True True_implies_equals simp_thms)
qed simp

text \<open>
  Sweeping removes exactly the entries that are names of sockets of dead processes and can be unlinked; every
  other file of the directory, named by whomever, is left alone.
\<close>

theorem sweep_removes_exactly_stale_sockets:
  "sweep_stale_sockets ho dir = (filter (sweepable ho) dir, filter (\<lambda>e. \<not> sweepable ho e) dir)"
proof (cases "ho_listable ho")
  case True
  have "filter (\<lambda>e. \<not> (e \<in> set dir \<and> sweepable ho e)) dir = filter (\<lambda>e. \<not> sweepable ho e) dir"
    by (rule filter_cong) simp_all
  then show ?thesis using True by (simp only: sweep_stale_sockets_def sweep_fold) simp
next
  case False
  then show ?thesis by (simp add: sweep_stale_sockets_def sweepable_def)
qed

section \<open>Envelopes are read back\<close>

lemma utf8_Cons: "utf8 (c # s) = utf8_char c @ utf8 s"
  by (simp add: utf8_def)

lemma length_utf8_le: "length (utf8 s) \<le> 4 * length s"
proof (induction s)
  case (Cons c s)
  have "length (utf8_char c) \<le> 4" by (simp add: utf8_char_def)
  then show ?case using Cons by (simp add: utf8_Cons)
qed simp

lemma length_escape_le: "length (escape s) \<le> 6 * length s"
proof (induction s)
  case (Cons c s)
  have "length (escape_char c) \<le> 6" by (simp add: escape_char_def)
  then show ?case using Cons by (simp add: escape_def)
qed (simp add: escape_def)

lemma utf8_decode_utf8: "list_all is_scalar s \<Longrightarrow> utf8_decode (utf8 s) = Some s"
  by (simp add: utf8_decode_def utf8_decode_ignore_utf8)

definition envelope_bytes :: "wire_env \<Rightarrow> (pystr \<times> json) list \<Rightarrow> nat list" where
  "envelope_bytes we payload = utf8 (dumps (we_ftext we) (JObj payload))"

lemma encode_envelope_eq:
  assumes "scalar_json (JObj payload)"
  shows "encode_envelope we payload =
    (if length (envelope_bytes we payload) > envelope_max_bytes then Inl envelope_limit_error
     else Inr (envelope_bytes we payload @ [10]))"
  using scalar_dumps[OF assms, of "we_ftext we"]
  by (simp add: encode_envelope_def utf8_encode_def envelope_bytes_def del: dumps.simps)

lemma json_of_line:
  assumes "scalar_json (JObj payload)" "plain (JObj payload)"
  shows "json_of_bytes we (envelope_bytes we payload @ [10]) = Some (JObj payload)"
proof -
  let ?s = "dumps (we_ftext we) (JObj payload)"
  have "envelope_bytes we payload @ [10] = utf8 (?s @ [10])"
    by (simp add: envelope_bytes_def utf8_Cons utf8_char_def del: dumps.simps)
  moreover have "utf8_decode (utf8 (?s @ [10])) = Some (?s @ [10])"
    using scalar_dumps[OF assms(1), of "we_ftext we"] by (intro utf8_decode_utf8) (simp add: scalar_ascii del: dumps.simps)
  ultimately show ?thesis
    using loads_dumps_ws[OF assms(2), of "[10]"] by (simp add: json_of_bytes_def del: dumps.simps)
qed

lemma decode_wire_line:
  assumes "scalar_json (JObj payload)" "plain (JObj payload)" "length (envelope_bytes we payload) < envelope_max_bytes"
  shows "decode_wire we (WireBytes (envelope_bytes we payload @ [10])) = Inr (JObj payload)"
proof -
  obtain bs where "envelope_bytes we payload = 123 # bs"
    by (simp add: envelope_bytes_def utf8_Cons utf8_char_def)
  then have "\<not> blank_bytes (envelope_bytes we payload @ [10])" by (simp add: blank_bytes_def)
  then show ?thesis using assms json_of_line[OF assms(1,2)] by (simp add: decode_wire_def)
qed

section \<open>Delivery over a socket\<close>

text \<open>A socket behind which a server of the session handles each request at once.\<close>

definition served ::
  "wire_env \<Rightarrow> ('w \<Rightarrow> pystr) \<Rightarrow> (peer_message \<Rightarrow> ('w, peer_exc, pystr) op) \<Rightarrow> pystr \<Rightarrow> pystr \<Rightarrow> 'w transport" where
  "served we status hook uuid now =
     \<lparr>tr_connect = (\<lambda>_ _. None),
      tr_exchange = (\<lambda>_ data w. case handle_connection we status hook uuid now (ReadLine data) w of (line, w) \<Rightarrow> (Inr line, w))\<rparr>"

text \<open>What a sender guarantees of a message: fields that can be encoded, a trimmed identifier, a title, valid text.\<close>

definition sendable :: "peer_message \<Rightarrow> pystr \<Rightarrow> bool" where
  "sendable m project \<longleftrightarrow>
     pm_sender m \<noteq> [] \<and> strip (pm_sender m) = pm_sender m \<and> pm_title m \<noteq> [] \<and> pm_reply_to m \<noteq> Some [] \<and>
     (\<exists>t. validate_peer_text (pm_text m) = Inr t) \<and>
     list_all is_scalar (pm_sender m) \<and> list_all is_scalar (pm_title m) \<and> list_all is_scalar (pm_text m) \<and>
     list_all is_scalar project \<and> (\<forall>r. pm_reply_to m = Some r \<longrightarrow> list_all is_scalar r)"

lemma message_envelope_ok:
  assumes "sendable m project"
  shows "scalar_json (JObj (message_envelope m project))" "plain (JObj (message_envelope m project))"
proof -
  have "scalar_json (opt_str (pm_reply_to m))" "plain (opt_str (pm_reply_to m))"
    using assms by (auto simp: sendable_def opt_str_def split: option.splits)
  then show "scalar_json (JObj (message_envelope m project))" "plain (JObj (message_envelope m project))"
    using assms by (simp_all add: message_envelope_def sendable_def)
qed

lemma parse_message_envelope:
  assumes "sendable m project" "length (envelope_bytes we (message_envelope m project)) < envelope_max_bytes"
  shows "\<exists>d. parse_envelope we (WireBytes (envelope_bytes we (message_envelope m project) @ [10])) = Inr d \<and>
    json_get d (lit ''kind'') = JStr (lit ''message'') \<and>
    envelope_message uuid now d = m\<lparr>pm_id := uuid, pm_created := now\<rparr>"
proof -
  have dec: "decode_wire we (WireBytes (envelope_bytes we (message_envelope m project) @ [10])) = Inr (JObj (message_envelope m project))"
    by (rule decode_wire_line[OF message_envelope_ok[OF assms(1)] assms(2)])
  have get: "json_get (message_envelope m project) (lit ''v'') = JInt 1"
    "json_get (message_envelope m project) (lit ''kind'') = JStr (lit ''message'')"
    "json_get (message_envelope m project) (lit ''sender_id'') = JStr (pm_sender m)"
    "json_get (message_envelope m project) (lit ''sender_title'') = JStr (pm_title m)"
    "json_get (message_envelope m project) (lit ''sender_project'') = JStr project"
    "json_get (message_envelope m project) (lit ''text'') = JStr (pm_text m)"
    "json_get (message_envelope m project) (lit ''reply_to'') = opt_str (pm_reply_to m)"
    by (simp_all add: json_get_def message_envelope_def messaging_protocol_version_def)
  obtain t where t: "validate_peer_text (pm_text m) = Inr t" using assms(1) by (auto simp: sendable_def)
  have m: "pm_sender m \<noteq> []" "strip (pm_sender m) = pm_sender m" "pm_title m \<noteq> []" "pm_reply_to m \<noteq> Some []"
    using assms(1) by (simp_all add: sendable_def)
  let ?d = "[(lit ''v'', JInt 1), (lit ''kind'', JStr (lit ''message'')), (lit ''sender_id'', JStr (pm_sender m)),
     (lit ''sender_title'', JStr (pm_title m)), (lit ''sender_project'', JStr project), (lit ''text'', JStr (pm_text m)),
     (lit ''reply_to'', opt_str (pm_reply_to m))]"
  have "(case opt_str (pm_reply_to m) of JStr r \<Rightarrow> if r = [] then JNull else JStr r | _ \<Rightarrow> JNull) = opt_str (pm_reply_to m)"
    using m(4) by (auto simp: opt_str_def split: option.splits)
  then have "message_fields we (message_envelope m project) = Inr ?d"
    unfolding message_fields_def get using m t by (simp add: str_or_def)
  then have "parse_envelope we (WireBytes (envelope_bytes we (message_envelope m project) @ [10])) = Inr ?d"
    unfolding parse_envelope_def dec using get by (simp add: valid_kinds_def messaging_protocol_version_def)
  moreover have "envelope_message uuid now ?d = m\<lparr>pm_id := uuid, pm_created := now\<rparr>"
    by (simp add: envelope_message_def create_message_def str_field_def json_get_def opt_str_def split: option.split)
  moreover have "json_get ?d (lit ''kind'') = JStr (lit ''message'')" by (simp add: json_get_def)
  ultimately show ?thesis by blast
qed

definition success_response :: "pystr \<Rightarrow> delivery_outcome \<Rightarrow> (pystr \<times> json) list" where
  "success_response uuid oc =
     [(lit ''ok'', JBool True), (lit ''message_id'', JStr uuid), (lit ''outcome'', JStr (outcome_value oc))]"

lemma success_response_ok:
  assumes "legacy_sid uuid"
  shows "scalar_json (JObj (success_response uuid oc))" "plain (JObj (success_response uuid oc))"
    "length (envelope_bytes we (success_response uuid oc)) < envelope_max_bytes"
proof -
  have "list_all is_scalar uuid" using assms by (auto simp: legacy_sid_def list_all_iff is_scalar_def)
  then show "scalar_json (JObj (success_response uuid oc))" "plain (JObj (success_response uuid oc))"
    by (cases oc; simp add: success_response_def)+
  have "length (dumps (we_ftext we) (JObj (success_response uuid oc))) \<le> 500"
    using length_escape_le[of uuid] length_escape_le[of "outcome_value oc"] length_escape_le[of "lit ''ok''"]
      length_escape_le[of "lit ''message_id''"] length_escape_le[of "lit ''outcome''"] assms
    by (cases oc) (simp_all add: success_response_def dump_str_def legacy_sid_def)
  then show "length (envelope_bytes we (success_response uuid oc)) < envelope_max_bytes"
    using length_utf8_le[of "dumps (we_ftext we) (JObj (success_response uuid oc))"]
    unfolding envelope_bytes_def envelope_max_bytes_def by linarith
qed

text \<open>
  C12: a message sent to the socket of another session's server is handed to the recipient's hook exactly as an in-process
  delivery hands it over, with a fresh identifier, and the sender is told that identifier and the recipient's own
  outcome, provided the envelope is below the wire limit.
\<close>

theorem socket_delivery_is_local_delivery:
  assumes "sendable m project" "length (envelope_bytes we (message_envelope m project)) < envelope_max_bytes"
    "legacy_sid uuid" "as_socket summary = Some path"
    "hook (m\<lparr>pm_id := uuid, pm_created := now\<rparr>) w = (Inr (outcome_value oc), w')"
  shows "deliver_to_discovered_peer we (served we status hook uuid now) summary m project w = (Inr (uuid, outcome_value oc), w')"
proof -
  let ?p = "message_envelope m project" and ?r = "success_response uuid oc"
  obtain d where d: "parse_envelope we (WireBytes (envelope_bytes we ?p @ [10])) = Inr d"
    "json_get d (lit ''kind'') = JStr (lit ''message'')" "envelope_message uuid now d = m\<lparr>pm_id := uuid, pm_created := now\<rparr>"
    using parse_message_envelope[OF assms(1,2)] by blast
  note p = message_envelope_ok[OF assms(1)] and r = success_response_ok[OF assms(3)]
  have "handle_request we status hook uuid now (ReadLine (envelope_bytes we ?p @ [10])) w = (?r, w')"
    by (simp add: handle_request_def d assms(5) success_response_def)
  then have "handle_connection we status hook uuid now (ReadLine (envelope_bytes we ?p @ [10])) w = (envelope_bytes we ?r @ [10], w')"
    using r(3)[of we oc] by (simp add: handle_connection_def encode_envelope_eq[OF r(1)])
  moreover have "encode_envelope we ?p = Inr (envelope_bytes we ?p @ [10])"
    using assms(2) by (simp add: encode_envelope_eq[OF p(1)])
  moreover have "read_response we path (envelope_bytes we ?r @ [10]) = Inr ?r"
    unfolding read_response_def json_of_line[OF r(1,2)] by (simp add: success_response_def json_get_def)
  ultimately have "send_over_socket we (served we status hook uuid now) path ?p w = (Inr ?r, w')"
    by (simp add: send_over_socket_def served_def)
  moreover have "uuid \<noteq> []" "outcome_value oc \<noteq> []" using assms(3) by (cases oc; auto simp: legacy_sid_def)+
  ultimately show ?thesis
    by (simp add: deliver_to_discovered_peer_def assms(4) obind_def success_response_def json_get_def str_or_def)
qed

definition plain_wire :: wire_env where
  "plain_wire = \<lparr>we_ftext = (\<lambda>_. []), we_fread = (\<lambda>_. JNull), we_repr = (\<lambda>_. []), we_json_error = (\<lambda>_. [])\<rparr>"

text \<open>The hook of a worker: \<open>HeadlessPeerInbox._deliver\<close> at one time.\<close>

definition inbox_hook :: "(pystr \<Rightarrow> int) \<Rightarrow> int \<Rightarrow> peer_message \<Rightarrow> (inbox, peer_exc, pystr) op" where
  "inbox_hook hash now m ib = (case deliver_inbound hash now True True m ib of (oc, ib) \<Rightarrow> (Inr (outcome_value oc), ib))"

definition sample_peer :: agent_summary where
  "sample_peer = \<lparr>as_session = lit ''b1'', as_title = lit ''Docs'', as_project = [], as_status = lit ''idle'',
     as_source = lit ''socket'', as_socket = Some (lit ''/s'')\<rparr>"

definition sample_uuid :: pystr where
  "sample_uuid = lit ''0123456789abcdef0123456789abcdef''"

theorem socket_delivery_is_local_delivery_witness:
  "sendable (sample_message 1) [] \<and>
   deliver_to_discovered_peer plain_wire (served plain_wire describe_status (inbox_hook (\<lambda>_. 0) 0) sample_uuid []) sample_peer
     (sample_message 1) [] new_inbox =
   (Inr (sample_uuid, lit ''accepted''), snd (deliver_inbound (\<lambda>_. 0) 0 True True ((sample_message 1)\<lparr>pm_id := sample_uuid\<rparr>) new_inbox))"
proof -
  let ?m = "(sample_message 1)\<lparr>pm_id := sample_uuid\<rparr>"
  have m: "sendable (sample_message 1) []"
  proof -
    have "strip (lit ''a1'') = lit ''a1''" "validate_peer_text (lit ''hello'') = Inr (lit ''hello'')" by code_simp+
    then show ?thesis by (simp add: sendable_def sample_message_def create_message_def)
  qed
  have "fst (deliver_inbound (\<lambda>_. 0) 0 True True ?m new_inbox) = ACCEPTED"
    by (simp add: deliver_inbound_def admit_def allow_def new_inbox_def record_event_def
        recipient_queue_full_def max_queued_peer_messages_def)
  then have hook: "inbox_hook (\<lambda>_. 0) 0 ((sample_message 1)\<lparr>pm_id := sample_uuid, pm_created := []\<rparr>) new_inbox =
      (Inr (outcome_value ACCEPTED), snd (deliver_inbound (\<lambda>_. 0) 0 True True ?m new_inbox))"
    by (simp add: inbox_hook_def sample_message_def create_message_def case_prod_unfold)
  have fits: "length (envelope_bytes plain_wire (message_envelope (sample_message 1) [])) < envelope_max_bytes" by code_simp
  have uuid: "legacy_sid sample_uuid" by code_simp
  have "as_socket sample_peer = Some (lit ''/s'')" by (simp add: sample_peer_def)
  from socket_delivery_is_local_delivery[where hook = "inbox_hook (\<lambda>_. 0) 0", OF m fits uuid this hook] m
  show ?thesis by simp
qed

section \<open>Limits of the wire\<close>

text \<open>
  An envelope of exactly the wire budget is written, but the reader counts its line feed too and rejects the line.
\<close>

theorem envelope_of_the_limit_is_rejected:
  assumes "scalar_json (JObj payload)" "length (envelope_bytes we payload) = envelope_max_bytes"
  shows "\<exists>line. encode_envelope we payload = Inr line \<and> parse_envelope we (WireBytes line) = Inl envelope_limit_error"
  using assms(2) by (simp add: encode_envelope_eq[OF assms(1)] parse_envelope_def decode_wire_def)

lemma escape_plain: "list_all (\<lambda>c. 32 \<le> c \<and> c \<noteq> 34 \<and> c \<noteq> 92) s \<Longrightarrow> escape s = s"
  by (induction s) (auto simp: escape_def escape_char_def)

lemma utf8_ascii: "list_all (\<lambda>c. c < 128) s \<Longrightarrow> utf8 s = s"
  by (induction s) (simp_all add: utf8_Cons utf8_char_def)

definition long_message :: "nat \<Rightarrow> nat \<Rightarrow> nat \<Rightarrow> peer_message" where
  "long_message n c title = create_message [] [] (lit ''a1'') (replicate title 84) (replicate n c) None"

lemma long_envelope_length:
  assumes "32 \<le> c" "c \<noteq> 34" "c \<noteq> 92"
  shows "length (envelope_bytes plain_wire (message_envelope (long_message n c title) [])) = n * length (utf8_char c) + title + 105"
proof -
  have ascii: "utf8 (lit s) = lit s" if "list_all (\<lambda>c. c < 128) (lit s)" for s using that by (rule utf8_ascii)
  have e: "escape (replicate k x) = replicate k x" if "32 \<le> x" "x \<noteq> 34" "x \<noteq> 92" for k x
    using that by (intro escape_plain) (simp add: list_all_iff)
  have u: "length (utf8 (replicate k x)) = k * length (utf8_char x)" for k x
    by (induction k) (simp_all add: utf8_Cons)
  have l: "escape (lit ''v'') = lit ''v''" "escape (lit ''kind'') = lit ''kind''" "escape (lit ''message'') = lit ''message''"
    "escape (lit ''sender_id'') = lit ''sender_id''" "escape (lit ''sender_title'') = lit ''sender_title''"
    "escape (lit ''sender_project'') = lit ''sender_project''" "escape (lit ''text'') = lit ''text''"
    "escape (lit ''reply_to'') = lit ''reply_to''" "escape (lit ''a1'') = lit ''a1''"
    by code_simp+
  have a: "list_all (\<lambda>c. c < 128) (lit ''v'')" "list_all (\<lambda>c. c < 128) (lit ''kind'')" "list_all (\<lambda>c. c < 128) (lit ''message'')"
    "list_all (\<lambda>c. c < 128) (lit ''sender_id'')" "list_all (\<lambda>c. c < 128) (lit ''sender_title'')"
    "list_all (\<lambda>c. c < 128) (lit ''sender_project'')" "list_all (\<lambda>c. c < 128) (lit ''text'')"
    "list_all (\<lambda>c. c < 128) (lit ''reply_to'')" "list_all (\<lambda>c. c < 128) (lit ''a1'')" "list_all (\<lambda>c. c < 128) (lit ''null'')"
    by (simp_all add: lit_def)
  have "show_int 1 = [49]" by code_simp
  then show ?thesis
    using assms
    by (simp add: envelope_bytes_def message_envelope_def long_message_def create_message_def dump_str_def l e opt_str_def
        utf8_Cons ascii a u messaging_protocol_version_def)
      (simp add: utf8_char_def escape_def)
qed


lemma long_envelope_scalar:
  assumes "is_scalar c"
  shows "scalar_json (JObj (message_envelope (long_message n c title) []))"
proof -
  have "list_all is_scalar (replicate k x)" if "is_scalar x" for k x using that by (simp add: list_all_iff)
  then show ?thesis
    using assms by (simp add: message_envelope_def long_message_def create_message_def opt_str_def scalar_ascii)
qed

theorem envelope_of_the_limit_is_rejected_witness:
  "\<exists>line. encode_envelope plain_wire (message_envelope (long_message 57344 97 8087) []) = Inr line \<and>
     parse_envelope plain_wire (WireBytes line) = Inl envelope_limit_error"
proof (rule envelope_of_the_limit_is_rejected)
  show "scalar_json (JObj (message_envelope (long_message 57344 97 8087) []))"
    by (rule long_envelope_scalar) (simp add: scalar_ascii)
  show "length (envelope_bytes plain_wire (message_envelope (long_message 57344 97 8087) [])) = envelope_max_bytes"
    by (subst long_envelope_length) (simp_all add: utf8_char_def envelope_max_bytes_def)
qed

lemma validate_replicate:
  assumes "n > 0" "n \<le> max_peer_text_bytes" "\<not> is_space c" "32 \<le> c" "c \<noteq> 34" "c \<noteq> 92"
  shows "validate_peer_text (replicate n c) = Inr (replicate n c)"
proof -
  have "dropWhile is_space (replicate n c) = replicate n c" using assms(1,3) by (cases n) simp_all
  then have "strip (replicate n c) = replicate n c" by (simp add: strip_by_def lstrip_by_def rstrip_by_def)
  moreover have "escape (replicate n c) = replicate n c" using assms by (intro escape_plain) (simp add: list_all_iff)
  ultimately show ?thesis using assms(1,2) by (simp add: validate_peer_text_def dump_str_def)
qed

text \<open>
  Text that passes validation need not fit an envelope, because its size is counted in characters and the envelope's in
  bytes: between 21844 and 57344 euro signs are valid text, and their envelope is refused.
\<close>

theorem valid_text_may_not_fit_an_envelope:
  assumes "21844 \<le> n" "n \<le> max_peer_text_bytes"
  shows "validate_peer_text (pm_text (long_message n 8364 title)) = Inr (pm_text (long_message n 8364 title)) \<and>
    encode_envelope plain_wire (message_envelope (long_message n 8364 title) []) = Inl envelope_limit_error"
proof -
  have s: "is_scalar 8364" "\<not> is_space 8364" by (simp_all add: is_scalar_def is_space_def)
  have "length (envelope_bytes plain_wire (message_envelope (long_message n 8364 title) [])) > envelope_max_bytes"
    using assms by (subst long_envelope_length) (simp_all add: utf8_char_def envelope_max_bytes_def)
  moreover have "pm_text (long_message n 8364 title) = replicate n 8364" by (simp add: long_message_def create_message_def)
  ultimately show ?thesis
    using validate_replicate[of n 8364] assms s by (simp add: encode_envelope_eq[OF long_envelope_scalar[OF s(1)]])
qed

theorem valid_text_may_not_fit_an_envelope_witness:
  "21844 \<le> (30000 :: nat) \<and> 30000 \<le> max_peer_text_bytes \<and>
   encode_envelope plain_wire (message_envelope (long_message 30000 8364 5) []) = Inl envelope_limit_error"
  using valid_text_may_not_fit_an_envelope[of 30000 5] by (simp add: max_peer_text_bytes_def)

section \<open>A served socket is not taken over\<close>

lemma status_request_ok:
  "scalar_json (JObj status_request)" "plain (JObj status_request)" "length (envelope_bytes we status_request) < envelope_max_bytes"
proof -
  show "scalar_json (JObj status_request)" "plain (JObj status_request)" by (simp_all add: status_request_def)
  have i: "show_int 1 = [49]" by code_simp
  have "length (dumps (we_ftext we) (JObj status_request)) \<le> 500"
    using length_escape_le[of "lit ''v''"] length_escape_le[of "lit ''kind''"] length_escape_le[of "lit ''status''"]
    by (simp add: status_request_def dump_str_def messaging_protocol_version_def i)
  then show "length (envelope_bytes we status_request) < envelope_max_bytes"
    using length_utf8_le[of "dumps (we_ftext we) (JObj status_request)"]
    unfolding envelope_bytes_def envelope_max_bytes_def by linarith
qed

lemma status_response_ok:
  assumes "st \<in> {lit ''idle'', lit ''busy''}"
  defines "r \<equiv> [(lit ''ok'', JBool True), (lit ''status'', JStr st)]"
  shows "scalar_json (JObj r)" "plain (JObj r)" "length (envelope_bytes we r) < envelope_max_bytes"
proof -
  have st: "list_all is_scalar st" "length st = 4" using assms by auto
  show "scalar_json (JObj r)" "plain (JObj r)" using st by (simp_all add: r_def)
  have "length (dumps (we_ftext we) (JObj r)) \<le> 500"
    using length_escape_le[of st] length_escape_le[of "lit ''ok''"] length_escape_le[of "lit ''status''"] st(2)
    by (simp add: r_def dump_str_def)
  then show "length (envelope_bytes we r) < envelope_max_bytes"
    using length_utf8_le[of "dumps (we_ftext we) (JObj r)"]
    unfolding envelope_bytes_def envelope_max_bytes_def by linarith
qed

lemma served_status:
  assumes "status w \<in> {lit ''idle'', lit ''busy''}"
  shows "send_over_socket we (served we status hook uuid now) path status_request w =
    (Inr [(lit ''ok'', JBool True), (lit ''status'', JStr (status w))], w)"
proof -
  let ?r = "[(lit ''ok'', JBool True), (lit ''status'', JStr (status w))]"
  note q = status_request_ok and r = status_response_ok[OF assms]
  have get: "json_get status_request (lit ''v'') = JInt 1" "json_get status_request (lit ''kind'') = JStr (lit ''status'')"
    by (simp_all add: json_get_def status_request_def messaging_protocol_version_def)
  have "parse_envelope we (WireBytes (envelope_bytes we status_request @ [10])) =
      Inr [(lit ''v'', JInt 1), (lit ''kind'', JStr (lit ''status''))]"
    unfolding parse_envelope_def decode_wire_line[OF q] using get by (simp add: valid_kinds_def messaging_protocol_version_def)
  then have "handle_request we status hook uuid now (ReadLine (envelope_bytes we status_request @ [10])) w = (?r, w)"
    by (simp add: handle_request_def json_get_def)
  then have "handle_connection we status hook uuid now (ReadLine (envelope_bytes we status_request @ [10])) w =
      (envelope_bytes we ?r @ [10], w)"
    using r(3)[of we] by (simp add: handle_connection_def encode_envelope_eq[OF r(1)])
  moreover have "encode_envelope we status_request = Inr (envelope_bytes we status_request @ [10])"
    using q(3)[of we] by (simp add: encode_envelope_eq[OF q(1)])
  moreover have "read_response we path (envelope_bytes we ?r @ [10]) = Inr ?r"
    unfolding read_response_def json_of_line[OF r(1,2)] by (simp add: json_get_def)
  ultimately show ?thesis by (simp add: send_over_socket_def served_def)
qed

text \<open>
  C25: a socket that a live process serves is never taken over: another session that would bind the same name fails with an
  error, and the directory and the served session stay as they are.
\<close>

theorem served_socket_is_not_stolen:
  assumes "name \<in> set dir" "parse_socket_name (ho_dec ho) name = Some (sid, pid)" "is_pid_alive (ho_kill ho) pid"
    "status w \<in> {lit ''idle'', lit ''busy''}"
  shows "\<exists>e. start_server ho we (served we status hook uuid now) name (dir, w) = (Inl e, dir, w)"
proof -
  have "socket_endpoint_is_live we (served we status hook uuid now) path w = (True, w)" for path
    using assms(4) by (simp add: socket_endpoint_is_live_def served_status json_get_def)
  then show ?thesis using assms(1-3) by (simp add: start_server_def Let_def)
qed

definition sample_host :: host where
  "sample_host = \<lparr>ho_dec = ascii_dec, ho_kill = (\<lambda>pid. if pid = 7 then Signalled else ProcessLookupError), ho_unlink_fails = (\<lambda>_. False),
     ho_listable = True, ho_dir = lit ''/m/'', ho_bind_error = (\<lambda>_. None)\<rparr>"

definition sample_socket :: pystr where
  "sample_socket = (case socket_name sample_uuid 7 of Inr name \<Rightarrow> name | Inl _ \<Rightarrow> [])"

theorem served_socket_is_not_stolen_witness:
  "parse_socket_name ascii_dec sample_socket = Some (sample_uuid, 7) \<and>
   (\<exists>e. start_server sample_host plain_wire (served plain_wire describe_status (inbox_hook (\<lambda>_. 0) 0) [] []) sample_socket
      ([sample_socket], new_inbox) = (Inl e, [sample_socket], new_inbox))"
proof -
  have "legacy_sid sample_uuid" by code_simp
  moreover have "ascii_digits ascii_dec" by (simp add: ascii_digits_def ascii_dec_def)
  ultimately have p: "parse_socket_name ascii_dec sample_socket = Some (sample_uuid, 7)"
    using parse_own_socket_name[of sample_uuid ascii_dec 7] by (auto simp: sample_socket_def)
  then have "parse_socket_name (ho_dec sample_host) sample_socket = Some (sample_uuid, 7)" by (simp add: sample_host_def)
  moreover have "is_pid_alive (ho_kill sample_host) 7" by (simp add: is_pid_alive_def sample_host_def)
  moreover have "describe_status new_inbox \<in> {lit ''idle'', lit ''busy''}" by (simp add: describe_status_def new_inbox_def)
  ultimately show ?thesis
    using p served_socket_is_not_stolen[of sample_socket "[sample_socket]" sample_host sample_uuid 7 describe_status new_inbox] by simp
qed

section \<open>Discovery\<close>

definition peers_ok :: "(pystr \<times> agent_summary) list \<Rightarrow> bool" where
  "peers_ok peers \<longleftrightarrow> distinct (map fst peers) \<and> (\<forall>(sid, s) \<in> set peers. as_session s = sid)"

lemma peers_ok_fold: "peers_ok peers \<Longrightarrow> peers_ok (fold set_summary ss peers)"
proof (induction ss arbitrary: peers)
  case (Cons s ss)
  have "peers_ok (set_summary s peers)"
    using Cons.prems dict_set_entries(1)[of "as_session s" s peers]
    unfolding peers_ok_def set_summary_def by (blast intro: distinct_keys_dict_set)
  then show ?case using Cons.IH by simp
qed simp

lemma fold_set_summary_keys: "fst ` set (fold set_summary ss peers) = fst ` set peers \<union> as_session ` set ss"
  by (induction ss arbitrary: peers) (auto simp: set_summary_def dict_set_entries(2))

lemma map_of_fold_set_summary_other:
  "sid \<notin> as_session ` set ss \<Longrightarrow> map_of (fold set_summary ss peers) sid = map_of peers sid"
  by (induction ss arbitrary: peers) (auto simp: set_summary_def)

lemma map_of_fold_set_summary_in:
  "distinct (map as_session ss) \<Longrightarrow> s \<in> set ss \<Longrightarrow> map_of (fold set_summary ss peers) (as_session s) = Some s"
proof (induction ss arbitrary: peers)
  case (Cons x ss)
  show ?case
  proof (cases "s = x")
    case True
    then have "as_session s \<notin> as_session ` set ss" using Cons.prems(1) by simp
    then show ?thesis using True by (simp add: map_of_fold_set_summary_other) (simp add: set_summary_def)
  next
    case False
    then show ?thesis using Cons by simp
  qed
qed simp

lemma probe_all_sessions: "probe_all ho we tr lookup ts w = (ss, w') \<Longrightarrow> map as_session ss = map snd ts"
proof (induction ts arbitrary: w ss)
  case (Cons t ts)
  have "as_session (fst (probe ho we tr lookup t w)) = snd t"
    by (simp add: probe_def Let_def split: prod.split)
  then show ?case using Cons by (auto split: prod.splits)
qed simp

lemma probe_targets_in:
  assumes "(entry, sid) \<in> set (probe_targets ho exclude peers dir)"
  shows "visible_to exclude sid" "map_of peers sid = None" "entry \<in> set dir"
    "\<exists>pid. parse_socket_name (ho_dec ho) entry = Some (sid, pid)"
  using assms unfolding probe_targets_def by (auto split: if_splits option.splits prod.splits) metis

lemma list_agents_sessions:
  assumes "registry_ok registry"
  shows "distinct (map as_session (list_agents casefold registry exclude))"
    "as_session ` set (list_agents casefold registry exclude) = {sid. map_of registry sid \<noteq> None \<and> visible_to exclude sid}"
proof -
  let ?f = "filter (\<lambda>(sid, _). visible_to exclude sid) registry"
  have d: "distinct (map fst registry)" using assms by (simp add: registry_ok_def)
  then have "distinct (map fst ?f)" by (rule distinct_map_filter)
  moreover have "mset (map as_session (list_agents casefold registry exclude)) = mset (map fst ?f)"
    by (simp add: list_agents_def image_mset.compositionality comp_def process_summary_def case_prod_unfold)
  ultimately show "distinct (map as_session (list_agents casefold registry exclude))"
    using mset_eq_imp_distinct_iff by blast
  have "as_session ` set (list_agents casefold registry exclude) = fst ` set ?f"
    by (simp add: list_agents_def image_image process_summary_def case_prod_unfold)
  also have "\<dots> = {sid. map_of registry sid \<noteq> None \<and> visible_to exclude sid}"
    by (auto simp: map_of_eq_None_iff image_iff)
  finally show "as_session ` set (list_agents casefold registry exclude) = {sid. map_of registry sid \<noteq> None \<and> visible_to exclude sid}" .
qed

text \<open>
  Discovery reports every peer once, sorted, never the excluded session; a session registered in this process is
  reported from the registry, whatever sockets exist; every other reported session has a socket file that survived the
  sweep.
\<close>

theorem discovery_reports_each_peer_once:
  assumes "registry_ok registry"
    "discover_peers casefold ho we tr registry exclude lookup (dir, w) = (peers, dir', w')"
  shows "sorted (map (summary_key casefold) peers) \<and> distinct (map as_session peers) \<and>
    (\<forall>sid \<in> as_session ` set peers. visible_to exclude sid) \<and>
    (\<forall>sid reg. map_of registry sid = Some reg \<and> visible_to exclude sid \<longrightarrow> process_summary (sid, reg) \<in> set peers) \<and>
    (\<forall>s \<in> set peers. map_of registry (as_session s) = None \<longrightarrow>
       (\<exists>entry \<in> set dir'. \<exists>pid. parse_socket_name (ho_dec ho) entry = Some (as_session s, pid)))"
proof -
  let ?la = "list_agents casefold registry exclude"
  define local where "local = fold set_summary ?la []"
  define targets where "targets = probe_targets ho exclude local dir'"
  obtain ss where dir': "dir' = snd (sweep_stale_sockets ho dir)"
    and ss: "probe_all ho we tr lookup targets w = (ss, w')"
    and peers: "peers = sort_key (summary_key casefold) (map snd (fold set_summary ss local))"
    using assms(2) by (auto simp: discover_peers_def Let_def local_def targets_def split: prod.splits)
  have ok: "peers_ok (fold set_summary ss local)"
    unfolding local_def by (intro peers_ok_fold) (simp add: peers_ok_def)
  have "map as_session (map snd (fold set_summary ss local)) = map fst (fold set_summary ss local)"
    using ok by (auto simp: peers_ok_def)
  then have dist: "distinct (map as_session (map snd (fold set_summary ss local)))"
    and keys: "as_session ` set peers = fst ` set (fold set_summary ss local)"
    using ok unfolding peers_ok_def peers set_sort by (metis, metis list.set_map)
  have "distinct (map as_session peers)"
    using dist unfolding peers by (metis mset_eq_imp_distinct_iff mset_map mset_sort)
  moreover have lk: "fst ` set local = {sid. map_of registry sid \<noteq> None \<and> visible_to exclude sid}"
    using fold_set_summary_keys[of ?la "[]"] list_agents_sessions(2)[OF assms(1)] by (simp add: local_def)
  have tk: "visible_to exclude sid \<and> sid \<notin> fst ` set local \<and>
      (\<exists>entry \<in> set dir'. \<exists>pid. parse_socket_name (ho_dec ho) entry = Some (sid, pid))" if "sid \<in> as_session ` set ss" for sid
  proof -
    have "sid \<in> snd ` set targets" using that probe_all_sessions[OF ss] by (metis list.set_map)
    then obtain entry where "(entry, sid) \<in> set (probe_targets ho exclude local dir')" by (auto simp: targets_def)
    from probe_targets_in[OF this] show ?thesis by (auto simp: map_of_eq_None_iff)
  qed
  have ks: "as_session ` set peers = fst ` set local \<union> as_session ` set ss"
    using keys fold_set_summary_keys[of ss local] by simp
  have vis: "\<forall>sid \<in> as_session ` set peers. visible_to exclude sid" unfolding ks lk using tk by auto
  have own: "process_summary (sid, reg) \<in> set peers" if "map_of registry sid = Some reg" "visible_to exclude sid" for sid reg
  proof -
    let ?s = "process_summary (sid, reg)"
    have s: "as_session ?s = sid" by (simp add: process_summary_def)
    have "?s \<in> set ?la" using that by (auto simp: list_agents_def dest: map_of_SomeD)
    then have "map_of local sid = Some ?s"
      using map_of_fold_set_summary_in[OF list_agents_sessions(1)[OF assms(1)], of ?s casefold exclude "[]"] s by (simp add: local_def)
    moreover have "sid \<notin> as_session ` set ss" using tk that lk by blast
    ultimately have "map_of (fold set_summary ss local) sid = Some ?s" by (simp add: map_of_fold_set_summary_other)
    then have "(sid, ?s) \<in> set (fold set_summary ss local)" by (rule map_of_SomeD)
    then show ?thesis unfolding peers set_sort by force
  qed
  have other: "\<exists>entry \<in> set dir'. \<exists>pid. parse_socket_name (ho_dec ho) entry = Some (as_session s, pid)"
    if "s \<in> set peers" "map_of registry (as_session s) = None" for s
    using tk[of "as_session s"] ks lk that by blast
  moreover have "sorted (map (summary_key casefold) peers)" unfolding peers by (rule sorted_sort_key)
  ultimately show ?thesis using vis own other by blast
qed


theorem discovery_reports_each_peer_once_witness:
  "registry_ok sample_registry \<and>
   process_summary (lit ''b1'', sample_registration ''b1'' ''Docs'') \<in>
     set (fst (discover_peers ascii_casefold sample_host plain_wire (served plain_wire describe_status (inbox_hook (\<lambda>_. 0) 0) [] [])
       sample_registry (Some (lit ''a1'')) None ([sample_socket], new_inbox)))"
proof -
  let ?d = "discover_peers ascii_casefold sample_host plain_wire (served plain_wire describe_status (inbox_hook (\<lambda>_. 0) 0) [] [])
       sample_registry (Some (lit ''a1'')) None ([sample_socket], new_inbox)"
  have "?d = (fst ?d, fst (snd ?d), snd (snd ?d))" by simp
  note disc = discovery_reports_each_peer_once[OF sample_registry_ok this]
  have "map_of sample_registry (lit ''b1'') = Some (sample_registration ''b1'' ''Docs'')" "visible_to (Some (lit ''a1'')) (lit ''b1'')"
    by (simp_all add: sample_registry_eq visible_to_def)
  with disc sample_registry_ok show ?thesis by blast
qed

end
