(* ===== verification/Conversation.thy ===== *)
theory Conversation
  imports Hashline Usage
begin

text \<open>
  The message history of an agent and the rules that keep it valid for model providers, \<open>kolega_code/agent/conversation.py\<close>
  on the blocks and messages of \<open>kolega_code/llm/models.py\<close>: pairing of tool calls and results, compaction, the cap on tool
  results, cache checkpoints, and the request copy for a provider.

  A block's cache mark is state of the object, not of the value: the marks are modelled apart, over references
  (\<open>checkpoints\<close>), and the blocks here carry none. The arguments of \<open>repaired\<close> are fresh lists at every call of the source, so its
  updates of that list are local. Parameters: the resizing of an image, Markdown of a block, the catalogue's flag for the replay of
  reasoning, the decimal digits of Unicode, and the text of containers.
\<close>

section \<open>Blocks and messages\<close>

datatype input_kind = JsonInput | FreeformInput

datatype content_block =
    TextBlock (block_text: pystr)
  | ImageBlock (image_type: pystr) (media_type: pystr) (image_data: pystr)
  | ThinkingBlock pystr "pystr option" metadata
  | RedactedThinkingBlock pystr
  | ResponsesReasoningBlock "pystr option" "pystr list" "pystr option" "pystr list"
  | WebSearchCallBlock "pystr option" "pystr option" metadata pystr "metadata option"
  | ToolCall (tc_id: pystr) (tc_name: pystr) (tc_input: json) (tc_exec: pystr) (tc_kind: input_kind) (tc_signature: "nat list option")
  | ToolResult (tr_use_id: pystr) (tr_content: result_content) (tr_name: pystr) (tr_error: bool) (tr_exec: "pystr option")
      (tr_kind: input_kind) (tr_error_kind: "pystr option")
and result_content = ResultText pystr | ResultBlocks "content_block list"

datatype message_content = MessageText pystr | MessageBlocks "content_block list"

record message =
  ms_role :: pystr
  ms_content :: message_content
  ms_stop :: "pystr option"
  ms_tool_calls :: "content_block list"
  ms_usage_metadata :: metadata
  ms_usage :: "normalized_usage option"
  ms_observation :: "usage_observation option"

fun is_tool_call :: "content_block \<Rightarrow> bool" where
  "is_tool_call (ToolCall _ _ _ _ _ _) = True"
| "is_tool_call _ = False"

fun is_tool_result :: "content_block \<Rightarrow> bool" where
  "is_tool_result (ToolResult _ _ _ _ _ _ _) = True"
| "is_tool_result _ = False"

fun is_image :: "content_block \<Rightarrow> bool" where
  "is_image (ImageBlock _ _ _) = True"
| "is_image _ = False"

text \<open>Thinking, redacted thinking, Responses reasoning and hosted search calls.\<close>

fun is_reasoning :: "content_block \<Rightarrow> bool" where
  "is_reasoning (ThinkingBlock _ _ _) = True"
| "is_reasoning (RedactedThinkingBlock _) = True"
| "is_reasoning (ResponsesReasoningBlock _ _ _ _) = True"
| "is_reasoning (WebSearchCallBlock _ _ _ _ _) = True"
| "is_reasoning _ = False"

text \<open>The execution and provider identifiers of a call or result.\<close>

fun execution_id :: "content_block \<Rightarrow> pystr option" where
  "execution_id (ToolCall _ _ _ e _ _) = Some e"
| "execution_id (ToolResult _ _ _ _ e _ _) = e"
| "execution_id _ = None"

fun provider_tool_call_id :: "content_block \<Rightarrow> pystr" where
  "provider_tool_call_id (ToolCall i _ _ _ _ _) = i"
| "provider_tool_call_id (ToolResult i _ _ _ _ _ _) = i"
| "provider_tool_call_id _ = []"

definition same_tool_execution :: "content_block \<Rightarrow> content_block \<Rightarrow> bool" where
  "same_tool_execution left right =
     (case (execution_id left, execution_id right) of
        (Some l, Some r) \<Rightarrow> l = r
      | _ \<Rightarrow> provider_tool_call_id left = provider_tool_call_id right)"

text \<open>\<open>Message(role=..., content=...)\<close> and the copies that the source makes of a message.\<close>

definition make_message :: "pystr \<Rightarrow> message_content \<Rightarrow> message" where
  "make_message role content =
     \<lparr>ms_role = role, ms_content = content, ms_stop = None, ms_tool_calls = [], ms_usage_metadata = [], ms_usage = None, ms_observation = None\<rparr>"

definition user_message :: "content_block list \<Rightarrow> message" where
  "user_message blocks = make_message (lit ''user'') (MessageBlocks blocks)"

text \<open>A copy with other content that keeps the stop reason, the calls and the usage metadata.\<close>

definition rebuilt_message :: "message \<Rightarrow> content_block list \<Rightarrow> message" where
  "rebuilt_message m blocks = m\<lparr>ms_content := MessageBlocks blocks, ms_usage := None, ms_observation := None\<rparr>"

definition message_with_content :: "message \<Rightarrow> content_block list \<Rightarrow> message" where
  "message_with_content m blocks =
     m\<lparr>ms_content := MessageBlocks blocks, ms_tool_calls := filter is_tool_call blocks, ms_observation := None\<rparr>"

fun tool_result_with_content :: "content_block \<Rightarrow> result_content \<Rightarrow> content_block" where
  "tool_result_with_content (ToolResult i _ n e x k ek) content = ToolResult i content n e x k ek"
| "tool_result_with_content b content = b"

definition message_blocks :: "message \<Rightarrow> content_block list" where
  "message_blocks m = (case ms_content m of MessageBlocks bs \<Rightarrow> bs | MessageText _ \<Rightarrow> [])"

definition has_blocks :: "message \<Rightarrow> bool" where
  "has_blocks m = (case ms_content m of MessageBlocks _ \<Rightarrow> True | MessageText _ \<Rightarrow> False)"

text \<open>\<open>message.role == "assistant" and isinstance(message.content, list)\<close>, and its tool calls.\<close>

definition calls_of :: "message \<Rightarrow> content_block list" where
  "calls_of m = (if ms_role m = lit ''assistant'' then filter is_tool_call (message_blocks m) else [])"

definition user_blocks :: "message \<Rightarrow> bool" where
  "user_blocks m = (ms_role m = lit ''user'' \<and> has_blocks m)"

section \<open>Validity\<close>

text \<open>The message at every index with calls is followed by a user message with their results.\<close>

fun is_valid_for_anthropic :: "message list \<Rightarrow> bool" where
  "is_valid_for_anthropic [] = True"
| "is_valid_for_anthropic (m # ms) =
     ((calls_of m = [] \<or>
       (case ms of
          [] \<Rightarrow> False
        | next # _ \<Rightarrow>
            user_blocks next \<and>
            tc_id ` set (calls_of m) \<subseteq> tr_use_id ` set (filter is_tool_result (message_blocks next)))) \<and>
      is_valid_for_anthropic ms)"

section \<open>Repair\<close>

text \<open>Results found for the calls of a message, by the index of the call.\<close>

type_synonym found = "(nat \<times> content_block) list"

definition unmatched_call_index :: "content_block list \<Rightarrow> found \<Rightarrow> content_block \<Rightarrow> nat option" where
  "unmatched_call_index calls found block =
     find (\<lambda>i. map_of found i = None \<and> same_tool_execution (calls ! i) block) [0..<length calls]"

text \<open>The blocks of one message: results that a call still needs are taken, the others are left.\<close>

fun take_results :: "content_block list \<Rightarrow> found \<Rightarrow> content_block list \<Rightarrow> found \<times> content_block list" where
  "take_results calls found [] = (found, [])"
| "take_results calls found (b # bs) =
     (case (if is_tool_result b then unmatched_call_index calls found b else None) of
        Some i \<Rightarrow> take_results calls ((i, b) # found) bs
      | None \<Rightarrow> (case take_results calls found bs of (found, rest) \<Rightarrow> (found, b # rest)))"

text \<open>The search of the rest of the conversation: index list, messages, processed indices, results found.\<close>

fun search_results ::
  "content_block list \<Rightarrow> nat list \<Rightarrow> message list \<Rightarrow> nat list \<Rightarrow> found \<Rightarrow> message list \<times> nat list \<times> found" where
  "search_results calls [] ms processed found = (ms, processed, found)"
| "search_results calls (j # js) ms processed found =
     (if j \<in> set processed \<or> \<not> user_blocks (ms ! j) then search_results calls js ms processed found
      else (case take_results calls found (message_blocks (ms ! j)) of
              (found', rest) \<Rightarrow>
                if length found' = length found then search_results calls js ms processed found'
                else if rest \<noteq> [] then search_results calls js (ms[j := rebuilt_message (ms ! j) rest]) processed found'
                else search_results calls js ms (j # processed) found'))"

definition interrupted_text :: pystr where
  "interrupted_text = lit ''Operation was interrupted. Please retry if needed.''"

definition placeholder_result :: "content_block \<Rightarrow> content_block" where
  "placeholder_result call = ToolResult (tc_id call) (ResultText interrupted_text) (tc_name call) True (Some (tc_exec call)) (tc_kind call) None"

definition complete_results :: "content_block list \<Rightarrow> found \<Rightarrow> content_block list" where
  "complete_results calls found =
     map (\<lambda>i. case map_of found i of Some b \<Rightarrow> b | None \<Rightarrow> placeholder_result (calls ! i)) [0..<length calls]"

text \<open>The user message with the complete results; \<open>next\<close> is the user message that followed, if any.\<close>

definition complete_user_message :: "message option \<Rightarrow> content_block list \<Rightarrow> message" where
  "complete_user_message next blocks =
     (case next of
        None \<Rightarrow> user_message blocks
      | Some m \<Rightarrow> (rebuilt_message m blocks)\<lparr>ms_role := lit ''user''\<rparr>)"

definition following_user :: "message list \<Rightarrow> nat \<Rightarrow> message option" where
  "following_user ms i =
     (if i + 1 < length ms \<and> ms_role (ms ! (i + 1)) = lit ''user'' then Some (ms ! (i + 1)) else None)"

text \<open>Results and other blocks of the following user message, in the expected position; a message with blocks is processed by it.\<close>

definition expected_results ::
  "content_block list \<Rightarrow> nat \<Rightarrow> message option \<Rightarrow> nat list \<Rightarrow> found \<times> content_block list \<times> nat list" where
  "expected_results calls i next processed =
     (case next of
        Some m \<Rightarrow>
          if has_blocks m
          then (case take_results calls [] (message_blocks m) of (found, other) \<Rightarrow> (found, other, (i + 1) # processed))
          else ([], [], processed)
      | None \<Rightarrow> ([], [], processed))"

definition missing_results ::
  "content_block list \<Rightarrow> nat \<Rightarrow> message list \<Rightarrow> nat list \<Rightarrow> found \<Rightarrow> message list \<times> nat list \<times> found" where
  "missing_results calls i ms processed found =
     (if length found < length calls then search_results calls [i + 1..<length ms] ms processed found
      else (ms, processed, found))"

text \<open>The loop over the indices of the messages; a processed index is skipped.\<close>

fun repair_loop :: "nat list \<Rightarrow> message list \<Rightarrow> nat list \<Rightarrow> message list" where
  "repair_loop [] ms processed = []"
| "repair_loop (i # is) ms processed =
     (if i \<in> set processed then repair_loop is ms processed
      else if calls_of (ms ! i) = [] then ms ! i # repair_loop is ms processed
      else
        (case expected_results (calls_of (ms ! i)) i (following_user ms i) (i # processed) of
           (expected, other, processed) \<Rightarrow>
             (case missing_results (calls_of (ms ! i)) i ms processed expected of
                (ms', processed, found) \<Rightarrow>
                  ms ! i # complete_user_message (following_user ms i) (complete_results (calls_of (ms ! i)) found @ other) #
                    repair_loop is ms' processed)))"

definition repaired :: "message list \<Rightarrow> message list" where
  "repaired ms = repair_loop [0..<length ms] ms []"

section \<open>The conversation\<close>

record conversation =
  cv_history :: "message list"
  cv_summary :: "message option"
  cv_through :: int
  cv_length :: int
  cv_max_chars :: nat

definition new_conversation :: "message list \<Rightarrow> nat \<Rightarrow> conversation" where
  "new_conversation ms cap = \<lparr>cv_history = ms, cv_summary = None, cv_through = 0, cv_length = 0, cv_max_chars = cap\<rparr>"

text \<open>The public setter of the history, which resets the compaction.\<close>

definition set_history :: "message list \<Rightarrow> conversation \<Rightarrow> conversation" where
  "set_history ms cv = cv\<lparr>cv_history := ms, cv_summary := None, cv_through := 0, cv_length := 0\<rparr>"

definition clear :: "conversation \<Rightarrow> conversation" where
  "clear cv = cv\<lparr>cv_history := [], cv_summary := None, cv_through := 0, cv_length := 0\<rparr>"

definition last_compression_index :: "conversation \<Rightarrow> int option" where
  "last_compression_index cv =
     (if cv_summary cv \<noteq> None \<and> cv_through cv > 0 then Some (cv_through cv - 1) else None)"

definition set_last_compression_index :: "int option \<Rightarrow> conversation \<Rightarrow> conversation" where
  "set_last_compression_index v cv =
     (case v of
        None \<Rightarrow> cv\<lparr>cv_summary := None, cv_through := 0, cv_length := 0\<rparr>
      | Some i \<Rightarrow> cv\<lparr>cv_through := i + 1\<rparr>)"

section \<open>Appending\<close>

text \<open>The results of a message, one for each execution, the last one in the place of the first; and the other blocks.\<close>

fun replace_same :: "content_block \<Rightarrow> content_block list \<Rightarrow> content_block list" where
  "replace_same b [] = [b]"
| "replace_same b (x # xs) = (if same_tool_execution x b then b # xs else x # replace_same b xs)"

definition split_results :: "content_block list \<Rightarrow> content_block list \<times> content_block list" where
  "split_results bs = (fold replace_same (filter is_tool_result bs) [], filter (\<lambda>b. \<not> is_tool_result b) bs)"

text \<open>\<open>"Operation was interrupted" in block.content\<close>: a substring of a text; no element of a list of blocks is a text.\<close>

definition contains_text :: "pystr \<Rightarrow> pystr \<Rightarrow> bool" where
  "contains_text s t = list_ex (\<lambda>n. startswith (drop n s) t) [0..<length s]"

definition is_interrupted :: "content_block \<Rightarrow> bool" where
  "is_interrupted b =
     (tr_error b \<and> (case tr_content b of ResultText s \<Rightarrow> contains_text s (lit ''Operation was interrupted'') | ResultBlocks _ \<Rightarrow> False))"

definition should_replace :: "content_block \<Rightarrow> content_block \<Rightarrow> bool" where
  "should_replace old new = (is_interrupted old \<or> (\<not> tr_error new \<and> tr_error old))"

text \<open>The blocks of a message of the history against the new results: the blocks, whether one was replaced, the results left.\<close>

fun reconcile_blocks :: "content_block list \<Rightarrow> content_block list \<Rightarrow> content_block list \<times> bool \<times> content_block list" where
  "reconcile_blocks new [] = ([], False, new)"
| "reconcile_blocks new (b # bs) =
     (case (if is_tool_result b then find (\<lambda>i. same_tool_execution b (new ! i)) [0..<length new] else None) of
        Some i \<Rightarrow>
          (case reconcile_blocks (take i new @ drop (Suc i) new) bs of
             (bs', replaced, left) \<Rightarrow>
               if should_replace b (new ! i) then (new ! i # bs', True, left) else (b # bs', replaced, left))
      | None \<Rightarrow> (case reconcile_blocks new bs of (bs', replaced, left) \<Rightarrow> (b # bs', replaced, left)))"

fun reconcile_history :: "content_block list \<Rightarrow> message list \<Rightarrow> message list \<times> content_block list" where
  "reconcile_history new [] = ([], new)"
| "reconcile_history new (m # ms) =
     (if user_blocks m
      then (case reconcile_blocks new (message_blocks m) of
              (bs, replaced, left) \<Rightarrow>
                (case reconcile_history left ms of
                   (ms', left) \<Rightarrow> ((if replaced then rebuilt_message m bs else m) # ms', left)))
      else (case reconcile_history new ms of (ms', left) \<Rightarrow> (m # ms', left)))"

definition no_user_content :: content_block where
  "no_user_content = TextBlock (lit ''[User provided no message content]'')"

definition no_assistant_content :: content_block where
  "no_assistant_content = TextBlock (lit ''[Assistant returned no message content]'')"

definition append_user :: "content_block list \<Rightarrow> conversation \<Rightarrow> conversation" where
  "append_user blocks cv =
     (let (new, other) = split_results blocks
      in if new = []
         then cv\<lparr>cv_history := cv_history cv @ [user_message (if blocks = [] then [no_user_content] else blocks)]\<rparr>
         else (case reconcile_history new (cv_history cv) of
                 (ms, left) \<Rightarrow>
                   if left @ other = [] then cv\<lparr>cv_history := ms\<rparr>
                   else cv\<lparr>cv_history := ms @ [user_message (left @ other)]\<rparr>))"

definition append_user_text :: "pystr \<Rightarrow> conversation \<Rightarrow> conversation" where
  "append_user_text s cv = append_user [TextBlock s] cv"

definition append_assistant :: "message \<Rightarrow> conversation \<Rightarrow> conversation" where
  "append_assistant m cv =
     cv\<lparr>cv_history := cv_history cv @
       [if ms_content m = MessageText [] \<or> ms_content m = MessageBlocks []
        then m\<lparr>ms_content := MessageBlocks [no_assistant_content], ms_observation := None\<rparr> else m]\<rparr>"

definition extend_messages :: "message list \<Rightarrow> conversation \<Rightarrow> conversation" where
  "extend_messages ms cv = cv\<lparr>cv_history := repaired (cv_history cv @ ms)\<rparr>"

section \<open>Views\<close>

text \<open>\<open>skill_content_pattern.search\<close>: \<open><skill_content name="[^"]+">\<close> somewhere in the text.\<close>

definition skill_content_at :: "pystr \<Rightarrow> bool" where
  "skill_content_at s =
     (let prefix = lit ''<skill_content name='' @ [34]; rest = drop (length prefix) s
      in startswith s prefix \<and> takeWhile (\<lambda>c. c \<noteq> 34) rest \<noteq> [] \<and>
         startswith (dropWhile (\<lambda>c. c \<noteq> 34) rest) [34, 62])"

definition has_skill_content :: "pystr \<Rightarrow> bool" where
  "has_skill_content s = list_ex (\<lambda>n. skill_content_at (drop n s)) [0..<length s]"

definition is_protected :: "message \<Rightarrow> bool" where
  "is_protected m =
     (ms_role m = lit ''user'' \<and>
      (case ms_content m of
         MessageText s \<Rightarrow> has_skill_content s
       | MessageBlocks bs \<Rightarrow> list_ex (\<lambda>b. case b of TextBlock s \<Rightarrow> has_skill_content s | _ \<Rightarrow> False) bs))"

definition effective_history :: "conversation \<Rightarrow> message list" where
  "effective_history cv =
     (case cv_summary cv of
        Some summary \<Rightarrow>
          if cv_through cv > 0 \<and> cv_history cv \<noteq> []
          then (let cut = min (nat (cv_through cv)) (length (cv_history cv))
                in filter is_protected (take cut (cv_history cv)) @ [summary] @ drop cut (cv_history cv))
          else cv_history cv
      | None \<Rightarrow> cv_history cv)"

definition needs_tool_call_fix :: "conversation \<Rightarrow> bool" where
  "needs_tool_call_fix cv = (cv_history cv \<noteq> [] \<and> calls_of (last (cv_history cv)) \<noteq> [])"

section \<open>Compaction\<close>

definition record_compression :: "message \<Rightarrow> conversation \<Rightarrow> conversation" where
  "record_compression summary cv =
     cv\<lparr>cv_summary := Some summary, cv_through := int (length (cv_history cv)), cv_length := int (length (cv_history cv))\<rparr>"

definition apply_compaction :: "pystr \<Rightarrow> int \<Rightarrow> conversation \<Rightarrow> conversation" where
  "apply_compaction summary_text split_point cv =
     cv\<lparr>cv_summary := Some (user_message [TextBlock summary_text]),
        cv_through := max 0 (min split_point (int (length (cv_history cv)))),
        cv_length := int (length (cv_history cv))\<rparr>"

fun snap_to_safe_boundary :: "message list \<Rightarrow> nat \<Rightarrow> nat" where
  "snap_to_safe_boundary ms 0 = 0"
| "snap_to_safe_boundary ms (Suc i) = (if calls_of (ms ! i) \<noteq> [] then snap_to_safe_boundary ms i else Suc i)"

text \<open>The counts of messages to keep and to summarise at least are not negative in the source.\<close>

definition compaction_split_point :: "nat \<Rightarrow> nat \<Rightarrow> conversation \<Rightarrow> nat option" where
  "compaction_split_point keep_recent min_prefix cv =
     (let n = length (cv_history cv);
          candidate = snap_to_safe_boundary (cv_history cv) (n - keep_recent)
      in if n \<le> min_prefix then None else if candidate < min_prefix then None else Some candidate)"

definition snap_split_point :: "int \<Rightarrow> conversation \<Rightarrow> nat" where
  "snap_split_point idx cv =
     snap_to_safe_boundary (cv_history cv) (nat (max 0 (min idx (int (length (cv_history cv))))))"

text \<open>\<open>get_text_content\<close>: the texts of the blocks that have one, on lines of their own.\<close>

definition text_content :: "message \<Rightarrow> pystr" where
  "text_content m =
     (case ms_content m of
        MessageText s \<Rightarrow> s
      | MessageBlocks bs \<Rightarrow> join_on 10 (concat (map (\<lambda>b. case b of TextBlock s \<Rightarrow> [s] | _ \<Rightarrow> []) bs)))"

text \<open>The saved boundary: \<open>data.get\<close> of its keys, each of which an old session may lack.\<close>

record compaction_data =
  cd_summary :: "pystr option"
  cd_through :: "int option"
  cd_length :: "int option"

definition dump_compaction :: "conversation \<Rightarrow> compaction_data" where
  "dump_compaction cv =
     \<lparr>cd_summary = Some (case cv_summary cv of Some m \<Rightarrow> text_content m | None \<Rightarrow> []),
      cd_through = Some (cv_through cv), cd_length = Some (cv_length cv)\<rparr>"

definition restore_compaction :: "compaction_data option \<Rightarrow> conversation \<Rightarrow> conversation" where
  "restore_compaction data cv =
     (let d = (case data of Some d \<Rightarrow> d | None \<Rightarrow> \<lparr>cd_summary = None, cd_through = None, cd_length = None\<rparr>);
          summary = strip (case cd_summary d of Some s \<Rightarrow> s | None \<Rightarrow> []);
          through = (case cd_through d of Some i \<Rightarrow> i | None \<Rightarrow> 0)
      in if summary \<noteq> [] \<and> through > 0
         then cv\<lparr>cv_summary := Some (user_message [TextBlock summary]),
                 cv_through := min through (int (length (cv_history cv))),
                 cv_length := (case cd_length d of Some i \<Rightarrow> i | None \<Rightarrow> 0)\<rparr>
         else cv\<lparr>cv_summary := None, cv_through := 0, cv_length := 0\<rparr>)"

section \<open>The cap on tool results\<close>

definition omitted_text :: "nat \<Rightarrow> nat \<Rightarrow> pystr \<Rightarrow> pystr" where
  "omitted_text len cap name =
     lit ''[Tool result omitted from history because it was '' @ show_commas len @ lit '' characters, exceeding the '' @
     show_commas cap @ lit '' character safety cap. Re-run `'' @ name @ lit ''` with narrower inputs if the content is still needed.]''"

fun sanitize_block :: "nat \<Rightarrow> content_block \<Rightarrow> content_block \<times> nat" where
  "sanitize_block cap (ToolResult i (ResultText s) n e x k ek) =
     (if length s \<le> cap then (ToolResult i (ResultText s) n e x k ek, 0)
      else (ToolResult i (ResultText (omitted_text (length s) cap n)) n e x k ek, 1))"
| "sanitize_block cap b = (b, 0)"

definition sanitize_message :: "nat \<Rightarrow> message \<Rightarrow> message \<times> nat" where
  "sanitize_message cap m =
     (case ms_content m of
        MessageText _ \<Rightarrow> (m, 0)
      | MessageBlocks bs \<Rightarrow>
          (m\<lparr>ms_content := MessageBlocks (map (fst \<circ> sanitize_block cap) bs)\<rparr>, sum_list (map (snd \<circ> sanitize_block cap) bs)))"

definition sanitize_oversized_tool_results :: "conversation \<Rightarrow> nat \<times> conversation" where
  "sanitize_oversized_tool_results cv =
     (sum_list (map (snd \<circ> sanitize_message (cv_max_chars cv)) (cv_history cv)),
      cv\<lparr>cv_history := map (fst \<circ> sanitize_message (cv_max_chars cv)) (cv_history cv)\<rparr>)"

section \<open>Cache checkpoints\<close>

text \<open>
  The marks of the blocks as a store over references: for every message the references of its blocks (none for a text), the
  references of blocks that may carry a mark, the marked ones, and the block marked by the previous call.
\<close>

record checkpoints =
  ck_history :: "nat list list"
  ck_cacheable :: "nat set"
  ck_marked :: "nat set"
  ck_previous :: "nat option"

definition last_cacheable_block :: "checkpoints \<Rightarrow> nat option" where
  "last_cacheable_block ck = find (\<lambda>r. r \<in> ck_cacheable ck) (concat (map rev (rev (ck_history ck))))"

definition mark_cache_checkpoint :: "checkpoints \<Rightarrow> checkpoints" where
  "mark_cache_checkpoint ck =
     (let latest = last_cacheable_block ck;
          refs = set (concat (ck_history ck));
          previous = (case ck_previous ck of Some r \<Rightarrow> if r \<in> refs then Some r else None | None \<Rightarrow> None)
      in ck\<lparr>ck_marked := (ck_marked ck - refs) \<union> set_option previous \<union> set_option latest,
            ck_previous := (case latest of Some r \<Rightarrow> Some r | None \<Rightarrow> ck_previous ck)\<rparr>)"

end
