(* ===== verification/Conversation_Laws.thy ===== *)
theory Conversation_Laws
  imports Conversation
begin

text \<open>
  The laws of the message history: the repair of tool exchanges answers every call and loses nothing, results of an execution are
  reconciled, a compaction boundary never separates a call from its result, and the cap and the cache marks hold.
\<close>

section \<open>Repair: every call is answered\<close>

definition all_blocks :: "message list \<Rightarrow> content_block list" where
  "all_blocks ms = concat (map message_blocks ms)"

text \<open>A call and a result of the same execution carry the same provider identifier.\<close>

definition ids_agree :: "content_block set \<Rightarrow> bool" where
  "ids_agree S \<longleftrightarrow> (\<forall>c \<in> S. \<forall>r \<in> S. is_tool_call c \<and> is_tool_result r \<and> same_tool_execution c r \<longrightarrow> tr_use_id r = tc_id c)"

definition matched :: "content_block set \<Rightarrow> content_block list \<Rightarrow> found \<Rightarrow> bool" where
  "matched S calls found \<longleftrightarrow>
     distinct (map fst found) \<and>
     (\<forall>(i, b) \<in> set found. i < length calls \<and> is_tool_result b \<and> same_tool_execution (calls ! i) b \<and> b \<in> S)"

lemma unmatched_call_indexD:
  assumes "unmatched_call_index calls found b = Some i"
  shows "i < length calls" "same_tool_execution (calls ! i) b" "i \<notin> fst ` set found"
  using assms by (auto simp: unmatched_call_index_def find_Some_iff map_of_eq_None_iff)

lemma take_results_matched:
  "matched S calls found \<Longrightarrow> set bs \<subseteq> S \<Longrightarrow> take_results calls found bs = (found', rest) \<Longrightarrow>
     matched S calls found' \<and> set rest \<subseteq> set bs \<and> length found \<le> length found' \<and>
     mset bs + mset (map snd found) = mset (map snd found') + mset rest"
proof (induction bs arbitrary: found rest)
  case (Cons b bs)
  let ?u = "if is_tool_result b then unmatched_call_index calls found b else None"
  show ?case
  proof (cases ?u)
    case (Some i)
    then have b: "is_tool_result b" "unmatched_call_index calls found b = Some i" by (auto split: if_splits)
    have "matched S calls ((i, b) # found)"
      using Cons.prems(1,2) unmatched_call_indexD[OF b(2)] b(1) by (auto simp: matched_def)
    from Cons.IH[OF this, of rest] Cons.prems(2,3) Some show ?thesis by auto
  next
    case None
    then obtain rest' where r: "take_results calls found bs = (found', rest')" "rest = b # rest'"
      using Cons.prems(3) by (auto split: prod.splits)
    from Cons.IH[OF Cons.prems(1) _ r(1)] Cons.prems(2) r(2) show ?thesis by auto
  qed
qed simp

lemma blocks_in_all: "i < length ms \<Longrightarrow> set (message_blocks (ms ! i)) \<subseteq> set (all_blocks ms)"
  using nth_mem by (fastforce simp: all_blocks_def)

lemma take_results_extends: "take_results calls found bs = (found', rest) \<Longrightarrow> \<exists>new. found' = new @ found"
proof (induction bs arbitrary: found rest)
  case (Cons b bs)
  then show ?case by (fastforce split: option.splits prod.splits)
qed simp

lemma rebuilt_message_simps [simp]:
  "message_blocks (rebuilt_message m bs) = bs" "ms_role (rebuilt_message m bs) = ms_role m" "has_blocks (rebuilt_message m bs)"
  "message_blocks (rebuilt_message m bs\<lparr>ms_role := r\<rparr>) = bs" "has_blocks (rebuilt_message m bs\<lparr>ms_role := r\<rparr>)"
  by (simp_all add: rebuilt_message_def message_blocks_def has_blocks_def)

lemma all_blocks_update:
  assumes "set bs \<subseteq> set (message_blocks (ms ! j))" "j < length ms"
  shows "set (all_blocks (ms[j := rebuilt_message (ms ! j) bs])) \<subseteq> set (all_blocks ms)"
proof -
  have "set (ms[j := rebuilt_message (ms ! j) bs]) \<subseteq> insert (rebuilt_message (ms ! j) bs) (set ms)"
    by (rule set_update_subset_insert)
  then show ?thesis using assms nth_mem[OF assms(2)] unfolding all_blocks_def by fastforce
qed

text \<open>What a message shows, for the accounting of content: a text counts as one block.\<close>

definition content_of :: "message \<Rightarrow> content_block list" where
  "content_of m = (case ms_content m of MessageText s \<Rightarrow> [TextBlock s] | MessageBlocks bs \<Rightarrow> bs)"

definition live :: "nat list \<Rightarrow> message list \<Rightarrow> nat list \<Rightarrow> content_block multiset" where
  "live is ms processed = mset (concat (map (\<lambda>i. content_of (ms ! i)) (filter (\<lambda>i. i \<notin> set processed) is)))"

lemma live_Cons: "live (i # is) ms P = (if i \<in> set P then {#} else mset (content_of (ms ! i))) + live is ms P"
  by (simp add: live_def)

lemma live_cong:
  "(\<And>i. i \<in> set is \<Longrightarrow> i \<in> set P \<longleftrightarrow> i \<in> set P') \<Longrightarrow> (\<And>i. i \<in> set is \<Longrightarrow> ms ! i = ms' ! i) \<Longrightarrow> live is ms P = live is ms' P'"
  by (induction "is") (auto simp: live_Cons live_def)

lemma content_of_blocks: "has_blocks m \<Longrightarrow> content_of m = message_blocks m"
  by (auto simp: content_of_def has_blocks_def message_blocks_def split: message_content.splits)

lemma account:
  fixes a :: "'a multiset"
  assumes "a + f = g + r" "l + g = l' + f'"
  shows "a + l + f = r + l' + f'"
proof -
  have "a + l + f = (a + f) + l" by (simp add: ac_simps)
  also have "\<dots> = r + (l + g)" unfolding assms(1) by (simp add: ac_simps)
  finally show ?thesis unfolding assms(2) by (simp add: ac_simps)
qed

lemma search_results_ok:
  "matched S calls found \<Longrightarrow> set (all_blocks ms) \<subseteq> S \<Longrightarrow> distinct js \<Longrightarrow> (\<forall>j \<in> set js. j < length ms) \<Longrightarrow>
   search_results calls js ms P found = (ms', P', found') \<Longrightarrow>
     matched S calls found' \<and> set (all_blocks ms') \<subseteq> S \<and> length ms' = length ms \<and>
     (\<forall>i. i \<notin> set js \<longrightarrow> ms' ! i = ms ! i \<and> (i \<in> set P' \<longleftrightarrow> i \<in> set P)) \<and>
     live js ms P + mset (map snd found) = live js ms' P' + mset (map snd found')"
proof (induction js arbitrary: ms P found)
  case Nil
  then show ?case by (simp add: live_def)
next
  case (Cons j js)
  have j: "j < length ms" "j \<notin> set js" "distinct js" "\<forall>j \<in> set js. j < length ms" using Cons.prems(3,4) by auto
  show ?case
  proof (cases "j \<in> set P \<or> \<not> user_blocks (ms ! j)")
    case True
    then have "search_results calls js ms P found = (ms', P', found')" using Cons.prems(5) by simp
    from Cons.IH[OF Cons.prems(1,2) j(3,4) this] j(2) show ?thesis by (auto simp: live_Cons)
  next
    case False
    obtain f2 rest where t: "take_results calls found (message_blocks (ms ! j)) = (f2, rest)" by force
    have tr: "matched S calls f2" "set rest \<subseteq> set (message_blocks (ms ! j))" "length found \<le> length f2"
      "mset (message_blocks (ms ! j)) + mset (map snd found) = mset (map snd f2) + mset rest"
      using take_results_matched[OF Cons.prems(1) _ t] blocks_in_all[OF j(1)] Cons.prems(2) by auto
    have cont: "content_of (ms ! j) = message_blocks (ms ! j)"
      using False by (intro content_of_blocks) (simp add: user_blocks_def)
    consider "length f2 = length found" | "length f2 \<noteq> length found" "rest \<noteq> []" | "length f2 \<noteq> length found" "rest = []" by blast
    then show ?thesis
    proof cases
      case 1
      then have "search_results calls js ms P f2 = (ms', P', found')" using Cons.prems(5) False t by simp
      from Cons.IH[OF tr(1) Cons.prems(2) j(3,4) this] j(2)
      have IH: "matched S calls found'" "set (all_blocks ms') \<subseteq> S" "length ms' = length ms"
        "\<forall>i. i \<notin> set js \<longrightarrow> ms' ! i = ms ! i \<and> (i \<in> set P' \<longleftrightarrow> i \<in> set P)"
        "live js ms P + mset (map snd f2) = live js ms' P' + mset (map snd found')" by auto
      have "mset (map snd found) = mset (map snd f2)"
        using 1 take_results_extends[OF t] by auto
      then show ?thesis using IH j(2) by (auto simp: live_Cons)
    next
      case 2
      let ?ms = "ms[j := rebuilt_message (ms ! j) rest]"
      have "search_results calls js ?ms P f2 = (ms', P', found')" using Cons.prems(5) False t 2 by simp
      moreover have "set (all_blocks ?ms) \<subseteq> S" using all_blocks_update[OF tr(2) j(1)] Cons.prems(2) by blast
      ultimately have IH: "matched S calls found'" "set (all_blocks ms') \<subseteq> S" "length ms' = length ms"
        "\<forall>i. i \<notin> set js \<longrightarrow> ms' ! i = ?ms ! i \<and> (i \<in> set P' \<longleftrightarrow> i \<in> set P)"
        "live js ?ms P + mset (map snd f2) = live js ms' P' + mset (map snd found')"
        using Cons.IH[OF tr(1), of ?ms P] j(3,4) by auto
      have "live js ?ms P = live js ms P" using j(2) by (intro live_cong) (simp, metis nth_list_update_neq)
      moreover have "content_of (?ms ! j) = rest" using j(1) by (simp add: content_of_blocks)
      ultimately show ?thesis using IH j(1,2) False account[OF tr(4), of "live js ms P"] by (simp add: live_Cons cont)
    next
      case 3
      then have "search_results calls js ms (j # P) f2 = (ms', P', found')" using Cons.prems(5) False t by simp
      from Cons.IH[OF tr(1) Cons.prems(2) j(3,4) this] j(2)
      have IH: "matched S calls found'" "set (all_blocks ms') \<subseteq> S" "length ms' = length ms"
        "\<forall>i. i \<notin> set js \<longrightarrow> ms' ! i = ms ! i \<and> (i \<in> set P' \<longleftrightarrow> i \<in> set (j # P))"
        "live js ms (j # P) + mset (map snd f2) = live js ms' P' + mset (map snd found')" by auto
      have "live js ms (j # P) = live js ms P" using j(2) by (intro live_cong) auto
      then show ?thesis using IH j(2) False account[OF tr(4), of "live js ms P"] 3 by (simp add: live_Cons cont)
    qed
  qed
qed

lemma complete_user_message_simps [simp]:
  "message_blocks (complete_user_message next bs) = bs" "user_blocks (complete_user_message next bs)"
  "calls_of (complete_user_message next bs) = []" "content_of (complete_user_message next bs) = bs"
proof -
  show u: "message_blocks (complete_user_message next bs) = bs" "user_blocks (complete_user_message next bs)"
    by (auto simp: complete_user_message_def user_message_def make_message_def message_blocks_def user_blocks_def has_blocks_def
        rebuilt_message_def split: option.split)
  then show "calls_of (complete_user_message next bs) = []" by (simp add: calls_of_def user_blocks_def)
  show "content_of (complete_user_message next bs) = bs" using u by (simp add: content_of_blocks user_blocks_def)
qed

lemma expected_results_ok:
  assumes S: "set (all_blocks ms) \<subseteq> S"
    and exp: "expected_results calls i (following_user ms i) (i # P) = (found, other, P')"
  shows "matched S calls found"
    "live [i + 1..<length ms] ms P \<subseteq># live [i + 1..<length ms] ms P' + mset (map snd found) + mset other"
proof -
  let ?is = "[i + 1..<length ms]"
  have "matched S calls found \<and> live ?is ms P \<subseteq># live ?is ms P' + mset (map snd found) + mset other"
  proof (cases "\<exists>m. following_user ms i = Some m \<and> has_blocks m")
    case True
    then have n: "i + 1 < length ms" "following_user ms i = Some (ms ! (i + 1))" "has_blocks (ms ! (i + 1))"
      by (auto simp: following_user_def split: if_splits)
    then have t: "take_results calls [] (message_blocks (ms ! (i + 1))) = (found, other)" "P' = (i + 1) # i # P"
      using exp by (auto simp: expected_results_def split: prod.splits)
    have "matched S calls []" by (simp add: matched_def)
    then have tr: "matched S calls found" "mset (message_blocks (ms ! (i + 1))) = mset (map snd found) + mset other"
      using take_results_matched[OF _ _ t(1), of S] blocks_in_all[OF n(1)] S by auto
    have is_eq: "?is = (i + 1) # [i + 2..<length ms]" using n(1) by (simp add: upt_conv_Cons)
    have "live [i + 2..<length ms] ms P = live [i + 2..<length ms] ms P'" unfolding t(2) by (rule live_cong) auto
    then have "live ?is ms P \<subseteq># live ?is ms P' + mset (content_of (ms ! (i + 1)))"
      unfolding is_eq live_Cons t(2) by simp
    then show ?thesis using tr content_of_blocks[OF n(3)] by (simp add: add.assoc)
  next
    case False
    then have "found = []" "other = []" "P' = i # P" using exp by (auto simp: expected_results_def split: if_splits option.splits)
    moreover have "live ?is ms P = live ?is ms (i # P)" by (rule live_cong) auto
    ultimately show ?thesis by (simp add: matched_def)
  qed
  then show "matched S calls found" "live ?is ms P \<subseteq># live ?is ms P' + mset (map snd found) + mset other" by simp_all
qed

lemma missing_results_ok:
  assumes "set (all_blocks ms) \<subseteq> S" "matched S calls found" "missing_results calls i ms P found = (ms', P', found')"
  shows "matched S calls found'" "set (all_blocks ms') \<subseteq> S" "length ms' = length ms"
    "live [i + 1..<length ms] ms P + mset (map snd found) = live [i + 1..<length ms] ms' P' + mset (map snd found')"
proof -
  have "matched S calls found' \<and> set (all_blocks ms') \<subseteq> S \<and> length ms' = length ms \<and>
    live [i + 1..<length ms] ms P + mset (map snd found) = live [i + 1..<length ms] ms' P' + mset (map snd found')"
  proof (cases "length found < length calls")
    case True
    then have "search_results calls [i + 1..<length ms] ms P found = (ms', P', found')"
      using assms(3) by (simp add: missing_results_def)
    from search_results_ok[OF assms(2,1) _ _ this] show ?thesis by auto
  next
    case False
    then show ?thesis using assms by (simp add: missing_results_def)
  qed
  then show "matched S calls found'" "set (all_blocks ms') \<subseteq> S" "length ms' = length ms"
    "live [i + 1..<length ms] ms P + mset (map snd found) = live [i + 1..<length ms] ms' P' + mset (map snd found')" by simp_all
qed

text \<open>One round of the loop at a message with calls.\<close>

lemma repair_round:
  assumes "set (all_blocks ms) \<subseteq> S" "i \<notin> set P" "calls_of (ms ! i) \<noteq> []"
  obtains found other ms' P' where
    "repair_loop (i # is) ms P =
       ms ! i # complete_user_message (following_user ms i) (complete_results (calls_of (ms ! i)) found @ other) # repair_loop is ms' P'"
    "matched S (calls_of (ms ! i)) found" "set (all_blocks ms') \<subseteq> S" "length ms' = length ms"
    "live [i + 1..<length ms] ms P \<subseteq># live [i + 1..<length ms] ms' P' + mset (map snd found) + mset other"
proof -
  obtain f1 other P1 where e: "expected_results (calls_of (ms ! i)) i (following_user ms i) (i # P) = (f1, other, P1)"
    by (metis prod_cases3)
  obtain ms' P' found where m: "missing_results (calls_of (ms ! i)) i ms P1 f1 = (ms', P', found)" by (metis prod_cases3)
  note e' = expected_results_ok[OF assms(1) e]
  note m' = missing_results_ok[OF assms(1) e'(1) m]
  have "live [i + 1..<length ms] ms P \<subseteq># live [i + 1..<length ms] ms' P' + mset (map snd found) + mset other"
    using e'(2) unfolding m'(4) .
  then show ?thesis using that[of found other ms' P'] m' assms(2,3) e m by simp
qed

lemma complete_results_answer:
  assumes "matched S calls found" "ids_agree S" "set calls \<subseteq> S" "list_all is_tool_call calls"
  shows "tc_id ` set calls \<subseteq> tr_use_id ` set (filter is_tool_result (complete_results calls found))"
proof
  fix x assume "x \<in> tc_id ` set calls"
  then obtain i where i: "i < length calls" "x = tc_id (calls ! i)" by (auto simp: in_set_conv_nth)
  let ?r = "case map_of found i of Some b \<Rightarrow> b | None \<Rightarrow> placeholder_result (calls ! i)"
  have c: "calls ! i \<in> S" "is_tool_call (calls ! i)" using assms(3,4) i(1) by (auto simp: list_all_length)
  have "is_tool_result ?r \<and> tr_use_id ?r = x"
  proof (cases "map_of found i")
    case None
    then show ?thesis using i(2) by (simp add: placeholder_result_def)
  next
    case (Some b)
    then have "(i, b) \<in> set found" by (rule map_of_SomeD)
    then have "is_tool_result b" "same_tool_execution (calls ! i) b" "b \<in> S" using assms(1) by (auto simp: matched_def)
    then show ?thesis using assms(2) c i(2) Some by (auto simp: ids_agree_def)
  qed
  moreover have "?r \<in> set (complete_results calls found)" using i(1) by (auto simp: complete_results_def)
  ultimately show "x \<in> tr_use_id ` set (filter is_tool_result (complete_results calls found))" by force
qed

lemma complete_results_mset:
  assumes "matched S calls found"
  shows "mset (map snd found) \<subseteq># mset (complete_results calls found)"
proof -
  let ?f = "\<lambda>i. case map_of found i of Some b \<Rightarrow> b | None \<Rightarrow> placeholder_result (calls ! i)"
  have d: "distinct (map fst found)" and lt: "set (map fst found) \<subseteq> set [0..<length calls]"
    using assms by (auto simp: matched_def)
  have "mset (map fst found) \<subseteq># mset [0..<length calls]"
    using d lt by (auto simp: subseteq_mset_def distinct_count_atmost_1)
  then have "image_mset ?f (mset (map fst found)) \<subseteq># image_mset ?f (mset [0..<length calls])"
    by (rule image_mset_subseteq_mono)
  moreover have "map (?f \<circ> fst) found = map snd found" using d by (auto simp: map_of_is_SomeI)
  then have "image_mset ?f (mset (map fst found)) = mset (map snd found)"
    by (metis mset_map map_map)
  ultimately show ?thesis by (simp add: complete_results_def)
qed

lemma calls_of_in: "set (calls_of m) \<subseteq> set (message_blocks m)" "list_all is_tool_call (calls_of m)"
  by (auto simp: calls_of_def list_all_iff)

lemma repair_loop_valid:
  "k \<le> length ms \<Longrightarrow> set (all_blocks ms) \<subseteq> S \<Longrightarrow> ids_agree S \<Longrightarrow> is_valid_for_anthropic (repair_loop [k..<length ms] ms P)"
proof (induction "length ms - k" arbitrary: k ms P)
  case (Suc d)
  then have k: "k < length ms" "[k..<length ms] = k # [k + 1..<length ms]" by (simp_all add: upt_conv_Cons)
  have IH: "is_valid_for_anthropic (repair_loop [k + 1..<length ms] ms' P')"
    if "length ms' = length ms" "set (all_blocks ms') \<subseteq> S" for ms' P'
    using Suc.hyps(1)[of ms' "k + 1" P'] Suc.hyps(2) Suc.prems k(1) that by simp
  show ?case
  proof (cases "k \<in> set P \<or> calls_of (ms ! k) = []")
    case True
    then have "repair_loop (k # [k + 1..<length ms]) ms P = repair_loop [k + 1..<length ms] ms P \<or>
        calls_of (ms ! k) = [] \<and> repair_loop (k # [k + 1..<length ms]) ms P = ms ! k # repair_loop [k + 1..<length ms] ms P"
      by auto
    then show ?thesis using IH[OF refl Suc.prems(2), of P] unfolding k(2)
      by (elim disjE conjE) (simp_all only: is_valid_for_anthropic.simps simp_thms)
  next
    case False
    let ?calls = "calls_of (ms ! k)"
    from repair_round[OF Suc.prems(2), of k P "[k + 1..<length ms]"] False
    obtain found other ms' P' where loop: "repair_loop (k # [k + 1..<length ms]) ms P =
         ms ! k # complete_user_message (following_user ms k) (complete_results ?calls found @ other) # repair_loop [k + 1..<length ms] ms' P'"
      and ok: "matched S ?calls found" "set (all_blocks ms') \<subseteq> S" "length ms' = length ms"
        "live [k + 1..<length ms] ms P \<subseteq># live [k + 1..<length ms] ms' P' + mset (map snd found) + mset other"
      by blast
    have "set ?calls \<subseteq> S" using calls_of_in(1)[of "ms ! k"] blocks_in_all[OF k(1)] Suc.prems(2) by blast
    then have "tc_id ` set ?calls \<subseteq> tr_use_id ` set (filter is_tool_result (complete_results ?calls found))"
      by (rule complete_results_answer[OF ok(1) Suc.prems(3) _ calls_of_in(2)])
    then have "tc_id ` set ?calls \<subseteq> tr_use_id ` set (filter is_tool_result (complete_results ?calls found @ other))"
      unfolding filter_append set_append image_Un by (rule le_supI1)
    then show ?thesis using IH[OF ok(3,2)] unfolding k(2) loop by (simp del: repair_loop.simps)
  qed
qed simp

lemma repair_loop_content:
  "k \<le> length ms \<Longrightarrow> live [k..<length ms] ms P \<subseteq># mset (concat (map content_of (repair_loop [k..<length ms] ms P)))"
proof (induction "length ms - k" arbitrary: k ms P)
  case 0
  then show ?case by (simp add: live_def)
next
  case (Suc d)
  then have k: "k < length ms" "[k..<length ms] = k # [k + 1..<length ms]" by (simp_all add: upt_conv_Cons)
  have IH: "live [k + 1..<length ms] ms' P' \<subseteq># mset (concat (map content_of (repair_loop [k + 1..<length ms] ms' P')))"
    if "length ms' = length ms" for ms' P'
    using Suc.hyps(1)[of ms' "k + 1" P'] Suc.hyps(2) k(1) that by simp
  show ?case
  proof (cases "k \<in> set P \<or> calls_of (ms ! k) = []")
    case True
    then show ?thesis using IH[of ms P] by (auto simp: k(2) live_Cons)
  next
    case False
    let ?calls = "calls_of (ms ! k)" and ?is = "[k + 1..<length ms]"
    from repair_round[OF subset_refl, of k P ms ?is] False
    obtain found other ms' P' where loop: "repair_loop (k # ?is) ms P =
         ms ! k # complete_user_message (following_user ms k) (complete_results ?calls found @ other) # repair_loop ?is ms' P'"
      and ok: "matched (set (all_blocks ms)) ?calls found" "set (all_blocks ms') \<subseteq> set (all_blocks ms)" "length ms' = length ms"
        "live ?is ms P \<subseteq># live ?is ms' P' + mset (map snd found) + mset other"
      by blast
    let ?out = "mset (concat (map content_of (repair_loop ?is ms' P')))"
    have "live ?is ms' P' + mset (map snd found) + mset other \<subseteq># ?out + mset (complete_results ?calls found) + mset other"
      by (intro subset_mset.add_mono IH[OF ok(3)] complete_results_mset[OF ok(1)] subset_mset.order_refl)
    then have "live ?is ms P \<subseteq># ?out + mset (complete_results ?calls found) + mset other"
      using ok(4) by (rule subset_mset.order_trans[rotated])
    then have "mset (content_of (ms ! k)) + live ?is ms P \<subseteq>#
        mset (content_of (ms ! k)) + (mset (complete_results ?calls found) + mset other + ?out)"
      by (simp add: ac_simps)
    then show ?thesis using False unfolding k(2) loop live_Cons by (simp add: add.assoc del: repair_loop.simps)
  qed
qed

text \<open>
  C3: the repaired history is valid: every tool call of an assistant message is answered in the user message that
  follows it, by a result of the history or by a placeholder.
\<close>

theorem repaired_history_is_valid:
  assumes "ids_agree (set (all_blocks ms))"
  shows "is_valid_for_anthropic (repaired ms)"
  using repair_loop_valid[of 0 ms "set (all_blocks ms)" "[]"] assms by (simp add: repaired_def)

text \<open>
  C4: repairing loses nothing: every block of the history is still there, as often as it was, wherever its message went.
\<close>

theorem repair_keeps_all_content:
  "mset (concat (map content_of ms)) \<subseteq># mset (concat (map content_of (repaired ms)))"
proof -
  have "map (\<lambda>i. content_of (ms ! i)) [0..<length ms] = map content_of ms" by (rule nth_equalityI) simp_all
  then have "live [0..<length ms] ms [] = mset (concat (map content_of ms))" by (simp add: live_def)
  then show ?thesis using repair_loop_content[of 0 ms "[]"] by (simp add: repaired_def)
qed

section \<open>Repair is idempotent\<close>

text \<open>An answered exchange: the following user message opens with the results of the calls in their order.\<close>

definition answered :: "content_block list \<Rightarrow> message \<Rightarrow> bool" where
  "answered calls m \<longleftrightarrow>
     user_blocks m \<and> ms_usage m = None \<and> ms_observation m = None \<and>
     length calls \<le> length (message_blocks m) \<and>
     (\<forall>i < length calls. is_tool_result (message_blocks m ! i) \<and> same_tool_execution (calls ! i) (message_blocks m ! i))"

inductive settled :: "message list \<Rightarrow> bool" where
  settled_Nil: "settled []"
| settled_plain: "calls_of m = [] \<Longrightarrow> settled ms \<Longrightarrow> settled (m # ms)"
| settled_exchange: "calls_of m \<noteq> [] \<Longrightarrow> answered (calls_of m) r \<Longrightarrow> settled ms \<Longrightarrow> settled (m # r # ms)"

inductive_cases settled_ConsE: "settled (m # ms)"

text \<open>Results in the order of the calls are taken one by one, each for its own call.\<close>

lemma find_first:
  assumes "i < length calls" "\<forall>j < i. \<not> P j" "P i"
  shows "find P [0..<length calls] = Some i"
proof -
  have "[0..<length calls] ! i = i \<and> (\<forall>j < i. \<not> P ([0..<length calls] ! j))" using assms by simp
  then show ?thesis using assms by (auto simp: find_Some_iff intro!: exI[of _ i])
qed

lemma take_results_in_order:
  assumes "\<forall>i < length calls. is_tool_result (bs ! i) \<and> same_tool_execution (calls ! i) (bs ! i)" "length calls \<le> length bs"
  shows "k \<le> length calls \<Longrightarrow> map_of found = (\<lambda>i. if i < k then Some (bs ! i) else None) \<Longrightarrow>
     \<exists>found'. take_results calls found (drop k bs) = (found', drop (length calls) bs) \<and>
       map_of found' = (\<lambda>i. if i < length calls then Some (bs ! i) else None) \<and>
       length found' = length found + (length calls - k)"
proof (induction "length calls - k" arbitrary: k found)
  case 0
  have "unmatched_call_index calls found b = None" for b
    using 0 by (auto simp: unmatched_call_index_def find_None_iff)
  then have "take_results calls found xs = (found, xs)" for xs by (induction xs) auto
  then show ?case using 0 by auto
next
  case (Suc d)
  then have k: "k < length calls" "drop k bs = bs ! k # drop (Suc k) bs" using assms(2) by (auto simp: Cons_nth_drop_Suc)
  have "unmatched_call_index calls found (bs ! k) = Some k"
    unfolding unmatched_call_index_def using k(1) Suc.prems(2) assms(1) by (intro find_first) auto
  moreover have "map_of ((k, bs ! k) # found) = (\<lambda>i. if i < Suc k then Some (bs ! i) else None)"
    using Suc.prems(2) by (auto simp: fun_eq_iff)
  then have "\<exists>found'. take_results calls ((k, bs ! k) # found) (drop (Suc k) bs) = (found', drop (length calls) bs) \<and>
       map_of found' = (\<lambda>i. if i < length calls then Some (bs ! i) else None) \<and>
       length found' = length ((k, bs ! k) # found) + (length calls - Suc k)"
    using Suc.hyps(1)[of "Suc k" "(k, bs ! k) # found"] Suc.hyps(2) k(1) by simp
  ultimately show ?case unfolding k(2) using assms(1) k(1) by auto
qed

lemma answered_take:
  assumes "answered calls m"
  obtains found where "take_results calls [] (message_blocks m) = (found, drop (length calls) (message_blocks m))"
    "complete_results calls found @ drop (length calls) (message_blocks m) = message_blocks m" "length found = length calls"
proof -
  let ?bs = "message_blocks m"
  obtain found where f: "take_results calls [] ?bs = (found, drop (length calls) ?bs)"
      "map_of found = (\<lambda>i. if i < length calls then Some (?bs ! i) else None)" "length found = length calls"
    using take_results_in_order[of calls ?bs 0 "[]"] assms by (auto simp: answered_def)
  have "complete_results calls found = map (\<lambda>i. ?bs ! i) [0..<length calls]"
    unfolding complete_results_def f(2) by (rule map_cong) auto
  also have "\<dots> = take (length calls) ?bs" using assms by (intro nth_equalityI) (auto simp: answered_def)
  finally show ?thesis using that[OF f(1) _ f(3)] by simp
qed

lemma answered_message:
  assumes "answered calls m"
  shows "complete_user_message (Some m) (message_blocks m) = m"
  using assms by (cases m)
    (auto simp: answered_def complete_user_message_def rebuilt_message_def user_blocks_def has_blocks_def message_blocks_def
      split: message_content.splits)

lemma settled_exchange_step:
  assumes "k + 1 < length ms" "k \<notin> set P" "calls_of (ms ! k) \<noteq> []" "answered (calls_of (ms ! k)) (ms ! (k + 1))"
  shows "repair_loop (k # (k + 1) # js) ms P = ms ! k # ms ! (k + 1) # repair_loop js ms ((k + 1) # k # P)"
proof -
  let ?c = "calls_of (ms ! k)" and ?r = "ms ! (k + 1)"
  obtain found where f: "take_results ?c [] (message_blocks ?r) = (found, drop (length ?c) (message_blocks ?r))"
    "complete_results ?c found @ drop (length ?c) (message_blocks ?r) = message_blocks ?r" "length found = length ?c"
    by (rule answered_take[OF assms(4)])
  have u: "following_user ms k = Some ?r" "has_blocks ?r"
    using assms(1,4) by (auto simp: following_user_def answered_def user_blocks_def)
  have "expected_results ?c k (following_user ms k) (k # P) = (found, drop (length ?c) (message_blocks ?r), (k + 1) # k # P)"
    using u f(1) by (simp add: expected_results_def)
  moreover have "missing_results ?c k ms ((k + 1) # k # P) found = (ms, (k + 1) # k # P, found)"
    using f(3) by (simp add: missing_results_def)
  ultimately show ?thesis using assms(2,3) u(1) f(2) answered_message[OF assms(4)] by simp
qed

lemma settled_loop:
  "settled (drop k ms) \<Longrightarrow> k \<le> length ms \<Longrightarrow> \<forall>i \<in> set P. i < k \<Longrightarrow> repair_loop [k..<length ms] ms P = drop k ms"
proof (induction "length ms - k" arbitrary: k P rule: less_induct)
  case less
  show ?case
  proof (cases "k = length ms")
    case False
    with less.prems have k: "k < length ms" "[k..<length ms] = k # [k + 1..<length ms]" "drop k ms = ms ! k # drop (k + 1) ms" "k \<notin> set P"
      by (auto simp: upt_conv_Cons Cons_nth_drop_Suc)
    have "settled (ms ! k # drop (k + 1) ms)" using less.prems(1) unfolding k(3) .
    then consider "calls_of (ms ! k) = []" "settled (drop (k + 1) ms)"
      | r rest where "calls_of (ms ! k) \<noteq> []" "drop (k + 1) ms = r # rest" "answered (calls_of (ms ! k)) r" "settled rest"
      by (elim settled_ConsE) auto
    then show ?thesis
    proof cases
      case 1
      have "\<forall>i \<in> set P. i < k + 1" using less.prems(3) by auto
      then have "repair_loop [k + 1..<length ms] ms P = drop (k + 1) ms"
        using less.hyps[of "k + 1" P] 1(2) k(1) by simp
      then show ?thesis using 1 k by simp
    next
      case (2 r rest)
      then have "k + 1 < length ms" by (metis drop_all list.distinct(1) not_le)
      then have n: "k + 1 < length ms" "[k + 1..<length ms] = (k + 1) # [k + 2..<length ms]"
        "drop (k + 1) ms = ms ! (k + 1) # drop (k + 2) ms"
        by (simp_all add: upt_conv_Cons Cons_nth_drop_Suc)
      then have "settled (drop (k + 2) ms)" "answered (calls_of (ms ! k)) (ms ! (k + 1))" using 2 by auto
      moreover from this(1) have "repair_loop [k + 2..<length ms] ms ((k + 1) # k # P) = drop (k + 2) ms"
        using less.hyps[of "k + 2" "(k + 1) # k # P"] less.prems(3) n(1) by force
      ultimately show ?thesis
        using settled_exchange_step[OF n(1) k(4) 2(1)] unfolding k(2,3) n(2,3) by simp
    qed
  qed simp
qed

text \<open>The output of the loop is settled.\<close>

lemma complete_results_nth:
  assumes "matched S calls found" "list_all is_tool_call calls" "i < length calls"
  shows "is_tool_result (complete_results calls found ! i)" "same_tool_execution (calls ! i) (complete_results calls found ! i)"
proof -
  let ?r = "complete_results calls found ! i"
  have r: "?r = (case map_of found i of Some b \<Rightarrow> b | None \<Rightarrow> placeholder_result (calls ! i))"
    using assms(3) by (auto simp: complete_results_def split: option.split)
  have "is_tool_result ?r \<and> same_tool_execution (calls ! i) ?r"
  proof (cases "map_of found i")
    case None
    have "is_tool_call (calls ! i)" using assms(2,3) by (simp add: list_all_length)
    then show ?thesis using None r by (cases "calls ! i") (auto simp: placeholder_result_def same_tool_execution_def)
  next
    case (Some b)
    then have "(i, b) \<in> set found" by (rule map_of_SomeD)
    then show ?thesis using assms(1) Some r by (auto simp: matched_def)
  qed
  then show "is_tool_result ?r" "same_tool_execution (calls ! i) ?r" by simp_all
qed

lemma complete_answered:
  assumes "matched S (calls_of m) found"
  shows "answered (calls_of m) (complete_user_message next (complete_results (calls_of m) found @ other))"
proof -
  have "length (complete_results (calls_of m) found) = length (calls_of m)" by (simp add: complete_results_def)
  moreover have "ms_usage (complete_user_message next bs) = None" "ms_observation (complete_user_message next bs) = None" for bs
    by (auto simp: complete_user_message_def user_message_def make_message_def rebuilt_message_def split: option.split)
  ultimately show ?thesis
    using complete_results_nth[OF assms calls_of_in(2)] by (simp add: answered_def nth_append)
qed

lemma repair_loop_settled: "settled (repair_loop is ms P)"
proof (induction "is" arbitrary: ms P)
  case Nil
  then show ?case by (simp add: settled_Nil)
next
  case (Cons i js)
  show ?case
  proof (cases "i \<in> set P \<or> calls_of (ms ! i) = []")
    case True
    then show ?thesis using Cons by (auto intro: settled_plain)
  next
    case False
    then show ?thesis using repair_round[OF subset_refl, of i P ms js] settled_exchange[OF _ complete_answered Cons] by metis
  qed
qed

text \<open>
  C15: repairing is idempotent: a history that was repaired once is left as it is, message by message, by every later
  repair, so the repair of every request does not drift.
\<close>

theorem repair_is_idempotent:
  "repaired (repaired ms) = repaired ms"
  using settled_loop[of 0 "repaired ms" "[]"] repair_loop_settled unfolding repaired_def by simp

section \<open>Compaction\<close>

definition results_of :: "message \<Rightarrow> content_block list" where
  "results_of m = filter is_tool_result (message_blocks m)"

text \<open>No result without its call: the results of a message answer calls of the message just before it.\<close>

fun results_follow_calls :: "content_block list \<Rightarrow> message list \<Rightarrow> bool" where
  "results_follow_calls calls [] \<longleftrightarrow> True"
| "results_follow_calls calls (m # ms) \<longleftrightarrow>
     tr_use_id ` set (results_of m) \<subseteq> tc_id ` set calls \<and> results_follow_calls (calls_of m) ms"

lemma results_follow_calls_append:
  "results_follow_calls calls (xs @ ys) \<longleftrightarrow>
     results_follow_calls calls xs \<and> results_follow_calls (if xs = [] then calls else calls_of (last xs)) ys"
  by (induction xs arbitrary: calls) auto

lemma valid_appendD: "is_valid_for_anthropic (xs @ ys) \<Longrightarrow> is_valid_for_anthropic ys"
  by (induction xs) auto

lemma valid_append_plain:
  "\<forall>m \<in> set xs. calls_of m = [] \<Longrightarrow> is_valid_for_anthropic (xs @ ys) \<longleftrightarrow> is_valid_for_anthropic ys"
  by (induction xs) auto

lemma follow_append_plain:
  "\<forall>m \<in> set xs. results_of m = [] \<and> calls_of m = [] \<Longrightarrow> results_follow_calls [] (xs @ ys) \<longleftrightarrow> results_follow_calls [] ys"
  by (induction xs) auto

lemma snap_le [simp]: "snap_to_safe_boundary ms i \<le> i"
  by (induction i) auto

lemma snap_split_point_le: "snap_split_point idx cv \<le> length (cv_history cv)"
  unfolding snap_split_point_def by (rule order_trans[OF snap_le]) simp

lemma snap_safe: "snap_to_safe_boundary ms i = Suc j \<Longrightarrow> calls_of (ms ! j) = []"
  by (induction i) (auto split: if_splits)

text \<open>The boundary is the last safe one: everything that the snap gives back is a run of messages with calls.\<close>

lemma snap_maximal: "snap_to_safe_boundary ms i \<le> j \<Longrightarrow> j < i \<Longrightarrow> calls_of (ms ! j) \<noteq> []"
  by (induction i) (auto split: if_splits simp: less_Suc_eq)

lemma snap_above_safe:
  "b \<le> i \<Longrightarrow> b = 0 \<or> calls_of (ms ! (b - 1)) = [] \<Longrightarrow> b \<le> snap_to_safe_boundary ms i"
  by (induction i) (auto simp: le_Suc_eq)

lemma summary_plain [simp]:
  "calls_of (user_message bs) = []" "results_of (user_message bs) = filter is_tool_result bs"
  "message_blocks (user_message bs) = bs"
  by (simp_all add: calls_of_def user_message_def make_message_def results_of_def message_blocks_def)

lemma protected_plain: "is_protected m \<Longrightarrow> calls_of m = []"
  by (simp add: is_protected_def calls_of_def)

lemma clamp_nat: "min (nat (max 0 (min p (int n)))) n = min (nat p) n"
  by (cases "0 \<le> p"; cases "p \<le> int n") (simp_all add: nat_le_iff min_def)

lemma effective_after_compaction:
  assumes "effective_history (apply_compaction s p cv) \<noteq> cv_history cv"
  shows "effective_history (apply_compaction s p cv) =
    filter is_protected (take (nat p) (cv_history cv)) @ user_message [TextBlock s] # drop (nat p) (cv_history cv)"
proof -
  let ?h = "cv_history cv"
  let ?cut = "max 0 (min p (int (length ?h)))"
  have f: "cv_summary (apply_compaction s p cv) = Some (user_message [TextBlock s])" "cv_through (apply_compaction s p cv) = ?cut"
      "cv_history (apply_compaction s p cv) = ?h"
    by (simp_all add: apply_compaction_def)
  have eff: "effective_history (apply_compaction s p cv) =
      (if 0 < ?cut \<and> ?h \<noteq> []
       then filter is_protected (take (min (nat ?cut) (length ?h)) ?h) @ [user_message [TextBlock s]] @ drop (min (nat ?cut) (length ?h)) ?h
       else ?h)"
    unfolding effective_history_def by (simp only: f Let_def option.case)
  have cut: "min (nat ?cut) (length ?h) = min (nat p) (length ?h)" by (rule clamp_nat)
  have "take (min (nat p) (length ?h)) ?h = take (nat p) ?h" "drop (min (nat p) (length ?h)) ?h = drop (nat p) ?h"
    by (simp_all add: min_def)
  moreover have "0 < ?cut \<and> ?h \<noteq> []" using assms unfolding eff by (rule contrapos_np) (simp only: if_False)
  ultimately show ?thesis unfolding eff cut by (simp only: simp_thms if_True append.simps)
qed

text \<open>
  C16: compacting at a snapped boundary keeps every tool exchange whole: when the history pairs calls and results and
  no protected skill message carries a result, what is sent after the compaction still answers every call in the next message
  and has no result without its call, wherever the boundary was asked for.
\<close>

theorem compaction_keeps_exchanges_whole:
  assumes valid: "is_valid_for_anthropic (cv_history cv)"
    and follow: "results_follow_calls [] (cv_history cv)"
    and plain: "\<forall>m \<in> set (cv_history cv). is_protected m \<longrightarrow> results_of m = []"
  shows "let sent = effective_history (apply_compaction s (int (snap_split_point idx cv)) cv)
    in is_valid_for_anthropic sent \<and> results_follow_calls [] sent"
proof (cases "effective_history (apply_compaction s (int (snap_split_point idx cv)) cv) = cv_history cv")
  case True
  then show ?thesis using valid follow by simp
next
  case False
  let ?h = "cv_history cv" and ?p = "snap_split_point idx cv"
  let ?pre = "filter is_protected (take ?p ?h) @ [user_message [TextBlock s]]"
  have eff: "effective_history (apply_compaction s (int ?p) cv) = ?pre @ drop ?p ?h"
    using effective_after_compaction[OF False] by simp
  have pre: "\<forall>m \<in> set ?pre. results_of m = [] \<and> calls_of m = []"
    using plain protected_plain by (auto dest: in_set_takeD)
  have "results_follow_calls [] (drop ?p ?h)"
  proof (cases ?p)
    case (Suc j)
    have "?p \<le> length ?h" by (rule snap_split_point_le)
    then have "last (take ?p ?h) = ?h ! j" "take ?p ?h \<noteq> []" using Suc by (auto simp: take_Suc_conv_app_nth)
    moreover have "calls_of (?h ! j) = []" using Suc snap_safe unfolding snap_split_point_def by blast
    ultimately show ?thesis using follow results_follow_calls_append[of "[]" "take ?p ?h" "drop ?p ?h"] by simp
  qed (use follow in simp)
  moreover have "is_valid_for_anthropic (drop ?p ?h)"
    using valid valid_appendD[of "take ?p ?h" "drop ?p ?h"] by simp
  moreover have "\<forall>m \<in> set ?pre. calls_of m = []" by (intro ballI conjunct2[OF bspec[OF pre]])
  ultimately show ?thesis unfolding Let_def eff by (simp only: follow_append_plain[OF pre] valid_append_plain simp_thms)
qed

definition sample_call :: content_block where
  "sample_call = ToolCall (lit ''c1'') (lit ''read'') (JObj []) (lit ''e1'') JsonInput None"

definition sample_result :: content_block where
  "sample_result = ToolResult (lit ''c1'') (ResultText (lit ''ok'')) (lit ''read'') False (Some (lit ''e1'')) JsonInput None"

definition assistant_message :: "content_block list \<Rightarrow> message" where
  "assistant_message bs = make_message (lit ''assistant'') (MessageBlocks bs)"

definition sample_history :: "message list" where
  "sample_history = [user_message [TextBlock (lit ''go'')], assistant_message [sample_call], user_message [sample_result]]"

lemmas sample_simps = sample_history_def new_conversation_def user_message_def assistant_message_def make_message_def
  calls_of_def message_blocks_def sample_call_def sample_result_def user_blocks_def has_blocks_def results_of_def

theorem compaction_keeps_exchanges_whole_witness:
  "snap_split_point 2 (new_conversation sample_history 100) = 1 \<and>
   (let sent = effective_history (apply_compaction (lit ''s'') (int (snap_split_point 2 (new_conversation sample_history 100)))
        (new_conversation sample_history 100))
    in is_valid_for_anthropic sent \<and> results_follow_calls [] sent)"
proof -
  have "snap_split_point 2 (new_conversation sample_history 100) = 1 \<and>
    is_valid_for_anthropic (cv_history (new_conversation sample_history 100)) \<and>
    results_follow_calls [] (cv_history (new_conversation sample_history 100)) \<and>
    (\<forall>m \<in> set (cv_history (new_conversation sample_history 100)). is_protected m \<longrightarrow> results_of m = [])"
    by (simp add: sample_simps snap_split_point_def is_protected_def eval_nat_numeral)
  then show ?thesis
    using compaction_keeps_exchanges_whole[of "new_conversation sample_history 100" "lit ''s''" 2] by blast
qed

text \<open>
  A saved compaction boundary is restored as it was, with the outer white space of the summary stripped.
\<close>

theorem compaction_survives_restore:
  assumes "strip s \<noteq> []" "0 < p" "cv_history cv \<noteq> []"
  shows "restore_compaction (Some (dump_compaction (apply_compaction s p cv))) (set_history (cv_history cv) cv) =
    apply_compaction (strip s) p cv"
proof -
  let ?n = "int (length (cv_history cv))"
  have n: "0 < ?n" using assms(3) by simp
  define cut where "cut = max 0 (min p ?n)"
  have "0 < cut" "min cut ?n = cut" using assms(2) n unfolding cut_def by (simp_all only: less_max_iff_disj min_less_iff_conj simp_thms min_def max_def split: if_split) auto
  moreover have "text_content (user_message [TextBlock s]) = s"
    by (simp add: text_content_def user_message_def make_message_def)
  ultimately show ?thesis using assms(1)
    by (simp add: restore_compaction_def dump_compaction_def apply_compaction_def set_history_def flip: cut_def)
qed

section \<open>Results of an execution\<close>

text \<open>The outcome that a list of blocks records for an execution: its first result.\<close>

definition outcome :: "content_block list \<Rightarrow> pystr \<Rightarrow> content_block option" where
  "outcome bs e = find (\<lambda>b. is_tool_result b \<and> execution_id b = Some e) bs"

definition history_outcome :: "message list \<Rightarrow> pystr \<Rightarrow> content_block option" where
  "history_outcome ms = outcome (concat (map message_blocks (filter user_blocks ms)))"

text \<open>Every result carries the identifier of its execution.\<close>

definition modern :: "content_block list \<Rightarrow> bool" where
  "modern bs \<longleftrightarrow> (\<forall>b \<in> set bs. is_tool_result b \<longrightarrow> execution_id b \<noteq> None)"

text \<open>What a new result does to the recorded outcome of its execution.\<close>

fun merge_outcome :: "content_block option \<Rightarrow> content_block option \<Rightarrow> content_block option" where
  "merge_outcome None new = new"
| "merge_outcome (Some old) None = Some old"
| "merge_outcome (Some old) (Some new) = Some (if should_replace old new then new else old)"

lemma outcome_simps [simp]:
  "outcome [] e = None"
  "outcome (b # bs) e = (if is_tool_result b \<and> execution_id b = Some e then Some b else outcome bs e)"
  by (simp_all add: outcome_def)

lemma outcome_append [simp]: "outcome (xs @ ys) e = (case outcome xs e of Some b \<Rightarrow> Some b | None \<Rightarrow> outcome ys e)"
  by (induction xs) auto

lemma modern_simps [simp]:
  "modern []" "modern (b # bs) \<longleftrightarrow> (is_tool_result b \<longrightarrow> execution_id b \<noteq> None) \<and> modern bs"
  "modern (xs @ ys) \<longleftrightarrow> modern xs \<and> modern ys"
  by (auto simp: modern_def)

lemma outcome_no_results: "\<forall>b \<in> set bs. \<not> is_tool_result b \<Longrightarrow> outcome bs e = None"
  by (induction bs) auto

lemma same_modern:
  "is_tool_result a \<Longrightarrow> is_tool_result b \<Longrightarrow> execution_id a \<noteq> None \<Longrightarrow> execution_id b \<noteq> None \<Longrightarrow>
     same_tool_execution a b \<longleftrightarrow> execution_id a = execution_id b"
  by (auto simp: same_tool_execution_def)

text \<open>Pending results: results only, at most one for an execution.\<close>

definition pending :: "content_block list \<Rightarrow> bool" where
  "pending new \<longleftrightarrow> list_all is_tool_result new \<and> modern new \<and> distinct (map execution_id new)"

lemma replace_same_ids:
  "list_all is_tool_result xs \<Longrightarrow> modern xs \<Longrightarrow> is_tool_result b \<Longrightarrow> execution_id b \<noteq> None \<Longrightarrow>
     map execution_id (replace_same b xs) =
       (if execution_id b \<in> set (map execution_id xs) then map execution_id xs else map execution_id xs @ [execution_id b])"
  by (induction xs) (auto simp: same_modern)

lemma replace_same_pending:
  assumes "pending xs" "is_tool_result b" "execution_id b \<noteq> None"
  shows "pending (replace_same b xs)"
proof -
  have "set (replace_same b xs) \<subseteq> insert b (set xs)" by (induction xs) auto
  then have "list_all is_tool_result (replace_same b xs)" "modern (replace_same b xs)"
    using assms by (auto simp: pending_def list_all_iff modern_def)
  then show ?thesis using assms replace_same_ids[of xs b] by (auto simp: pending_def)
qed

lemma replace_same_outcome:
  "list_all is_tool_result xs \<Longrightarrow> modern xs \<Longrightarrow> is_tool_result b \<Longrightarrow> execution_id b \<noteq> None \<Longrightarrow>
     outcome (replace_same b xs) e = (if execution_id b = Some e then Some b else outcome xs e)"
  by (induction xs) (auto simp: same_modern)

lemma fold_replace_same:
  "list_all is_tool_result rs \<Longrightarrow> modern rs \<Longrightarrow> pending acc \<Longrightarrow>
     pending (fold replace_same rs acc) \<and>
     outcome (fold replace_same rs acc) e = (case outcome (rev rs) e of Some b \<Rightarrow> Some b | None \<Rightarrow> outcome acc e)"
proof (induction rs arbitrary: acc)
  case (Cons r rs)
  then have "pending (replace_same r acc)" by (auto intro: replace_same_pending)
  then show ?case using Cons by (auto simp: replace_same_outcome pending_def split: option.splits)
qed simp

lemma outcome_filter_results: "outcome (rev (filter is_tool_result bs)) e = outcome (rev bs) e"
  by (induction bs) (auto split: option.splits)

lemma pending_delete:
  assumes "pending new" "i < length new"
  shows "pending (take i new @ drop (Suc i) new)"
    "outcome (take i new @ drop (Suc i) new) e = (if execution_id (new ! i) = Some e then None else outcome new e)"
proof -
  have split: "new = take i new @ new ! i # drop (Suc i) new" using assms(2) by (simp add: id_take_nth_drop)
  have p: "pending (take i new @ new ! i # drop (Suc i) new)" using assms(1) split by simp
  then show "pending (take i new @ drop (Suc i) new)" unfolding pending_def by auto
  have none: "outcome xs e = None" if "Some e \<notin> set (map execution_id xs)" for xs
    using that by (induction xs) auto
  have "outcome new e = outcome (take i new @ new ! i # drop (Suc i) new) e" using split by simp
  then show "outcome (take i new @ drop (Suc i) new) e = (if execution_id (new ! i) = Some e then None else outcome new e)"
    using p none[of "take i new"] none[of "drop (Suc i) new"] by (auto simp: pending_def split: option.splits)
qed

lemma pending_nth:
  assumes "pending new" "i < length new" "execution_id (new ! i) = Some e"
  shows "outcome new e = Some (new ! i)"
proof -
  have "\<not> (is_tool_result (new ! j) \<and> execution_id (new ! j) = Some e)" if "j < i" for j
    using assms that nth_eq_iff_index_eq[of "map execution_id new" i j] by (auto simp: pending_def)
  then show ?thesis using assms unfolding outcome_def find_Some_iff by (auto simp: pending_def list_all_length)
qed

text \<open>The search for the new result of a recorded one.\<close>

lemma find_pending_result:
  assumes "pending new" "is_tool_result b" "execution_id b = Some e"
  shows "case find (\<lambda>i. same_tool_execution b (new ! i)) [0..<length new] of
      Some i \<Rightarrow> i < length new \<and> execution_id (new ! i) = Some e \<and> outcome new e = Some (new ! i)
    | None \<Rightarrow> outcome new e = None"
proof -
  have same: "same_tool_execution b (new ! i) \<longleftrightarrow> execution_id (new ! i) = Some e" if "i < length new" for i
    using assms that same_modern[of b "new ! i"] by (auto simp: pending_def list_all_length modern_def)
  show ?thesis
  proof (cases "find (\<lambda>i. same_tool_execution b (new ! i)) [0..<length new]")
    case None
    then have "\<forall>x \<in> set new. execution_id x \<noteq> Some e" using same by (auto simp: find_None_iff in_set_conv_nth)
    then have "outcome new e = None" by (auto simp: outcome_def find_None_iff)
    then show ?thesis using None by simp
  next
    case (Some i)
    then have "i < length new" "same_tool_execution b (new ! i)" by (auto simp: find_Some_iff)
    then show ?thesis using Some same pending_nth[OF assms(1)] by simp
  qed
qed

text \<open>Blocks against pending results: each outcome is merged, and what it consumed is no longer pending.\<close>

definition reconciled :: "content_block list \<Rightarrow> content_block list \<Rightarrow> content_block list \<Rightarrow> content_block list \<Rightarrow> bool" where
  "reconciled new bs bs' left \<longleftrightarrow>
     pending left \<and> modern bs' \<and>
     (\<forall>e. outcome bs' e = (if outcome bs e = None then None else merge_outcome (outcome bs e) (outcome new e)) \<and>
          outcome left e = (if outcome bs e = None then outcome new e else None))"

lemma reconcile_skip:
  assumes "reconciled new bs bs' left" "is_tool_result b \<Longrightarrow> execution_id b \<noteq> None"
    "\<And>e. is_tool_result b \<Longrightarrow> execution_id b = Some e \<Longrightarrow> outcome new e = None"
  shows "reconciled new (b # bs) (b # bs') left"
  using assms by (auto simp: reconciled_def)

lemma reconcile_take:
  assumes "reconciled (take i new @ drop (Suc i) new) bs bs' left" "pending new" "is_tool_result b" "execution_id b = Some e"
    "i < length new" "execution_id (new ! i) = Some e" "outcome new e = Some (new ! i)"
  shows "reconciled new (b # bs) ((if should_replace b (new ! i) then new ! i else b) # bs') left"
proof -
  have r: "is_tool_result (new ! i)" using assms(2,5) by (simp add: pending_def list_all_length)
  show ?thesis using assms r pending_delete(2)[OF assms(2,5)] by (auto simp: reconciled_def)
qed

lemma reconcile_blocks_ok:
  "pending new \<Longrightarrow> modern bs \<Longrightarrow> reconcile_blocks new bs = (bs', replaced, left) \<Longrightarrow>
     reconciled new bs bs' left \<and> (\<not> replaced \<longrightarrow> bs' = bs)"
proof (induction bs arbitrary: new bs' replaced left)
  case Nil
  then show ?case by (simp add: reconciled_def)
next
  case (Cons b bs)
  let ?find = "if is_tool_result b then find (\<lambda>i. same_tool_execution b (new ! i)) [0..<length new] else None"
  show ?case
  proof (cases ?find)
    case None
    obtain bs2 where rec: "reconcile_blocks new bs = (bs2, replaced, left)" "bs' = b # bs2"
      using Cons.prems(3) None by (auto split: prod.splits)
    have "outcome new e = None" if "is_tool_result b" "execution_id b = Some e" for e
      using find_pending_result[OF Cons.prems(1) that] None that(1) by simp
    then show ?thesis using Cons.IH[OF Cons.prems(1) _ rec(1)] Cons.prems(2) rec(2) by (auto intro!: reconcile_skip)
  next
    case (Some i)
    then have b: "is_tool_result b" by (auto split: if_splits)
    then obtain e where e: "execution_id b = Some e" using Cons.prems(2) by auto
    have i: "i < length new" "execution_id (new ! i) = Some e" "outcome new e = Some (new ! i)"
      using find_pending_result[OF Cons.prems(1) b e] Some b by simp_all
    obtain bs2 replaced2 where rec: "reconcile_blocks (take i new @ drop (Suc i) new) bs = (bs2, replaced2, left)"
      "bs' = (if should_replace b (new ! i) then new ! i else b) # bs2" "replaced = (should_replace b (new ! i) \<or> replaced2)"
      using Cons.prems(3) Some by (auto split: prod.splits if_splits)
    have IH: "reconciled (take i new @ drop (Suc i) new) bs bs2 left" "\<not> replaced2 \<longrightarrow> bs2 = bs"
      using Cons.IH[OF pending_delete(1)[OF Cons.prems(1) i(1)] _ rec(1)] Cons.prems(2) by auto
    show ?thesis unfolding rec(2,3) using reconcile_take[OF IH(1) Cons.prems(1) b e i] IH(2) by auto
  qed
qed

lemma history_outcome_simps [simp]:
  "history_outcome [] e = None"
  "history_outcome (m # ms) e =
     (if user_blocks m then case outcome (message_blocks m) e of Some b \<Rightarrow> Some b | None \<Rightarrow> history_outcome ms e else history_outcome ms e)"
  "history_outcome (ms @ ns) e = (case history_outcome ms e of Some b \<Rightarrow> Some b | None \<Rightarrow> history_outcome ns e)"
  by (simp_all add: history_outcome_def split: option.split)

lemma user_blocks_rebuilt [simp]: "user_blocks (rebuilt_message m bs) \<longleftrightarrow> ms_role m = lit ''user''"
  by (simp add: user_blocks_def)

lemma reconcile_history_ok:
  "pending new \<Longrightarrow> \<forall>m \<in> set ms. modern (message_blocks m) \<Longrightarrow> reconcile_history new ms = (ms', left) \<Longrightarrow>
     pending left \<and>
     history_outcome ms' e =
       (if history_outcome ms e = None then None else merge_outcome (history_outcome ms e) (outcome new e)) \<and>
     outcome left e = (if history_outcome ms e = None then outcome new e else None)"
proof (induction ms arbitrary: new ms' left)
  case (Cons m ms)
  show ?case
  proof (cases "user_blocks m")
    case False
    then obtain ms2 where "reconcile_history new ms = (ms2, left)" "ms' = m # ms2"
      using Cons.prems(3) by (auto split: prod.splits)
    then show ?thesis using Cons.IH[OF Cons.prems(1)] Cons.prems(2) False by auto
  next
    case True
    obtain bs replaced l2 where b: "reconcile_blocks new (message_blocks m) = (bs, replaced, l2)" by (metis prod_cases3)
    then obtain ms2 where ms2: "reconcile_history l2 ms = (ms2, left)" "ms' = (if replaced then rebuilt_message m bs else m) # ms2"
      using Cons.prems(3) True by (auto split: prod.splits)
    have r: "reconciled new (message_blocks m) bs l2" "\<not> replaced \<longrightarrow> bs = message_blocks m"
      using reconcile_blocks_ok[OF Cons.prems(1) _ b] Cons.prems(2) by auto
    have l2: "pending l2" and o: "outcome bs e = (if outcome (message_blocks m) e = None then None
        else merge_outcome (outcome (message_blocks m) e) (outcome new e))"
      "outcome l2 e = (if outcome (message_blocks m) e = None then outcome new e else None)"
      using r(1) by (auto simp: reconciled_def)
    have "history_outcome ms' e = (case outcome bs e of Some b \<Rightarrow> Some b | None \<Rightarrow> history_outcome ms2 e)"
      using True r(2) ms2(2) by (auto simp: user_blocks_def)
    moreover have merge: "merge_outcome (Some x) y \<noteq> None" for x y by (cases y) auto
    ultimately show ?thesis using Cons.IH[OF l2 _ ms2(1)] Cons.prems(2) True o
      by (auto split: option.splits simp: merge)
  qed
qed simp



theorem repaired_history_is_valid_witness:
  "is_valid_for_anthropic (repaired [assistant_message [sample_call], user_message [TextBlock (lit ''stop'')], user_message [sample_result]])"
  by (rule repaired_history_is_valid)
    (simp add: ids_agree_def all_blocks_def sample_simps same_tool_execution_def)

theorem compaction_survives_restore_witness:
  "restore_compaction (Some (dump_compaction (apply_compaction [97, 32] 2 (new_conversation sample_history 100))))
     (set_history (cv_history (new_conversation sample_history 100)) (new_conversation sample_history 100)) =
   apply_compaction (strip [97, 32]) 2 (new_conversation sample_history 100)"
proof (rule compaction_survives_restore)
  show "strip [97, 32] \<noteq> []" by code_simp
qed (simp_all add: sample_history_def new_conversation_def)

section \<open>Cache checkpoints\<close>

lemma find_in_set: "find P xs = Some x \<Longrightarrow> x \<in> set xs"
  by (induction xs) (auto split: if_splits)


section \<open>Two limits of the repair\<close>

definition other_call :: content_block where
  "other_call = ToolCall (lit ''c2'') (lit ''read'') (JObj []) (lit ''e2'') JsonInput None"

text \<open>
  The message after a call is read as its answer even when an earlier call took its results: the result comes back in the
  answer of the second call, where no call of the previous message asked for it.
\<close>

lemma repair_repeats_a_moved_result:
  "let ms = [assistant_message [sample_call], assistant_message [other_call], user_message [sample_result]]
   in count_list (all_blocks ms) sample_result = 1 \<and> count_list (all_blocks (repaired ms)) sample_result = 2 \<and>
      \<not> results_follow_calls [] (repaired ms)"
  by code_simp

text \<open>
  Extending repairs the whole history, which may shorten the part before the compaction boundary, but keeps the boundary's index:
  a message of the tail that was never summarised drops out of what is sent.
\<close>

lemma extend_hides_a_message:
  "let late = TextBlock (lit ''late'');
       cv = apply_compaction (lit ''s'') 3 (new_conversation
         [assistant_message [sample_call], user_message [TextBlock (lit ''stop'')], user_message [sample_result], user_message [late]] 100)
   in snap_split_point 3 cv = 3 \<and> late \<in> set (all_blocks (effective_history cv)) \<and>
      late \<notin> set (all_blocks (effective_history (extend_messages [user_message [TextBlock (lit ''go'')]] cv)))"
  by code_simp

end
