(* ===== verification/Image_Fit.thy ===== *)
theory Image_Fit
  imports Kolega_Prelude
begin

text \<open>
  Fitting the images of a request to the limits of a provider, \<open>kolega_code/utils/images.py\<close>: the resizing loop and the memo that
  serves its results again under a changed limit. Pillow, SHA-256 and the arithmetic on floats are parameters, the record
  \<open>pillow\<close>; \<open>pl_open\<close> is the decoding of the base64 text and the opening of the first frame, \<open>pl_encode\<close> saves an image (as PNG or
  as JPEG) and encodes it in base64. The two critical sections of the memo run one after the other.
\<close>

record 'i pillow =
  pl_sha256 :: "pystr \<Rightarrow> pystr"
  pl_open :: "pystr \<Rightarrow> pystr + 'i"
  pl_size :: "'i \<Rightarrow> nat \<times> nat"
  pl_transpose :: "'i \<Rightarrow> pystr + 'i"
  pl_transparent :: "'i \<Rightarrow> bool"
  pl_thumbnail :: "nat \<Rightarrow> 'i \<Rightarrow> 'i"
  pl_convert :: "bool \<Rightarrow> 'i \<Rightarrow> 'i"
  pl_encode :: "bool \<Rightarrow> 'i \<Rightarrow> pystr + pystr"
  pl_resize :: "nat \<times> nat \<Rightarrow> 'i \<Rightarrow> 'i"
  pl_safety :: "nat \<Rightarrow> nat" \<comment> \<open>\<open>int(n * 0.95)\<close>\<close>
  pl_scaled :: "nat \<Rightarrow> nat \<Rightarrow> nat \<Rightarrow> nat" \<comment> \<open>\<open>int(side * ratio)\<close>, from the target, the length and the side\<close>

definition anthropic_max_image_base64_bytes :: nat where
  "anthropic_max_image_base64_bytes = 10 * 1024 * 1024"

definition anthropic_max_request_image_base64_bytes :: nat where
  "anthropic_max_request_image_base64_bytes = 24 * 1024 * 1024"

definition image_resize_max_attempts :: nat where
  "image_resize_max_attempts = 12"

definition image_resize_max_pixels :: nat where
  "image_resize_max_pixels = 40000000"

section \<open>Resizing\<close>

record image_resize_result =
  rr_data :: "pystr option"
  rr_media_type :: "pystr option"
  rr_resized :: bool
  rr_error :: "pystr option"

definition succeeded :: "image_resize_result \<Rightarrow> bool" where
  "succeeded r = (rr_data r \<noteq> None \<and> rr_media_type r \<noteq> None)"

definition unchanged_image :: "pystr \<Rightarrow> pystr \<Rightarrow> image_resize_result" where
  "unchanged_image data media = \<lparr>rr_data = Some data, rr_media_type = Some media, rr_resized = False, rr_error = None\<rparr>"

definition resized_image :: "pystr \<Rightarrow> pystr \<Rightarrow> image_resize_result" where
  "resized_image data media = \<lparr>rr_data = Some data, rr_media_type = Some media, rr_resized = True, rr_error = None\<rparr>"

definition failed_image :: "pystr \<Rightarrow> image_resize_result" where
  "failed_image e = \<lparr>rr_data = None, rr_media_type = None, rr_resized = False, rr_error = Some e\<rparr>"

definition could_not_fit :: "nat \<Rightarrow> image_resize_result" where
  "could_not_fit limit = failed_image (lit ''Could not fit image below the '' @ show_nat limit @ lit ''-byte base64 limit'')"

definition derivative_target_size :: "'i pillow \<Rightarrow> nat \<Rightarrow> nat" where
  "derivative_target_size pl limit = pl_safety pl limit - pl_safety pl limit mod 4"

definition next_side :: "'i pillow \<Rightarrow> nat \<Rightarrow> nat \<Rightarrow> nat \<Rightarrow> nat" where
  "next_side pl target len side =
     (let n = max 1 (pl_scaled pl target len side) in if n = side \<and> side > 1 then n - 1 else n)"

text \<open>The attempts to encode below the target, each on a smaller image.\<close>

fun fit_attempts :: "'i pillow \<Rightarrow> nat \<Rightarrow> nat \<Rightarrow> bool \<Rightarrow> nat \<Rightarrow> 'i \<Rightarrow> image_resize_result" where
  "fit_attempts pl limit target png 0 im = could_not_fit limit"
| "fit_attempts pl limit target png (Suc n) im =
     (case pl_encode pl png im of
        Inl exc \<Rightarrow> failed_image (lit ''Could not encode resized image: '' @ exc)
      | Inr derivative \<Rightarrow>
          if length derivative \<le> target then resized_image derivative (if png then lit ''image/png'' else lit ''image/jpeg'')
          else (case pl_size pl im of
                  (width, height) \<Rightarrow>
                    if width \<le> 1 \<and> height \<le> 1 then could_not_fit limit
                    else fit_attempts pl limit target png n
                      (pl_resize pl (next_side pl target (length derivative) width, next_side pl target (length derivative) height) im)))"

text \<open>\<open>None\<close> stands for the \<open>ValueError\<close> of a limit that is not positive.\<close>

definition resize_base64_image_to_limit ::
  "'i pillow \<Rightarrow> pystr \<Rightarrow> pystr \<Rightarrow> nat \<Rightarrow> nat option \<Rightarrow> image_resize_result option" where
  "resize_base64_image_to_limit pl data media limit max_dimension =
     (let fits = (\<lambda>im. case max_dimension of None \<Rightarrow> True | Some d \<Rightarrow> fst (pl_size pl im) \<le> d \<and> snd (pl_size pl im) \<le> d)
      in if limit = 0 \<or> max_dimension = Some 0 then None
         else Some
           (if \<not> list_all (\<lambda>c. c < 128) data then failed_image (lit ''Image payload is not ASCII base64'')
            else if length data \<le> limit \<and> max_dimension = None then unchanged_image data media
            else (case pl_open pl data of
                    Inl exc \<Rightarrow> failed_image (lit ''Could not decode image: '' @ exc)
                  | Inr opened \<Rightarrow>
                      if length data \<le> limit \<and> fits opened then unchanged_image data media
                      else if fst (pl_size pl opened) * snd (pl_size pl opened) > image_resize_max_pixels
                      then failed_image (lit ''Image dimensions exceed the '' @ show_commas image_resize_max_pixels @
                             lit ''-pixel resize safety limit'')
                      else (case pl_transpose pl opened of
                              Inl exc \<Rightarrow> failed_image (lit ''Could not decode image: '' @ exc)
                            | Inr im \<Rightarrow>
                                (let png = pl_transparent pl im;
                                     small = (case max_dimension of Some d \<Rightarrow> if fits im then im else pl_thumbnail pl d im | None \<Rightarrow> im);
                                     target = derivative_target_size pl limit
                                 in if target < 4 then could_not_fit limit
                                    else fit_attempts pl limit target png image_resize_max_attempts (pl_convert pl png small))))))"

section \<open>The memo\<close>

type_synonym memo_key = "pystr \<times> pystr \<times> nat option"

record resize_memo =
  rm_dims_fit :: "bool option"
  rm_data :: "pystr option"
  rm_media_type :: "pystr option"
  rm_error :: "pystr option"
  rm_error_limit :: nat

definition new_memo :: resize_memo where
  "new_memo = \<lparr>rm_dims_fit = None, rm_data = None, rm_media_type = None, rm_error = None, rm_error_limit = 0\<rparr>"

text \<open>The ordered dictionary, oldest entry first, and the bytes of the stored derivatives.\<close>

record resize_cache =
  rc_entries :: "(memo_key \<times> resize_memo) list"
  rc_bytes :: int

definition empty_cache :: resize_cache where
  "empty_cache = \<lparr>rc_entries = [], rc_bytes = 0\<rparr>"

definition resize_cache_max_entries :: nat where
  "resize_cache_max_entries = 1024"

definition resize_cache_max_bytes :: int where
  "resize_cache_max_bytes = 128 * 1024 * 1024"

definition memo_bytes :: "resize_memo \<Rightarrow> int" where
  "memo_bytes m = (case rm_data m of Some d \<Rightarrow> int (length d) | None \<Rightarrow> 0)"

text \<open>\<open>move_to_end\<close> after an assignment: the entry, with its memo, is the newest.\<close>

definition newest :: "memo_key \<Rightarrow> resize_memo \<Rightarrow> (memo_key \<times> resize_memo) list \<Rightarrow> (memo_key \<times> resize_memo) list" where
  "newest k m es = filter (\<lambda>(k', _). k' \<noteq> k) es @ [(k, m)]"

text \<open>What a memo knows of a request under a limit.\<close>

definition memo_answer :: "'i pillow \<Rightarrow> pystr \<Rightarrow> pystr \<Rightarrow> nat \<Rightarrow> resize_memo \<Rightarrow> image_resize_result option" where
  "memo_answer pl data media limit m =
     (if rm_error m \<noteq> None \<and> limit \<le> rm_error_limit m
      then Some \<lparr>rr_data = None, rr_media_type = None, rr_resized = False, rr_error = rm_error m\<rparr>
      else if rm_dims_fit m = Some True \<and> length data \<le> limit then Some (unchanged_image data media)
      else (case rm_data m of
              Some d \<Rightarrow> if length d \<le> derivative_target_size pl limit
                        then Some \<lparr>rr_data = Some d, rr_media_type = rm_media_type m, rr_resized = True, rr_error = None\<rparr> else None
            | None \<Rightarrow> None))"

definition memo_learn :: "nat \<Rightarrow> image_resize_result \<Rightarrow> resize_memo \<Rightarrow> resize_memo" where
  "memo_learn limit r m =
     (if \<not> succeeded r then m\<lparr>rm_error := rr_error r, rm_error_limit := max (rm_error_limit m) limit\<rparr>
      else if \<not> rr_resized r then m\<lparr>rm_dims_fit := Some True\<rparr>
      else m\<lparr>rm_data := rr_data r, rm_media_type := rr_media_type r\<rparr>)"

fun evict :: "(memo_key \<times> resize_memo) list \<Rightarrow> int \<Rightarrow> resize_cache" where
  "evict [] bytes = \<lparr>rc_entries = [], rc_bytes = bytes\<rparr>"
| "evict ((k, m) # es) bytes =
     (if length ((k, m) # es) > resize_cache_max_entries \<or> bytes > resize_cache_max_bytes
      then evict es (bytes - memo_bytes m) else \<lparr>rc_entries = (k, m) # es, rc_bytes = bytes\<rparr>)"

text \<open>The first critical section: the answer of the memo, whose entry becomes the newest.\<close>

definition cache_lookup ::
  "'i pillow \<Rightarrow> pystr \<Rightarrow> pystr \<Rightarrow> nat \<Rightarrow> nat option \<Rightarrow> resize_cache \<Rightarrow> image_resize_result option \<times> resize_cache" where
  "cache_lookup pl data media limit max_dimension c =
     (let k = (pl_sha256 pl data, media, max_dimension)
      in case map_of (rc_entries c) k of
           None \<Rightarrow> (None, c)
         | Some m \<Rightarrow> (memo_answer pl data media limit m, c\<lparr>rc_entries := newest k m (rc_entries c)\<rparr>))"

text \<open>The second one: the result is learned and old entries go.\<close>

definition cache_store :: "memo_key \<Rightarrow> nat \<Rightarrow> image_resize_result \<Rightarrow> resize_cache \<Rightarrow> resize_cache" where
  "cache_store k limit r c =
     (let m = (case map_of (rc_entries c) k of Some m \<Rightarrow> m | None \<Rightarrow> new_memo); m' = memo_learn limit r m
      in evict (newest k m' (rc_entries c)) (rc_bytes c - memo_bytes m + memo_bytes m'))"

definition resize_base64_image_to_limit_cached ::
  "'i pillow \<Rightarrow> pystr \<Rightarrow> pystr \<Rightarrow> nat \<Rightarrow> nat option \<Rightarrow> resize_cache \<Rightarrow> (image_resize_result \<times> resize_cache) option" where
  "resize_base64_image_to_limit_cached pl data media limit max_dimension c =
     (case cache_lookup pl data media limit max_dimension c of
        (Some r, c) \<Rightarrow> Some (r, c)
      | (None, c) \<Rightarrow>
          (case resize_base64_image_to_limit pl data media limit max_dimension of
             None \<Rightarrow> None
           | Some r \<Rightarrow> Some (r, cache_store (pl_sha256 pl data, media, max_dimension) limit r c)))"

section \<open>Results of resizing\<close>

lemma result_simps [simp]:
  "succeeded (unchanged_image d m)" "succeeded (resized_image d m)" "\<not> succeeded (failed_image e)" "\<not> succeeded (could_not_fit n)"
  "rr_resized (resized_image d m)" "\<not> rr_resized (unchanged_image d m)" "\<not> rr_resized (failed_image e)"
  "rr_data (resized_image d m) = Some d" "rr_media_type (resized_image d m) = Some m" "rr_error (failed_image e) = Some e"
  "rr_data (unchanged_image d m) = Some d" "rr_media_type (unchanged_image d m) = Some m"
  "rr_data (failed_image e) = None" "rr_media_type (failed_image e) = None"
  by (simp_all add: succeeded_def unchanged_image_def resized_image_def failed_image_def could_not_fit_def)

lemma result_distinct [simp]:
  "unchanged_image d m \<noteq> resized_image d' m'" "unchanged_image d m \<noteq> failed_image e" "resized_image d m \<noteq> failed_image e"
  "unchanged_image d m \<noteq> could_not_fit n" "failed_image e \<noteq> unchanged_image d m" "could_not_fit n \<noteq> unchanged_image d m"
  by (simp_all add: unchanged_image_def resized_image_def failed_image_def could_not_fit_def)

definition fit_shape :: "'i pillow \<Rightarrow> pystr \<Rightarrow> pystr \<Rightarrow> nat \<Rightarrow> image_resize_result \<Rightarrow> bool" where
  "fit_shape pl data media limit r \<longleftrightarrow>
     (r = unchanged_image data media \<and> length data \<le> limit) \<or>
     (\<exists>d m. r = resized_image d m \<and> length d \<le> derivative_target_size pl limit) \<or>
     (\<exists>e. r = failed_image e)"

lemma fit_attempts_shape:
  "(\<exists>d m. fit_attempts pl limit target png n im = resized_image d m \<and> length d \<le> target) \<or>
   (\<exists>e. fit_attempts pl limit target png n im = failed_image e)"
proof (induction n arbitrary: im)
  case 0
  then show ?case by (auto simp: could_not_fit_def)
next
  case (Suc n)
  show ?case
  proof (cases "pl_encode pl png im")
    case (Inr d)
    obtain w h where "pl_size pl im = (w, h)" by force
    then show ?thesis
      using Inr Suc[of "pl_resize pl (next_side pl target (length d) w, next_side pl target (length d) h) im"]
      by (cases "length d \<le> target"; cases "w \<le> 1 \<and> h \<le> 1") (auto simp: could_not_fit_def simp del: One_nat_def)
  qed auto
qed

lemma resize_shape:
  assumes "resize_base64_image_to_limit pl data media limit dim = Some r"
  shows "fit_shape pl data media limit r"
proof -
  have attempts: "fit_shape pl data media limit (fit_attempts pl limit (derivative_target_size pl limit) png n im)" for png n im
    using fit_attempts_shape[of pl limit "derivative_target_size pl limit" png n im] by (auto simp: fit_shape_def)
  have failed: "fit_shape pl data media limit (failed_image e)" "fit_shape pl data media limit (could_not_fit limit)" for e
    by (auto simp: fit_shape_def could_not_fit_def)
  have same: "length data \<le> limit \<Longrightarrow> fit_shape pl data media limit (unchanged_image data media)" by (simp add: fit_shape_def)
  show ?thesis using assms unfolding resize_base64_image_to_limit_def Let_def
    by (auto split: if_splits sum.splits intro: attempts failed same)
qed

text \<open>An image that was sent as it is under some limit is sent as it is under every limit that it meets.\<close>

lemma fit_attempts_changed: "fit_attempts pl limit target png n im \<noteq> unchanged_image d m"
  using fit_attempts_shape[of pl limit target png n im] by (auto dest: sym)

lemma unchanged_again:
  assumes "resize_base64_image_to_limit pl data media l dim = Some (unchanged_image data media)" "length data \<le> limit" "0 < limit"
  shows "resize_base64_image_to_limit pl data media limit dim = Some (unchanged_image data media)"
  using assms unfolding resize_base64_image_to_limit_def Let_def
  by (auto simp: fit_attempts_changed split: if_splits sum.splits)

section \<open>The memo is sound\<close>

text \<open>What may be served for a request: the result of the resizing, a derivative made for another limit that still meets the
  target, or the failure of a limit that is not below.\<close>

definition served :: "'i pillow \<Rightarrow> pystr \<Rightarrow> pystr \<Rightarrow> nat \<Rightarrow> nat option \<Rightarrow> image_resize_result \<Rightarrow> bool" where
  "served pl data media limit dim r \<longleftrightarrow>
     resize_base64_image_to_limit pl data media limit dim = Some r \<or>
     (\<exists>l d m. resize_base64_image_to_limit pl data media l dim = Some (resized_image d m) \<and> r = resized_image d m \<and>
        length d \<le> derivative_target_size pl limit) \<or>
     (\<exists>l e e'. limit \<le> l \<and> resize_base64_image_to_limit pl data media l dim = Some (failed_image e') \<and> r = failed_image e)"

definition memo_sound :: "'i pillow \<Rightarrow> pystr \<Rightarrow> pystr \<Rightarrow> nat option \<Rightarrow> resize_memo \<Rightarrow> bool" where
  "memo_sound pl data media dim m \<longleftrightarrow>
     (rm_dims_fit m = Some True \<longrightarrow> (\<exists>l. resize_base64_image_to_limit pl data media l dim = Some (unchanged_image data media))) \<and>
     (\<forall>d. rm_data m = Some d \<longrightarrow> (\<exists>l t. rm_media_type m = Some t \<and> resize_base64_image_to_limit pl data media l dim = Some (resized_image d t))) \<and>
     (if rm_error m = None then rm_error_limit m = 0
      else \<exists>e. resize_base64_image_to_limit pl data media (rm_error_limit m) dim = Some (failed_image e))"

lemma memo_answer_sound:
  assumes "memo_sound pl data media dim m" "memo_answer pl data media limit m = Some r" "0 < limit"
  shows "served pl data media limit dim r"
proof -
  consider e where "rm_error m = Some e" "limit \<le> rm_error_limit m" "r = failed_image e"
    | "rm_dims_fit m = Some True" "length data \<le> limit" "r = unchanged_image data media"
    | d where "rm_data m = Some d" "length d \<le> derivative_target_size pl limit"
        "r = \<lparr>rr_data = Some d, rr_media_type = rm_media_type m, rr_resized = True, rr_error = None\<rparr>"
    using assms(2) by (auto simp: memo_answer_def failed_image_def split: if_splits option.splits)
  then show ?thesis
  proof cases
    case 1
    then show ?thesis using assms(1) by (auto simp: served_def memo_sound_def)
  next
    case 2
    then show ?thesis using assms(1,3) unchanged_again by (auto simp: served_def memo_sound_def)
  next
    case 3
    then obtain l t where "rm_media_type m = Some t" "resize_base64_image_to_limit pl data media l dim = Some (resized_image d t)"
      using assms(1) by (auto simp: memo_sound_def)
    then show ?thesis using 3 by (auto simp: served_def resized_image_def)
  qed
qed

lemma memo_learn_sound:
  assumes "memo_sound pl data media dim m" "resize_base64_image_to_limit pl data media limit dim = Some r"
  shows "memo_sound pl data media dim (memo_learn limit r m)"
proof -
  consider "r = unchanged_image data media" | d t where "r = resized_image d t" | e where "r = failed_image e"
    using resize_shape[OF assms(2)] by (auto simp: fit_shape_def)
  then show ?thesis
  proof cases
    case 3
    then have "\<exists>e. resize_base64_image_to_limit pl data media (max (rm_error_limit m) limit) dim = Some (failed_image e)"
      using assms unfolding memo_sound_def max_def by (auto split: if_splits)
    then show ?thesis using assms(1) 3 by (simp add: memo_sound_def memo_learn_def)
  qed (use assms in \<open>auto simp: memo_sound_def memo_learn_def\<close>)
qed

text \<open>The cache: the keys are distinct, the counted bytes are those of the derivatives, both budgets hold, and every memo is sound for
  the payload whose digest it carries.\<close>

definition cache_ok :: "resize_cache \<Rightarrow> bool" where
  "cache_ok c \<longleftrightarrow>
     distinct (map fst (rc_entries c)) \<and> rc_bytes c = sum_list (map (memo_bytes \<circ> snd) (rc_entries c)) \<and>
     length (rc_entries c) \<le> resize_cache_max_entries \<and> rc_bytes c \<le> resize_cache_max_bytes"

definition cache_sound :: "'i pillow \<Rightarrow> pystr set \<Rightarrow> resize_cache \<Rightarrow> bool" where
  "cache_sound pl D c \<longleftrightarrow>
     (\<forall>(k, m) \<in> set (rc_entries c). \<exists>data \<in> D. fst k = pl_sha256 pl data \<and> memo_sound pl data (fst (snd k)) (snd (snd k)) m)"

lemma sum_newest:
  "distinct (map fst es) \<Longrightarrow> sum_list (map (memo_bytes \<circ> snd) (newest k m es)) =
     sum_list (map (memo_bytes \<circ> snd) es) - (case map_of es k of Some m' \<Rightarrow> memo_bytes m' | None \<Rightarrow> 0) + memo_bytes m"
proof (induction es)
  case (Cons e es)
  obtain k' m' where e: "e = (k', m')" by (rule prod.exhaust)
  show ?case
  proof (cases "k' = k")
    case True
    then have "filter (\<lambda>(k', _). k' \<noteq> k) es = es" "map_of es k = None"
      using Cons.prems by (auto simp: e filter_id_conv map_of_eq_None_iff rev_image_eqI)
    then show ?thesis using True by (simp add: newest_def e)
  next
    case False
    then show ?thesis using Cons by (simp add: newest_def e)
  qed
qed (simp add: newest_def)

lemma newest_keys:
  "distinct (map fst es) \<Longrightarrow> distinct (map fst (newest k m es))" "set (newest k m es) \<subseteq> insert (k, m) (set es)"
  by (auto simp: newest_def distinct_map inj_on_def)

lemma length_newest_known: "distinct (map fst es) \<Longrightarrow> map_of es k = Some m' \<Longrightarrow> length (newest k m es) = length es"
proof (induction es)
  case (Cons e es)
  obtain k' m'' where e: "e = (k', m'')" by (rule prod.exhaust)
  show ?case
  proof (cases "k' = k")
    case True
    then have "filter (\<lambda>(k', _). k' \<noteq> k) es = es" using Cons.prems by (auto simp: e filter_id_conv rev_image_eqI)
    then show ?thesis using True by (simp add: newest_def e)
  next
    case False
    then show ?thesis using Cons by (simp add: newest_def e)
  qed
qed simp

lemma memo_bytes_nonneg: "0 \<le> memo_bytes m"
  by (simp add: memo_bytes_def split: option.split)

text \<open>Eviction ends within both budgets: with no entry left, no byte is counted.\<close>

lemma evict_ok:
  "distinct (map fst es) \<Longrightarrow> bytes = sum_list (map (memo_bytes \<circ> snd) es) \<Longrightarrow>
     cache_ok (evict es bytes) \<and> set (rc_entries (evict es bytes)) \<subseteq> set es"
proof (induction es arbitrary: bytes)
  case Nil
  then show ?case by (simp add: cache_ok_def resize_cache_max_bytes_def)
next
  case (Cons e es)
  then show ?case by (cases e) (auto simp: cache_ok_def comp_def)
qed

lemma cache_lookup_ok:
  assumes "cache_lookup pl data media limit dim c = (r, c')"
  shows "cache_ok c \<Longrightarrow> cache_ok c'" "cache_sound pl D c \<Longrightarrow> cache_sound pl D c'"
proof -
  let ?k = "(pl_sha256 pl data, media, dim)"
  consider "c' = c" | m where "map_of (rc_entries c) ?k = Some m" "c' = c\<lparr>rc_entries := newest ?k m (rc_entries c)\<rparr>"
    using assms by (auto simp: cache_lookup_def Let_def split: option.splits)
  then have "(cache_ok c \<longrightarrow> cache_ok c') \<and> (cache_sound pl D c \<longrightarrow> cache_sound pl D c')"
  proof cases
    case (2 m)
    have "set (newest ?k m (rc_entries c)) \<subseteq> set (rc_entries c)"
      using newest_keys(2) map_of_SomeD[OF 2(1)] by fastforce
    then have "cache_sound pl D c \<longrightarrow> cache_sound pl D c'" using 2(2) by (fastforce simp: cache_sound_def)
    moreover have "cache_ok c \<longrightarrow> cache_ok c'"
      using 2 newest_keys(1) sum_newest[of "rc_entries c" ?k m] length_newest_known[OF _ 2(1)]
      by (simp add: cache_ok_def)
    ultimately show ?thesis by simp
  qed simp
  then show "cache_ok c \<Longrightarrow> cache_ok c'" "cache_sound pl D c \<Longrightarrow> cache_sound pl D c'" by simp_all
qed

lemma new_memo_sound: "memo_sound pl data media dim new_memo"
  by (simp add: memo_sound_def new_memo_def)

text \<open>The memo that a payload meets is sound for that payload when digests do not collide.\<close>

lemma cache_memo_sound:
  assumes "cache_sound pl D c" "inj_on (pl_sha256 pl) D" "data \<in> D" "map_of (rc_entries c) (pl_sha256 pl data, media, dim) = Some m"
  shows "memo_sound pl data media dim m"
proof -
  have "((pl_sha256 pl data, media, dim), m) \<in> set (rc_entries c)" using assms(4) by (rule map_of_SomeD)
  then obtain data' where "data' \<in> D" "pl_sha256 pl data = pl_sha256 pl data'" "memo_sound pl data' media dim m"
    using assms(1) by (fastforce simp: cache_sound_def)
  then show ?thesis using inj_onD[OF assms(2)] assms(3) by metis
qed

lemma cache_store_evicts:
  assumes "cache_ok c" "m = (case map_of (rc_entries c) k of Some m \<Rightarrow> m | None \<Rightarrow> new_memo)"
  shows "cache_ok (cache_store k limit r c)"
    "set (rc_entries (cache_store k limit r c)) \<subseteq> insert (k, memo_learn limit r m) (set (rc_entries c))"
proof -
  let ?es = "newest k (memo_learn limit r m) (rc_entries c)"
  have bytes: "memo_bytes m = (case map_of (rc_entries c) k of Some m' \<Rightarrow> memo_bytes m' | None \<Rightarrow> 0)"
    by (simp add: assms(2) memo_bytes_def new_memo_def split: option.split)
  have store: "cache_store k limit r c = evict ?es (rc_bytes c - memo_bytes m + memo_bytes (memo_learn limit r m))"
    by (simp add: cache_store_def assms(2) Let_def)
  have "cache_ok (cache_store k limit r c) \<and> set (rc_entries (cache_store k limit r c)) \<subseteq> set ?es"
    unfolding store using evict_ok[of ?es] newest_keys(1) assms(1) sum_newest[of "rc_entries c" k] bytes
    by (simp add: cache_ok_def)
  then show "cache_ok (cache_store k limit r c)"
    "set (rc_entries (cache_store k limit r c)) \<subseteq> insert (k, memo_learn limit r m) (set (rc_entries c))"
    using newest_keys(2) by fastforce+
qed

lemma cache_store_sound:
  assumes "cache_ok c" "cache_sound pl D c" "inj_on (pl_sha256 pl) D" "data \<in> D"
    "resize_base64_image_to_limit pl data media limit dim = Some r"
  shows "cache_sound pl D (cache_store (pl_sha256 pl data, media, dim) limit r c)"
proof -
  let ?k = "(pl_sha256 pl data, media, dim)"
  define m where "m = (case map_of (rc_entries c) ?k of Some m \<Rightarrow> m | None \<Rightarrow> new_memo)"
  have "memo_sound pl data media dim m"
    unfolding m_def using cache_memo_sound[OF assms(2-4)] new_memo_sound by (auto split: option.split)
  then show ?thesis
    using memo_learn_sound[OF _ assms(5)] cache_store_evicts(2)[OF assms(1) m_def] assms(2,4) by (fastforce simp: cache_sound_def)
qed

lemma cached_ok:
  assumes "resize_base64_image_to_limit_cached pl data media limit dim c = Some (r, c')" "cache_ok c"
  shows "cache_ok c'"
    "cache_sound pl D c \<Longrightarrow> inj_on (pl_sha256 pl) D \<Longrightarrow> data \<in> D \<Longrightarrow> cache_sound pl D c'"
    "cache_sound pl D c \<Longrightarrow> inj_on (pl_sha256 pl) D \<Longrightarrow> data \<in> D \<Longrightarrow> 0 < limit \<Longrightarrow> served pl data media limit dim r"
proof -
  obtain a c1 where l: "cache_lookup pl data media limit dim c = (a, c1)" by force
  note c1 = cache_lookup_ok[OF l]
  consider "resize_base64_image_to_limit pl data media limit dim = Some r" "c' = cache_store (pl_sha256 pl data, media, dim) limit r c1"
    | m where "map_of (rc_entries c) (pl_sha256 pl data, media, dim) = Some m" "memo_answer pl data media limit m = Some r" "c' = c1"
    using assms(1) l by (auto simp: resize_base64_image_to_limit_cached_def cache_lookup_def Let_def split: option.splits)
  then have "cache_ok c' \<and> (cache_sound pl D c \<longrightarrow> inj_on (pl_sha256 pl) D \<longrightarrow> data \<in> D \<longrightarrow>
      cache_sound pl D c' \<and> (0 < limit \<longrightarrow> served pl data media limit dim r))"
  proof cases
    case 1
    have "cache_ok c1" by (rule c1(1)[OF assms(2)])
    then show ?thesis using 1 cache_store_evicts(1)[OF _ refl, of c1] cache_store_sound[of c1 pl D data media limit dim r] c1(2)
      by (simp add: served_def)
  next
    case 2
    then show ?thesis using memo_answer_sound cache_memo_sound c1 assms(2) by metis
  qed
  then show "cache_ok c'"
    "cache_sound pl D c \<Longrightarrow> inj_on (pl_sha256 pl) D \<Longrightarrow> data \<in> D \<Longrightarrow> cache_sound pl D c'"
    "cache_sound pl D c \<Longrightarrow> inj_on (pl_sha256 pl) D \<Longrightarrow> data \<in> D \<Longrightarrow> 0 < limit \<Longrightarrow> served pl data media limit dim r" by simp_all
qed

lemma empty_cache_ok: "cache_ok empty_cache" "cache_sound pl D empty_cache"
  by (simp_all add: cache_ok_def cache_sound_def empty_cache_def resize_cache_max_bytes_def)

text \<open>A run of requests on the memo; one that raises has still moved its entry.\<close>

fun cache_after :: "'i pillow \<Rightarrow> (pystr \<times> pystr \<times> nat \<times> nat option) list \<Rightarrow> resize_cache \<Rightarrow> resize_cache" where
  "cache_after pl [] c = c"
| "cache_after pl ((data, media, limit, dim) # calls) c =
     cache_after pl calls
       (case resize_base64_image_to_limit_cached pl data media limit dim c of
          Some (r, c') \<Rightarrow> c' | None \<Rightarrow> snd (cache_lookup pl data media limit dim c))"

lemma cache_after_ok:
  "cache_ok c \<Longrightarrow> cache_ok (cache_after pl calls c) \<and>
     (cache_sound pl D c \<longrightarrow> inj_on (pl_sha256 pl) D \<longrightarrow> fst ` set calls \<subseteq> D \<longrightarrow> cache_sound pl D (cache_after pl calls c))"
proof (induction calls arbitrary: c)
  case (Cons call calls)
  obtain data media limit dim where call: "call = (data, media, limit, dim)" by (rule prod_cases4)
  show ?case
  proof (cases "resize_base64_image_to_limit_cached pl data media limit dim c")
    case None
    then show ?thesis
      using Cons cache_lookup_ok[of pl data media limit dim c "fst (cache_lookup pl data media limit dim c)"
          "snd (cache_lookup pl data media limit dim c)"] by (simp add: call)
  next
    case (Some rc)
    obtain r c' where rc: "rc = (r, c')" by force
    then show ?thesis using Some Cons cached_ok(1,2)[of pl data media limit dim c r c'] by (simp add: call)
  qed
qed simp

text \<open>
  C39: the memo of resized images keeps its budget whatever is asked of it: at most 1024 entries under distinct keys, at
  most 128 MiB of stored derivatives, and the byte count is exactly their total.
\<close>

theorem resize_memo_keeps_its_budget:
  "cache_ok (cache_after pl calls empty_cache)"
  using cache_after_ok[OF empty_cache_ok(1)] by blast

lemma served_fits:
  assumes "served pl data media limit dim r" "\<forall>n. pl_safety pl n \<le> n" "succeeded r"
  shows "\<exists>d. rr_data r = Some d \<and> length d \<le> limit \<and> (rr_resized r \<or> r = unchanged_image data media)"
proof -
  have target: "derivative_target_size pl limit \<le> limit"
    using assms(2) by (simp add: derivative_target_size_def) (meson diff_le_self le_trans)
  consider "resize_base64_image_to_limit pl data media limit dim = Some r"
    | d m where "r = resized_image d m" "length d \<le> derivative_target_size pl limit"
    using assms(1,3) by (auto simp: served_def)
  then show ?thesis
  proof cases
    case 1
    from resize_shape[OF this] show ?thesis using assms(3) target by (auto simp: fit_shape_def)
  next
    case 2
    then show ?thesis using target by auto
  qed
qed

text \<open>
  C29: the memo never serves an image that is too long: after any requests, a request that succeeds gets the payload
  itself or a derivative, within the limit of this request, and either what resizing returns now, a derivative that resizing made
  for another limit, or a failure at a limit at least as high. Digests of the payloads do not collide, and \<open>n * 0.95\<close> is at most
  \<open>n\<close>.
\<close>

theorem memo_serves_within_the_limit:
  assumes "inj_on (pl_sha256 pl) (insert data (fst ` set calls))" "\<forall>n. pl_safety pl n \<le> n" "0 < limit"
    "resize_base64_image_to_limit_cached pl data media limit dim (cache_after pl calls empty_cache) = Some (r, c)"
  shows "served pl data media limit dim r \<and> (succeeded r \<longrightarrow> (\<exists>d. rr_data r = Some d \<and> length d \<le> limit))"
proof -
  let ?D = "insert data (fst ` set calls)"
  have "cache_ok (cache_after pl calls empty_cache)" "cache_sound pl ?D (cache_after pl calls empty_cache)"
    using cache_after_ok[OF empty_cache_ok(1), of pl calls ?D] empty_cache_ok(2) assms(1) by auto
  then have "served pl data media limit dim r" using cached_ok(3)[OF assms(4)] assms(1,3) by blast
  then show ?thesis using served_fits[OF _ assms(2)] by blast
qed

definition sample_pillow :: "pystr pillow" where
  "sample_pillow =
     \<lparr>pl_sha256 = (\<lambda>d. d), pl_open = Inr, pl_size = (\<lambda>d. (length d, 1)), pl_transpose = Inr, pl_transparent = (\<lambda>_. False),
      pl_thumbnail = take, pl_convert = (\<lambda>_ d. d), pl_encode = (\<lambda>_. Inr), pl_resize = (\<lambda>(w, _) d. take w d),
      pl_safety = (\<lambda>n. n * 19 div 20), pl_scaled = (\<lambda>_ _ side. side div 2)\<rparr>"

theorem memo_serves_within_the_limit_witness:
  "\<exists>r c. resize_base64_image_to_limit_cached sample_pillow (replicate 40 65) (lit ''image/png'') 16 None
       (cache_after sample_pillow [(replicate 40 65, lit ''image/png'', 20, None)] empty_cache) = Some (r, c) \<and>
     served sample_pillow (replicate 40 65) (lit ''image/png'') 16 None r \<and>
     (succeeded r \<longrightarrow> (\<exists>d. rr_data r = Some d \<and> length d \<le> 16))"
proof -
  let ?run = "resize_base64_image_to_limit_cached sample_pillow (replicate 40 65) (lit ''image/png'') 16 None
    (cache_after sample_pillow [(replicate 40 65, lit ''image/png'', 20, None)] empty_cache)"
  have "case ?run of Some (r, c) \<Rightarrow> rr_data r = Some (replicate 10 65) | None \<Rightarrow> False" by code_simp
  then obtain r c where run: "?run = Some (r, c)" by (cases ?run) auto
  have "inj_on (pl_sha256 sample_pillow) D" "\<forall>n. pl_safety sample_pillow n \<le> n" for D
    by (auto simp: sample_pillow_def inj_on_def)
  then show ?thesis using memo_serves_within_the_limit[OF _ _ _ run] run by auto
qed

end
