(* ===== verification/Conversation_Request.thy ===== *)
theory Conversation_Request
  imports Conversation_Laws Image_Fit
begin

text \<open>
  The copy of the history that is sent to a provider, \<open>adapt_history_for_provider\<close> of \<open>kolega_code/agent/conversation.py\<close> and
  \<open>_finalize_history_for_llm\<close> of \<open>kolega_code/agent/baseagent.py\<close>: images, reasoning, freeform tool calls, anchors of the hashline
  protocol and echoed placeholders. The memo of resized images is threaded through; \<open>None\<close> stands for an exception of the resizing.
  Parameters, in the record \<open>request\<close>: Pillow, the catalogue of models, the decimal digits of Unicode, \<open>str\<close> of a metadata value
  that is not a string, and the display text of a block that is neither text, thinking, reasoning nor result.
\<close>

section \<open>The target of a request\<close>

record 'i request =
  rq_pillow :: "'i pillow"
  rq_specs :: "pystr \<Rightarrow> pystr \<Rightarrow> metadata option"
  rq_digit :: "nat \<Rightarrow> nat option"
  rq_shown :: "json \<Rightarrow> pystr"
  rq_display :: "content_block \<Rightarrow> pystr"
  rq_provider :: pystr
  rq_model :: pystr
  rq_vision :: bool
  rq_protocol :: "pystr option"

text \<open>What \<open>adapt_history_for_provider\<close> computes from the messages before it rewrites them.\<close>

record survey =
  sv_dimension :: "nat option"
  sv_limit :: nat
  sv_providers :: "(pystr \<times> pystr) list"
  sv_protocols :: "(pystr \<times> pystr option) list"

definition provider_value :: "'i request \<Rightarrow> json \<Rightarrow> pystr" where
  "provider_value rq v = (case v of JStr s \<Rightarrow> s | _ \<Rightarrow> if truthy v then rq_shown rq v else [])"

section \<open>Images\<close>

definition image_placeholder :: "pystr \<Rightarrow> pystr \<Rightarrow> pystr" where
  "image_placeholder media model =
     lit ''[An image ('' @ media @ lit '') was shared earlier in this thread but is not visible to '' @ model @ lit ''.]''"

definition oversized_image_placeholder :: "pystr \<Rightarrow> pystr \<Rightarrow> pystr" where
  "oversized_image_placeholder media model =
     lit ''[An earlier image ('' @ media @ lit '') exceeded '' @ model @
     39 # lit ''s request limit and could not be resized safely, so it was omitted from this request.]''"

definition adapt_image ::
  "'i request \<Rightarrow> survey \<Rightarrow> resize_cache \<Rightarrow> pystr \<Rightarrow> pystr \<Rightarrow> pystr \<Rightarrow> (content_block \<times> bool \<times> resize_cache) option" where
  "adapt_image rq sv c kind media data =
     (if \<not> rq_vision rq then Some (TextBlock (image_placeholder media (rq_model rq)), True, c)
      else if rq_provider rq \<noteq> lit ''anthropic'' \<or> kind \<noteq> lit ''base64'' then Some (ImageBlock kind media data, False, c)
      else (case resize_base64_image_to_limit_cached (rq_pillow rq) data media (sv_limit sv) (sv_dimension sv) c of
              None \<Rightarrow> None
            | Some (r, c) \<Rightarrow>
                Some (case (rr_data r, rr_media_type r) of
                        (Some d, Some m) \<Rightarrow>
                          if \<not> rr_resized r then (ImageBlock kind media data, False, c) else (ImageBlock (lit ''base64'') m d, True, c)
                      | _ \<Rightarrow> (TextBlock (oversized_image_placeholder media (rq_model rq)), True, c))))"

text \<open>The images of a history, nested ones of the results included, and the sizes of those in base64.\<close>

fun block_images :: "content_block \<Rightarrow> content_block list" where
  "block_images (ImageBlock kind media data) = [ImageBlock kind media data]"
| "block_images (ToolResult i (ResultBlocks inner) n e x k ek) = filter is_image inner"
| "block_images b = []"

definition image_block_stats :: "message list \<Rightarrow> nat \<times> nat list" where
  "image_block_stats ms =
     (let images = concat (map block_images (concat (map message_blocks ms)))
      in (length images, map (length \<circ> image_data) (filter (\<lambda>b. image_type b = lit ''base64'') images)))"

definition count_image_blocks :: "message list \<Rightarrow> nat" where
  "count_image_blocks ms = fst (image_block_stats ms)"

definition has_image_blocks :: "conversation \<Rightarrow> bool" where
  "has_image_blocks cv = (count_image_blocks (effective_history cv) > 0)"

text \<open>The shared cap: the budget left after the images that fit, divided by the number of the others.\<close>

fun shared_limit :: "nat \<Rightarrow> nat list \<Rightarrow> nat" where
  "shared_limit budget [] = anthropic_max_image_base64_bytes"
| "shared_limit budget (n # sizes) =
     (let shared = budget div length (n # sizes)
      in if n > shared then max 4 (min anthropic_max_image_base64_bytes shared) else shared_limit (budget - n) sizes)"

definition anthropic_image_base64_limit :: "nat list \<Rightarrow> nat" where
  "anthropic_image_base64_limit sizes =
     (let projected = sort (map (\<lambda>n. min n anthropic_max_image_base64_bytes) sizes)
      in if sum_list projected \<le> anthropic_max_request_image_base64_bytes then anthropic_max_image_base64_bytes
         else shared_limit anthropic_max_request_image_base64_bytes projected)"

text \<open>The copy without images that the summariser of a compaction gets.\<close>

fun replace_image_block :: "pystr \<Rightarrow> content_block \<Rightarrow> content_block \<times> bool" where
  "replace_image_block model (ImageBlock kind media data) = (TextBlock (image_placeholder media model), True)"
| "replace_image_block model (ToolResult i (ResultBlocks inner) n e x k ek) =
     (if list_ex is_image inner
      then (tool_result_with_content (ToolResult i (ResultBlocks inner) n e x k ek)
              (ResultBlocks (map (\<lambda>b. if is_image b then TextBlock (image_placeholder (media_type b) model) else b) inner)), True)
      else (ToolResult i (ResultBlocks inner) n e x k ek, False))"
| "replace_image_block model b = (b, False)"

definition replace_image_blocks_with_placeholders :: "pystr \<Rightarrow> message list \<Rightarrow> message list" where
  "replace_image_blocks_with_placeholders model ms =
     map (\<lambda>m. if has_blocks m \<and> list_ex (snd \<circ> replace_image_block model) (message_blocks m)
              then message_with_content m (map (fst \<circ> replace_image_block model) (message_blocks m)) else m) ms"

section \<open>Reasoning and freeform calls\<close>

definition providers_replay_compatible :: "pystr \<Rightarrow> pystr \<Rightarrow> bool" where
  "providers_replay_compatible src target =
     (src \<noteq> [] \<and>
      (src = target \<or>
       src \<in> {lit ''openai'', lit ''openai_chatgpt''} \<and> target \<in> {lit ''openai'', lit ''openai_chatgpt''}))"

definition prior_reasoning_is_replayable :: "'i request \<Rightarrow> bool" where
  "prior_reasoning_is_replayable rq =
     (case rq_specs rq (rq_provider rq) (rq_model rq) of
        None \<Rightarrow> True
      | Some specs \<Rightarrow> \<not> truthy (json_get specs (lit ''drop_prior_reasoning'')))"

definition preserve_reasoning_block :: "'i request \<Rightarrow> pystr \<Rightarrow> bool" where
  "preserve_reasoning_block rq src =
     (providers_replay_compatible src (rq_provider rq) \<and> (rq_model rq = [] \<or> prior_reasoning_is_replayable rq))"

definition preserve_freeform_exchange :: "'i request \<Rightarrow> pystr \<Rightarrow> pystr option \<Rightarrow> bool" where
  "preserve_freeform_exchange rq src protocol =
     ((rq_protocol rq = None \<or> protocol = rq_protocol rq) \<and> providers_replay_compatible src (rq_provider rq))"

definition source_edit_protocol :: "'i request \<Rightarrow> pystr \<Rightarrow> metadata \<Rightarrow> pystr option" where
  "source_edit_protocol rq name metadata =
     (let v = provider_value rq (json_get metadata (lit ''edit_protocol''))
      in if v \<noteq> [] then Some v else if name = lit ''apply_patch'' then Some (lit ''codex_apply_patch'') else None)"

definition source_of :: "'i request \<Rightarrow> message \<Rightarrow> pystr" where
  "source_of rq m = provider_value rq (json_get (ms_usage_metadata m) (lit ''provider''))"

definition or_unknown :: "pystr \<Rightarrow> pystr" where
  "or_unknown src = (if src = [] then lit ''unknown provider'' else src)"

definition freeform_call_placeholder :: "pystr \<Rightarrow> pystr \<Rightarrow> content_block" where
  "freeform_call_placeholder name src =
     TextBlock (lit ''[Prior freeform tool call `'' @ name @ lit ''` from '' @ or_unknown src @ lit '' omitted for compatibility.]'')"

text \<open>The display text of the blocks of a result.\<close>

fun block_markdown :: "'i request \<Rightarrow> content_block \<Rightarrow> pystr"
  and blocks_markdown :: "'i request \<Rightarrow> content_block list \<Rightarrow> pystr list" where
  "block_markdown rq (TextBlock s) = s"
| "block_markdown rq (ThinkingBlock t sg md) = lit ''*Thinking:*'' @ [10, 10] @ lit ''```'' @ [10] @ t @ [10] @ lit ''```''"
| "block_markdown rq (RedactedThinkingBlock d) = lit ''*Redacted thinking*''"
| "block_markdown rq (ResponsesReasoningBlock a b c d) = lit ''*Reasoning*''"
| "block_markdown rq (ToolResult i content n e x k ek) =
     (if e then lit ''**Error**'' else lit ''**Result**'') @ lit '' from tool call (ID: '' @ i @ lit ''):'' @ [10, 10] @ lit ''```'' @ [10] @
     (case content of ResultText s \<Rightarrow> s | ResultBlocks inner \<Rightarrow> join_text [10, 10] (blocks_markdown rq inner)) @ [10] @ lit ''```''"
| "block_markdown rq b = rq_display rq b"
| "blocks_markdown rq [] = []"
| "blocks_markdown rq (b # bs) = block_markdown rq b # blocks_markdown rq bs"

fun freeform_result_placeholder :: "'i request \<Rightarrow> pystr \<Rightarrow> content_block \<Rightarrow> content_block" where
  "freeform_result_placeholder rq src (ToolResult i content n e x k ek) =
     TextBlock (lit ''[Prior `'' @ n @ lit ''` call from '' @ or_unknown src @ lit '' '' @
       (if e then lit ''failed'' else lit ''completed'') @ lit '': '' @
       (case content of ResultText s \<Rightarrow> s | ResultBlocks _ \<Rightarrow> block_markdown rq (ToolResult i content n e x k ek)) @ lit '']'')"
| "freeform_result_placeholder rq src b = b"

section \<open>Echoed placeholders\<close>

text \<open>
  \<open>_ECHOED_REASONING_PLACEHOLDER\<close> at the start of a text: the rest after a match. The name is a run of one to 64 characters other than
  a closing bracket and a line feed, and a closing bracket ends the match, so the run up to the first such character
  decides it.
\<close>

definition match_source_name :: "pystr \<Rightarrow> pystr option" where
  "match_source_name s =
     (let suffix = lit '' omitted for compatibility.'';
          run = takeWhile (\<lambda>ch. ch \<noteq> 93 \<and> ch \<noteq> 10) s;
          rest = dropWhile (\<lambda>ch. ch \<noteq> 93 \<and> ch \<noteq> 10) s
      in if startswith rest [93] \<and> endswith run suffix \<and> length suffix + 1 \<le> length run \<and> length run \<le> length suffix + 64
         then Some (drop 1 rest) else None)"

definition match_echoed :: "pystr \<Rightarrow> pystr option" where
  "match_echoed s =
     (let s1 = drop (length (lit ''[Prior '')) s;
          s2 = (if startswith s1 (lit ''redacted '') then drop (length (lit ''redacted '')) s1 else s1)
      in if startswith s (lit ''[Prior '') \<and> startswith s2 (lit ''reasoning from '')
         then match_source_name (drop (length (lit ''reasoning from '')) s2) else None)"

lemma match_source_name_shorter: "match_source_name s = Some rest \<Longrightarrow> length rest < length s"
proof -
  let ?r = "dropWhile (\<lambda>ch. ch \<noteq> 93 \<and> ch \<noteq> 10) s"
  assume "match_source_name s = Some rest"
  then have "rest = drop 1 ?r" "startswith ?r [93]" unfolding match_source_name_def Let_def by (simp_all split: if_splits)
  moreover have "length ?r \<le> length s" by (rule length_dropWhile_le)
  ultimately show ?thesis by (cases ?r) (simp_all add: startswith_def)
qed

lemma match_echoed_shorter:
  assumes "match_echoed s = Some rest"
  shows "length rest < length s"
proof -
  let ?s1 = "drop (length (lit ''[Prior '')) s"
  let ?s2 = "if startswith ?s1 (lit ''redacted '') then drop (length (lit ''redacted '')) ?s1 else ?s1"
  have "match_source_name (drop (length (lit ''reasoning from '')) ?s2) = Some rest"
    using assms unfolding match_echoed_def Let_def by (metis option.distinct(1))
  then have "length rest < length ?s2" using match_source_name_shorter by fastforce
  then show ?thesis by (simp split: if_splits)
qed

function scrub :: "pystr \<Rightarrow> pystr" where
  "scrub s =
     (case match_echoed s of
        Some rest \<Rightarrow> scrub rest
      | None \<Rightarrow> (case s of [] \<Rightarrow> [] | ch # cs \<Rightarrow> ch # scrub cs))"
  by auto
termination by (relation "measure length") (auto dest: match_echoed_shorter)

declare scrub.simps [simp del]

definition scrub_echoed_reasoning_placeholder :: "pystr \<Rightarrow> pystr" where
  "scrub_echoed_reasoning_placeholder s = strip (scrub s)"

section \<open>Adapting the history\<close>

text \<open>The branches of the loop over the blocks for a text, and for the text of a result.\<close>

definition adapt_text :: "pystr option \<Rightarrow> pystr \<Rightarrow> content_block list \<times> bool" where
  "adapt_text role s =
     (if role = Some (lit ''assistant'')
      then (let cleaned = scrub_echoed_reasoning_placeholder s
            in if cleaned = s then ([TextBlock s], False) else if cleaned \<noteq> [] then ([TextBlock cleaned], True) else ([], True))
      else ([TextBlock s], False))"

definition call_source :: "survey \<Rightarrow> pystr \<Rightarrow> pystr \<Rightarrow> pystr" where
  "call_source sv src i = (case map_of (sv_providers sv) i of Some p \<Rightarrow> p | None \<Rightarrow> src)"

definition call_protocol :: "'i request \<Rightarrow> survey \<Rightarrow> metadata \<Rightarrow> pystr \<Rightarrow> pystr \<Rightarrow> pystr option" where
  "call_protocol rq sv metadata i name =
     (case map_of (sv_protocols sv) i of Some p \<Rightarrow> p | None \<Rightarrow> source_edit_protocol rq name metadata)"

definition foreign_hashline_read :: "'i request \<Rightarrow> pystr \<Rightarrow> pystr option \<Rightarrow> bool" where
  "foreign_hashline_read rq name protocol =
     (name = lit ''read'' \<and> protocol = Some (lit ''hashline_v2'') \<and> rq_protocol rq \<noteq> None \<and> rq_protocol rq \<noteq> Some (lit ''hashline_v2''))"

fun adapt_block ::
    "'i request \<Rightarrow> survey \<Rightarrow> pystr \<Rightarrow> metadata \<Rightarrow> pystr option \<Rightarrow> resize_cache \<Rightarrow> content_block \<Rightarrow>
       (content_block list \<times> bool \<times> resize_cache) option"
  and adapt_content_blocks ::
    "'i request \<Rightarrow> survey \<Rightarrow> pystr \<Rightarrow> metadata \<Rightarrow> pystr option \<Rightarrow> resize_cache \<Rightarrow> content_block list \<Rightarrow>
       (content_block list \<times> bool \<times> resize_cache) option" where
  "adapt_block rq sv src md role c (ImageBlock kind media data) =
     (case adapt_image rq sv c kind media data of None \<Rightarrow> None | Some (b, changed, c) \<Rightarrow> Some ([b], changed, c))"
| "adapt_block rq sv src md role c (ToolCall i name input x kind sg) =
     Some (if kind = JsonInput \<or> preserve_freeform_exchange rq src (source_edit_protocol rq name md)
           then ([ToolCall i name input x kind sg], False, c) else ([freeform_call_placeholder name src], True, c))"
| "adapt_block rq sv src md role c (ToolResult i content n e x kind ek) =
     (if kind = FreeformInput \<and> \<not> preserve_freeform_exchange rq (call_source sv src i) (call_protocol rq sv md i n)
      then Some ([freeform_result_placeholder rq (call_source sv src i) (ToolResult i content n e x kind ek)], True, c)
      else (case content of
              ResultText s \<Rightarrow>
                Some (if kind = JsonInput \<and> foreign_hashline_read rq n (call_protocol rq sv md i n)
                      then ([ToolResult i (ResultText (strip_hashline_read_output (rq_digit rq) s False)) n e x kind ek], True, c)
                      else ([ToolResult i content n e x kind ek], False, c))
            | ResultBlocks inner \<Rightarrow>
                (case adapt_content_blocks rq sv src md None c inner of
                   None \<Rightarrow> None
                 | Some (adapted, changed, c) \<Rightarrow>
                     Some ([if changed then ToolResult i (ResultBlocks adapted) n e x kind ek else ToolResult i content n e x kind ek],
                           changed, c))))"
| "adapt_block rq sv src md role c (TextBlock s) = (case adapt_text role s of (bs, changed) \<Rightarrow> Some (bs, changed, c))"
| "adapt_block rq sv src md role c b = Some (if preserve_reasoning_block rq src then ([b], False, c) else ([], True, c))"
| "adapt_content_blocks rq sv src md role c [] = Some ([], False, c)"
| "adapt_content_blocks rq sv src md role c (b # bs) =
     (case adapt_block rq sv src md role c b of
        None \<Rightarrow> None
      | Some (out, changed, c) \<Rightarrow>
          (case adapt_content_blocks rq sv src md role c bs of
             None \<Rightarrow> None
           | Some (outs, changed', c) \<Rightarrow> Some (out @ outs, changed \<or> changed', c)))"

text \<open>The limits of the images and the dictionaries of the calls; a later call with the same identifier wins.\<close>

definition survey_call :: "'i request \<Rightarrow> message \<Rightarrow> content_block \<Rightarrow> survey \<Rightarrow> survey" where
  "survey_call rq m b sv =
     sv\<lparr>sv_providers := dict_set (tc_id b) (source_of rq m) (sv_providers sv),
        sv_protocols := dict_set (tc_id b) (source_edit_protocol rq (tc_name b) (ms_usage_metadata m)) (sv_protocols sv)\<rparr>"

definition survey_message :: "'i request \<Rightarrow> message \<Rightarrow> survey \<Rightarrow> survey" where
  "survey_message rq m sv = fold (survey_call rq m) (filter is_tool_call (message_blocks m)) sv"

definition survey_images :: "'i request \<Rightarrow> message list \<Rightarrow> survey" where
  "survey_images rq ms =
     (if rq_provider rq = lit ''anthropic'' \<and> rq_vision rq
      then (case image_block_stats ms of
              (images, sizes) \<Rightarrow>
                \<lparr>sv_dimension = Some (if images > 20 then 2000 else 8000), sv_limit = anthropic_image_base64_limit sizes,
                 sv_providers = [], sv_protocols = []\<rparr>)
      else \<lparr>sv_dimension = None, sv_limit = anthropic_max_image_base64_bytes, sv_providers = [], sv_protocols = []\<rparr>)"

definition survey_history :: "'i request \<Rightarrow> message list \<Rightarrow> survey" where
  "survey_history rq ms = fold (survey_message rq) ms (survey_images rq ms)"

text \<open>The second loop; an emptied message is left out.\<close>

fun adapt_messages :: "'i request \<Rightarrow> survey \<Rightarrow> resize_cache \<Rightarrow> message list \<Rightarrow> (message list \<times> resize_cache) option" where
  "adapt_messages rq sv c [] = Some ([], c)"
| "adapt_messages rq sv c (m # ms) =
     (case (if has_blocks m
            then adapt_content_blocks rq sv (source_of rq m) (ms_usage_metadata m) (Some (ms_role m)) c (message_blocks m)
            else Some ([], False, c)) of
        None \<Rightarrow> None
      | Some (bs, changed, c) \<Rightarrow>
          (case adapt_messages rq sv c ms of
             None \<Rightarrow> None
           | Some (ms', c) \<Rightarrow>
               Some (if changed \<and> bs = [] then ms' else (if changed then message_with_content m bs else m) # ms', c)))"

definition adapt_history_for_provider :: "'i request \<Rightarrow> resize_cache \<Rightarrow> message list \<Rightarrow> (message list \<times> resize_cache) option" where
  "adapt_history_for_provider rq c ms = adapt_messages rq (survey_history rq ms) c ms"

definition finalize_history_for_llm :: "'i request \<Rightarrow> resize_cache \<Rightarrow> message list \<Rightarrow> (message list \<times> resize_cache) option" where
  "finalize_history_for_llm rq c effective = adapt_history_for_provider rq c (repaired effective)"

definition history_for_llm :: "'i request \<Rightarrow> resize_cache \<Rightarrow> conversation \<Rightarrow> (message list \<times> resize_cache) option" where
  "history_for_llm rq c cv = finalize_history_for_llm rq c (effective_history cv)"

end
