(* ===== verification/Request_Laws.thy ===== *)
theory Request_Laws
  imports Conversation_Request
begin

text \<open>
  The laws of a request: it is always built, shows its target only what that accepts, keeps every tool call answered and the
  images within the limits of Anthropic.
\<close>

section \<open>Adapting never raises\<close>

lemma resize_total: "0 < limit \<Longrightarrow> dim \<noteq> Some 0 \<Longrightarrow> \<exists>r. resize_base64_image_to_limit pl data media limit dim = Some r"
  by (simp add: resize_base64_image_to_limit_def Let_def)

lemma cached_total:
  "0 < limit \<Longrightarrow> dim \<noteq> Some 0 \<Longrightarrow> \<exists>r c'. resize_base64_image_to_limit_cached pl data media limit dim c = Some (r, c')"
  using resize_total[of limit dim pl data media]
  by (auto simp: resize_base64_image_to_limit_cached_def split: option.split prod.split)

definition limits_ok :: "survey \<Rightarrow> bool" where
  "limits_ok sv \<longleftrightarrow> 0 < sv_limit sv \<and> sv_dimension sv \<noteq> Some 0"

lemma adapt_image_total:
  assumes "limits_ok sv"
  shows "\<exists>b changed c'. adapt_image rq sv c kind media data = Some (b, changed, c')"
proof -
  obtain r c' where "resize_base64_image_to_limit_cached (rq_pillow rq) data media (sv_limit sv) (sv_dimension sv) c = Some (r, c')"
    using assms cached_total unfolding limits_ok_def by blast
  then show ?thesis by (auto simp: adapt_image_def split: option.split)
qed

lemma adapt_total:
  "limits_ok sv \<Longrightarrow> \<exists>out. adapt_block rq sv src md role c b = Some out"
  "limits_ok sv \<Longrightarrow> \<exists>out. adapt_content_blocks rq sv src md role c bs = Some out"
proof (induction rq sv src md role c b and rq sv src md role c bs rule: adapt_block_adapt_content_blocks.induct)
  case (1 rq sv src md role c kind media data)
  then show ?case using adapt_image_total[of sv rq c kind media data] by auto
next
  case (3 rq sv src md role c i content n e x kind ek)
  then show ?case by (fastforce split: result_content.split option.split prod.split)
next
  case (7 rq sv src md role c b bs)
  then show ?case by (fastforce split: option.split prod.split)
qed (auto split: prod.split)

lemma shared_limit_bounds: "4 \<le> shared_limit budget sizes" "shared_limit budget sizes \<le> anthropic_max_image_base64_bytes"
  by (induction budget sizes rule: shared_limit.induct) (auto simp: Let_def anthropic_max_image_base64_bytes_def)

lemma image_limit_bounds:
  "4 \<le> anthropic_image_base64_limit sizes" "anthropic_image_base64_limit sizes \<le> anthropic_max_image_base64_bytes"
  using shared_limit_bounds by (auto simp: anthropic_image_base64_limit_def Let_def anthropic_max_image_base64_bytes_def)

lemma survey_call_simps [simp]:
  "sv_limit (survey_call rq m b sv) = sv_limit sv" "sv_dimension (survey_call rq m b sv) = sv_dimension sv"
  by (simp_all add: survey_call_def)

lemma survey_message_simps [simp]:
  "sv_limit (survey_message rq m sv) = sv_limit sv" "sv_dimension (survey_message rq m sv) = sv_dimension sv"
proof -
  have "sv_limit (fold (survey_call rq m) bs sv) = sv_limit sv" "sv_dimension (fold (survey_call rq m) bs sv) = sv_dimension sv" for bs
    by (induction bs arbitrary: sv) simp_all
  then show "sv_limit (survey_message rq m sv) = sv_limit sv" "sv_dimension (survey_message rq m sv) = sv_dimension sv"
    by (simp_all add: survey_message_def)
qed

lemma survey_history_simps:
  "sv_limit (survey_history rq ms) = sv_limit (survey_images rq ms)" "sv_dimension (survey_history rq ms) = sv_dimension (survey_images rq ms)"
proof -
  have "sv_limit (fold (survey_message rq) ns sv) = sv_limit sv" "sv_dimension (fold (survey_message rq) ns sv) = sv_dimension sv" for ns sv
    by (induction ns arbitrary: sv) simp_all
  then show "sv_limit (survey_history rq ms) = sv_limit (survey_images rq ms)" "sv_dimension (survey_history rq ms) = sv_dimension (survey_images rq ms)"
    by (simp_all add: survey_history_def)
qed

lemma survey_limits_ok: "limits_ok (survey_history rq ms)"
proof -
  have "0 < anthropic_image_base64_limit sizes" for sizes using image_limit_bounds(1)[of sizes] by linarith
  then show ?thesis
    unfolding limits_ok_def survey_history_simps by (auto simp: survey_images_def anthropic_max_image_base64_bytes_def split: prod.split)
qed

lemma adapt_messages_total: "limits_ok sv \<Longrightarrow> \<exists>out. adapt_messages rq sv c ms = Some out"
proof (induction ms arbitrary: c)
  case (Cons m ms)
  let ?own = "if has_blocks m then adapt_content_blocks rq sv (source_of rq m) (ms_usage_metadata m) (Some (ms_role m)) c (message_blocks m)
    else Some ([], False, c)"
  obtain bs changed c1 where own: "?own = Some (bs, changed, c1)"
    using adapt_total(2)[OF Cons.prems, of rq "source_of rq m" "ms_usage_metadata m" "Some (ms_role m)" c "message_blocks m"]
    by (metis prod_cases3)
  obtain ms' c2 where "adapt_messages rq sv c1 ms = Some (ms', c2)" using Cons.IH[OF Cons.prems] by (metis prod.exhaust)
  then show ?case using own by simp
qed simp

section \<open>Budgets of the images\<close>

lemma shared_limit_budget:
  "sorted sizes \<Longrightarrow> 4 * length sizes \<le> budget \<Longrightarrow> sum_list (map (min (shared_limit budget sizes)) sizes) \<le> budget"
proof (induction budget sizes rule: shared_limit.induct)
  case (2 budget n sizes)
  let ?k = "length (n # sizes)" and ?shared = "budget div length (n # sizes)"
  have le: "?k * ?shared \<le> budget" by (rule times_div_less_eq_dividend)
  have four: "4 \<le> ?shared" using 2(3) by (simp add: less_eq_div_iff_mult_less_eq mult.commute)
  show ?case
  proof (cases "n > ?shared")
    case True
    define limit where "limit = shared_limit budget (n # sizes)"
    have l: "limit \<le> ?shared" unfolding limit_def using True four by (simp add: Let_def)
    have "sum_list (map (min limit) (n # sizes)) \<le> sum_list (map (\<lambda>_. limit) (n # sizes))" by (rule sum_list_mono) simp
    also have "\<dots> = ?k * limit" by (simp add: sum_list_triv)
    also have "\<dots> \<le> ?k * ?shared" using l by (rule mult_le_mono2)
    finally show ?thesis using le unfolding limit_def by linarith
  next
    case False
    then have lim: "shared_limit budget (n # sizes) = shared_limit (budget - n) sizes" by (simp add: Let_def)
    have n: "n \<le> ?shared" using False by simp
    have "length sizes * 4 \<le> length sizes * ?shared" using four by (rule mult_le_mono2)
    moreover have "?k * ?shared = ?shared + length sizes * ?shared" by simp
    ultimately have "4 * length sizes \<le> budget - n" using n le by linarith
    then have "sum_list (map (min (shared_limit (budget - n) sizes)) sizes) \<le> budget - n"
      using 2(1)[OF refl] False 2(2) by simp
    moreover have "n \<le> budget" using n by (meson div_le_dividend le_trans)
    moreover have "min (shared_limit (budget - n) sizes) n \<le> n" by simp
    ultimately show ?thesis unfolding lim list.map sum_list.Cons by linarith
  qed
qed simp

lemma image_limit_budget:
  assumes "4 * length sizes \<le> anthropic_max_request_image_base64_bytes"
  shows "sum_list (map (min (anthropic_image_base64_limit sizes)) sizes) \<le> anthropic_max_request_image_base64_bytes"
proof -
  let ?per = anthropic_max_image_base64_bytes and ?all = anthropic_max_request_image_base64_bytes
  let ?p = "map (\<lambda>n. min n ?per) sizes" and ?limit = "anthropic_image_base64_limit sizes"
  have sorted: "sum_list (map f (sort xs)) = sum_list (map f xs)" for f :: "nat \<Rightarrow> nat" and xs
    by (metis mset_map mset_sort sum_mset_sum_list)
  have "min ?limit n = min ?limit (min n ?per)" for n using image_limit_bounds(2)[of sizes] by (simp add: min_def)
  then have "sum_list (map (min ?limit) sizes) = sum_list (map (min ?limit) ?p)" by (simp add: comp_def)
  also have "\<dots> \<le> ?all"
  proof (cases "sum_list (sort ?p) \<le> ?all")
    case True
    have "sum_list (map (min ?limit) ?p) \<le> sum_list ?p"
      using sum_list_mono[of ?p "min ?limit" "\<lambda>x. x"] by simp
    then show ?thesis using True sorted[of "\<lambda>x. x" ?p] by simp
  next
    case False
    then have "?limit = shared_limit ?all (sort ?p)" by (simp add: anthropic_image_base64_limit_def Let_def)
    then show ?thesis using shared_limit_budget[of "sort ?p" ?all] assms sorted[of "min ?limit" ?p] by simp
  qed
  finally show ?thesis .
qed

section \<open>What a request shows\<close>

text \<open>A pass that reports no change returns its input.\<close>

lemma adapt_image_unchanged: "adapt_image rq sv c kind media data = Some (b, False, c') \<Longrightarrow> b = ImageBlock kind media data"
  by (auto simp: adapt_image_def split: if_splits option.splits)

lemma adapt_text_unchanged: "adapt_text role s = (bs, False) \<Longrightarrow> bs = [TextBlock s]"
  by (auto simp: adapt_text_def Let_def split: if_splits)

lemma adapt_unchanged:
  "adapt_block rq sv src md role c b = Some (out, False, c') \<Longrightarrow> out = [b]"
  "adapt_content_blocks rq sv src md role c bs = Some (outs, False, c') \<Longrightarrow> outs = bs"
proof (induction rq sv src md role c b and rq sv src md role c bs arbitrary: out c' and outs c' rule: adapt_block_adapt_content_blocks.induct)
  case (7 rq sv src md role c b bs)
  then obtain o1 c1 o2 where "adapt_block rq sv src md role c b = Some (o1, False, c1)"
      "adapt_content_blocks rq sv src md role c1 bs = Some (o2, False, c')" "outs = o1 @ o2"
    by (auto split: option.splits prod.splits)
  then show ?case using 7 by fastforce
qed (auto split: if_splits option.splits prod.splits result_content.splits dest: adapt_image_unchanged adapt_text_unchanged)

text \<open>What the target may be shown: images only if it sees them, reasoning and freeform calls only if they can be replayed.\<close>

fun acceptable :: "'i request \<Rightarrow> pystr \<Rightarrow> metadata \<Rightarrow> content_block \<Rightarrow> bool"
  and all_acceptable :: "'i request \<Rightarrow> pystr \<Rightarrow> metadata \<Rightarrow> content_block list \<Rightarrow> bool" where
  "acceptable rq src md (ImageBlock kind media data) = rq_vision rq"
| "acceptable rq src md (ToolCall i name input x kind sg) =
     (kind = JsonInput \<or> preserve_freeform_exchange rq src (source_edit_protocol rq name md))"
| "acceptable rq src md (ToolResult i content n e x k ek) =
     (case content of ResultText s \<Rightarrow> True | ResultBlocks inner \<Rightarrow> all_acceptable rq src md inner)"
| "acceptable rq src md (TextBlock s) = True"
| "acceptable rq src md b = preserve_reasoning_block rq src"
| "all_acceptable rq src md [] = True"
| "all_acceptable rq src md (b # bs) = (acceptable rq src md b \<and> all_acceptable rq src md bs)"

lemma all_acceptable_append [simp]:
  "all_acceptable rq src md (xs @ ys) \<longleftrightarrow> all_acceptable rq src md xs \<and> all_acceptable rq src md ys"
  by (induction xs) auto

lemma adapt_image_acceptable: "adapt_image rq sv c kind media data = Some (b, changed, c') \<Longrightarrow> acceptable rq src md b"
  by (auto simp: adapt_image_def split: if_splits option.splits)

lemma adapt_text_acceptable: "adapt_text role s = (bs, changed) \<Longrightarrow> all_acceptable rq src md bs"
  by (auto simp: adapt_text_def Let_def split: if_splits)

lemma placeholder_acceptable:
  "acceptable rq src md (freeform_result_placeholder rq p (ToolResult i content n e x k ek))"
  "acceptable rq src md (freeform_call_placeholder name p)"
  by (simp_all add: freeform_call_placeholder_def)

lemma adapt_acceptable:
  "adapt_block rq sv src md role c b = Some (out, changed, c') \<Longrightarrow> all_acceptable rq src md out"
  "adapt_content_blocks rq sv src md role c bs = Some (outs, changed, c') \<Longrightarrow> all_acceptable rq src md outs"
proof (induction rq sv src md role c b and rq sv src md role c bs arbitrary: out changed c' and outs changed c'
    rule: adapt_block_adapt_content_blocks.induct)
  case (3 rq sv src md role c i content n e x kind ek)
  show ?case
  proof (cases "kind = FreeformInput \<and> \<not> preserve_freeform_exchange rq (call_source sv src i) (call_protocol rq sv md i n)")
    case True
    then show ?thesis using 3 placeholder_acceptable(1) by (auto simp del: freeform_result_placeholder.simps)
  next
    case False
    show ?thesis
    proof (cases content)
      case (ResultText s)
      then show ?thesis using 3 False by (auto split: if_splits)
    next
      case (ResultBlocks inner)
      have shape: "adapt_block rq sv src md role c (ToolResult i content n e x kind ek) =
          (case adapt_content_blocks rq sv src md None c inner of None \<Rightarrow> None | Some (adapted, changed, c) \<Rightarrow>
             Some ([if changed then ToolResult i (ResultBlocks adapted) n e x kind ek else ToolResult i content n e x kind ek], changed, c))"
        by (simp only: adapt_block.simps if_not_P[OF False] ResultBlocks result_content.case)
      then obtain adapted where a: "adapt_content_blocks rq sv src md None c inner = Some (adapted, changed, c')"
          "out = [if changed then ToolResult i (ResultBlocks adapted) n e x kind ek else ToolResult i content n e x kind ek]"
        using 3(2) by (auto split: option.splits)
      have "adapted = inner" if "\<not> changed" using adapt_unchanged(2) a(1) that by auto
      then have "out = [ToolResult i (ResultBlocks adapted) n e x kind ek]" using a(2) ResultBlocks by auto
      moreover have "all_acceptable rq src md adapted" using 3(1)[OF False ResultBlocks a(1)] .
      ultimately show ?thesis by simp
    qed
  qed
next
  case (7 rq sv src md role c b bs)
  then show ?case by (fastforce split: option.splits prod.splits)
qed (auto split: if_splits option.splits prod.splits
    dest: adapt_image_acceptable adapt_text_acceptable simp: placeholder_acceptable(2))

text \<open>One message of the second loop: what it leaves, if anything.\<close>

lemma message_with_content_simps [simp]:
  "ms_role (message_with_content m bs) = ms_role m" "message_blocks (message_with_content m bs) = bs" "has_blocks (message_with_content m bs)"
  "ms_usage_metadata (message_with_content m bs) = ms_usage_metadata m" "source_of rq (message_with_content m bs) = source_of rq m"
  by (simp_all add: message_with_content_def message_blocks_def has_blocks_def source_of_def)

lemma adapt_messages_ConsE:
  assumes "adapt_messages rq sv c (m # ms) = Some (out, c')"
  obtains (plain) rest where "\<not> has_blocks m" "out = m # rest" "adapt_messages rq sv c ms = Some (rest, c')"
  | (blocks) bs changed c1 rest where "has_blocks m"
      "adapt_content_blocks rq sv (source_of rq m) (ms_usage_metadata m) (Some (ms_role m)) c (message_blocks m) = Some (bs, changed, c1)"
      "adapt_messages rq sv c1 ms = Some (rest, c')"
      "out = (if changed \<and> bs = [] then rest else (if changed then message_with_content m bs else m) # rest)"
  using assms by (cases "has_blocks m") (auto split: option.splits prod.splits if_splits)

lemma adapt_messages_acceptable:
  "adapt_messages rq sv c ms = Some (out, c') \<Longrightarrow> m \<in> set out \<Longrightarrow> all_acceptable rq (source_of rq m) (ms_usage_metadata m) (message_blocks m)"
proof (induction ms arbitrary: c out)
  case (Cons m0 ms)
  from Cons.prems(1) show ?case
  proof (cases rule: adapt_messages_ConsE)
    case (plain rest)
    have "message_blocks m0 = []" using plain(1) by (simp add: has_blocks_def message_blocks_def split: message_content.splits)
    then show ?thesis using plain Cons by auto
  next
    case (blocks bs changed c1 rest)
    note ok = adapt_acceptable(2)[OF blocks(2)]
    have "bs = message_blocks m0" if "\<not> changed" using adapt_unchanged(2) blocks(2) that by auto
    then have "all_acceptable rq (source_of rq m0) (ms_usage_metadata m0) (message_blocks m0)" if "\<not> changed" using ok that by simp
    then show ?thesis using ok blocks(3,4) Cons by (auto split: if_splits)
  qed
qed simp

text \<open>
  C17: a request shows its target only what it accepts, at every depth of tool results: an image only to a model that sees
  images, reasoning only from a provider whose reasoning the target replays, a freeform tool call only from a compatible
  provider and edit protocol.
\<close>

theorem request_shows_only_what_the_target_accepts:
  assumes "adapt_history_for_provider rq c ms = Some (out, c')" "m \<in> set out"
  shows "all_acceptable rq (source_of rq m) (ms_usage_metadata m) (message_blocks m)"
  using adapt_messages_acceptable assms unfolding adapt_history_for_provider_def by blast

section \<open>A request is valid\<close>

definition calls_in :: "message \<Rightarrow> content_block list" where
  "calls_in m = filter is_tool_call (message_blocks m)"

definition all_calls :: "message list \<Rightarrow> content_block list" where
  "all_calls ms = concat (map calls_in ms)"

lemma find_by_key: "distinct (map f xs) \<Longrightarrow> x \<in> set xs \<Longrightarrow> find (\<lambda>y. f y = f x) xs = Some x"
  by (induction xs) auto

lemma find_no_key: "k \<notin> f ` set xs \<Longrightarrow> find (\<lambda>y. f y = k) xs = None"
  by (induction xs) auto

text \<open>The survey records each call under its identifier.\<close>

lemma survey_call_maps:
  "map_of (sv_providers (fold (survey_call rq m) cs sv)) i =
     (if i \<in> tc_id ` set cs then Some (source_of rq m) else map_of (sv_providers sv) i)"
  by (induction cs arbitrary: sv) (auto simp: survey_call_def)

lemma survey_call_protocols:
  "distinct (map tc_id cs) \<Longrightarrow> map_of (sv_protocols (fold (survey_call rq m) cs sv)) i =
     (case find (\<lambda>b. tc_id b = i) cs of
        Some b \<Rightarrow> Some (source_edit_protocol rq (tc_name b) (ms_usage_metadata m)) | None \<Rightarrow> map_of (sv_protocols sv) i)"
proof (induction cs arbitrary: sv)
  case (Cons b cs)
  have "find (\<lambda>b. tc_id b = i) cs = None" if "tc_id b = i" using Cons.prems that by (intro find_no_key) auto
  then show ?case using Cons by (auto simp: survey_call_def split: option.split)
qed simp

definition recorded :: "'i request \<Rightarrow> survey \<Rightarrow> message \<Rightarrow> content_block \<Rightarrow> bool" where
  "recorded rq sv m b \<longleftrightarrow>
     map_of (sv_providers sv) (tc_id b) = Some (source_of rq m) \<and>
     map_of (sv_protocols sv) (tc_id b) = Some (source_edit_protocol rq (tc_name b) (ms_usage_metadata m))"

lemma survey_message_new:
  assumes "distinct (map tc_id (calls_in m))" "b \<in> set (calls_in m)"
  shows "recorded rq (survey_message rq m sv) m b"
proof -
  have "find (\<lambda>b'. tc_id b' = tc_id b) (calls_in m) = Some b"
    by (rule find_by_key[OF assms])
  then show ?thesis using assms survey_call_protocols[of "calls_in m" rq m sv] survey_call_maps[of rq m "calls_in m" sv]
    by (auto simp: recorded_def survey_message_def calls_in_def)
qed

lemma survey_message_old:
  assumes "recorded rq sv m b" "tc_id b \<notin> tc_id ` set (calls_in m')" "distinct (map tc_id (calls_in m'))"
  shows "recorded rq (survey_message rq m' sv) m b"
proof -
  have "find (\<lambda>b'. tc_id b' = tc_id b) (calls_in m') = None" by (rule find_no_key[OF assms(2)])
  then show ?thesis using assms survey_call_protocols[of "calls_in m'" rq m' sv] survey_call_maps[of rq m' "calls_in m'" sv]
    by (auto simp: recorded_def survey_message_def calls_in_def)
qed

lemma fold_survey_old:
  "recorded rq sv m b \<Longrightarrow> tc_id b \<notin> tc_id ` set (all_calls ms) \<Longrightarrow> distinct (map tc_id (all_calls ms)) \<Longrightarrow>
     recorded rq (fold (survey_message rq) ms sv) m b"
  by (induction ms arbitrary: sv) (auto simp: all_calls_def intro: survey_message_old)

lemma fold_survey_recorded:
  "distinct (map tc_id (all_calls ms)) \<Longrightarrow> m \<in> set ms \<Longrightarrow> b \<in> set (calls_in m) \<Longrightarrow> recorded rq (fold (survey_message rq) ms sv) m b"
proof (induction ms arbitrary: sv)
  case (Cons m0 ms)
  have d: "distinct (map tc_id (all_calls ms))" "distinct (map tc_id (calls_in m0))"
    "tc_id ` set (calls_in m0) \<inter> tc_id ` set (all_calls ms) = {}"
    using Cons.prems(1) by (auto simp: all_calls_def)
  show ?case
  proof (cases "m \<in> set ms")
    case True
    then show ?thesis using Cons.IH d(1) Cons.prems(3) by simp
  next
    case False
    then have "m = m0" using Cons.prems(2) by simp
    then show ?thesis using Cons.prems(3) d survey_message_new[of m0 b rq sv] fold_survey_old[of rq "survey_message rq m0 sv" m0 b ms] by auto
  qed
qed simp

text \<open>Kept calls are calls of the message; a result whose exchange is kept stays a result, and no result vanishes.\<close>

definition keeps_result :: "'i request \<Rightarrow> survey \<Rightarrow> pystr \<Rightarrow> metadata \<Rightarrow> content_block \<Rightarrow> bool" where
  "keeps_result rq sv src md b \<longleftrightarrow>
     (tr_kind b = JsonInput \<or> preserve_freeform_exchange rq (call_source sv src (tr_use_id b)) (call_protocol rq sv md (tr_use_id b) (tr_name b)))"

lemma adapt_block_results:
  assumes "adapt_block rq sv src md role c b = Some (out, changed, c')" "is_tool_result b"
  shows "out \<noteq> []" "keeps_result rq sv src md b \<Longrightarrow> \<exists>r \<in> set out. is_tool_result r \<and> tr_use_id r = tr_use_id b"
proof -
  obtain i content n e x kind ek where b: "b = ToolResult i content n e x kind ek" using assms(2) by (cases b) auto
  let ?foreign = "kind = FreeformInput \<and> \<not> preserve_freeform_exchange rq (call_source sv src i) (call_protocol rq sv md i n)"
  have "\<exists>r. out = [r] \<and> (?foreign \<or> is_tool_result r \<and> tr_use_id r = i)"
  proof (cases ?foreign)
    case True
    then show ?thesis using assms(1) unfolding b adapt_block.simps if_P[OF True] by auto
  next
    case False
    then show ?thesis using assms(1) unfolding b adapt_block.simps if_not_P[OF False]
      by (cases content) (auto split: if_splits option.splits)
  qed
  then show "out \<noteq> []" "keeps_result rq sv src md b \<Longrightarrow> \<exists>r \<in> set out. is_tool_result r \<and> tr_use_id r = tr_use_id b"
    by (auto simp: keeps_result_def b)
qed

lemma adapt_image_plain: "adapt_image rq sv c kind media data = Some (b, changed, c') \<Longrightarrow> \<not> is_tool_call b"
  by (auto simp: adapt_image_def split: if_splits option.splits)

lemma adapt_text_plain: "adapt_text role s = (bs, changed) \<Longrightarrow> b \<in> set bs \<Longrightarrow> \<not> is_tool_call b"
  by (auto simp: adapt_text_def Let_def split: if_splits)

lemma adapt_block_calls:
  "adapt_block rq sv src md role c b = Some (out, changed, c') \<Longrightarrow> x \<in> set out \<Longrightarrow> is_tool_call x \<Longrightarrow>
     x = b \<and> (tc_kind b = JsonInput \<or> preserve_freeform_exchange rq src (source_edit_protocol rq (tc_name b) md))"
  by (cases b) (auto split: if_splits option.splits prod.splits result_content.splits
      simp: freeform_call_placeholder_def dest: adapt_image_plain adapt_text_plain)

lemma adapt_blocks_calls:
  "adapt_content_blocks rq sv src md role c bs = Some (out, changed, c') \<Longrightarrow> x \<in> set out \<Longrightarrow> is_tool_call x \<Longrightarrow>
     x \<in> set bs \<and> (tc_kind x = JsonInput \<or> preserve_freeform_exchange rq src (source_edit_protocol rq (tc_name x) md))"
proof (induction bs arbitrary: c out changed)
  case (Cons b bs)
  obtain o1 ch1 c1 o2 ch2 where "adapt_block rq sv src md role c b = Some (o1, ch1, c1)"
      "adapt_content_blocks rq sv src md role c1 bs = Some (o2, ch2, c')" "out = o1 @ o2"
    using Cons.prems(1) by (auto split: option.splits prod.splits)
  then show ?case using Cons.IH adapt_block_calls Cons.prems(2,3) by fastforce
qed simp

lemma adapt_blocks_results:
  "adapt_content_blocks rq sv src md role c bs = Some (out, changed, c') \<Longrightarrow> b \<in> set bs \<Longrightarrow> is_tool_result b \<Longrightarrow>
     out \<noteq> [] \<and> (keeps_result rq sv src md b \<longrightarrow> (\<exists>r \<in> set out. is_tool_result r \<and> tr_use_id r = tr_use_id b))"
proof (induction bs arbitrary: c out changed)
  case (Cons b0 bs)
  obtain o1 ch1 c1 o2 ch2 where a: "adapt_block rq sv src md role c b0 = Some (o1, ch1, c1)"
      "adapt_content_blocks rq sv src md role c1 bs = Some (o2, ch2, c')" "out = o1 @ o2"
    using Cons.prems(1) by (auto split: option.splits prod.splits)
  then show ?case using Cons.IH[OF a(2)] adapt_block_results[OF a(1)] Cons.prems(2,3) by auto
qed simp

text \<open>A call and the results under its identifier have the same kind of input.\<close>

definition kinds_agree :: "content_block set \<Rightarrow> bool" where
  "kinds_agree S \<longleftrightarrow>
     (\<forall>b \<in> S. \<forall>r \<in> S. is_tool_call b \<and> is_tool_result r \<and> tr_use_id r = tc_id b \<longrightarrow> tr_kind r = tc_kind b)"

lemma kinds_agree_mono: "kinds_agree S \<Longrightarrow> T \<subseteq> S \<Longrightarrow> kinds_agree T"
  unfolding kinds_agree_def by blast

lemma adapted_message_blocks:
  assumes "adapt_content_blocks rq sv src md role c (message_blocks m) = Some (bs, changed, c1)"
  shows "message_blocks (if changed then message_with_content m bs else m) = bs"
  using adapt_unchanged(2)[of rq sv src md role c "message_blocks m" bs c1] assms by (cases changed) auto

lemma keeps_result_of_call:
  assumes "recorded rq sv m b" "tr_use_id r = tc_id b" "tr_kind r = tc_kind b"
    "tc_kind b = JsonInput \<or> preserve_freeform_exchange rq (source_of rq m) (source_edit_protocol rq (tc_name b) (ms_usage_metadata m))"
  shows "keeps_result rq sv src md r"
  using assms by (auto simp: keeps_result_def recorded_def call_source_def call_protocol_def)

lemma adapt_messages_user:
  assumes "adapt_messages rq sv c (m # ms) = Some (out, c')" "user_blocks m" "r0 \<in> set (message_blocks m)" "is_tool_result r0"
  obtains m' rest where "out = m' # rest" "user_blocks m'"
    "\<And>r. r \<in> set (message_blocks m) \<Longrightarrow> is_tool_result r \<Longrightarrow> keeps_result rq sv (source_of rq m) (ms_usage_metadata m) r \<Longrightarrow>
       \<exists>r' \<in> set (message_blocks m'). is_tool_result r' \<and> tr_use_id r' = tr_use_id r"
  using assms(1)
proof (cases rule: adapt_messages_ConsE)
  case (plain rest)
  then show ?thesis using assms(2) by (simp add: user_blocks_def)
next
  case (blocks bs changed c1 rest)
  note res = adapt_blocks_results[OF blocks(2)]
  let ?m = "if changed then message_with_content m bs else m"
  have "bs \<noteq> []" using res[OF assms(3,4)] by simp
  then have "out = ?m # rest" using blocks(4) by simp
  moreover have "message_blocks ?m = bs" by (rule adapted_message_blocks[OF blocks(2)])
  moreover have "user_blocks ?m" using assms(2) by (simp add: user_blocks_def)
  ultimately show ?thesis using that res by metis
qed

lemma adapt_messages_valid:
  assumes "\<And>m b. m \<in> set ms \<Longrightarrow> b \<in> set (calls_in m) \<Longrightarrow> recorded rq sv m b" "kinds_agree (set (all_blocks ms))"
  shows "is_valid_for_anthropic ms \<Longrightarrow> adapt_messages rq sv c ms = Some (out, c') \<Longrightarrow> is_valid_for_anthropic out"
  using assms
proof (induction ms arbitrary: c out)
  case (Cons m ms)
  have IH: "is_valid_for_anthropic rest" if "adapt_messages rq sv c1 ms = Some (rest, c')" for c1 rest
  proof (rule Cons.IH[OF _ that])
    show "is_valid_for_anthropic ms" using Cons.prems(1) by simp
    show "kinds_agree (set (all_blocks ms))" by (rule kinds_agree_mono[OF Cons.prems(4)]) (auto simp: all_blocks_def)
  qed (use Cons.prems(3) in simp)
  from Cons.prems(2) show ?case
  proof (cases rule: adapt_messages_ConsE)
    case (plain rest)
    have "calls_of m = []" using plain(1) by (simp add: has_blocks_def calls_of_def message_blocks_def split: message_content.splits)
    then show ?thesis using plain IH by simp
  next
    case (blocks bs changed c1 rest)
    let ?m = "if changed then message_with_content m bs else m"
    have m: "message_blocks ?m = bs" "ms_role ?m = ms_role m" using adapted_message_blocks[OF blocks(2)] by auto
    show ?thesis
    proof (cases "changed \<and> bs = [] \<or> calls_of ?m = []")
      case True
      then show ?thesis using blocks(4) IH[OF blocks(3)] by auto
    next
      case False
      have calls: "x \<in> set (calls_of m) \<and> (tc_kind x = JsonInput \<or>
          preserve_freeform_exchange rq (source_of rq m) (source_edit_protocol rq (tc_name x) (ms_usage_metadata m)))"
        if "x \<in> set (calls_of ?m)" for x
        using that adapt_blocks_calls[OF blocks(2)] unfolding calls_of_def m by (auto split: if_splits)
      obtain x0 where x0: "x0 \<in> set (calls_of ?m)" using False by (cases "calls_of ?m") auto
      then have "calls_of m \<noteq> []" using calls[OF x0] by auto
      then obtain n ms2 where ms: "ms = n # ms2" "user_blocks n"
          "tc_id ` set (calls_of m) \<subseteq> tr_use_id ` set (filter is_tool_result (message_blocks n))"
        using Cons.prems(1) by (cases ms) auto
      have res: "\<exists>r \<in> set (message_blocks n). is_tool_result r \<and> tr_use_id r = tc_id x \<and>
          keeps_result rq sv (source_of rq n) (ms_usage_metadata n) r" if x: "x \<in> set (calls_of ?m)" for x
      proof -
        obtain r where r: "r \<in> set (message_blocks n)" "is_tool_result r" "tr_use_id r = tc_id x"
          using subsetD[OF ms(3) imageI[OF conjunct1[OF calls[OF x]]]] by (auto simp: image_iff)
        have x': "x \<in> set (message_blocks m)" "is_tool_call x" using calls[OF x] by (auto simp: calls_of_def split: if_splits)
        then have "tr_kind r = tc_kind x" using Cons.prems(4) r ms(1) by (auto simp: kinds_agree_def all_blocks_def)
        moreover have "recorded rq sv m x" using Cons.prems(3)[of m x] x' by (simp add: calls_in_def)
        ultimately show ?thesis using r keeps_result_of_call calls[OF x] by blast
      qed
      obtain r0 where "r0 \<in> set (message_blocks n)" "is_tool_result r0" using res[OF x0] by blast
      then obtain n' rest' where n': "rest = n' # rest'" "user_blocks n'"
        "\<And>r. r \<in> set (message_blocks n) \<Longrightarrow> is_tool_result r \<Longrightarrow> keeps_result rq sv (source_of rq n) (ms_usage_metadata n) r \<Longrightarrow>
           \<exists>r' \<in> set (message_blocks n'). is_tool_result r' \<and> tr_use_id r' = tr_use_id r"
        using adapt_messages_user[OF blocks(3)[unfolded ms(1)] ms(2)] by metis
      have "tc_id ` set (calls_of ?m) \<subseteq> tr_use_id ` set (filter is_tool_result (message_blocks n'))"
      proof
        fix y assume "y \<in> tc_id ` set (calls_of ?m)"
        then obtain x where x: "x \<in> set (calls_of ?m)" "y = tc_id x" by blast
        from res[OF x(1)] n'(3) x(2) show "y \<in> tr_use_id ` set (filter is_tool_result (message_blocks n'))" by force
      qed
      moreover have "out = ?m # rest" using blocks(4) False by auto
      ultimately show ?thesis using IH[OF blocks(3)] n'(1,2) by simp
    qed
  qed
qed simp

section \<open>Repair keeps the calls\<close>

text \<open>An edit of the user messages only: their blocks may be taken, and only they are newly processed.\<close>

definition user_edit :: "message list \<Rightarrow> nat list \<Rightarrow> message list \<Rightarrow> nat list \<Rightarrow> bool" where
  "user_edit ms P ms' P' \<longleftrightarrow>
     length ms' = length ms \<and>
     (\<forall>j < length ms. ms_role (ms' ! j) = ms_role (ms ! j) \<and> set (message_blocks (ms' ! j)) \<subseteq> set (message_blocks (ms ! j)) \<and>
        (ms_role (ms ! j) \<noteq> lit ''user'' \<longrightarrow> ms' ! j = ms ! j \<and> (j \<in> set P' \<longleftrightarrow> j \<in> set P)))"

lemma user_edit_refl: "user_edit ms P ms P"
  by (simp add: user_edit_def)

lemma user_edit_trans: "user_edit ms P ms1 P1 \<Longrightarrow> user_edit ms1 P1 ms2 P2 \<Longrightarrow> user_edit ms P ms2 P2"
proof -
  assume a: "user_edit ms P ms1 P1" and b: "user_edit ms1 P1 ms2 P2"
  have len: "length ms1 = length ms" "length ms2 = length ms" using a b by (simp_all add: user_edit_def)
  have "ms_role (ms2 ! j) = ms_role (ms ! j) \<and> set (message_blocks (ms2 ! j)) \<subseteq> set (message_blocks (ms ! j)) \<and>
      (ms_role (ms ! j) \<noteq> lit ''user'' \<longrightarrow> ms2 ! j = ms ! j \<and> (j \<in> set P2 \<longleftrightarrow> j \<in> set P))" if "j < length ms" for j
  proof -
    have "ms_role (ms1 ! j) = ms_role (ms ! j) \<and> set (message_blocks (ms1 ! j)) \<subseteq> set (message_blocks (ms ! j)) \<and>
        (ms_role (ms ! j) \<noteq> lit ''user'' \<longrightarrow> ms1 ! j = ms ! j \<and> (j \<in> set P1 \<longleftrightarrow> j \<in> set P))"
      using a that by (simp add: user_edit_def)
    moreover have "ms_role (ms2 ! j) = ms_role (ms1 ! j) \<and> set (message_blocks (ms2 ! j)) \<subseteq> set (message_blocks (ms1 ! j)) \<and>
        (ms_role (ms1 ! j) \<noteq> lit ''user'' \<longrightarrow> ms2 ! j = ms1 ! j \<and> (j \<in> set P2 \<longleftrightarrow> j \<in> set P1))"
      using b that len by (simp add: user_edit_def)
    ultimately show ?thesis by auto
  qed
  then show ?thesis using len by (simp add: user_edit_def)
qed

lemma take_results_rest: "take_results calls found bs = (found', rest) \<Longrightarrow> set rest \<subseteq> set bs"
proof (induction bs arbitrary: found rest)
  case (Cons b bs)
  show ?case
  proof (cases "if is_tool_result b then unmatched_call_index calls found b else None")
    case None
    then obtain r where "take_results calls found bs = (found', r)" "rest = b # r" using Cons.prems by (auto split: prod.splits)
    then show ?thesis using Cons.IH by auto
  next
    case (Some i)
    then show ?thesis using Cons by fastforce
  qed
qed simp

lemma search_user_edit:
  "(\<forall>j \<in> set js. j < length ms) \<Longrightarrow> search_results calls js ms P found = (ms', P', found') \<Longrightarrow> user_edit ms P ms' P'"
proof (induction js arbitrary: ms P found)
  case (Cons j js)
  show ?case
  proof (cases "j \<in> set P \<or> \<not> user_blocks (ms ! j)")
    case True
    then show ?thesis using Cons by simp
  next
    case False
    then have u: "ms_role (ms ! j) = lit ''user''" by (simp add: user_blocks_def)
    obtain f2 rest where t: "take_results calls found (message_blocks (ms ! j)) = (f2, rest)" by force
    have "set rest \<subseteq> set (message_blocks (ms ! j))" by (rule take_results_rest[OF t])
    then have one: "user_edit ms P (ms[j := rebuilt_message (ms ! j) rest]) P" "user_edit ms P ms (j # P)"
      using u Cons.prems(1) by (auto simp: user_edit_def nth_list_update)
    show ?thesis
    proof (cases "length f2 = length found")
      case True
      then show ?thesis using Cons False t by simp
    next
      case len: False
      show ?thesis
      proof (cases "rest = []")
        case True
        then show ?thesis using Cons False t len user_edit_trans[OF one(2)] by simp
      next
        case rest: False
        then show ?thesis using Cons.IH[of "ms[j := rebuilt_message (ms ! j) rest]"] Cons.prems False t len user_edit_trans[OF one(1)] by simp
      qed
    qed
  qed
qed (simp add: user_edit_refl)

text \<open>One round, with what it does to the rest of the messages.\<close>

lemma repair_round_edit:
  assumes "i \<notin> set P" "i < length ms" "calls_of (ms ! i) \<noteq> []"
  obtains found other ms' P' where
    "repair_loop (i # js) ms P =
       ms ! i # complete_user_message (following_user ms i) (complete_results (calls_of (ms ! i)) found @ other) # repair_loop js ms' P'"
    "matched (set (all_blocks ms)) (calls_of (ms ! i)) found" "user_edit ms (i # P) ms' P'"
    "other = [] \<or> (i + 1 < length ms \<and> ms_role (ms ! (i + 1)) = lit ''user'' \<and> set other \<subseteq> set (message_blocks (ms ! (i + 1))))"
proof -
  obtain f1 other P1 where e: "expected_results (calls_of (ms ! i)) i (following_user ms i) (i # P) = (f1, other, P1)"
    by (metis prod_cases3)
  obtain ms' P' found where m: "missing_results (calls_of (ms ! i)) i ms P1 f1 = (ms', P', found)" by (metis prod_cases3)
  note e' = expected_results_ok[OF subset_refl e]
  note m' = missing_results_ok[OF subset_refl e'(1) m]
  have exp: "user_edit ms (i # P) ms P1 \<and>
    (other = [] \<or> (i + 1 < length ms \<and> ms_role (ms ! (i + 1)) = lit ''user'' \<and> set other \<subseteq> set (message_blocks (ms ! (i + 1)))))"
  proof (cases "\<exists>m. following_user ms i = Some m \<and> has_blocks m")
    case True
    then have n: "i + 1 < length ms" "ms_role (ms ! (i + 1)) = lit ''user''" "following_user ms i = Some (ms ! (i + 1))"
        "has_blocks (ms ! (i + 1))"
      by (auto simp: following_user_def split: if_splits)
    then have t: "take_results (calls_of (ms ! i)) [] (message_blocks (ms ! (i + 1))) = (f1, other)" "P1 = (i + 1) # i # P"
      using e by (auto simp: expected_results_def split: prod.splits)
    then show ?thesis using n take_results_rest[OF t(1)] by (auto simp: user_edit_def)
  next
    case False
    then have "other = []" "P1 = i # P" using e by (auto simp: expected_results_def split: if_splits option.splits)
    then show ?thesis by (simp add: user_edit_refl)
  qed
  have "user_edit ms P1 ms' P'"
    using m search_user_edit[of "[i + 1..<length ms]" ms "calls_of (ms ! i)" P1 f1]
    by (cases "length f1 < length (calls_of (ms ! i))") (simp_all add: missing_results_def user_edit_refl)
  then have "user_edit ms (i # P) ms' P'" using exp user_edit_trans by blast
  then show ?thesis using that[of found other ms' P'] m' assms exp e m by simp
qed

lemma results_no_calls: "list_all is_tool_result bs \<Longrightarrow> filter is_tool_call bs = []"
proof -
  have "\<not> is_tool_call b" if "is_tool_result b" for b using that by (cases b) auto
  then show "list_all is_tool_result bs \<Longrightarrow> filter is_tool_call bs = []" by (auto simp: list_all_iff filter_empty_conv)
qed

lemma complete_results_no_calls: "matched S (calls_of m) found \<Longrightarrow> filter is_tool_call (complete_results (calls_of m) found) = []"
  using complete_results_nth(1)[OF _ calls_of_in(2)]
  by (intro results_no_calls) (auto simp: list_all_length complete_results_def)

definition users_call_nothing :: "message list \<Rightarrow> bool" where
  "users_call_nothing ms \<longleftrightarrow> (\<forall>m \<in> set ms. ms_role m = lit ''user'' \<longrightarrow> calls_in m = [])"

lemma calls_in_mono: "set (message_blocks m') \<subseteq> set (message_blocks m) \<Longrightarrow> calls_in m = [] \<Longrightarrow> calls_in m' = []"
  by (auto simp: calls_in_def filter_empty_conv)

lemma user_edit_calls:
  assumes "user_edit ms P ms' P'" "users_call_nothing ms"
  shows "users_call_nothing ms'" "j < length ms \<Longrightarrow> (if j \<in> set P' then [] else calls_in (ms' ! j)) = (if j \<in> set P then [] else calls_in (ms ! j))"
proof -
  have e: "length ms' = length ms" "\<And>j. j < length ms \<Longrightarrow> ms_role (ms' ! j) = ms_role (ms ! j)"
    "\<And>j. j < length ms \<Longrightarrow> set (message_blocks (ms' ! j)) \<subseteq> set (message_blocks (ms ! j))"
    "\<And>j. j < length ms \<Longrightarrow> ms_role (ms ! j) \<noteq> lit ''user'' \<Longrightarrow> ms' ! j = ms ! j \<and> (j \<in> set P' \<longleftrightarrow> j \<in> set P)"
    using assms(1) by (simp_all add: user_edit_def)
  have u: "calls_in (ms ! j) = []" "calls_in (ms' ! j) = []" if "j < length ms" "ms_role (ms ! j) = lit ''user''" for j
    using assms(2) that calls_in_mono[OF e(3)] by (auto simp: users_call_nothing_def)
  show "users_call_nothing ms'" unfolding users_call_nothing_def using u(2) e(1,2) by (metis in_set_conv_nth)
  show "(if j \<in> set P' then [] else calls_in (ms' ! j)) = (if j \<in> set P then [] else calls_in (ms ! j))" if "j < length ms"
    using u[OF that] e(4)[OF that] by (cases "ms_role (ms ! j) = lit ''user''") auto
qed

lemma repair_loop_calls:
  "users_call_nothing ms \<Longrightarrow> distinct js \<Longrightarrow> \<forall>j \<in> set js. j < length ms \<Longrightarrow>
     all_calls (repair_loop js ms P) = concat (map (\<lambda>j. if j \<in> set P then [] else calls_in (ms ! j)) js)"
proof (induction js arbitrary: ms P)
  case (Cons i js)
  show ?case
  proof (cases "i \<in> set P \<or> calls_of (ms ! i) = []")
    case True
    then show ?thesis using Cons by (auto simp: all_calls_def)
  next
    case False
    have h: "i \<notin> set P" "i < length ms" "calls_of (ms ! i) \<noteq> []" using False Cons.prems(3) by auto
    obtain found other ms' P' where r: "repair_loop (i # js) ms P =
         ms ! i # complete_user_message (following_user ms i) (complete_results (calls_of (ms ! i)) found @ other) # repair_loop js ms' P'"
      "matched (set (all_blocks ms)) (calls_of (ms ! i)) found" "user_edit ms (i # P) ms' P'"
      "other = [] \<or> (i + 1 < length ms \<and> ms_role (ms ! (i + 1)) = lit ''user'' \<and> set other \<subseteq> set (message_blocks (ms ! (i + 1))))"
      by (rule repair_round_edit[OF h])
    have "calls_in (ms ! (i + 1)) = []" if "i + 1 < length ms" "ms_role (ms ! (i + 1)) = lit ''user''"
      using Cons.prems(1) that by (auto simp: users_call_nothing_def)
    then have "filter is_tool_call other = []" using r(4) by (auto simp: calls_in_def filter_empty_conv)
    then have "calls_in (complete_user_message (following_user ms i) (complete_results (calls_of (ms ! i)) found @ other)) = []"
      using complete_results_no_calls[OF r(2)] by (simp add: calls_in_def)
    then have "all_calls (repair_loop (i # js) ms P) = calls_in (ms ! i) @ all_calls (repair_loop js ms' P')"
      unfolding r(1) all_calls_def by simp
    also have "all_calls (repair_loop js ms' P') = concat (map (\<lambda>j. if j \<in> set P' then [] else calls_in (ms' ! j)) js)"
      using Cons.IH[of ms' P'] user_edit_calls(1)[OF r(3) Cons.prems(1)] Cons.prems(2,3) r(3) by (simp add: user_edit_def)
    also have "map (\<lambda>j. if j \<in> set P' then [] else calls_in (ms' ! j)) js = map (\<lambda>j. if j \<in> set P then [] else calls_in (ms ! j)) js"
    proof (rule map_cong[OF refl])
      fix j assume j: "j \<in> set js"
      then have "j < length ms" "j \<noteq> i" using Cons.prems(2,3) by auto
      then show "(if j \<in> set P' then [] else calls_in (ms' ! j)) = (if j \<in> set P then [] else calls_in (ms ! j))"
        using user_edit_calls(2)[OF r(3) Cons.prems(1), of j] by simp
    qed
    finally show ?thesis using False by simp
  qed
qed (simp add: all_calls_def)

lemma repaired_calls: "users_call_nothing ms \<Longrightarrow> all_calls (repaired ms) = all_calls ms"
proof -
  assume "users_call_nothing ms"
  then have "all_calls (repaired ms) = concat (map (\<lambda>j. calls_in (ms ! j)) [0..<length ms])"
    using repair_loop_calls[of ms "[0..<length ms]" "[]"] by (simp add: repaired_def)
  also have "map (\<lambda>j. calls_in (ms ! j)) [0..<length ms] = map calls_in ms" by (rule nth_equalityI) simp_all
  finally show ?thesis by (simp add: all_calls_def)
qed

text \<open>The blocks of a repaired history are those of the history and placeholders of its calls.\<close>

definition placeholders :: "content_block set \<Rightarrow> content_block set" where
  "placeholders S = placeholder_result ` {b \<in> S. is_tool_call b}"

lemma complete_results_blocks:
  assumes "matched S (calls_of m) found" "set (message_blocks m) \<subseteq> S"
  shows "set (complete_results (calls_of m) found) \<subseteq> S \<union> placeholders S"
proof
  fix r assume "r \<in> set (complete_results (calls_of m) found)"
  then obtain i where i: "i < length (calls_of m)"
      "r = (case map_of found i of Some b \<Rightarrow> b | None \<Rightarrow> placeholder_result (calls_of m ! i))"
    by (auto simp: complete_results_def)
  have "calls_of m ! i \<in> S" "is_tool_call (calls_of m ! i)"
    using nth_mem[OF i(1)] calls_of_in[of m] assms(2) by (auto simp: list_all_iff)
  then show "r \<in> S \<union> placeholders S"
    using i(2) assms(1) map_of_SomeD[of found i] by (auto simp: placeholders_def matched_def split: option.splits)
qed

lemma repair_loop_blocks:
  "\<forall>j \<in> set js. j < length ms \<Longrightarrow> set (all_blocks ms) \<subseteq> S \<Longrightarrow> set (all_blocks (repair_loop js ms P)) \<subseteq> S \<union> placeholders S"
proof (induction js arbitrary: ms P)
  case (Cons i js)
  have i: "i < length ms" "set (message_blocks (ms ! i)) \<subseteq> S" using Cons.prems blocks_in_all by auto
  show ?case
  proof (cases "i \<in> set P \<or> calls_of (ms ! i) = []")
    case True
    then show ?thesis using Cons.IH[of ms P] Cons.prems i(2) by (auto simp: all_blocks_def)
  next
    case False
    have h: "i \<notin> set P" "calls_of (ms ! i) \<noteq> []" using False by auto
    obtain found other ms' P' where r: "repair_loop (i # js) ms P =
         ms ! i # complete_user_message (following_user ms i) (complete_results (calls_of (ms ! i)) found @ other) # repair_loop js ms' P'"
      "matched (set (all_blocks ms)) (calls_of (ms ! i)) found" "user_edit ms (i # P) ms' P'"
      "other = [] \<or> (i + 1 < length ms \<and> ms_role (ms ! (i + 1)) = lit ''user'' \<and> set other \<subseteq> set (message_blocks (ms ! (i + 1))))"
      by (rule repair_round_edit[OF h(1) i(1) h(2)])
    have "set other \<subseteq> S" using r(4) blocks_in_all[of "i + 1" ms] Cons.prems(2) by auto
    moreover have "matched S (calls_of (ms ! i)) found" using r(2) Cons.prems(2) by (auto simp: matched_def)
    then have "set (complete_results (calls_of (ms ! i)) found) \<subseteq> S \<union> placeholders S" by (rule complete_results_blocks[OF _ i(2)])
    moreover have "set (all_blocks (repair_loop js ms' P')) \<subseteq> S \<union> placeholders S"
    proof (rule Cons.IH)
      show "\<forall>j \<in> set js. j < length ms'" using r(3) Cons.prems(1) by (simp add: user_edit_def)
      have "set (message_blocks (ms' ! j)) \<subseteq> S" if "j < length ms'" for j
        using r(3) that blocks_in_all[of j ms] Cons.prems(2) unfolding user_edit_def by fastforce
      then have "\<forall>m \<in> set ms'. set (message_blocks m) \<subseteq> S" by (simp add: all_set_conv_all_nth)
      then show "set (all_blocks ms') \<subseteq> S" by (auto simp: all_blocks_def)
    qed
    ultimately show ?thesis unfolding r(1) using i(2) by (simp add: all_blocks_def) (meson le_supI1)
  qed
qed (simp add: all_blocks_def)

lemma repaired_kinds_agree:
  assumes "kinds_agree (set (all_blocks ms))" "distinct (map tc_id (all_calls ms))"
  shows "kinds_agree (set (all_blocks (repaired ms)))"
proof (rule kinds_agree_mono)
  let ?S = "set (all_blocks ms)"
  show "set (all_blocks (repaired ms)) \<subseteq> ?S \<union> placeholders ?S"
    unfolding repaired_def by (rule repair_loop_blocks) simp_all
  have call: "b \<in> set (all_calls ms)" if "b \<in> ?S" "is_tool_call b" for b
    using that by (auto simp: all_calls_def calls_in_def all_blocks_def)
  have same: "b = b'" if "b \<in> ?S" "is_tool_call b" "b' \<in> ?S" "is_tool_call b'" "tc_id b = tc_id b'" for b b'
    using call[OF that(1,2)] call[OF that(3,4)] that(5) assms(2) by (auto simp: distinct_map inj_on_def)
  show "kinds_agree (?S \<union> placeholders ?S)"
    unfolding kinds_agree_def
  proof (intro ballI impI, elim conjE)
    fix b r assume br: "b \<in> ?S \<union> placeholders ?S" "r \<in> ?S \<union> placeholders ?S" "is_tool_call b" "is_tool_result r" "tr_use_id r = tc_id b"
    have b: "b \<in> ?S" using br(1,3) by (auto simp: placeholders_def placeholder_result_def)
    show "tr_kind r = tc_kind b"
    proof (cases "r \<in> ?S")
      case True
      then show ?thesis using assms(1) b br by (auto simp: kinds_agree_def)
    next
      case False
      then obtain b' where "b' \<in> ?S" "is_tool_call b'" "r = placeholder_result b'" using br(2) by (auto simp: placeholders_def)
      then show ?thesis using same[OF b br(3), of b'] br(5) by (simp add: placeholder_result_def)
    qed
  qed
qed


section \<open>Images of a request to Anthropic\<close>

definition block_sizes :: "content_block \<Rightarrow> nat list" where
  "block_sizes b = map (length \<circ> image_data) (filter (\<lambda>b. image_type b = lit ''base64'') (block_images b))"

definition payload_sizes :: "content_block list \<Rightarrow> nat list" where
  "payload_sizes bs = concat (map block_sizes bs)"

lemma image_block_stats_sizes: "snd (image_block_stats ms) = payload_sizes (all_blocks ms)"
  by (simp add: image_block_stats_def payload_sizes_def all_blocks_def block_sizes_def[abs_def] map_concat filter_concat comp_def)

lemma payload_sizes_simps [simp]:
  "payload_sizes [] = []" "payload_sizes (b # bs) = block_sizes b @ payload_sizes bs"
  "payload_sizes (xs @ ys) = payload_sizes xs @ payload_sizes ys"
  by (simp_all add: payload_sizes_def)

lemma block_sizes_simps [simp]:
  "block_sizes (TextBlock s) = []" "block_sizes (ToolCall i n inp x k sg) = []"
  "block_sizes (ThinkingBlock t sg md) = []" "block_sizes (RedactedThinkingBlock d) = []"
  "block_sizes (ResponsesReasoningBlock p q r ss) = []" "block_sizes (WebSearchCallBlock p q1 r1 s1 t1) = []"
  "block_sizes (ToolResult i (ResultText s) n e x2 k ek) = []"
  "block_sizes (ImageBlock kind media data) = (if kind = lit ''base64'' then [length data] else [])"
  by (simp_all add: block_sizes_def)

lemma block_sizes_result:
  "list_all (\<lambda>b. \<not> is_tool_result b) inner \<Longrightarrow> block_sizes (ToolResult i (ResultBlocks inner) n e x k ek) = payload_sizes inner"
proof (induction inner)
  case (Cons b inner)
  then show ?case by (cases b) (auto simp: block_sizes_def)
qed (simp add: block_sizes_def)

text \<open>A payload that is known to the memo's digests and is never re-encoded for its dimensions alone.\<close>

definition payload_ok :: "'i pillow \<Rightarrow> pystr set \<Rightarrow> nat option \<Rightarrow> content_block \<Rightarrow> bool" where
  "payload_ok pl D dim b \<longleftrightarrow>
     (\<forall>media data. b = ImageBlock (lit ''base64'') media data \<longrightarrow>
        data \<in> D \<and> (\<forall>l > 0. length data \<le> l \<longrightarrow> resize_base64_image_to_limit pl data media l dim = Some (unchanged_image data media)))"

text \<open>Images are nested at most once.\<close>

fun nested_ok :: "(content_block \<Rightarrow> bool) \<Rightarrow> content_block \<Rightarrow> bool" where
  "nested_ok P (ToolResult i (ResultBlocks inner) n e x k ek) = list_all (\<lambda>b. \<not> is_tool_result b \<and> P b) inner"
| "nested_ok P b = P b"

definition memo_ok :: "'i pillow \<Rightarrow> pystr set \<Rightarrow> resize_cache \<Rightarrow> bool" where
  "memo_ok pl D c \<longleftrightarrow> cache_ok c \<and> cache_sound pl D c \<and> inj_on (pl_sha256 pl) D \<and> (\<forall>n. pl_safety pl n \<le> n)"

definition fits_within :: "nat \<Rightarrow> nat list \<Rightarrow> nat list \<Rightarrow> bool" where
  "fits_within limit new old \<longleftrightarrow> sum_list new \<le> sum_list (map (min limit) old) \<and> (\<forall>n \<in> set new. n \<le> limit)"

lemma within_append: "fits_within l a b \<Longrightarrow> fits_within l a' b' \<Longrightarrow> fits_within l (a @ a') (b @ b')"
  by (auto simp: fits_within_def)

lemma within_Nil [simp]: "fits_within l [] old"
  by (simp add: fits_within_def)

lemma served_no_larger:
  assumes "served pl data media limit dim r" "succeeded r" "\<forall>n. pl_safety pl n \<le> n" "rr_data r = Some d"
    "\<forall>l > 0. length data \<le> l \<longrightarrow> resize_base64_image_to_limit pl data media l dim = Some (unchanged_image data media)"
  shows "length d \<le> min limit (length data)"
proof -
  have "length d \<le> length data" if "resize_base64_image_to_limit pl data media l dim = Some r" for l
  proof -
    have l: "0 < l" using that by (auto simp: resize_base64_image_to_limit_def Let_def split: if_splits)
    have target: "derivative_target_size pl l \<le> l" using assms(3) by (simp add: derivative_target_size_def) (meson diff_le_self le_trans)
    from resize_shape[OF that] show ?thesis
      using assms(2,4) assms(5)[rule_format, OF l] that target by (cases "length data \<le> l") (auto simp: fit_shape_def)
  qed
  then have "length d \<le> length data" using assms(1,2) by (auto simp: served_def)
  then show ?thesis using served_fits[OF assms(1,3,2)] assms(4) by auto
qed

definition to_anthropic :: "'i request \<Rightarrow> survey \<Rightarrow> bool" where
  "to_anthropic rq sv \<longleftrightarrow> rq_provider rq = lit ''anthropic'' \<and> rq_vision rq \<and> limits_ok sv"

lemma adapt_image_within:
  assumes target: "to_anthropic rq sv" and "adapt_image rq sv c kind media data = Some (b, changed, c')" "memo_ok (rq_pillow rq) D c"
    "payload_ok (rq_pillow rq) D (sv_dimension sv) (ImageBlock kind media data)"
  shows "memo_ok (rq_pillow rq) D c' \<and> fits_within (sv_limit sv) (block_sizes b) (block_sizes (ImageBlock kind media data)) \<and> \<not> is_tool_result b"
proof (cases "kind = lit ''base64''")
  case False
  then show ?thesis using assms by (auto simp: adapt_image_def to_anthropic_def)
next
  case True
  obtain r where r: "resize_base64_image_to_limit_cached (rq_pillow rq) data media (sv_limit sv) (sv_dimension sv) c = Some (r, c')"
      "b = (case (rr_data r, rr_media_type r) of
              (Some d, Some m) \<Rightarrow> if \<not> rr_resized r then ImageBlock kind media data else ImageBlock (lit ''base64'') m d
            | _ \<Rightarrow> TextBlock (oversized_image_placeholder media (rq_model rq)))"
    using assms(2) target True by (auto simp: adapt_image_def to_anthropic_def split: option.splits if_splits)
  have p: "data \<in> D" "\<forall>l > 0. length data \<le> l \<longrightarrow> resize_base64_image_to_limit (rq_pillow rq) data media l (sv_dimension sv) = Some (unchanged_image data media)"
    using assms(4) True by (auto simp: payload_ok_def)
  have m: "cache_ok c" "cache_sound (rq_pillow rq) D c" "inj_on (pl_sha256 (rq_pillow rq)) D" "\<forall>n. pl_safety (rq_pillow rq) n \<le> n"
    using assms(3) by (simp_all add: memo_ok_def)
  note ok = cached_ok[OF r(1) m(1)]
  have served: "served (rq_pillow rq) data media (sv_limit sv) (sv_dimension sv) r"
    using ok(3)[OF m(2,3) p(1)] target by (simp add: limits_ok_def to_anthropic_def)
  have "fits_within (sv_limit sv) (block_sizes b) [length data] \<and> \<not> is_tool_result b"
  proof (cases "succeeded r")
    case False
    then show ?thesis using r(2) by (auto simp: succeeded_def split: option.splits)
  next
    case succ: True
    then obtain d t where dt: "rr_data r = Some d" "rr_media_type r = Some t" by (auto simp: succeeded_def)
    have "length d \<le> min (sv_limit sv) (length data)" by (rule served_no_larger[OF served succ m(4) dt(1) p(2)])
    moreover have "rr_resized r \<or> d = data" using served_fits[OF served m(4) succ] dt by (auto simp: unchanged_image_def)
    ultimately show ?thesis using r(2) dt True by (auto simp: fits_within_def)
  qed
  then show ?thesis using ok(1) ok(2)[OF m(2,3) p(1)] m True by (simp add: memo_ok_def)
qed

lemma adapt_flat_within:
  assumes target: "to_anthropic rq sv" and "adapt_block rq sv src md role c b = Some (out, changed, c')" "\<not> is_tool_result b" "memo_ok (rq_pillow rq) D c"
    "payload_ok (rq_pillow rq) D (sv_dimension sv) b"
  shows "memo_ok (rq_pillow rq) D c' \<and> fits_within (sv_limit sv) (payload_sizes out) (block_sizes b) \<and> list_all (\<lambda>b. \<not> is_tool_result b) out"
proof (cases b)
  case (ImageBlock kind media data)
  then obtain b' where "adapt_image rq sv c kind media data = Some (b', changed, c')" "out = [b']"
    using assms(2) by (auto split: option.splits)
  then show ?thesis using adapt_image_within[OF target] assms(4,5) ImageBlock by auto
next
  case (TextBlock s)
  then show ?thesis using assms by (auto simp: adapt_text_def Let_def split: if_splits prod.splits)
qed (use assms in \<open>auto simp: freeform_call_placeholder_def split: if_splits\<close>)

lemma adapt_flat_list_within:
  "to_anthropic rq sv \<Longrightarrow> adapt_content_blocks rq sv src md role c bs = Some (out, changed, c') \<Longrightarrow>
   list_all (\<lambda>b. \<not> is_tool_result b \<and> payload_ok (rq_pillow rq) D (sv_dimension sv) b) bs \<Longrightarrow> memo_ok (rq_pillow rq) D c \<Longrightarrow>
     memo_ok (rq_pillow rq) D c' \<and> fits_within (sv_limit sv) (payload_sizes out) (payload_sizes bs) \<and> list_all (\<lambda>b. \<not> is_tool_result b) out"
proof (induction bs arbitrary: c out changed)
  case (Cons b bs)
  obtain o1 ch1 c1 o2 ch2 where a: "adapt_block rq sv src md role c b = Some (o1, ch1, c1)"
      "to_anthropic rq sv \<Longrightarrow> adapt_content_blocks rq sv src md role c1 bs = Some (o2, ch2, c')" "out = o1 @ o2"
    using Cons.prems(2) by (auto split: option.splits prod.splits)
  from adapt_flat_within[OF Cons.prems(1) a(1)] Cons.prems(3,4)
  have 1: "memo_ok (rq_pillow rq) D c1" "fits_within (sv_limit sv) (payload_sizes o1) (block_sizes b)" "list_all (\<lambda>b. \<not> is_tool_result b) o1" by auto
  from Cons.IH[OF Cons.prems(1) a(2) _ 1(1)] Cons.prems(1,3)
  have "memo_ok (rq_pillow rq) D c'" "fits_within (sv_limit sv) (payload_sizes o2) (payload_sizes bs)" "list_all (\<lambda>b. \<not> is_tool_result b) o2" by auto
  then show ?case using 1 a(3) by (auto intro: within_append)
qed simp

lemma adapt_block_within:
  assumes target: "to_anthropic rq sv" and "adapt_block rq sv src md role c b = Some (out, changed, c')" "memo_ok (rq_pillow rq) D c"
    "nested_ok (payload_ok (rq_pillow rq) D (sv_dimension sv)) b"
  shows "memo_ok (rq_pillow rq) D c' \<and> fits_within (sv_limit sv) (payload_sizes out) (block_sizes b)"
proof (cases "is_tool_result b")
  case False
  then have "payload_ok (rq_pillow rq) D (sv_dimension sv) b" using assms(4) by (cases b) auto
  then show ?thesis using adapt_flat_within[OF target assms(2) False assms(3)] by blast
next
  case True
  then obtain i content n e x k ek where b: "b = ToolResult i content n e x k ek" by (cases b) auto
  let ?foreign = "k = FreeformInput \<and> \<not> preserve_freeform_exchange rq (call_source sv src i) (call_protocol rq sv md i n)"
  show ?thesis
  proof (cases ?foreign)
    case True
    then show ?thesis using assms(2,3) unfolding b adapt_block.simps if_P[OF True] by auto
  next
    case False
    note s = assms(2)[unfolded b adapt_block.simps if_not_P[OF False]]
    show ?thesis
    proof (cases content)
      case (ResultText t)
      then show ?thesis using s assms(3) by (auto split: if_splits)
    next
      case (ResultBlocks inner)
      then obtain adapted where a: "adapt_content_blocks rq sv src md None c inner = Some (adapted, changed, c')"
          "out = [if changed then ToolResult i (ResultBlocks adapted) n e x k ek else b]"
        using s b by (auto split: option.splits)
      have inner: "list_all (\<lambda>b. \<not> is_tool_result b \<and> payload_ok (rq_pillow rq) D (sv_dimension sv) b) inner"
        using assms(4) b ResultBlocks by simp
      note flat = adapt_flat_list_within[OF target a(1) inner assms(3)]
      have "adapted = inner" if "\<not> changed" using adapt_unchanged(2) a(1) that by auto
      then have "out = [ToolResult i (ResultBlocks adapted) n e x k ek]" using a(2) b ResultBlocks by auto
      moreover have "list_all (\<lambda>b. \<not> is_tool_result b) inner" using inner by (simp add: list_all_iff)
      ultimately show ?thesis using flat b ResultBlocks by (simp add: block_sizes_result)
    qed
  qed
qed

lemma adapt_blocks_within:
  "to_anthropic rq sv \<Longrightarrow> adapt_content_blocks rq sv src md role c bs = Some (out, changed, c') \<Longrightarrow>
   list_all (nested_ok (payload_ok (rq_pillow rq) D (sv_dimension sv))) bs \<Longrightarrow> memo_ok (rq_pillow rq) D c \<Longrightarrow>
     memo_ok (rq_pillow rq) D c' \<and> fits_within (sv_limit sv) (payload_sizes out) (payload_sizes bs)"
proof (induction bs arbitrary: c out changed)
  case (Cons b bs)
  obtain o1 ch1 c1 o2 ch2 where a: "adapt_block rq sv src md role c b = Some (o1, ch1, c1)"
      "to_anthropic rq sv \<Longrightarrow> adapt_content_blocks rq sv src md role c1 bs = Some (o2, ch2, c')" "out = o1 @ o2"
    using Cons.prems(2) by (auto split: option.splits prod.splits)
  from adapt_block_within[OF Cons.prems(1) a(1) Cons.prems(4)] Cons.prems(3)
  have 1: "memo_ok (rq_pillow rq) D c1" "fits_within (sv_limit sv) (payload_sizes o1) (block_sizes b)" by auto
  from Cons.IH[OF Cons.prems(1) a(2) _ 1(1)] Cons.prems(1,3) have "memo_ok (rq_pillow rq) D c'" "fits_within (sv_limit sv) (payload_sizes o2) (payload_sizes bs)" by auto
  then show ?case using 1 a(3) by (auto intro: within_append)
qed simp

lemma adapt_messages_within:
  "to_anthropic rq sv \<Longrightarrow> adapt_messages rq sv c ms = Some (out, c') \<Longrightarrow>
   list_all (nested_ok (payload_ok (rq_pillow rq) D (sv_dimension sv))) (all_blocks ms) \<Longrightarrow> memo_ok (rq_pillow rq) D c \<Longrightarrow>
     fits_within (sv_limit sv) (payload_sizes (all_blocks out)) (payload_sizes (all_blocks ms))"
proof (induction ms arbitrary: c out)
  case (Cons m ms)
  from Cons.prems(2) show ?case
  proof (cases rule: adapt_messages_ConsE)
    case (plain rest)
    have "message_blocks m = []" using plain(1) by (simp add: has_blocks_def message_blocks_def split: message_content.splits)
    then show ?thesis using plain Cons by (simp add: all_blocks_def)
  next
    case (blocks bs changed c1 rest)
    from adapt_blocks_within[OF Cons.prems(1) blocks(2) _ Cons.prems(4)] Cons.prems(3)
    have 1: "memo_ok (rq_pillow rq) D c1" "fits_within (sv_limit sv) (payload_sizes bs) (payload_sizes (message_blocks m))"
      by (auto simp: all_blocks_def)
    have 2: "fits_within (sv_limit sv) (payload_sizes (all_blocks rest)) (payload_sizes (all_blocks ms))"
      using Cons.IH[OF Cons.prems(1) blocks(3) _ 1(1)] Cons.prems(3) by (simp add: all_blocks_def)
    have "all_blocks out = bs @ all_blocks rest"
      using blocks(4) adapted_message_blocks[OF blocks(2)] by (auto simp: all_blocks_def split: if_splits)
    then show ?thesis using within_append[OF 1(2) 2] by (simp add: all_blocks_def)
  qed
qed (simp add: all_blocks_def)


section \<open>Concrete requests\<close>

definition sample_request :: "pystr \<Rightarrow> pystr request" where
  "sample_request provider =
     \<lparr>rq_pillow = sample_pillow, rq_specs = (\<lambda>_ _. None), rq_digit = (\<lambda>_. None), rq_shown = (\<lambda>_. []), rq_display = (\<lambda>_. []),
      rq_provider = provider, rq_model = lit ''m'', rq_vision = True, rq_protocol = None\<rparr>"


definition sample_image :: content_block where
  "sample_image = ImageBlock (lit ''base64'') (lit ''image/png'') (replicate 12 65)"

theorem request_shows_only_what_the_target_accepts_witness:
  "\<exists>sent c' m. adapt_history_for_provider (sample_request (lit ''openai'')) empty_cache [user_message [sample_image]] = Some (sent, c') \<and>
     m \<in> set sent \<and> all_acceptable (sample_request (lit ''openai'')) (source_of (sample_request (lit ''openai'')) m)
       (ms_usage_metadata m) (message_blocks m)"
proof -
  let ?rq = "sample_request (lit ''openai'')" and ?m = "user_message [sample_image]"
  have "adapt_history_for_provider ?rq empty_cache [?m] = Some ([?m], empty_cache)"
    by (simp add: adapt_history_for_provider_def sample_simps sample_image_def sample_request_def adapt_image_def)
  then show ?thesis using request_shows_only_what_the_target_accepts[of ?rq empty_cache "[?m]" "[?m]" empty_cache ?m] by auto
qed


section \<open>Three limits of the adaptation\<close>

text \<open>
  The survey records calls by their provider identifier, which may repeat across responses: a later call of another provider makes
  the answer of an earlier one a placeholder, while the earlier call stays.
\<close>

definition patch_exchange :: "string \<Rightarrow> pystr \<Rightarrow> message list" where
  "patch_exchange provider e =
     [(assistant_message [ToolCall (lit ''c1'') (lit ''apply_patch'') (JStr []) e FreeformInput None])
        \<lparr>ms_usage_metadata := [(lit ''provider'', JStr (lit provider))]\<rparr>,
      user_message [ToolResult (lit ''c1'') (ResultText (lit ''ok'')) (lit ''apply_patch'') False (Some e) FreeformInput None]]"

lemma repeated_identifier_orphans_a_call:
  "let ms = patch_exchange ''openai'' (lit ''e1'') @ patch_exchange ''google'' (lit ''e2'')
   in is_valid_for_anthropic ms \<and>
      (case adapt_history_for_provider (sample_request (lit ''openai'')) empty_cache ms of
         Some (sent, _) \<Rightarrow> \<not> is_valid_for_anthropic sent | None \<Rightarrow> False)"
  by code_simp

text \<open>An assistant text without any placeholder is stripped as well, and one of blanks is dropped.\<close>

lemma scrubbing_strips_plain_text:
  "adapt_text (Some (lit ''assistant'')) (lit '' done '') = ([TextBlock (lit ''done'')], True) \<and>
   adapt_text (Some (lit ''assistant'')) (lit '' '') = ([], True)"
  by code_simp

text \<open>Removing a placeholder may join the text around it to a new one.\<close>

lemma scrubbing_leaves_a_placeholder:
  "let echo = lit ''[Prior reasoning from x omitted for compatibility.]''; s = take 7 echo @ echo @ drop 7 echo
   in scrub_echoed_reasoning_placeholder s = echo"
  by code_simp

end
