(* ===== verification/Message_Dict.thy ===== *)
theory Message_Dict
  imports Conversation_Laws
begin

text \<open>
  Messages as dictionaries, \<open>to_dict\<close> and \<open>from_dict\<close> of the blocks and of \<open>Message\<close> in \<open>kolega_code/llm/models.py\<close> and of
  \<open>UsageObservation\<close> in \<open>kolega_code/llm/accounting.py\<close>, and \<open>dump\<close> and \<open>restore\<close> of a conversation. The classes do not check the
  types of the values they are given; a value of another type than its annotation is outside the model (\<open>IllTyped\<close>). Parameters:
  base64 of bytes, the identifier that a call without one gets, and the reading of decimal amounts.
\<close>

section \<open>Blocks\<close>

record block_codec =
  bc_encode :: "nat list \<Rightarrow> pystr"
  bc_decode :: "pystr \<Rightarrow> nat list"
  bc_new_id :: "metadata \<Rightarrow> pystr"
  bc_decimal :: "json \<Rightarrow> pystr option"

datatype restore_exc = MissingKey string | UnknownBlockType | UnexpectedContent | NotADictionary | IllTyped

definition kind_value :: "input_kind \<Rightarrow> json" where
  "kind_value k = JStr (case k of JsonInput \<Rightarrow> lit ''json'' | FreeformInput \<Rightarrow> lit ''freeform'')"

text \<open>An entry that is written only if its value is truthy.\<close>

definition truthy_entry :: "string \<Rightarrow> pystr option \<Rightarrow> metadata" where
  "truthy_entry k v = (case v of Some s \<Rightarrow> if s \<noteq> [] then [(lit k, JStr s)] else [] | None \<Rightarrow> [])"

fun block_to_dict :: "block_codec \<Rightarrow> content_block \<Rightarrow> json"
  and blocks_to_dict :: "block_codec \<Rightarrow> content_block list \<Rightarrow> json list" where
  "block_to_dict bc (TextBlock s) = JObj [(lit ''type'', JStr (lit ''text'')), (lit ''text'', JStr s)]"
| "block_to_dict bc (ImageBlock kind media data) =
     JObj [(lit ''type'', JStr (lit ''image_url'')), (lit ''image_type'', JStr kind), (lit ''media_type'', JStr media), (lit ''data'', JStr data)]"
| "block_to_dict bc (ThinkingBlock t sg md) =
     JObj ([(lit ''type'', JStr (lit ''thinking'')), (lit ''thinking'', JStr t)] @
       (if sg \<noteq> None \<and> sg \<noteq> Some [] \<or> map_of md (lit ''signature'') \<noteq> None then [(lit ''signature'', opt_str sg)] else []) @
       (if md \<noteq> [] then [(lit ''provider_metadata'', JObj md)] else []))"
| "block_to_dict bc (RedactedThinkingBlock d) = JObj [(lit ''type'', JStr (lit ''redacted_thinking'')), (lit ''data'', JStr d)]"
| "block_to_dict bc (ResponsesReasoningBlock enc summary item parts) =
     JObj ([(lit ''type'', JStr (lit ''responses_reasoning'')), (lit ''encrypted_content'', opt_str enc),
            (lit ''summary'', JList (map JStr summary))] @
       (if parts \<noteq> [] then [(lit ''content'', JList (map JStr parts))] else []) @ truthy_entry ''item_id'' item)"
| "block_to_dict bc (WebSearchCallBlock item status action item_type payload) =
     JObj ([(lit ''type'', JStr (lit ''web_search_call'')), (lit ''status'', opt_str status), (lit ''action'', JObj action)] @
       truthy_entry ''item_id'' item @
       (if item_type \<noteq> lit ''web_search_call''
        then (lit ''item_type'', JStr item_type) # (case payload of Some p \<Rightarrow> [(lit ''payload'', JObj p)] | None \<Rightarrow> [])
        else []))"
| "block_to_dict bc (ToolCall i name input x kind sg) =
     JObj ([(lit ''type'', JStr (lit ''tool_call'')), (lit ''id'', JStr i), (lit ''name'', JStr name), (lit ''input'', input),
            (lit ''execution_id'', JStr x), (lit ''input_kind'', kind_value kind)] @
       (case sg of Some bytes \<Rightarrow> [(lit ''thought_signature'', JStr (bc_encode bc bytes))] | None \<Rightarrow> []))"
| "block_to_dict bc (ToolResult i content name err x kind ek) =
     JObj ([(lit ''type'', JStr (lit ''tool_result'')), (lit ''tool_use_id'', JStr i),
            (lit ''content'', case content of ResultText s \<Rightarrow> JStr s | ResultBlocks bs \<Rightarrow> JList (blocks_to_dict bc bs)),
            (lit ''name'', JStr name), (lit ''is_error'', JBool err), (lit ''input_kind'', kind_value kind)] @
       truthy_entry ''execution_id'' x @ truthy_entry ''error_kind'' ek)"
| "blocks_to_dict bc [] = []"
| "blocks_to_dict bc (b # bs) = block_to_dict bc b # blocks_to_dict bc bs"

text \<open>Reading the entries: \<open>data[k]\<close> and \<open>data.get(k)\<close> of a text, and \<open>data.get(k) or {}\<close>, \<open>or []\<close>.\<close>

definition need_str :: "metadata \<Rightarrow> string \<Rightarrow> restore_exc + pystr" where
  "need_str d k =
     (case map_of d (lit k) of None \<Rightarrow> Inl (MissingKey k) | Some (JStr s) \<Rightarrow> Inr s | Some _ \<Rightarrow> Inl IllTyped)"

definition get_str :: "metadata \<Rightarrow> string \<Rightarrow> restore_exc + pystr option" where
  "get_str d k = (case json_get d (lit k) of JNull \<Rightarrow> Inr None | JStr s \<Rightarrow> Inr (Some s) | _ \<Rightarrow> Inl IllTyped)"

definition get_dict :: "metadata \<Rightarrow> string \<Rightarrow> restore_exc + metadata" where
  "get_dict d k =
     (let v = json_get d (lit k) in if \<not> truthy v then Inr [] else (case v of JObj m \<Rightarrow> Inr m | _ \<Rightarrow> Inl IllTyped))"

definition get_strs :: "metadata \<Rightarrow> string \<Rightarrow> restore_exc + pystr list" where
  "get_strs d k =
     (let v = json_get d (lit k)
      in if \<not> truthy v then Inr []
         else (case v of
                 JList xs \<Rightarrow> if list_all (\<lambda>x. case x of JStr _ \<Rightarrow> True | _ \<Rightarrow> False) xs
                             then Inr (map (\<lambda>x. case x of JStr s \<Rightarrow> s | _ \<Rightarrow> []) xs) else Inl IllTyped
               | _ \<Rightarrow> Inl IllTyped))"

definition get_kind :: "metadata \<Rightarrow> restore_exc + input_kind" where
  "get_kind d =
     (case map_of d (lit ''input_kind'') of
        None \<Rightarrow> Inr JsonInput
      | Some v \<Rightarrow> if v = kind_value JsonInput then Inr JsonInput else if v = kind_value FreeformInput then Inr FreeformInput else Inl IllTyped)"

definition thinking_from_dict :: "metadata \<Rightarrow> restore_exc + content_block" where
  "thinking_from_dict d =
     rbind (need_str d ''thinking'') (\<lambda>t. rbind (get_str d ''signature'') (\<lambda>sg. rbind (get_dict d ''provider_metadata'') (\<lambda>md.
       Inr (ThinkingBlock t sg md))))"

definition reasoning_from_dict :: "metadata \<Rightarrow> restore_exc + content_block" where
  "reasoning_from_dict d =
     rbind (get_str d ''encrypted_content'') (\<lambda>enc. rbind (get_strs d ''summary'') (\<lambda>summary.
       rbind (get_str d ''item_id'') (\<lambda>item. rbind (get_strs d ''content'') (\<lambda>parts.
         Inr (ResponsesReasoningBlock enc summary item parts)))))"

definition search_from_dict :: "metadata \<Rightarrow> restore_exc + content_block" where
  "search_from_dict d =
     rbind (get_str d ''item_id'') (\<lambda>item. rbind (get_str d ''status'') (\<lambda>status. rbind (get_dict d ''action'') (\<lambda>action.
       rbind (get_str d ''item_type'') (\<lambda>item_type.
         (case json_get d (lit ''payload'') of
            JNull \<Rightarrow> Inr (WebSearchCallBlock item status action
                        (case item_type of Some s \<Rightarrow> if s \<noteq> [] then s else lit ''web_search_call'' | None \<Rightarrow> lit ''web_search_call'') None)
          | JObj p \<Rightarrow> Inr (WebSearchCallBlock item status action
                        (case item_type of Some s \<Rightarrow> if s \<noteq> [] then s else lit ''web_search_call'' | None \<Rightarrow> lit ''web_search_call'') (Some p))
          | _ \<Rightarrow> Inl IllTyped)))))"

definition call_from_dict :: "block_codec \<Rightarrow> metadata \<Rightarrow> restore_exc + content_block" where
  "call_from_dict bc d =
     rbind (need_str d ''id'') (\<lambda>i. rbind (need_str d ''name'') (\<lambda>name.
       (case map_of d (lit ''input'') of
          None \<Rightarrow> Inl (MissingKey ''input'')
        | Some input \<Rightarrow>
            rbind (get_str d ''execution_id'') (\<lambda>x. rbind (get_str d ''thought_signature'') (\<lambda>sg. rbind (get_kind d) (\<lambda>kind.
              Inr (ToolCall i name input (case x of Some s \<Rightarrow> if s \<noteq> [] then s else bc_new_id bc d | None \<Rightarrow> bc_new_id bc d) kind
                (case sg of Some s \<Rightarrow> if s \<noteq> [] then Some (bc_decode bc s) else None | None \<Rightarrow> None))))))))"

text \<open>The fields of a result beside its content.\<close>

definition result_from_dict :: "metadata \<Rightarrow> result_content \<Rightarrow> restore_exc + content_block" where
  "result_from_dict d content =
     rbind (need_str d ''tool_use_id'') (\<lambda>i. rbind (need_str d ''name'') (\<lambda>name.
       (case map_of d (lit ''is_error'') of
          None \<Rightarrow> Inl (MissingKey ''is_error'')
        | Some e \<Rightarrow>
            rbind (get_str d ''execution_id'') (\<lambda>x. rbind (get_kind d) (\<lambda>kind. rbind (get_str d ''error_kind'') (\<lambda>ek.
              Inr (ToolResult i content name (truthy e) x kind ek)))))))"

lemma size_of_entry: "map_of d k = Some (JList xs) \<Longrightarrow> size_list size xs < size (JObj d)"
proof (induction d)
  case (Cons e d)
  then show ?case by (cases e) (fastforce split: if_splits)
qed simp

function block_from_dict :: "block_codec \<Rightarrow> json \<Rightarrow> restore_exc + content_block"
  and blocks_from_dict :: "block_codec \<Rightarrow> json list \<Rightarrow> restore_exc + content_block list" where
  "block_from_dict bc v =
     (case v of
        JObj d \<Rightarrow>
          (let t = json_get d (lit ''type'')
           in if t = JStr (lit ''text'') then rbind (need_str d ''text'') (\<lambda>s. Inr (TextBlock s))
              else if t = JStr (lit ''image_url'')
              then rbind (need_str d ''image_type'') (\<lambda>kind. rbind (need_str d ''media_type'') (\<lambda>media. rbind (need_str d ''data'') (\<lambda>data.
                     Inr (ImageBlock kind media data))))
              else if t = JStr (lit ''thinking'') then thinking_from_dict d
              else if t = JStr (lit ''redacted_thinking'') then rbind (need_str d ''data'') (\<lambda>s. Inr (RedactedThinkingBlock s))
              else if t = JStr (lit ''responses_reasoning'') then reasoning_from_dict d
              else if t = JStr (lit ''web_search_call'') then search_from_dict d
              else if t = JStr (lit ''tool_call'') then call_from_dict bc d
              else if t = JStr (lit ''tool_result'')
              then (case map_of d (lit ''content'') of
                      None \<Rightarrow> Inl (MissingKey ''content'')
                    | Some (JStr s) \<Rightarrow> result_from_dict d (ResultText s)
                    | Some (JList xs) \<Rightarrow> rbind (blocks_from_dict bc xs) (\<lambda>bs. result_from_dict d (ResultBlocks bs))
                    | Some _ \<Rightarrow> Inl UnexpectedContent)
              else Inl UnknownBlockType)
      | _ \<Rightarrow> Inl NotADictionary)"
| "blocks_from_dict bc [] = Inr []"
| "blocks_from_dict bc (v # vs) = rbind (block_from_dict bc v) (\<lambda>b. rbind (blocks_from_dict bc vs) (\<lambda>bs. Inr (b # bs)))"
  by pat_completeness auto
termination
  by (relation "measure (\<lambda>x. case x of Inl (_, v) \<Rightarrow> size v | Inr (_, vs) \<Rightarrow> size_list size vs)")
    (auto dest: size_of_entry)

declare block_from_dict.simps [simp del]

section \<open>Messages\<close>

definition observation_to_dict :: "usage_observation \<Rightarrow> metadata" where
  "observation_to_dict ob =
     [(lit ''provider'', JStr (uo_provider ob)), (lit ''model'', opt_str (uo_model ob)),
      (lit ''input_tokens'', opt_int (uo_input ob)), (lit ''output_tokens'', opt_int (uo_output ob)),
      (lit ''total_tokens'', opt_int (uo_total ob)), (lit ''cache_read_input_tokens'', opt_int (uo_cache_read ob)),
      (lit ''cache_write_input_tokens'', opt_int (uo_cache_write ob)), (lit ''reasoning_output_tokens'', opt_int (uo_reasoning ob)),
      (lit ''complete'', JBool (uo_complete ob)),
      (lit ''cost'', case uo_cost ob of Some c \<Rightarrow> JObj c | None \<Rightarrow> JNull),
      (lit ''pricing_quantities'', JObj (uo_quantities ob)), (lit ''unavailable_reason'', opt_str (uo_reason ob))]"

definition observation_keys :: "pystr list" where
  "observation_keys =
     map lit [''provider'', ''model'', ''input_tokens'', ''output_tokens'', ''total_tokens'', ''cache_read_input_tokens'',
       ''cache_write_input_tokens'', ''reasoning_output_tokens'', ''complete'', ''cost'', ''pricing_quantities'', ''unavailable_reason'']"

text \<open>\<open>cls(**data)\<close>: an unknown key, a missing provider and a rejected value give no observation.\<close>

definition observation_from_dict :: "(json \<Rightarrow> pystr option) \<Rightarrow> json \<Rightarrow> usage_observation option" where
  "observation_from_dict decimal v =
     (case v of
        JObj d \<Rightarrow>
          if \<not> set (map fst d) \<subseteq> set observation_keys then None
          else (case (json_get d (lit ''provider''), text_field (json_get d (lit ''model'')),
                      count_field (json_get d (lit ''input_tokens'')), count_field (json_get d (lit ''output_tokens'')),
                      count_field (json_get d (lit ''total_tokens'')), count_field (json_get d (lit ''cache_read_input_tokens'')),
                      count_field (json_get d (lit ''cache_write_input_tokens'')),
                      count_field (json_get d (lit ''reasoning_output_tokens'')),
                      (case map_of d (lit ''complete'') of None \<Rightarrow> Some False | Some (JBool b) \<Rightarrow> Some b | Some _ \<Rightarrow> None),
                      (case json_get d (lit ''cost'') of JNull \<Rightarrow> Some None | JObj c \<Rightarrow> Some (Some c) | _ \<Rightarrow> None),
                      (case map_of d (lit ''pricing_quantities'') of None \<Rightarrow> Some [] | Some (JObj q) \<Rightarrow> Some q | Some _ \<Rightarrow> None),
                      text_field (json_get d (lit ''unavailable_reason''))) of
                  (JStr provider, Some model, Some i, Some out, Some t, Some cr, Some cw, Some r, Some complete, Some cost, Some q, Some reason) \<Rightarrow>
                    (case make_observation decimal
                            \<lparr>uo_provider = provider, uo_model = model, uo_input = i, uo_output = out, uo_total = t, uo_cache_read = cr,
                             uo_cache_write = cw, uo_reasoning = r, uo_complete = complete, uo_cost = cost, uo_quantities = q, uo_reason = reason\<rparr> of
                       Inr ob \<Rightarrow> Some ob | Inl _ \<Rightarrow> None)
                | _ \<Rightarrow> None)
      | _ \<Rightarrow> None)"

definition message_to_dict :: "block_codec \<Rightarrow> message \<Rightarrow> metadata" where
  "message_to_dict bc m =
     [(lit ''role'', JStr (ms_role m)),
      (lit ''content'', case ms_content m of MessageText s \<Rightarrow> JStr s | MessageBlocks bs \<Rightarrow> JList (blocks_to_dict bc bs)),
      (lit ''stop_reason'', opt_str (ms_stop m)), (lit ''usage_metadata'', JObj (ms_usage_metadata m))] @
     (case ms_usage m of Some u \<Rightarrow> [(lit ''usage'', JObj (usage_to_dict u))] | None \<Rightarrow> []) @
     (case ms_observation m of Some ob \<Rightarrow> [(lit ''usage_observation'', JObj (observation_to_dict ob))] | None \<Rightarrow> [])"

definition message_from_dict :: "block_codec \<Rightarrow> metadata \<Rightarrow> restore_exc + message" where
  "message_from_dict bc d =
     rbind (case map_of d (lit ''content'') of
              Some (JStr s) \<Rightarrow> Inr (MessageText s)
            | Some (JList xs) \<Rightarrow> rbind (blocks_from_dict bc xs) (\<lambda>bs. Inr (MessageBlocks bs))
            | _ \<Rightarrow> Inr (MessageBlocks []))
       (\<lambda>content. rbind (need_str d ''role'') (\<lambda>role. rbind (get_str d ''stop_reason'') (\<lambda>stop. rbind (get_dict d ''usage_metadata'') (\<lambda>md.
          Inr \<lparr>ms_role = role, ms_content = content, ms_stop = stop,
               ms_tool_calls = (case content of MessageBlocks bs \<Rightarrow> filter is_tool_call bs | MessageText _ \<Rightarrow> []),
               ms_usage_metadata = md, ms_usage = usage_from_dict (json_get d (lit ''usage'')),
               ms_observation = observation_from_dict (bc_decimal bc) (json_get d (lit ''usage_observation''))\<rparr>))))"

section \<open>Conversations\<close>

definition dump_conversation :: "block_codec \<Rightarrow> conversation \<Rightarrow> metadata list" where
  "dump_conversation bc cv = map (message_to_dict bc) (cv_history cv)"

definition restore_conversation :: "block_codec \<Rightarrow> metadata list \<Rightarrow> conversation \<Rightarrow> restore_exc + conversation" where
  "restore_conversation bc ds cv =
     rbind (traverse (message_from_dict bc) ds) (\<lambda>ms. Inr (snd (sanitize_oversized_tool_results (set_history ms cv))))"

section \<open>Round trip\<close>

text \<open>What a block may hold to be stored: an optional text is not empty, a search call of the default type has no payload.\<close>

fun storable :: "content_block \<Rightarrow> bool" and all_storable :: "content_block list \<Rightarrow> bool" where
  "storable (ThinkingBlock t sg md) \<longleftrightarrow> sg \<noteq> Some [] \<or> map_of md (lit ''signature'') \<noteq> None"
| "storable (ResponsesReasoningBlock enc summary item parts) \<longleftrightarrow> item \<noteq> Some []"
| "storable (WebSearchCallBlock item status action item_type payload) \<longleftrightarrow>
     item \<noteq> Some [] \<and> item_type \<noteq> [] \<and> (item_type = lit ''web_search_call'' \<longrightarrow> payload = None)"
| "storable (ToolCall i name input x kind sg) \<longleftrightarrow> x \<noteq> [] \<and> sg \<noteq> Some []"
| "storable (ToolResult i content name err x kind ek) \<longleftrightarrow>
     x \<noteq> Some [] \<and> ek \<noteq> Some [] \<and> (case content of ResultBlocks bs \<Rightarrow> all_storable bs | ResultText s \<Rightarrow> True)"
| "storable b \<longleftrightarrow> True"
| "all_storable [] \<longleftrightarrow> True"
| "all_storable (b # bs) \<longleftrightarrow> storable b \<and> all_storable bs"

definition codec_ok :: "block_codec \<Rightarrow> bool" where
  "codec_ok bc \<longleftrightarrow> (\<forall>s. bc_decode bc (bc_encode bc s) = s) \<and> (\<forall>s. s \<noteq> [] \<longrightarrow> bc_encode bc s \<noteq> [])"

lemmas entry_simps = json_get_def need_str_def get_str_def get_dict_def get_strs_def truthy_entry_def opt_str_def Let_def

lemma get_kind_value [simp]: "map_of d (lit ''input_kind'') = Some (kind_value k) \<Longrightarrow> get_kind d = Inr k"
  by (cases k) (simp_all add: get_kind_def kind_value_def)

lemma strs_roundtrip: "list_all (\<lambda>x. case x of JStr _ \<Rightarrow> True | _ \<Rightarrow> False) (map JStr ss)" "map (\<lambda>x. case x of JStr s \<Rightarrow> s | _ \<Rightarrow> []) (map JStr ss) = ss"
  by (induction ss) auto

text \<open>The classes by their type name.\<close>

lemma block_from_dict_type:
  "json_get d (lit ''type'') = JStr (lit ''thinking'') \<Longrightarrow> block_from_dict bc (JObj d) = thinking_from_dict d"
  "json_get d (lit ''type'') = JStr (lit ''responses_reasoning'') \<Longrightarrow> block_from_dict bc (JObj d) = reasoning_from_dict d"
  "json_get d (lit ''type'') = JStr (lit ''web_search_call'') \<Longrightarrow> block_from_dict bc (JObj d) = search_from_dict d"
  "json_get d (lit ''type'') = JStr (lit ''tool_call'') \<Longrightarrow> block_from_dict bc (JObj d) = call_from_dict bc d"
  "json_get d (lit ''type'') = JStr (lit ''tool_result'') \<Longrightarrow> map_of d (lit ''content'') = Some (JStr s) \<Longrightarrow>
     block_from_dict bc (JObj d) = result_from_dict d (ResultText s)"
  "json_get d (lit ''type'') = JStr (lit ''tool_result'') \<Longrightarrow> map_of d (lit ''content'') = Some (JList xs) \<Longrightarrow>
     block_from_dict bc (JObj d) = rbind (blocks_from_dict bc xs) (\<lambda>bs. result_from_dict d (ResultBlocks bs))"
  by (simp_all add: block_from_dict.simps)

lemma thinking_roundtrip: "storable (ThinkingBlock t sg md) \<Longrightarrow> block_from_dict bc (block_to_dict bc (ThinkingBlock t sg md)) = Inr (ThinkingBlock t sg md)"
  by (auto simp: block_from_dict_type thinking_from_dict_def entry_simps split: option.splits)

lemma reasoning_roundtrip:
  "storable (ResponsesReasoningBlock enc summary item parts) \<Longrightarrow>
     block_from_dict bc (block_to_dict bc (ResponsesReasoningBlock enc summary item parts)) = Inr (ResponsesReasoningBlock enc summary item parts)"
  by (auto simp: block_from_dict_type reasoning_from_dict_def entry_simps strs_roundtrip list.pred_map list.pred_True comp_def split: option.splits)

lemma search_roundtrip:
  "storable (WebSearchCallBlock item status action item_type payload) \<Longrightarrow>
     block_from_dict bc (block_to_dict bc (WebSearchCallBlock item status action item_type payload)) =
       Inr (WebSearchCallBlock item status action item_type payload)"
  by (auto simp: block_from_dict_type search_from_dict_def entry_simps split: option.splits)

lemma call_roundtrip:
  "codec_ok bc \<Longrightarrow> storable (ToolCall i name input x kind sg) \<Longrightarrow>
     block_from_dict bc (block_to_dict bc (ToolCall i name input x kind sg)) = Inr (ToolCall i name input x kind sg)"
  by (auto simp: block_from_dict_type call_from_dict_def entry_simps codec_ok_def split: option.splits)

lemma result_fields_roundtrip:
  assumes "x \<noteq> Some []" "ek \<noteq> Some []" "d = [(lit ''type'', JStr (lit ''tool_result'')), (lit ''tool_use_id'', JStr i), (lit ''content'', v),
      (lit ''name'', JStr name), (lit ''is_error'', JBool err), (lit ''input_kind'', kind_value kind)] @
       truthy_entry ''execution_id'' x @ truthy_entry ''error_kind'' ek"
  shows "result_from_dict d content = Inr (ToolResult i content name err x kind ek)" "json_get d (lit ''type'') = JStr (lit ''tool_result'')"
    "map_of d (lit ''content'') = Some v"
proof -
  show "result_from_dict d content = Inr (ToolResult i content name err x kind ek)"
    using assms by (cases x; cases ek) (auto simp: result_from_dict_def entry_simps)
qed (simp_all add: assms json_get_def)

lemma block_roundtrip:
  "codec_ok bc \<Longrightarrow> storable b \<Longrightarrow> block_from_dict bc (block_to_dict bc b) = Inr b"
  "codec_ok bc \<Longrightarrow> all_storable bs \<Longrightarrow> blocks_from_dict bc (blocks_to_dict bc bs) = Inr bs"
proof (induction bc b and bc bs rule: block_to_dict_blocks_to_dict.induct)
  case (8 bc i content name err x kind ek)
  show ?case
  proof (cases content)
    case (ResultText s)
    show ?thesis using 8(3) result_fields_roundtrip[OF _ _ refl, of x ek i "JStr s" name err kind]
      by (simp add: ResultText block_from_dict_type(5) del: append.simps)
  next
    case (ResultBlocks bs)
    have "blocks_from_dict bc (blocks_to_dict bc bs) = Inr bs" using 8 ResultBlocks by simp
    then show ?thesis using 8(3) result_fields_roundtrip[OF _ _ refl, of x ek i "JList (blocks_to_dict bc bs)" name err kind]
      by (simp add: ResultBlocks block_from_dict_type(6) del: append.simps)
  qed
qed (simp_all add: thinking_roundtrip reasoning_roundtrip search_roundtrip call_roundtrip del: storable.simps block_to_dict.simps(3,5,6,7),
     simp_all add: block_from_dict.simps need_str_def json_get_def)

section \<open>Restoring a conversation\<close>

lemma observation_roundtrip:
  assumes "observation_ok ob" "cost_accepted decimal (uo_cost ob)"
  shows "observation_from_dict decimal (JObj (observation_to_dict ob)) = Some ob"
proof -
  let ?d = "observation_to_dict ob"
  have keys: "fst ` set ?d \<subseteq> set observation_keys" by (simp add: observation_to_dict_def observation_keys_def)
  have n: "nonneg (uo_input ob)" "nonneg (uo_output ob)" "nonneg (uo_total ob)" "nonneg (uo_cache_read ob)" "nonneg (uo_cache_write ob)"
      "nonneg (uo_reasoning ob)"
    using assms(1) by (simp_all add: observation_ok_def counts_nonneg_def)
  have get:
    "json_get ?d (lit ''provider'') = JStr (uo_provider ob)" "json_get ?d (lit ''model'') = opt_str (uo_model ob)"
    "json_get ?d (lit ''input_tokens'') = opt_int (uo_input ob)" "json_get ?d (lit ''output_tokens'') = opt_int (uo_output ob)"
    "json_get ?d (lit ''total_tokens'') = opt_int (uo_total ob)" "json_get ?d (lit ''cache_read_input_tokens'') = opt_int (uo_cache_read ob)"
    "json_get ?d (lit ''cache_write_input_tokens'') = opt_int (uo_cache_write ob)"
    "json_get ?d (lit ''reasoning_output_tokens'') = opt_int (uo_reasoning ob)"
    "map_of ?d (lit ''complete'') = Some (JBool (uo_complete ob))"
    "json_get ?d (lit ''cost'') = (case uo_cost ob of Some c \<Rightarrow> JObj c | None \<Rightarrow> JNull)"
    "map_of ?d (lit ''pricing_quantities'') = Some (JObj (uo_quantities ob))"
    "json_get ?d (lit ''unavailable_reason'') = opt_str (uo_reason ob)"
    by (simp_all add: observation_to_dict_def json_get_def)
  have cost: "(case case uo_cost ob of Some c \<Rightarrow> JObj c | None \<Rightarrow> JNull of JNull \<Rightarrow> Some None | JObj c \<Rightarrow> Some (Some c) | _ \<Rightarrow> None) = Some (uo_cost ob)"
    by (cases "uo_cost ob") simp_all
  have "observation_from_dict decimal (JObj ?d) = (case make_observation decimal ob of Inr ob \<Rightarrow> Some ob | Inl _ \<Rightarrow> None)"
    unfolding observation_from_dict_def json.case get by (cases ob) (use keys n cost in simp)
  then show ?thesis by (simp add: make_observation_accepts[OF assms])
qed

lemma usage_from_dict_JNull: "usage_from_dict JNull = None" "observation_from_dict decimal JNull = None"
  by (simp_all add: usage_from_dict_def observation_from_dict_def)

text \<open>A message as the program builds it: its calls are those of its blocks, its usage is accepted.\<close>

definition message_storable :: "block_codec \<Rightarrow> message \<Rightarrow> bool" where
  "message_storable bc m \<longleftrightarrow>
     all_storable (message_blocks m) \<and> ms_tool_calls m = filter is_tool_call (message_blocks m) \<and>
     (case ms_usage m of Some u \<Rightarrow> usage_ok u \<and> nu_provider u \<noteq> [] | None \<Rightarrow> True) \<and>
     (case ms_observation m of Some ob \<Rightarrow> observation_ok ob \<and> cost_accepted (bc_decimal bc) (uo_cost ob) | None \<Rightarrow> True)"

lemma message_roundtrip:
  assumes "codec_ok bc" "message_storable bc m"
  shows "message_from_dict bc (message_to_dict bc m) = Inr m"
proof -
  let ?d = "message_to_dict bc m"
  have get: "map_of ?d (lit ''content'') = Some (case ms_content m of MessageText s \<Rightarrow> JStr s | MessageBlocks bs \<Rightarrow> JList (blocks_to_dict bc bs))"
    "need_str ?d ''role'' = Inr (ms_role m)" "get_str ?d ''stop_reason'' = Inr (ms_stop m)" "get_dict ?d ''usage_metadata'' = Inr (ms_usage_metadata m)"
    "json_get ?d (lit ''usage'') = (case ms_usage m of Some u \<Rightarrow> JObj (usage_to_dict u) | None \<Rightarrow> JNull)"
    "json_get ?d (lit ''usage_observation'') = (case ms_observation m of Some ob \<Rightarrow> JObj (observation_to_dict ob) | None \<Rightarrow> JNull)"
    by (auto simp: message_to_dict_def entry_simps split: option.split)
  have usage: "usage_from_dict (case ms_usage m of Some u \<Rightarrow> JObj (usage_to_dict u) | None \<Rightarrow> JNull) = ms_usage m"
    using assms(2) usage_roundtrip by (cases "ms_usage m") (simp_all add: message_storable_def usage_from_dict_JNull)
  have ob: "observation_from_dict (bc_decimal bc) (case ms_observation m of Some ob \<Rightarrow> JObj (observation_to_dict ob) | None \<Rightarrow> JNull) = ms_observation m"
    using assms(2) observation_roundtrip by (cases "ms_observation m") (simp_all add: message_storable_def usage_from_dict_JNull)
  show ?thesis
  proof (cases "ms_content m")
    case (MessageText s)
    then show ?thesis using assms(2) unfolding message_from_dict_def get usage ob by (cases m) (simp add: message_storable_def message_blocks_def)
  next
    case (MessageBlocks bs)
    then have "blocks_from_dict bc (blocks_to_dict bc bs) = Inr bs"
      using assms by (intro block_roundtrip) (simp_all add: message_storable_def message_blocks_def)
    then show ?thesis using assms(2) MessageBlocks unfolding message_from_dict_def get usage ob
      by (cases m) (simp add: message_storable_def message_blocks_def)
  qed
qed

text \<open>
  C0: a saved conversation is restored as it was: reading the dictionaries that \<open>dump\<close> wrote gives every message back,
  nested results, signatures, usage and observations included, and only results over the size cap are replaced.
\<close>

theorem dumped_conversation_is_restored:
  assumes "codec_ok bc" "\<forall>m \<in> set (cv_history cv). message_storable bc m"
  shows "restore_conversation bc (dump_conversation bc cv) fresh =
    Inr (snd (sanitize_oversized_tool_results (set_history (cv_history cv) fresh)))"
proof -
  have "traverse (message_from_dict bc) (map (message_to_dict bc) (cv_history cv)) = Inr (map (\<lambda>m. m) (cv_history cv))"
    using assms message_roundtrip by (intro traverse_map) blast
  then show ?thesis by (simp add: restore_conversation_def dump_conversation_def)
qed

definition sample_codec :: block_codec where
  "sample_codec = \<lparr>bc_encode = (\<lambda>s. s), bc_decode = (\<lambda>s. s), bc_new_id = (\<lambda>_. []), bc_decimal = (\<lambda>_. None)\<rparr>"

theorem dumped_conversation_is_restored_witness:
  "restore_conversation sample_codec
     (dump_conversation sample_codec (new_conversation [user_message [TextBlock (lit ''go''), sample_result]] 100)) (new_conversation [] 100) =
   Inr (snd (sanitize_oversized_tool_results (set_history (cv_history (new_conversation [user_message [TextBlock (lit ''go''), sample_result]] 100))
     (new_conversation [] 100))))"
  by (rule dumped_conversation_is_restored)
    (simp_all add: codec_ok_def sample_codec_def message_storable_def sample_simps)

section \<open>The cap of a restored conversation\<close>

lemma sanitize_block_bound:
  "sanitize_block cap b = (b', n) \<Longrightarrow> is_tool_result b' \<Longrightarrow> tr_content b' = ResultText s \<Longrightarrow>
     length s \<le> cap \<or> (\<exists>len > cap. s = omitted_text len cap (tr_name b'))"
  by (induction cap b rule: sanitize_block.induct) (auto split: if_splits intro: exI not_le_imp_less)

end
