(* ===== verification/Spec2Isabelle.thy ===== *)
theory Spec2Isabelle
  imports XxHash Hashline Codex_Patch Permission_Gate Control_Channel Terminal_Buffer Lsp_Edits Usage Background_Laws Peer_Laws Request_Laws Message_Dict
begin

text \<open>
  A verification library for Kolega Code, an agentic coding assistant: a process runs sessions, a session runs
  agents, an agent calls a language model and executes the tools the model asks for. The library models the parts
  that decide what happens to the user's files, to the record of a session and to the messages between sessions.
  Paths are relative to \<open>src/kolega_code\<close>.

  \<^bold>\<open>How the parts interact.\<close> A tool call passes the permission gate (\<open>agent/baseagent.py\<close>), which asks the rules
  of the project (\<open>permissions.py\<close>) and then the session's callback (\<open>session/runtime.py\<close>); the callback opens a
  request on the control channel (\<open>session/control.py\<close>) that the client holding the lease answers. An allowed
  tool edits files (\<open>hashline_v2.py\<close>, \<open>codex_patch.py\<close>, \<open>services/lsp/edits.py\<close>) or runs a terminal whose
  output is bounded (\<open>services/terminal_buffer.py\<close>). Every message and result is recorded in the journal of the
  session (\<open>cli/session_journal.py\<close>), token counts are normalised (\<open>llm/usage.py\<close>, \<open>llm/accounting.py\<close>), and
  background jobs report through a durable mailbox (\<open>session/background.py\<close>) that the same journal backs.

  \<^bold>\<open>Theories.\<close>
  \<^item> \<open>Kolega_Prelude\<close>: text as code points, dynamic JSON values, the operations of Python's standard library that
    the modules call (splitting, stripping, replacing, UTF-8, decimal text), fallible operations (\<open>rbind\<close> for a
    pure result, \<open>obind\<close> for an operation whose effects an error does not undo), splices and their lemmas.
  \<^item> \<open>Transition_Systems\<close>: reachability, and the locales \<open>invariant_system\<close> and \<open>write_once_system\<close> by which the
    concurrent components prove their invariants; interpreted on the control channel, the shared journal and the
    background manager.
  \<^item> \<open>XxHash\<close> (\<open>agent/tool_backend/hashline_v2.py\<close>, \<open>_xxhash32\<close> and its helpers): the digest on Python's
    unbounded integers with its masks, and its equality with a reference on 32-bit words.
  \<^item> \<open>Hashline\<close> (rest of that file): anchors, parsing and validating edits, bottom-up application, removal of
    anchors; staleness blocks an edit, edits act on one snapshot, parsed edits trip no assertion, round trips. The
    locale \<open>anchor_hash\<close> is what the protocol needs of a hash, interpreted on \<open>compute_line_hash\<close>.
  \<^item> \<open>Codex_Patch\<close> (\<open>agent/tool_backend/codex_patch.py\<close>): parser and applier of the patch language; parsing
    inverts printing, matching is the strictest reading and leftmost, an update replaces exactly its regions.
  \<^item> \<open>Permissions\<close> (\<open>permissions.py\<close>, with the project-relative paths of requests) and \<open>Permission_Gate\<close>
    (\<open>permission_callback\<close> and wire forms of \<open>session/runtime.py\<close>, the gate of \<open>execute_single_tool\<close> in
    \<open>agent/baseagent.py\<close>): rules, shell words, the rule file in each state it can be found in, offered rules and the
    decision; what runs was allowed, what is saved was offered. The locale \<open>rule_store\<close> is interpreted on
    the rule file.
  \<^item> \<open>Control_Channel\<close> (\<open>session/control.py\<close>): lease, pending requests, settlement and answers as functions, and a
    step relation that interleaves any number of requests, cut at their awaits, with the client's operations.
  \<^item> \<open>Terminal_Buffer\<close> (\<open>services/terminal_buffer.py\<close>): head and tail of a stream, line caps, spill files,
    previews; independence of the chunking (locale \<open>stream_consumer\<close>), bounds, completeness of spilled output.
  \<^item> \<open>Lsp_Edits\<close> (\<open>services/lsp/edits.py\<close>): positions in UTF-16 units, text edits, parsing, planning, previewing
    and writing a workspace edit over a file system given as a record of functions.
  \<^item> \<open>Usage\<close> (\<open>llm/usage.py\<close>, \<open>llm/accounting.py\<close>): normalisation by provider family, observations, their
    validity and refinement, reported cost.
  \<^item> \<open>Session_Log\<close> (\<open>SessionEvent\<close> and \<open>SessionJournal\<close> in \<open>cli/session_journal.py\<close>): events as lines of a
    byte file, appends with every fault (of opening, writing, flushing, truncating), the lock between processes,
    renumbering; atomicity of appends and the invariant of a log shared by several processes.
  \<^item> \<open>Session_Artifacts\<close>, \<open>Session_Recorder\<close> and \<open>Recorder_Laws\<close> (the artifact store and \<open>SessionRecorder\<close> of the
    same file): externalised fields, turns, retained responses and tool results with retries, rewinds, recovery;
    a retried response is recorded once, a rewind removes exactly the later turns.
  \<^item> \<open>Background_Journal\<close>, \<open>Background_Jobs\<close> and \<open>Background_Laws\<close> (the recorder's background operations and
    \<open>BackgroundAgentManager\<close> of \<open>session/background.py\<close>): job rows, the manager's operations cut at their awaits,
    the step relation \<open>bg_step\<close>, a Hoare logic of what recorder operations append (\<open>logs\<close>), and the invariants
    of mailbox, journal and limits.

  \<^bold>\<open>Parameters.\<close> Code outside the repository is an argument of the definitions: the JSON codec (\<open>codec\<close>, with the law
  \<open>codec_law\<close> that encoding an event gives a line that decodes to it), SHA-256 and base64 (\<open>artifact_env\<close>), the
  text of floats and containers (\<open>repr\<close>), \<open>decimal\<close> reading, Unicode tables beyond ASCII (decimal digits, lower case)
  and the environment of the recorder (identifiers, clock, faults). A property that relies on a law has a witness on
  a concrete instance.

  \<^bold>\<open>Bounds and fuel.\<close> The functions are total: loops of the source are structural recursions or carry a
  \<open>termination\<close> proof with a measure on what is left of the input. The renderer of a terminal preview repeats at
  most six times, as the source does; the journal reads a tail window of 64 KiB, as the source does. Python's integers
  are \<open>int\<close>, unbounded; the digest is compared with \<open>32 word\<close>.

  \<^bold>\<open>Not modelled.\<close> Providers' HTTP clients and their catalogues, the terminal user interface, the command line, the
  gateway and browser processes, the sandbox, hooks and the bundled document tools are input and output around other
  people's code or tables of data; the agent loop is modelled only where it decides whether a tool runs; the local file
  system and the terminal processes appear as functions. In \<open>Usage\<close>, a modality called \<open>pricing_tier\<close> next to a
  \<open>pricing_tier_input_tokens\<close> that is no integer is outside the model. In \<open>Permissions\<close> the file of rules is
  replaced atomically or not at all, as \<open>os.replace\<close> does.
\<close>

end
